(* ===== verification/Prelude.thy ===== *)
theory Prelude
  imports Main "HOL-Library.List_Lexorder" "HOL-Library.Char_ord"
begin

text \<open>
  Shared vocabulary of the development: Go strings as byte lists with the operations of package
  \<open>strings\<close> the sources use, instants of \<open>time.Time\<close>, string sets, and generic
  lemmas the components share.

  A Go string is a sequence of bytes, so \<^typ>\<open>string\<close> (a \<^typ>\<open>char list\<close>, one
  \<^typ>\<open>char\<close> per byte) is its exact carrier; the byte-wise order of Go's \<open><\<close>
  is the lexicographic order of \<open>HOL-Library.List_Lexorder\<close> over \<open>Char_ord\<close>.
\<close>

named_theorems gostr_simps \<open>evaluation of the Go string operations on concrete strings\<close>
named_theorems keeps_calls \<open>case analysis of results under a database invariant\<close>
named_theorems keeps_intros \<open>composition rules for database invariants\<close>

section \<open>Go strings\<close>

definition has_prefix :: "string \<Rightarrow> string \<Rightarrow> bool" where
  "has_prefix s p \<longleftrightarrow> take (length p) s = p"

definition has_suffix :: "string \<Rightarrow> string \<Rightarrow> bool" where
  "has_suffix s p \<longleftrightarrow> length p \<le> length s \<and> drop (length s - length p) s = p"

text \<open>\<open>strings.CutPrefix\<close> and \<open>strings.CutSuffix\<close>: the remainder, and whether the affix was there.\<close>

definition cut_prefix :: "string \<Rightarrow> string \<Rightarrow> string \<times> bool" where
  "cut_prefix s p = (if has_prefix s p then (drop (length p) s, True) else (s, False))"

definition cut_suffix :: "string \<Rightarrow> string \<Rightarrow> string \<times> bool" where
  "cut_suffix s p = (if has_suffix s p then (take (length s - length p) s, True) else (s, False))"

definition trim_suffix :: "string \<Rightarrow> string \<Rightarrow> string" where
  "trim_suffix s p = fst (cut_suffix s p)"

definition trim_prefix :: "string \<Rightarrow> string \<Rightarrow> string" where
  "trim_prefix s p = fst (cut_prefix s p)"

text \<open>\<open>strings.Contains\<close>: some suffix of the string starts with the pattern.\<close>

fun str_contains :: "string \<Rightarrow> string \<Rightarrow> bool" where
  "str_contains [] p = (p = [])"
| "str_contains (c # s) p = (has_prefix (c # s) p \<or> str_contains s p)"

text \<open>\<open>strings.Cut\<close>: the text before and after the first separator.\<close>

fun str_cut :: "string \<Rightarrow> string \<Rightarrow> string \<times> string \<times> bool" where
  "str_cut [] sep = (if sep = [] then ([], [], True) else ([], [], False))"
| "str_cut (c # s) sep =
     (if has_prefix (c # s) sep then ([], drop (length sep) (c # s), True)
      else (case str_cut s sep of (b, a, ok) \<Rightarrow> (c # b, a, ok)))"

text \<open>
  \<open>strings.TrimSpace\<close>: the white space of \<open>unicode.IsSpace\<close>, as UTF-8 byte sequences.
  A leading (trailing) byte sequence of this list is exactly a leading (trailing) rune that
  \<open>utf8.DecodeRune\<close> (\<open>utf8.DecodeLastRune\<close>) reads as that space.
\<close>

definition space_seqs :: "string list" where
  "space_seqs =
     [[CHR 0x09], [CHR 0x0A], [CHR 0x0B], [CHR 0x0C], [CHR 0x0D], [CHR 0x20],
      [CHR 0xC2, CHR 0x85], [CHR 0xC2, CHR 0xA0], [CHR 0xE1, CHR 0x9A, CHR 0x80],
      [CHR 0xE2, CHR 0x80, CHR 0x80], [CHR 0xE2, CHR 0x80, CHR 0x81],
      [CHR 0xE2, CHR 0x80, CHR 0x82], [CHR 0xE2, CHR 0x80, CHR 0x83],
      [CHR 0xE2, CHR 0x80, CHR 0x84], [CHR 0xE2, CHR 0x80, CHR 0x85],
      [CHR 0xE2, CHR 0x80, CHR 0x86], [CHR 0xE2, CHR 0x80, CHR 0x87],
      [CHR 0xE2, CHR 0x80, CHR 0x88], [CHR 0xE2, CHR 0x80, CHR 0x89],
      [CHR 0xE2, CHR 0x80, CHR 0x8A], [CHR 0xE2, CHR 0x80, CHR 0xA8],
      [CHR 0xE2, CHR 0x80, CHR 0xA9], [CHR 0xE2, CHR 0x80, CHR 0xAF],
      [CHR 0xE2, CHR 0x81, CHR 0x9F], [CHR 0xE3, CHR 0x80, CHR 0x80]]"

definition leading_space :: "string \<Rightarrow> string option" where
  "leading_space s = find (has_prefix s) space_seqs"

definition trailing_space :: "string \<Rightarrow> string option" where
  "trailing_space s = find (has_suffix s) space_seqs"

lemma space_seqs_nonempty: "p \<in> set space_seqs \<Longrightarrow> p \<noteq> []"
  by (auto simp: space_seqs_def)

lemma leading_space_shorter: "leading_space s = Some p \<Longrightarrow> length (drop (length p) s) < length s"
  unfolding leading_space_def
proof -
  assume "find (has_prefix s) space_seqs = Some p"
  then have p: "p \<in> set space_seqs" and hp: "has_prefix s p"
    by (auto simp: find_Some_iff in_set_conv_nth)
  then have "p \<noteq> []" using space_seqs_nonempty by blast
  moreover from this hp have "s \<noteq> []" by (auto simp: has_prefix_def)
  ultimately show ?thesis by (cases s; cases p) auto
qed

lemma trailing_space_shorter:
  "trailing_space s = Some p \<Longrightarrow> length (take (length s - length p) s) < length s"
  unfolding trailing_space_def
proof -
  assume "find (has_suffix s) space_seqs = Some p"
  then have p: "p \<in> set space_seqs" and hp: "has_suffix s p"
    by (auto simp: find_Some_iff in_set_conv_nth)
  then have "0 < length p" "length p \<le> length s"
    using space_seqs_nonempty by (auto simp: has_suffix_def)
  then show ?thesis by (cases p) auto
qed

function trim_left :: "string \<Rightarrow> string" where
  "trim_left s = (case leading_space s of None \<Rightarrow> s | Some p \<Rightarrow> trim_left (drop (length p) s))"
  by pat_completeness auto
termination
  by (relation "measure length") (auto simp: leading_space_shorter simp del: length_drop)

function trim_right :: "string \<Rightarrow> string" where
  "trim_right s =
     (case trailing_space s of None \<Rightarrow> s | Some p \<Rightarrow> trim_right (take (length s - length p) s))"
  by pat_completeness auto
termination
  by (relation "measure length") (auto simp: trailing_space_shorter simp del: length_take)

declare trim_left.simps [simp del] trim_right.simps [simp del]

definition trim_space :: "string \<Rightarrow> string" where
  "trim_space s = trim_right (trim_left s)"

text \<open>
  \<open>strings.ToLower\<close>: ASCII letters, and the two code points outside ASCII whose lower case is an
  ASCII letter (U+0130 and the Kelvin sign U+212A). Every other code point lowers to a code point
  outside ASCII and is kept: the sources compare lowered text with ASCII words only.
\<close>

definition lower_char :: "char \<Rightarrow> char" where
  "lower_char c = (let n = (of_char c :: nat) in if 65 \<le> n \<and> n \<le> 90 then char_of (n + 32) else c)"

function to_lower :: "string \<Rightarrow> string" where
  "to_lower s =
     (if s = [] then []
      else if has_prefix s [CHR 0xC4, CHR 0xB0] then CHR ''i'' # to_lower (drop 2 s)
      else if has_prefix s [CHR 0xE2, CHR 0x84, CHR 0xAA] then CHR ''k'' # to_lower (drop 3 s)
      else lower_char (hd s) # to_lower (tl s))"
  by pat_completeness auto
termination
  by (relation "measure length") auto

declare to_lower.simps [simp del]

definition is_digit :: "char \<Rightarrow> bool" where
  "is_digit c \<longleftrightarrow> CHR ''0'' \<le> c \<and> c \<le> CHR ''9''"

lemmas str_defs [gostr_simps] =
  has_prefix_def has_suffix_def cut_prefix_def cut_suffix_def trim_suffix_def trim_prefix_def

lemma has_prefix_append [simp]: "has_prefix (p @ s) p"
  by (simp add: has_prefix_def)

lemma cut_prefix_append [simp]: "cut_prefix (p @ s) p = (s, True)"
  by (simp add: cut_prefix_def has_prefix_def)

lemma cut_suffix_append [simp]: "cut_suffix (s @ p) p = (s, True)"
  by (simp add: cut_suffix_def has_suffix_def)

lemma has_prefix_iff: "has_prefix s p \<longleftrightarrow> (\<exists>t. s = p @ t)"
  unfolding has_prefix_def by (metis append_eq_conv_conj append_take_drop_id)

lemma has_suffix_iff: "has_suffix s p \<longleftrightarrow> (\<exists>t. s = t @ p)"
proof
  assume "has_suffix s p"
  then have "s = take (length s - length p) s @ p"
    unfolding has_suffix_def by (metis append_take_drop_id)
  then show "\<exists>t. s = t @ p" ..
qed (auto simp: has_suffix_def)

section \<open>Instants\<close>

text \<open>
  \<open>time.Time\<close> is an integer count of nanoseconds from the zero \<open>Time\<close> (0001-01-01 UTC):
  \<open>IsZero\<close> is \<open>t = 0\<close>, \<open>Before\<close>/\<open>After\<close> are \<open><\<close>/\<open>>\<close>, \<open>Add\<close> is
  \<open>+\<close>. Durations are nanosecond counts too.
\<close>

type_synonym instant = int
type_synonym duration = int

abbreviation is_zero_time :: "instant \<Rightarrow> bool" where
  "is_zero_time t \<equiv> t = 0"

definition hour_ns :: duration where
  "hour_ns = 3600 * 1000000000"

end
