(* ===== verification/GoErrors.thy ===== *)
theory GoErrors
  imports Prelude
begin

text \<open>
  Go error values. The constructors are the sentinels and wrappers the modelled sources build or
  inspect; \<open>err_is\<close> is \<open>errors.Is\<close> for sentinel targets, \<open>err_msg\<close> is
  \<open>Error()\<close>, \<open>err_net\<close> and \<open>err_rest\<close> are the \<open>errors.As\<close> searches. A nil error is
  \<open>None\<close> of \<open>go_error option\<close>.
\<close>

text \<open>\<open>FailureRef\<close> (internal/store/failures.go): the identity of a failure ledger row.\<close>

record failure_ref =
  rOperation :: string
  rSource :: string
  rGuildID :: string
  rChannelID :: string
  rMessageID :: string
  rRelatedKind :: string
  rRelatedID :: string

datatype go_error =
    ErrText string                               \<comment> \<open>\<open>errors.New\<close>, driver and transport errors\<close>
  | ErrCanceled                                  \<comment> \<open>\<open>context.Canceled\<close>\<close>
  | ErrDeadline                                  \<comment> \<open>\<open>context.DeadlineExceeded\<close>\<close>
  | ErrCollectionScope                           \<comment> \<open>\<open>store.ErrCollectionScope\<close>\<close>
  | ErrHistoryPermissionDenied                   \<comment> \<open>\<open>errHistoryPermissionDenied\<close>\<close>
  | ErrNet bool string                           \<comment> \<open>a \<open>net.Error\<close>: \<open>Timeout()\<close> and its text\<close>
  | ErrREST nat nat string                       \<comment> \<open>\<open>discordgo.RESTError\<close>: HTTP status, code, text\<close>
  | ErrRow failure_ref string go_error           \<comment> \<open>\<open>store.RowWriteError\<close>: reference, text, cause\<close>
  | ErrWrap string go_error string               \<comment> \<open>\<open>fmt.Errorf\<close> with one \<open>%w\<close>\<close>
  | ErrWrap2 string go_error string go_error string
  | ErrJoin "go_error list"                      \<comment> \<open>\<open>errors.Join\<close>\<close>

fun join_lines :: "string list \<Rightarrow> string" where
  "join_lines [] = []"
| "join_lines [s] = s"
| "join_lines (s # t # ss) = s @ CHR 0x0A # join_lines (t # ss)"

fun err_msg :: "go_error \<Rightarrow> string" where
  "err_msg (ErrText s) = s"
| "err_msg ErrCanceled = ''context canceled''"
| "err_msg ErrDeadline = ''context deadline exceeded''"
| "err_msg ErrCollectionScope = ''message collection scope is not allowed''"
| "err_msg ErrHistoryPermissionDenied = ''required history permissions are denied''"
| "err_msg (ErrNet t s) = s"
| "err_msg (ErrREST st c s) = s"
| "err_msg (ErrRow r s e) = s @ err_msg e"
| "err_msg (ErrWrap p e q) = p @ err_msg e @ q"
| "err_msg (ErrWrap2 p e q f r) = p @ err_msg e @ q @ err_msg f @ r"
| "err_msg (ErrJoin es) = join_lines (map err_msg es)"

fun err_is :: "go_error \<Rightarrow> go_error \<Rightarrow> bool" where
  "err_is (ErrRow r s e) t = err_is e t"
| "err_is (ErrWrap p e q) t = err_is e t"
| "err_is (ErrWrap2 p e q f r) t = (err_is e t \<or> err_is f t)"
| "err_is (ErrJoin es) t = (\<exists>e \<in> set es. err_is e t)"
| "err_is e t = (e = t)"

text \<open>
  \<open>errors.As\<close> for \<open>net.Error\<close>: the first match of a pre-order walk and its \<open>Timeout()\<close>.
  The deadline sentinel of package \<open>context\<close> implements the interface.
\<close>

fun first_some :: "'a option list \<Rightarrow> 'a option" where
  "first_some [] = None"
| "first_some (Some x # xs) = Some x"
| "first_some (None # xs) = first_some xs"

fun err_net :: "go_error \<Rightarrow> bool option" where
  "err_net ErrDeadline = Some True"
| "err_net (ErrNet t s) = Some t"
| "err_net (ErrRow r s e) = err_net e"
| "err_net (ErrWrap p e q) = err_net e"
| "err_net (ErrWrap2 p e q f r) = first_some [err_net e, err_net f]"
| "err_net (ErrJoin es) = first_some (map err_net es)"
| "err_net e = None"

fun err_rest :: "go_error \<Rightarrow> (nat \<times> nat) option" where
  "err_rest (ErrREST st c s) = Some (st, c)"
| "err_rest (ErrRow r s e) = err_rest e"
| "err_rest (ErrWrap p e q) = err_rest e"
| "err_rest (ErrWrap2 p e q f r) = first_some [err_rest e, err_rest f]"
| "err_rest (ErrJoin es) = first_some (map err_rest es)"
| "err_rest e = None"

text \<open>\<open>errors.As\<close> for \<open>*RowWriteError\<close>.\<close>

fun err_row :: "go_error \<Rightarrow> failure_ref option" where
  "err_row (ErrRow r s e) = Some r"
| "err_row (ErrWrap p e q) = err_row e"
| "err_row (ErrWrap2 p e q f r) = first_some [err_row e, err_row f]"
| "err_row (ErrJoin es) = first_some (map err_row es)"
| "err_row e = None"

text \<open>\<open>errors.Join\<close> drops nil operands and is nil when nothing is left.\<close>

definition err_join :: "go_error option list \<Rightarrow> go_error option" where
  "err_join es = (case List.map_filter id es of [] \<Rightarrow> None | fs \<Rightarrow> Some (ErrJoin fs))"

lemma err_join_head: "\<exists>e. err_join (Some f # es) = Some e \<and> (\<forall>t. err_is f t \<longrightarrow> err_is e t)"
  by (auto simp: err_join_def map_filter_simps)

lemma err_join_nil [simp]: "err_join [None] = None" "err_join [] = None"
  by (simp_all add: err_join_def map_filter_simps)

end
