(* ===== verification/Discord.thy ===== *)
theory Discord
  imports GoErrors
begin

text \<open>
  The values the Discord client returns, as the modelled sources read them: channels
  (\<open>discordgo.Channel\<close>), messages (\<open>discordgo.Message\<close>), members and guilds. The client itself is not part of
  the repository's logic: its answers are parameters of the model.
\<close>

record thread_meta =
  tmArchived :: bool
  tmLocked :: bool
  tmArchiveTimestamp :: instant

record dchannel =
  cID :: string
  cGuildID :: string
  cParentID :: string
  cName :: string
  cTopic :: string
  cPosition :: int
  cNSFW :: bool
  cType :: int
  cLastMessageID :: string
  cThreadMetadata :: "thread_meta option"
  cHasOverwrites :: bool

record dauthor =
  aID :: string
  aGlobalName :: string
  aUsername :: string

text \<open>
  A message. \<open>gEdited\<close> is 0 when there is no edit timestamp; \<open>gRaw\<close> is the JSON text
  \<open>marshalMessageJSON\<close> gives for the message, \<open>gAttachments\<close> the number of attachments.
\<close>

record dmessage =
  gID :: string
  gChannelID :: string
  gGuildID :: string
  gAuthor :: "dauthor option"
  gType :: int
  gTimestamp :: instant
  gEdited :: instant
  gContent :: string
  gReference :: string
  gPinned :: bool
  gAttachments :: nat
  gRaw :: string

text \<open>
  A guild member and a guild. \<open>umJoinedAt\<close> is the \<open>RFC3339Nano\<close> text of the join time;
  \<open>umRolesJSON\<close>, \<open>umRaw\<close> and \<open>dgRaw\<close> are the JSON texts \<open>marshalJSONString\<close> gives.
\<close>

record duser =
  uID :: string
  uUsername :: string
  uGlobalName :: string
  uDiscriminator :: string
  uBot :: bool

record dmember =
  umGuildID :: string
  umUser :: "duser option"
  umNick :: string
  umAvatar :: string
  umJoinedAt :: string
  umRolesJSON :: string
  umRaw :: string

record dguild =
  dgID :: string
  dgName :: string
  dgIcon :: string
  dgUnavailable :: bool
  dgChannels :: "dchannel option list"
  dgThreads :: "dchannel option list"
  dgRaw :: string

section \<open>Channel types of the Discord API\<close>

definition ChannelTypeGuildText :: int where "ChannelTypeGuildText = 0"
definition ChannelTypeGuildVoice :: int where "ChannelTypeGuildVoice = 2"
definition ChannelTypeGuildCategory :: int where "ChannelTypeGuildCategory = 4"
definition ChannelTypeGuildNews :: int where "ChannelTypeGuildNews = 5"
definition ChannelTypeGuildNewsThread :: int where "ChannelTypeGuildNewsThread = 10"
definition ChannelTypeGuildPublicThread :: int where "ChannelTypeGuildPublicThread = 11"
definition ChannelTypeGuildPrivateThread :: int where "ChannelTypeGuildPrivateThread = 12"
definition ChannelTypeGuildStageVoice :: int where "ChannelTypeGuildStageVoice = 13"
definition ChannelTypeGuildForum :: int where "ChannelTypeGuildForum = 15"

lemmas channel_type_defs =
  ChannelTypeGuildText_def ChannelTypeGuildVoice_def ChannelTypeGuildCategory_def
  ChannelTypeGuildNews_def ChannelTypeGuildNewsThread_def ChannelTypeGuildPublicThread_def
  ChannelTypeGuildPrivateThread_def ChannelTypeGuildStageVoice_def ChannelTypeGuildForum_def

end
