(* ===== verification/Json.thy ===== *)
theory Json
  imports Prelude
begin

text \<open>
  JSON values as \<open>encoding/json\<close> gives them to the modelled sources: the value tree
  \<open>decoder.UseNumber\<close> produces, and the rules by which a struct field takes its value from an
  object (names match up to case folding, \<open>null\<close> leaves a string untouched, a value of another
  type is an error). The byte-level reader is a parameter \<open>dec\<close> of the definitions that use it:
  the first JSON value of a text, \<open>None\<close> where the reader reports an error.
\<close>

datatype json = JNull | JBool bool | JNum string | JStr string | JArr "json list"
  | JObj "(string \<times> json) list"

type_synonym json_reader = "string \<Rightarrow> json option"

text \<open>Key folding of \<open>encoding/json\<close>: ASCII case, the Kelvin sign and the long s.\<close>

function fold_key :: "string \<Rightarrow> string" where
  "fold_key s =
     (if s = [] then []
      else if has_prefix s [CHR 0xC5, CHR 0xBF] then CHR ''s'' # fold_key (drop 2 s)
      else if has_prefix s [CHR 0xE2, CHR 0x84, CHR 0xAA] then CHR ''k'' # fold_key (drop 3 s)
      else lower_char (hd s) # fold_key (tl s))"
  by pat_completeness auto
termination
  by (relation "measure length") auto

declare fold_key.simps [simp del]

definition key_values :: "string \<Rightarrow> (string \<times> json) list \<Rightarrow> json list" where
  "key_values name obj = map snd (filter (\<lambda>(k, v). fold_key k = fold_key name) obj)"

text \<open>A field of type \<open>string\<close>: \<open>None\<close> is a type error.\<close>

fun dec_string :: "json list \<Rightarrow> string \<Rightarrow> string option" where
  "dec_string [] acc = Some acc"
| "dec_string (JStr s # vs) acc = dec_string vs s"
| "dec_string (JNull # vs) acc = dec_string vs acc"
| "dec_string (v # vs) acc = None"

text \<open>A field of type \<open>any\<close>: the last value, nil (\<open>JNull\<close>) when there is none.\<close>

definition dec_any :: "json list \<Rightarrow> json" where
  "dec_any vs = (if vs = [] then JNull else last vs)"

text \<open>All elements of a decoded array, or an error.\<close>

fun dec_all :: "('a \<Rightarrow> 'b option) \<Rightarrow> 'a list \<Rightarrow> 'b list option" where
  "dec_all f [] = Some []"
| "dec_all f (x # xs) =
     (case f x of None \<Rightarrow> None
      | Some y \<Rightarrow> (case dec_all f xs of None \<Rightarrow> None | Some ys \<Rightarrow> Some (y # ys)))"

text \<open>A slice of structs: outer \<open>None\<close> is an error, inner \<open>None\<close> the nil slice.\<close>

fun dec_slice :: "(json \<Rightarrow> 'a option) \<Rightarrow> json list \<Rightarrow> 'a list option \<Rightarrow> 'a list option option" where
  "dec_slice f [] acc = Some acc"
| "dec_slice f (JNull # vs) acc = dec_slice f vs None"
| "dec_slice f (JArr xs # vs) acc =
     (case dec_all f xs of None \<Rightarrow> None | Some ys \<Rightarrow> dec_slice f vs (Some ys))"
| "dec_slice f (v # vs) acc = None"

text \<open>The fields of the object a struct is decoded from; \<open>null\<close> decodes to the zero struct.\<close>

fun dec_fields :: "json \<Rightarrow> (string \<times> json) list option" where
  "dec_fields (JObj obj) = Some obj"
| "dec_fields JNull = Some []"
| "dec_fields v = None"

lemma dec_all_length: "dec_all f xs = Some ys \<Longrightarrow> length ys = length xs"
  by (induction xs arbitrary: ys) (auto split: option.splits)

lemma dec_all_set: "dec_all f xs = Some ys \<Longrightarrow> y \<in> set ys \<Longrightarrow> \<exists>x \<in> set xs. f x = Some y"
  by (induction xs arbitrary: ys) (auto split: option.splits)

text \<open>
  \<open>json.Marshal\<close> of a string: quotes, with the escapes Go writes for ASCII; a byte outside ASCII is
  copied.
\<close>

definition hex_digit :: "nat \<Rightarrow> char" where
  "hex_digit n = (if n < 10 then char_of (48 + n) else char_of (87 + n))"

definition json_escape :: "char \<Rightarrow> string" where
  "json_escape c =
     (let n = (of_char c :: nat) in
      if n = 0x22 then [CHR 0x5C, CHR 0x22]
      else if n = 0x5C then [CHR 0x5C, CHR 0x5C]
      else if n = 0x08 then [CHR 0x5C, CHR ''b'']
      else if n = 0x0C then [CHR 0x5C, CHR ''f'']
      else if n = 0x0A then [CHR 0x5C, CHR ''n'']
      else if n = 0x0D then [CHR 0x5C, CHR ''r'']
      else if n = 0x09 then [CHR 0x5C, CHR ''t'']
      else if n < 0x20 \<or> n = 0x3C \<or> n = 0x3E \<or> n = 0x26
        then [CHR 0x5C, CHR ''u'', CHR ''0'', CHR ''0'', hex_digit (n div 16), hex_digit (n mod 16)]
      else [c])"

definition json_quote :: "string \<Rightarrow> string" where
  "json_quote s = CHR 0x22 # concat (map json_escape s) @ [CHR 0x22]"

text \<open>An object of string members, in the given order.\<close>

fun json_members :: "(string \<times> string) list \<Rightarrow> string" where
  "json_members [] = []"
| "json_members [(k, v)] = json_quote k @ CHR '':'' # json_quote v"
| "json_members ((k, v) # m # ms) = json_quote k @ CHR '':'' # json_quote v @ CHR '','' # json_members (m # ms)"

definition json_object :: "(string \<times> string) list \<Rightarrow> string" where
  "json_object ms = CHR 0x7B # json_members ms @ [CHR 0x7D]"

end
