(* ===== verification/Snowflake.thy ===== *)
theory Snowflake
  imports Prelude
begin

text \<open>
  Discord snowflake identifiers: \<open>maxSnowflake\<close> of internal/syncer/records.go and
  \<open>isCanonicalDecimalSnowflake\<close> of internal/store/write.go, with \<open>strconv.ParseUint\<close> they rest
  on. The main results: on canonical decimal texts the order the SQL guard uses (length, then
  bytes) is the numeric order, and \<open>maxSnowflake\<close> is a maximum of that order.
\<close>

section \<open>Parsing\<close>

definition digit_val :: "char \<Rightarrow> nat" where
  "digit_val c = of_char c - 48"

definition dec_val :: "string \<Rightarrow> nat" where
  "dec_val s = foldl (\<lambda>n c. 10 * n + digit_val c) 0 s"

text \<open>\<open>strconv.ParseUint(s, 10, 64)\<close>: decimal digits only, a value below \<open>2 ^ 64\<close>.\<close>

definition parse_uint64 :: "string \<Rightarrow> nat option" where
  "parse_uint64 s =
     (if s \<noteq> [] \<and> list_all is_digit s \<and> dec_val s < 2 ^ 64 then Some (dec_val s) else None)"

definition maxSnowflake :: "string \<Rightarrow> string \<Rightarrow> string" where
  "maxSnowflake current candidate =
     (if current = [] then candidate
      else if candidate = [] then current
      else case (parse_uint64 current, parse_uint64 candidate) of
        (Some a, Some b) \<Rightarrow> (if b > a then candidate else current)
      | _ \<Rightarrow> (if candidate > current then candidate else current))"

definition isCanonicalDecimalSnowflake :: "string \<Rightarrow> bool" where
  "isCanonicalDecimalSnowflake value \<longleftrightarrow>
     value \<noteq> [] \<and> \<not> (length value > 1 \<and> hd value = CHR ''0'') \<and> list_all is_digit value"

text \<open>
  The order of the conflict guard in \<open>AdvanceChannelLatestMessageID\<close>: a longer text is greater,
  texts of one length compare byte-wise.
\<close>

definition id_less :: "string \<Rightarrow> string \<Rightarrow> bool" where
  "id_less a b \<longleftrightarrow> length b > length a \<or> (length b = length a \<and> b > a)"

section \<open>Numeric meaning\<close>

lemma dec_val_snoc: "dec_val (s @ [c]) = 10 * dec_val s + digit_val c"
  by (simp add: dec_val_def)

lemma dec_val_Nil [simp]: "dec_val [] = 0"
  by (simp add: dec_val_def)

lemma foldl_dec: "foldl (\<lambda>n c. 10 * n + digit_val c) a s = a * 10 ^ length s + dec_val s"
proof (induction s rule: rev_induct)
  case Nil
  show ?case by simp
next
  case (snoc c s)
  then show ?case by (simp add: dec_val_snoc algebra_simps)
qed

lemma dec_val_Cons: "dec_val (c # s) = digit_val c * 10 ^ length s + dec_val s"
  using foldl_dec [of "digit_val c" s] by (simp add: dec_val_def)

lemma digit_val_le: "is_digit c \<Longrightarrow> digit_val c \<le> 9"
  by (auto simp: is_digit_def digit_val_def less_eq_char_def)

lemma digit_val_mono: "is_digit c \<Longrightarrow> is_digit d \<Longrightarrow> c < d \<Longrightarrow> digit_val c < digit_val d"
  by (auto simp: is_digit_def digit_val_def less_eq_char_def less_char_def)

lemma digit_val_pos: "is_digit c \<Longrightarrow> c \<noteq> CHR ''0'' \<Longrightarrow> 0 < digit_val c"
proof -
  assume c: "is_digit c" "c \<noteq> CHR ''0''"
  then have "CHR ''0'' < c" by (auto simp: is_digit_def)
  then have "digit_val (CHR ''0'') < digit_val c"
    using c by (intro digit_val_mono) (auto simp: is_digit_def less_eq_char_def)
  then show ?thesis by simp
qed

lemma dec_val_less: "list_all is_digit s \<Longrightarrow> dec_val s < 10 ^ length s"
proof (induction s)
  case Nil
  then show ?case by simp
next
  case (Cons c s)
  then have "digit_val c \<le> 9" and IH: "dec_val s < 10 ^ length s"
    by (auto intro: digit_val_le)
  then have "digit_val c * 10 ^ length s \<le> 9 * 10 ^ length s" by simp
  with IH have "digit_val c * 10 ^ length s + dec_val s < 9 * 10 ^ length s + 10 ^ length s"
    by linarith
  then show ?case by (simp add: dec_val_Cons)
qed

lemma dec_val_lex:
  "length a = length b \<Longrightarrow> list_all is_digit a \<Longrightarrow> list_all is_digit b \<Longrightarrow> a < b \<Longrightarrow>
     dec_val a < dec_val b"
proof (induction a b rule: list_induct2)
  case Nil
  then show ?case by simp
next
  case (Cons c s d t)
  show ?case
  proof (cases "c = d")
    case True
    with Cons show ?thesis by (simp add: dec_val_Cons)
  next
    case False
    with Cons.prems have "digit_val c < digit_val d"
      by (auto intro: digit_val_mono)
    then have "Suc (digit_val c) * 10 ^ length s \<le> digit_val d * 10 ^ length s"
      by (intro mult_le_mono1) simp
    moreover have "dec_val s < 10 ^ length s" using Cons.prems by (auto intro: dec_val_less)
    ultimately show ?thesis using Cons.hyps by (simp add: dec_val_Cons)
  qed
qed

lemma canonical_digits: "isCanonicalDecimalSnowflake s \<Longrightarrow> list_all is_digit s"
  by (simp add: isCanonicalDecimalSnowflake_def)

lemma canonical_nonempty: "isCanonicalDecimalSnowflake s \<Longrightarrow> s \<noteq> []"
  by (simp add: isCanonicalDecimalSnowflake_def)

lemma canonical_lower_bound:
  "isCanonicalDecimalSnowflake s \<Longrightarrow> length s > 1 \<Longrightarrow> 10 ^ (length s - 1) \<le> dec_val s"
proof (cases s)
  case Nil
  then show "length s > 1 \<Longrightarrow> ?thesis" by simp
next
  case (Cons c t)
  assume c: "isCanonicalDecimalSnowflake s" "length s > 1"
  with Cons have "is_digit c" "c \<noteq> CHR ''0''" by (auto simp: isCanonicalDecimalSnowflake_def)
  then have "1 * 10 ^ length t \<le> digit_val c * 10 ^ length t"
    by (intro mult_le_mono1) (use digit_val_pos in fastforce)
  then have "10 ^ length t \<le> digit_val c * 10 ^ length t + dec_val t" by linarith
  then show ?thesis using Cons by (simp add: dec_val_Cons)
qed

lemma canonical_longer:
  assumes "isCanonicalDecimalSnowflake a" "isCanonicalDecimalSnowflake b" "length a < length b"
  shows "dec_val a < dec_val b"
proof -
  have "dec_val a < 10 ^ length a" using assms(1) by (auto intro: dec_val_less canonical_digits)
  also have "(10::nat) ^ length a \<le> 10 ^ (length b - 1)"
    using assms(3) by (intro power_increasing) auto
  also have "\<dots> \<le> dec_val b"
    using assms canonical_nonempty [of a]
    by (intro canonical_lower_bound) (cases a; auto)+
  finally show ?thesis .
qed

text \<open>The order of the SQL guard is the numeric order on canonical decimals.\<close>

lemma id_less_numeric:
  assumes a: "isCanonicalDecimalSnowflake a" and b: "isCanonicalDecimalSnowflake b"
  shows "id_less a b \<longleftrightarrow> dec_val a < dec_val b"
proof
  assume "id_less a b"
  then show "dec_val a < dec_val b"
    using canonical_longer [OF a b] dec_val_lex [of a b] canonical_digits [OF a]
      canonical_digits [OF b] by (auto simp: id_less_def)
next
  assume lt: "dec_val a < dec_val b"
  show "id_less a b"
  proof (rule ccontr)
    assume "\<not> id_less a b"
    then consider "length b < length a" | "length a = length b" "b \<le> a"
      unfolding id_less_def by (metis linorder_neqE_nat not_le)
    then show False
    proof cases
      case 1
      from canonical_longer [OF b a 1] lt show False by simp
    next
      case 2
      then have "b < a \<or> a = b" by auto
      then show False
        using dec_val_lex [of b a] 2 lt canonical_digits [OF a] canonical_digits [OF b] by auto
    qed
  qed
qed

lemma canonical_inject:
  assumes a: "isCanonicalDecimalSnowflake a" and b: "isCanonicalDecimalSnowflake b"
    and eq: "dec_val a = dec_val b"
  shows "a = b"
proof -
  have "\<not> id_less a b" "\<not> id_less b a"
    using eq by (auto simp: id_less_numeric [OF a b] id_less_numeric [OF b a])
  then show ?thesis by (auto simp: id_less_def)
qed

section \<open>Printing\<close>

text \<open>\<open>strconv.Itoa\<close> on a non-negative number.\<close>

fun show_nat :: "nat \<Rightarrow> string" where
  "show_nat n = (if n < 10 then [char_of (48 + n)] else show_nat (n div 10) @ [char_of (48 + n mod 10)])"

declare show_nat.simps [simp del]

definition show_int :: "int \<Rightarrow> string" where
  "show_int i = (if i < 0 then CHR ''-'' # show_nat (nat (- i)) else show_nat (nat i))"

lemma digit_char: "(n :: nat) < 10 \<Longrightarrow> is_digit (char_of (48 + n)) \<and> digit_val (char_of (48 + n)) = n"
  by (simp add: is_digit_def digit_val_def less_eq_char_def)

lemma digit_char_zero: "(n :: nat) < 10 \<Longrightarrow> char_of (48 + n) = CHR ''0'' \<longleftrightarrow> n = 0"
  unfolding of_char_eq_iff [where ?'a = nat, symmetric] by simp

lemma show_nat_digits: "show_nat n \<noteq> [] \<and> list_all is_digit (show_nat n) \<and> dec_val (show_nat n) = n"
proof (induction n rule: show_nat.induct)
  case (1 n)
  show ?case
  proof (cases "n < 10")
    case True
    then show ?thesis using digit_char [of n] by (simp add: show_nat.simps [of n] dec_val_def)
  next
    case False
    with 1 show ?thesis
      using digit_char [of "n mod 10"] by (simp add: show_nat.simps [of n] dec_val_snoc)
  qed
qed

lemma show_nat_hd: "0 < n \<Longrightarrow> hd (show_nat n) \<noteq> CHR ''0''"
proof (induction n rule: show_nat.induct)
  case (1 n)
  show ?case
  proof (cases "n < 10")
    case True
    with 1 show ?thesis using digit_char_zero [of n] by (simp add: show_nat.simps [of n])
  next
    case False
    with 1 show ?thesis
      using show_nat_digits [of "n div 10"] by (simp add: show_nat.simps [of n] hd_append)
  qed
qed

lemma show_nat_canonical: "isCanonicalDecimalSnowflake (show_nat n)"
proof (cases "n = 0")
  case True
  then show ?thesis
    using show_nat_digits [of 0]
    by (simp add: isCanonicalDecimalSnowflake_def show_nat.simps [of 0])
next
  case False
  then show ?thesis
    using show_nat_digits [of n] show_nat_hd [of n] by (simp add: isCanonicalDecimalSnowflake_def)
qed

lemma show_nat_dec_val: "isCanonicalDecimalSnowflake s \<Longrightarrow> show_nat (dec_val s) = s"
  using canonical_inject show_nat_canonical show_nat_digits by metis

section \<open>The maximum\<close>

text \<open>A snowflake proper: canonical and within 64 bits, as Discord issues them.\<close>

definition snowflake :: "string \<Rightarrow> bool" where
  "snowflake s \<longleftrightarrow> isCanonicalDecimalSnowflake s \<and> dec_val s < 2 ^ 64"

lemma snowflake_canonical [simp]: "snowflake s \<Longrightarrow> isCanonicalDecimalSnowflake s"
  by (simp add: snowflake_def)

lemma snowflake_nonempty: "snowflake s \<Longrightarrow> s \<noteq> []"
  by (auto simp: snowflake_def isCanonicalDecimalSnowflake_def)

lemma snowflake_parse: "snowflake s \<Longrightarrow> parse_uint64 s = Some (dec_val s)"
  by (simp add: snowflake_def parse_uint64_def isCanonicalDecimalSnowflake_def)

lemma maxSnowflake_simps [simp]:
  "maxSnowflake [] s = s" "maxSnowflake s [] = s"
  by (simp_all add: maxSnowflake_def)

lemma maxSnowflake_snowflakes:
  "snowflake a \<Longrightarrow> snowflake b \<Longrightarrow> maxSnowflake a b = (if dec_val a < dec_val b then b else a)"
  by (simp add: maxSnowflake_def snowflake_parse snowflake_nonempty)

lemma maxSnowflake_cases: "maxSnowflake a b = a \<or> maxSnowflake a b = b"
  by (auto simp: maxSnowflake_def split: option.splits)

end
