(* ===== verification/Database.thy ===== *)
theory Database
  imports Discord Json Snowflake "HOL-Library.AList"
begin

text \<open>
  The local SQLite archive as a record of tables, the environment a run meets, and the execution
  model of database calls. Every call to the database or to Discord takes one step of the
  environment: step \<open>n\<close> gives the clock reading, the outcome of the database call and the
  client's answer. A database call can fail before it takes effect or after it (a cancellation
  reported after a durable commit); a transaction that fails is rolled back.

  Timestamps are stored as instants: the fixed-width UTC layout of the store orders its texts as
  the instants they denote, the empty or NULL timestamp is 0, and a malformed text parses to 0.
\<close>

section \<open>Tables\<close>

text \<open>A table with a text or integer primary key is an association list from the key to the row.\<close>

record sync_row =
  srCursor :: string
  srUpdatedAt :: instant

text \<open>
  \<open>ChannelRecord\<close> (internal/store/write.go) and the \<open>channels\<close> row it is stored in; empty
  text stands for NULL, \<open>crDeletedAt = 0\<close> for a row without a tombstone.
\<close>

record channel_record =
  crID :: string
  crGuildID :: string
  crParentID :: string
  crKind :: string
  crName :: string
  crTopic :: string
  crPosition :: int
  crIsNSFW :: bool
  crIsArchived :: bool
  crIsLocked :: bool
  crIsPrivateThread :: bool
  crThreadParentID :: string
  crArchiveTimestamp :: instant
  crRawJSON :: string

record channel_row = channel_record +
  crDeletedAt :: instant
  crDeletionSource :: string
  crCollectionScope :: string
  crScopePolicy :: string
  crUpdatedAt :: instant

text \<open>
  \<open>GuildRecord\<close> and \<open>MemberRecord\<close> with their rows, and the search row of a member. The join time
  of a member is stored as text.
\<close>

record guild_record =
  gdID :: string
  gdName :: string
  gdIcon :: string
  gdRawJSON :: string

record guild_row = guild_record +
  gdUpdatedAt :: instant
  gdDeletedAt :: instant
  gdDeletionSource :: string
  gdDeletionReason :: string

record member_record =
  mbGuildID :: string
  mbUserID :: string
  mbUsername :: string
  mbGlobalName :: string
  mbDisplayName :: string
  mbNick :: string
  mbDiscriminator :: string
  mbAvatar :: string
  mbBot :: bool
  mbJoinedAt :: string
  mbRoleIDsJSON :: string
  mbRawJSON :: string

record member_row = member_record +
  mbUpdatedAt :: instant
  mbDeletedAt :: instant
  mbDeletionSource :: string
  mbDeletionReason :: string

record member_fts_row =
  mfMemberKey :: string
  mfGuildID :: string
  mfUserID :: string
  mfUsername :: string
  mfDisplayName :: string
  mfProfileText :: string

record message_row =
  mrGuildID :: string
  mrChannelID :: string
  mrAuthorID :: string
  mrMessageType :: int
  mrCreatedAt :: instant
  mrEditedAt :: instant
  mrDeletedAt :: instant
  mrContent :: string
  mrNormalized :: string
  mrReplyTo :: string
  mrPinned :: bool
  mrHasAttachments :: bool
  mrRawJSON :: string
  mrTextParts :: string
  mrTextVersion :: int
  mrUpdatedAt :: instant

record message_event =
  meGuildID :: string
  meChannelID :: string
  meMessageID :: string
  meEventType :: string
  meEventAt :: instant
  mePayload :: string

record fts_row =
  ftMessageID :: string
  ftGuildID :: string
  ftChannelID :: string
  ftAuthorID :: string
  ftAuthorName :: string
  ftChannelName :: string
  ftContent :: string

text \<open>A row of \<open>embedding_jobs\<close>, by message, and a row of \<open>message_embeddings\<close>.\<close>

record embedding_job =
  ejState :: string
  ejAttempts :: nat
  ejProvider :: string
  ejModel :: string
  ejInputVersion :: string
  ejLastError :: string
  ejLockedAt :: instant
  ejUpdatedAt :: instant
  ejRevision :: nat
  ejLeaseToken :: string
  ejLeaseUntil :: instant
  ejAvailableAt :: instant
  ejPriority :: nat
  ejEnqueuedAt :: instant

record embedding_vector =
  evMessageID :: string
  evProvider :: string
  evModel :: string
  evInputVersion :: string
  evDimensions :: nat
  evBlob :: string
  evEmbeddedAt :: instant

record failure =
  fFailureID :: nat
  fRef :: failure_ref
  fErrorClass :: string
  fErrorMessage :: string
  fFirstSeenAt :: instant
  fLastSeenAt :: instant
  fRetryCount :: nat
  fResolvedAt :: "instant option"
  fResolutionReason :: string

text \<open>
  \<open>dbChecks\<close>, \<open>dbChannelChecks\<close>, \<open>dbGuildChecks\<close> and \<open>dbMemberChecks\<close> are the observed checks of
  \<open>entity_checks\<close> for the rows of each table; a member is identified by guild and user;
  \<open>dbEmbeddings\<close> are the vectors of the messages, \<open>dbEmbeddingHistory\<close> the retained vectors with the
  text they were made of.
\<close>

record db =
  dbSyncState :: "(string \<times> sync_row) list"
  dbChannels :: "channel_row list"
  dbGuilds :: "(string \<times> guild_row) list"
  dbGuildChecks :: "(string \<times> instant) list"
  dbMembers :: "((string \<times> string) \<times> member_row) list"
  dbMemberChecks :: "((string \<times> string) \<times> instant) list"
  dbMemberFTS :: "(int \<times> member_fts_row) list"
  dbMessages :: "(string \<times> message_row) list"
  dbChecks :: "(string \<times> instant) list"
  dbChannelChecks :: "(string \<times> instant) list"
  dbEvents :: "message_event list"
  dbFTS :: "(int \<times> fts_row) list"
  dbJobs :: "(string \<times> embedding_job) list"
  dbEmbeddings :: "embedding_vector list"
  dbEmbeddingHistory :: "(embedding_vector \<times> string) list"
  dbFailures :: "failure list"
  dbNextFailureID :: nat

section \<open>The environment\<close>

datatype db_fault = FailBefore go_error | FailAfter go_error

text \<open>
  By step: \<open>envNow\<close> the clock, \<open>envDB\<close> the fault of a database call, \<open>envCtx\<close> the error of the
  context (\<open>ctx.Err()\<close>), \<open>envMessages\<close> a page of a channel's messages (channel, before, after),
  \<open>envMessage\<close> the lookup of one message (channel, message), \<open>envChannel\<close> a channel lookup,
  \<open>envCanRead\<close> the history permission, \<open>envGuild\<close> a guild lookup, \<open>envGuildMember\<close> the lookup of one
  member (guild, user), \<open>envMemberPage\<close> a page of the members of a guild (guild, after),
  \<open>envExtract\<close> the text projection of a message (normalised text and parts, after its attachments were fetched),
  \<open>envSideChanged\<close> whether the related rows of a message changed, \<open>envText\<close> the projection
  recomputed from a raw message. Independent of the step: \<open>envCanonicalRaw\<close>, \<open>envSameRaw\<close> and
  \<open>envSameShape\<close> compare raw messages, \<open>envCanonicalChannel\<close> (kind, stored and new text) and
  \<open>envSameChannel\<close> raw channels, \<open>envCanonicalEntity\<close> (entity, stored and new text) and
  \<open>envSameEntity\<close> raw guilds and members, \<open>envProfileText\<close> is the search text of a member's profile,
  \<open>envClass\<close> and \<open>envSanitize\<close> describe an error,
  \<open>envJSON\<close> reads a whole JSON text (\<open>json.Unmarshal\<close>, \<open>None\<close> a syntax error), \<open>envTimeText\<close> is the
  \<open>RFC3339Nano\<close> text of an instant in UTC and \<open>envParseTime\<close> the instant of such a text.
\<close>

record env =
  envNow :: "nat \<Rightarrow> instant"
  envDB :: "nat \<Rightarrow> db_fault option"
  envCtx :: "nat \<Rightarrow> go_error option"
  envMessages :: "nat \<Rightarrow> string \<Rightarrow> string \<Rightarrow> string \<Rightarrow> go_error + dmessage list"
  envMessage :: "nat \<Rightarrow> string \<Rightarrow> string \<Rightarrow> go_error + dmessage option"
  envChannel :: "nat \<Rightarrow> string \<Rightarrow> go_error + dchannel option"
  envCanRead :: "nat \<Rightarrow> string \<Rightarrow> go_error + bool"
  envGuild :: "nat \<Rightarrow> string \<Rightarrow> go_error + dguild option"
  envGuildMember :: "nat \<Rightarrow> string \<Rightarrow> string \<Rightarrow> go_error + dmember option"
  envMemberPage :: "nat \<Rightarrow> string \<Rightarrow> string \<Rightarrow> go_error + dmember option list"
  envExtract :: "nat \<Rightarrow> dmessage \<Rightarrow> go_error + string \<times> string"
  envSideChanged :: "nat \<Rightarrow> bool"
  envText :: "nat \<Rightarrow> string \<Rightarrow> go_error + string \<times> string"
  envCanonicalRaw :: "string \<Rightarrow> string \<Rightarrow> string"
  envSameRaw :: "string \<Rightarrow> string \<Rightarrow> bool"
  envSameShape :: "string \<Rightarrow> string \<Rightarrow> bool"
  envCanonicalChannel :: "string \<Rightarrow> string \<Rightarrow> string \<Rightarrow> string"
  envSameChannel :: "string \<Rightarrow> string \<Rightarrow> string \<Rightarrow> bool"
  envCanonicalEntity :: "string \<Rightarrow> string \<Rightarrow> string \<Rightarrow> string"
  envSameEntity :: "string \<Rightarrow> string \<Rightarrow> string \<Rightarrow> bool"
  envProfileText :: "string \<Rightarrow> string"
  envClass :: "go_error \<Rightarrow> string"
  envSanitize :: "string \<Rightarrow> string"
  envJSON :: json_reader
  envTimeText :: "instant \<Rightarrow> string"
  envParseTime :: "string \<Rightarrow> instant option"

record world =
  wDB :: db
  wTick :: nat

type_synonym 'a call = "world \<Rightarrow> (go_error + 'a) \<times> world"
type_synonym action = "world \<Rightarrow> go_error option \<times> world"

section \<open>Database calls\<close>

definition tick :: "world \<Rightarrow> world" where
  "tick w = w\<lparr>wTick := Suc (wTick w)\<rparr>"

text \<open>A statement that changes the database by \<open>f\<close> of the clock reading.\<close>

definition db_exec :: "env \<Rightarrow> (instant \<Rightarrow> db \<Rightarrow> db) \<Rightarrow> action" where
  "db_exec env f w =
     (let n = wTick w; w' = tick w; w2 = w'\<lparr>wDB := f (envNow env n) (wDB w)\<rparr> in
      case envDB env n of
        None \<Rightarrow> (None, w2)
      | Some (FailBefore e) \<Rightarrow> (Some e, w')
      | Some (FailAfter e) \<Rightarrow> (Some e, w2))"

text \<open>A query. A failed read has no effect and no result.\<close>

definition db_query :: "env \<Rightarrow> (db \<Rightarrow> 'a) \<Rightarrow> 'a call" where
  "db_query env q w =
     (case envDB env (wTick w) of
        None \<Rightarrow> (Inr (q (wDB w)), tick w)
      | Some (FailBefore e) \<Rightarrow> (Inl e, tick w)
      | Some (FailAfter e) \<Rightarrow> (Inl e, tick w))"

text \<open>A statement on tables outside this model: it can fail, and changes nothing modelled.\<close>

definition db_side :: "env \<Rightarrow> action" where
  "db_side env = db_exec env (\<lambda>_ d. d)"

text \<open>
  \<open>BeginTx\<close>, the body, \<open>Commit\<close> with a deferred rollback. The body's statements run on the
  transaction's copy of the database, which is discarded unless the commit takes effect.
\<close>

definition with_tx :: "env \<Rightarrow> action \<Rightarrow> action" where
  "with_tx env body w =
     (case db_side env w of
        (Some e, w1) \<Rightarrow> (Some e, w1)
      | (None, w1) \<Rightarrow>
          (case body w1 of
             (Some e, w2) \<Rightarrow> (Some e, w2\<lparr>wDB := wDB w1\<rparr>)
           | (None, w2) \<Rightarrow>
               db_exec env (\<lambda>_ _. wDB w2) (w2\<lparr>wDB := wDB w1\<rparr>)))"

definition andThen :: "action \<Rightarrow> action \<Rightarrow> action" where
  "andThen a b w = (case a w of (Some e, w') \<Rightarrow> (Some e, w') | (None, w') \<Rightarrow> b w')"

definition withResult :: "'a call \<Rightarrow> ('a \<Rightarrow> action) \<Rightarrow> action" where
  "withResult c k w = (case c w of (Inl e, w') \<Rightarrow> (Some e, w') | (Inr x, w') \<Rightarrow> k x w')"

text \<open>The same two compositions for operations that return a value.\<close>

definition doThen :: "action \<Rightarrow> 'a call \<Rightarrow> 'a call" where
  "doThen a c w = (case a w of (Some e, w') \<Rightarrow> (Inl e, w') | (None, w') \<Rightarrow> c w')"

definition bindCall :: "'a call \<Rightarrow> ('a \<Rightarrow> 'b call) \<Rightarrow> 'b call" where
  "bindCall c k w = (case c w of (Inl e, w') \<Rightarrow> (Inl e, w') | (Inr x, w') \<Rightarrow> k x w')"

definition value_call :: "'a \<Rightarrow> 'a call" where
  "value_call x w = (Inr x, w)"

definition ok :: action where
  "ok w = (None, w)"

definition fail_with :: "go_error \<Rightarrow> action" where
  "fail_with e w = (Some e, w)"

fun sequence_actions :: "('a \<Rightarrow> action) \<Rightarrow> 'a list \<Rightarrow> action" where
  "sequence_actions f [] w = (None, w)"
| "sequence_actions f (x # xs) w =
     (case f x w of (Some e, w') \<Rightarrow> (Some e, w') | (None, w') \<Rightarrow> sequence_actions f xs w')"

section \<open>Invariants of the database across calls\<close>

text \<open>
  \<open>keeps P a\<close>: the action leaves \<open>P\<close> true of the database, whether it succeeds or fails,
  for every behaviour of the environment.
\<close>

definition keeps :: "(db \<Rightarrow> bool) \<Rightarrow> (world \<Rightarrow> 'r \<times> world) \<Rightarrow> bool" where
  "keeps P a \<longleftrightarrow> (\<forall>w. P (wDB w) \<longrightarrow> P (wDB (snd (a w))))"

lemma keepsD: "keeps P a \<Longrightarrow> P (wDB w) \<Longrightarrow> P (wDB (snd (a w)))"
  by (simp add: keeps_def)

lemma tick_simps [simp]: "wDB (tick w) = wDB w" "wTick (tick w) = Suc (wTick w)"
  by (simp_all add: tick_def)

lemma db_query_db [simp]: "wDB (snd (db_query env q w)) = wDB w"
  by (simp add: db_query_def split: option.split db_fault.split)

lemma db_query_Inr: "db_query env q w = (Inr x, w') \<Longrightarrow> x = q (wDB w) \<and> wDB w' = wDB w"
  by (auto simp: db_query_def split: option.splits db_fault.splits)

lemma db_query_Inl: "db_query env q w = (Inl e, w') \<Longrightarrow> wDB w' = wDB w"
  by (auto simp: db_query_def split: option.splits db_fault.splits)

lemma db_exec_db:
  "wDB (snd (db_exec env f w)) = wDB w \<or> wDB (snd (db_exec env f w)) = f (envNow env (wTick w)) (wDB w)"
  by (simp add: db_exec_def Let_def split: option.split db_fault.split)

lemma db_exec_None:
  "db_exec env f w = (None, w') \<Longrightarrow> wDB w' = f (envNow env (wTick w)) (wDB w)"
  by (auto simp: db_exec_def Let_def split: option.splits db_fault.splits)

lemma db_side_db [simp]: "wDB (snd (db_side env w)) = wDB w"
  using db_exec_db [of env "\<lambda>_ d. d" w] by (simp add: db_side_def)

lemma keeps_exec [keeps_intros]: "(\<And>now d. P d \<Longrightarrow> P (f now d)) \<Longrightarrow> keeps P (db_exec env f)"
  unfolding keeps_def using db_exec_db by metis

lemma keeps_side [keeps_intros]: "keeps P (db_side env)"
  by (simp add: keeps_def)

lemma keeps_ok [keeps_intros]: "keeps P ok"
  by (simp add: keeps_def ok_def)

lemma keeps_fail [keeps_intros]: "keeps P (fail_with e)"
  by (simp add: keeps_def fail_with_def)

lemma keeps_if [keeps_intros]: "keeps P a \<Longrightarrow> keeps P b \<Longrightarrow> keeps P (if c then a else b)"
  by simp

lemma keeps_andThen [keeps_intros]: "keeps P a \<Longrightarrow> keeps P b \<Longrightarrow> keeps P (andThen a b)"
  unfolding keeps_def andThen_def by (auto split: prod.split option.split)

lemma keeps_query [keeps_intros]: "keeps P (db_query env q)"
  by (simp add: keeps_def)

lemma keeps_withResult [keeps_intros]:
  assumes "keeps P c" and "\<And>x. keeps P (k x)"
  shows "keeps P (withResult c k)"
proof (unfold keeps_def, intro allI impI)
  fix w :: world
  assume P: "P (wDB w)"
  obtain r w' where c: "c w = (r, w')" by (cases "c w")
  with keepsD [OF assms(1) P] have "P (wDB w')" by simp
  with assms(2) c show "P (wDB (snd (withResult c k w)))"
    by (cases r) (auto simp: withResult_def keeps_def)
qed

lemma keeps_sequence [keeps_intros]:
  assumes "\<And>x. x \<in> set xs \<Longrightarrow> keeps P (f x)"
  shows "keeps P (sequence_actions f xs)"
  using assms
proof (induction xs)
  case Nil
  then show ?case by (simp add: keeps_def)
next
  case (Cons x xs)
  show ?case
  proof (unfold keeps_def, intro allI impI)
    fix w :: world
    assume P: "P (wDB w)"
    obtain r w' where x: "f x w = (r, w')" by (cases "f x w")
    with Cons.prems [of x] P have P': "P (wDB w')" by (auto dest: keepsD)
    from Cons have "keeps P (sequence_actions f xs)" by auto
    with P' have "P (wDB (snd (sequence_actions f xs w')))" by (auto dest: keepsD)
    with P' x show "P (wDB (snd (sequence_actions f (x # xs) w)))"
      by (cases r) auto
  qed
qed

lemma withResult_None:
  "withResult c k w = (None, w') \<Longrightarrow> \<exists>x w1. c w = (Inr x, w1) \<and> k x w1 = (None, w')"
  by (auto simp: withResult_def split: prod.splits sum.splits)

lemma andThen_None: "andThen a b w = (None, w') \<Longrightarrow> \<exists>w1. a w = (None, w1) \<and> b w1 = (None, w')"
  by (auto simp: andThen_def split: prod.splits option.splits)

lemma doThen_Inr: "doThen a c w = (Inr x, w') \<Longrightarrow> \<exists>w1. a w = (None, w1) \<and> c w1 = (Inr x, w')"
  by (auto simp: doThen_def split: prod.splits option.splits)

lemma bindCall_Inr:
  "bindCall c k w = (Inr y, w') \<Longrightarrow> \<exists>x w1. c w = (Inr x, w1) \<and> k x w1 = (Inr y, w')"
  by (auto simp: bindCall_def split: prod.splits sum.splits)

lemma keeps_doThen [keeps_intros]: "keeps P a \<Longrightarrow> keeps P c \<Longrightarrow> keeps P (doThen a c)"
  unfolding keeps_def doThen_def by (auto split: prod.split option.split)

lemma keeps_bindCall [keeps_intros]:
  assumes "keeps P c" and "\<And>x. keeps P (k x)"
  shows "keeps P (bindCall c k)"
proof (unfold keeps_def, intro allI impI)
  fix w :: world
  assume P: "P (wDB w)"
  obtain r w' where c: "c w = (r, w')" by (cases "c w")
  with keepsD [OF assms(1) P] have "P (wDB w')" by simp
  with assms(2) c show "P (wDB (snd (bindCall c k w)))"
    by (cases r) (auto simp: bindCall_def keeps_def)
qed

lemma keeps_value [keeps_intros]: "keeps P (value_call x)"
  by (simp add: keeps_def value_call_def)

text \<open>A call whose result is analysed by cases, the shape of operations that return a value.\<close>

lemma keeps_bind [keeps_calls]:
  assumes "keeps P c" and "\<And>r. keeps P (k r)"
  shows "keeps P (\<lambda>w. case c w of (r, w') \<Rightarrow> k r w')"
  using assms by (auto simp: keeps_def split: prod.split dest: keepsD)

lemma keeps_pair [keeps_calls]: "keeps P (\<lambda>w. (r, w))"
  by (simp add: keeps_def)

lemma keeps_choice [keeps_calls]: "keeps P a \<Longrightarrow> keeps P b \<Longrightarrow> keeps P (\<lambda>w. if c then a w else b w)"
  by (cases c) simp_all

lemma keeps_sum [keeps_calls]:
  "(\<And>e. keeps P (f e)) \<Longrightarrow> (\<And>x. keeps P (g x)) \<Longrightarrow> keeps P (\<lambda>w. case r of Inl e \<Rightarrow> f e w | Inr x \<Rightarrow> g x w)"
  by (cases r) simp_all

lemma keeps_option [keeps_calls]:
  "keeps P f \<Longrightarrow> (\<And>x. keeps P (g x)) \<Longrightarrow> keeps P (\<lambda>w. case r of None \<Rightarrow> f w | Some x \<Rightarrow> g x w)"
  by (cases r) simp_all

lemma keeps_prod [keeps_calls]: "(\<And>x y. keeps P (f x y)) \<Longrightarrow> keeps P (\<lambda>w. case r of (x, y) \<Rightarrow> f x y w)"
  by (cases r) simp

lemma keeps_map:
  assumes "keeps P c"
  shows "keeps P (\<lambda>w. case c w of (r, w') \<Rightarrow> (f r w', w'))"
  using assms by (auto simp: keeps_def split: prod.split)

lemma keeps_exec_clock: "(\<And>n d. P d \<Longrightarrow> P (f (envNow env n) d)) \<Longrightarrow> keeps P (db_exec env f)"
  unfolding keeps_def using db_exec_db by metis

text \<open>A transaction either leaves the database as it was or installs the body's result.\<close>

lemma with_tx_db:
  "wDB (snd (with_tx env body w)) = wDB w \<or>
   (\<exists>w1 w2. wDB w1 = wDB w \<and> body w1 = (None, w2) \<and> wDB (snd (with_tx env body w)) = wDB w2)"
proof (cases "db_side env w")
  case (Pair r w1)
  have w1: "wDB w1 = wDB w" using db_side_db [of env w] Pair by simp
  show ?thesis
  proof (cases r)
    case (Some e)
    with Pair w1 show ?thesis by (simp add: with_tx_def)
  next
    case None
    obtain r2 w2 where b: "body w1 = (r2, w2)" by (cases "body w1")
    show ?thesis
    proof (cases r2)
      case (Some e)
      with Pair None b w1 show ?thesis by (simp add: with_tx_def)
    next
      case N2: None
      from db_exec_db [of env "\<lambda>_ _. wDB w2" "w2\<lparr>wDB := wDB w1\<rparr>"]
      show ?thesis using Pair None b N2 w1 by (auto simp: with_tx_def)
    qed
  qed
qed

lemma with_tx_None:
  assumes "with_tx env body w = (None, w')"
  shows "\<exists>w1 w2. wDB w1 = wDB w \<and> body w1 = (None, w2) \<and> wDB w' = wDB w2"
proof -
  from assms obtain w1 where s: "db_side env w = (None, w1)"
    by (auto simp: with_tx_def split: prod.splits option.splits)
  moreover from assms s obtain w2 where b: "body w1 = (None, w2)"
    by (auto simp: with_tx_def split: prod.splits option.splits)
  moreover have "wDB w1 = wDB w" using db_side_db [of env w] s by simp
  ultimately show ?thesis
    using assms db_exec_None by (fastforce simp: with_tx_def)
qed

lemma keeps_with_tx [keeps_intros]: "keeps P body \<Longrightarrow> keeps P (with_tx env body)"
  unfolding keeps_def using with_tx_db by (metis snd_conv)

text \<open>
  \<open>settles P a\<close>: when the action succeeds, it leaves \<open>P\<close> true. A transaction only needs its body
  to settle an invariant: the states between its statements are never visible.
\<close>

definition settles :: "(db \<Rightarrow> bool) \<Rightarrow> action \<Rightarrow> bool" where
  "settles P a \<longleftrightarrow> (\<forall>w w'. P (wDB w) \<longrightarrow> a w = (None, w') \<longrightarrow> P (wDB w'))"

lemma settlesI: "(\<And>w w'. P (wDB w) \<Longrightarrow> a w = (None, w') \<Longrightarrow> P (wDB w')) \<Longrightarrow> settles P a"
  by (simp add: settles_def)

lemma settlesD: "settles P a \<Longrightarrow> P (wDB w) \<Longrightarrow> a w = (None, w') \<Longrightarrow> P (wDB w')"
  by (simp add: settles_def)

lemma keeps_settles: "keeps P a \<Longrightarrow> settles P a"
  by (rule settlesI) (auto dest: keepsD)

lemma settles_andThen: "settles P a \<Longrightarrow> settles P b \<Longrightarrow> settles P (andThen a b)"
  by (rule settlesI) (auto dest!: andThen_None dest: settlesD)

lemma settles_sequence:
  assumes "\<And>x. x \<in> set xs \<Longrightarrow> settles P (f x)"
  shows "settles P (sequence_actions f xs)"
  using assms
proof (induction xs)
  case Nil
  show ?case by (rule settlesI) simp
next
  case (Cons x xs)
  have x: "settles P (f x)" and xs: "settles P (sequence_actions f xs)" using Cons by auto
  show ?case
    by (rule settlesI) (auto split: prod.splits option.splits dest: settlesD [OF x] settlesD [OF xs])
qed

lemma settles_with_tx: "settles P body \<Longrightarrow> keeps P (with_tx env body)"
  unfolding keeps_def using with_tx_db settlesD by metis

end
