(* ===== verification/SyncState.thy ===== *)
theory SyncState
  imports Database
begin

text \<open>
  The \<open>sync_state\<close> table: cursor scopes (internal/syncer/records.go), the store operations on
  cursors (internal/store/write.go, internal/store/query.go) and unavailable-channel markers
  (internal/store/unavailable.go). Results: the latest-message cursor never moves backwards under
  any database failure, scopes never collide, and markers expire after the retry window.
\<close>

section \<open>Cursor scopes\<close>

definition channelLatestScope :: "string \<Rightarrow> string" where
  "channelLatestScope channelID = ''channel:'' @ channelID @ '':latest_message_id''"

definition channelBackfillScope :: "string \<Rightarrow> string" where
  "channelBackfillScope channelID = ''channel:'' @ channelID @ '':backfill_before_id''"

definition channelHistoryCompleteScope :: "string \<Rightarrow> string" where
  "channelHistoryCompleteScope channelID = ''channel:'' @ channelID @ '':history_complete''"

definition channelHistoryVerificationScope :: "string \<Rightarrow> string" where
  "channelHistoryVerificationScope channelID =
     ''channel:'' @ channelID @ '':history_verification_pending''"

definition channelVerifiedEmptyScope :: "string \<Rightarrow> string" where
  "channelVerifiedEmptyScope channelID = ''channel:'' @ channelID @ '':verified_empty''"

definition channelMessageUnavailableScope :: "string \<Rightarrow> string" where
  "channelMessageUnavailableScope channelID = ''channel:'' @ channelID @ '':unavailable''"

definition channelThreadCatalogUnavailableScope :: "string \<Rightarrow> string" where
  "channelThreadCatalogUnavailableScope channelID =
     ''channel:'' @ channelID @ '':thread_catalog_unavailable''"

definition channelArchivedThreadCursorScope :: "string \<Rightarrow> bool \<Rightarrow> string" where
  "channelArchivedThreadCursorScope channelID private =
     ''channel:'' @ channelID @ '':archived_'' @ (if private then ''private'' else ''public'')
       @ ''_threads_after''"

lemmas scope_defs =
  channelLatestScope_def channelBackfillScope_def channelHistoryCompleteScope_def
  channelHistoryVerificationScope_def channelVerifiedEmptyScope_def
  channelMessageUnavailableScope_def channelThreadCatalogUnavailableScope_def
  channelArchivedThreadCursorScope_def

section \<open>Store operations\<close>

text \<open>The stored cursor of a scope; a missing row reads as the empty text.\<close>

definition sync_cursor :: "db \<Rightarrow> string \<Rightarrow> string" where
  "sync_cursor d scope = (case map_of (dbSyncState d) scope of None \<Rightarrow> [] | Some r \<Rightarrow> srCursor r)"

definition put_cursor :: "string \<Rightarrow> string \<Rightarrow> instant \<Rightarrow> db \<Rightarrow> db" where
  "put_cursor scope cursor now d =
     d\<lparr>dbSyncState := AList.update scope \<lparr>srCursor = cursor, srUpdatedAt = now\<rparr> (dbSyncState d)\<rparr>"

definition SetSyncState :: "env \<Rightarrow> string \<Rightarrow> string \<Rightarrow> action" where
  "SetSyncState env scope cursor = db_exec env (put_cursor scope cursor)"

definition GetSyncState :: "env \<Rightarrow> string \<Rightarrow> string call" where
  "GetSyncState env scope = db_query env (\<lambda>d. sync_cursor d scope)"

definition DeleteSyncState :: "env \<Rightarrow> string \<Rightarrow> action" where
  "DeleteSyncState env scope =
     db_exec env (\<lambda>_ d. d\<lparr>dbSyncState := AList.delete scope (dbSyncState d)\<rparr>)"

text \<open>The \<open>on conflict ... where\<close> guard of \<open>AdvanceChannelLatestMessageID\<close>.\<close>

definition advance_applies :: "db \<Rightarrow> string \<Rightarrow> string \<Rightarrow> bool" where
  "advance_applies d scope messageID =
     (case map_of (dbSyncState d) scope of
        None \<Rightarrow> True
      | Some r \<Rightarrow>
          let current = srCursor r in
          current = [] \<or>
          (list_all is_digit current \<and>
           (current = ''0'' \<or> \<not> has_prefix current ''0'') \<and>
           id_less current messageID))"

definition AdvanceChannelLatestMessageID :: "env \<Rightarrow> string \<Rightarrow> string \<Rightarrow> action" where
  "AdvanceChannelLatestMessageID env channelID messageID w =
     (if messageID = [] then (None, w)
      else if channelID = [] then (Some (ErrText ''channel id is required''), w)
      else if \<not> isCanonicalDecimalSnowflake messageID then
        (Some (ErrText ''channel latest message id must be a canonical decimal snowflake''), w)
      else
        let scope = ''channel:'' @ channelID @ '':latest_message_id''; rows = advance_applies (wDB w) scope messageID in
        case db_exec env (\<lambda>now d. if advance_applies d scope messageID
                                  then put_cursor scope messageID now d else d) w of
          (Some e, w1) \<Rightarrow> (Some e, w1)
        | (None, w1) \<Rightarrow>
            if rows then (None, w1)
            else (case GetSyncState env scope w1 of
                    (Inl e, w2) \<Rightarrow> (Some e, w2)
                  | (Inr current, w2) \<Rightarrow>
                      if current \<noteq> [] \<and> \<not> isCanonicalDecimalSnowflake current
                      then (Some (ErrText ''stored channel latest message id is not a canonical decimal snowflake''), w2)
                      else (None, w2)))"

definition EnsureChannelLatestMessageState :: "env \<Rightarrow> string \<Rightarrow> action" where
  "EnsureChannelLatestMessageState env channelID w =
     (if channelID = [] then (Some (ErrText ''channel id is required''), w)
      else
        let scope = ''channel:'' @ channelID @ '':latest_message_id'' in
        db_exec env (\<lambda>now d. if map_of (dbSyncState d) scope = None
                             then put_cursor scope [] now d else d) w)"

text \<open>
  \<open>ListSyncStateBySuffix\<close>: SQL \<open>like\<close> with its wildcards and ASCII case folding, rows in the
  order of \<open>updated_at\<close>.
\<close>

fun sql_like :: "string \<Rightarrow> string \<Rightarrow> bool" where
  "sql_like [] s = (s = [])"
| "sql_like (p # ps) [] = (p = CHR 0x25 \<and> sql_like ps [])"
| "sql_like (p # ps) (c # s) =
     (if p = CHR 0x25 then sql_like ps (c # s) \<or> sql_like (p # ps) s
      else (p = CHR ''_'' \<or> lower_char p = lower_char c) \<and> sql_like ps s)"

definition SyncStateBySuffix :: "env \<Rightarrow> string \<Rightarrow> (string \<times> instant) list call" where
  "SyncStateBySuffix env suffix w =
     (if suffix = [] then (Inr [], w)
      else db_query env
        (\<lambda>d. map (\<lambda>(scope, r). (scope, srUpdatedAt r))
               (sort_key (\<lambda>(scope, r). srUpdatedAt r)
                  (filter (\<lambda>(scope, r). sql_like (CHR 0x25 # suffix) scope) (dbSyncState d)))) w)"

definition UnavailableMarkerWindow :: duration where
  "UnavailableMarkerWindow = 7 * 24 * hour_ns"

definition UnavailableMarkerActive :: "instant \<Rightarrow> instant \<Rightarrow> bool" where
  "UnavailableMarkerActive updatedAt now \<longleftrightarrow>
     \<not> is_zero_time updatedAt \<and> updatedAt > now - UnavailableMarkerWindow"

definition fresh_marker_ids :: "(string \<times> instant) list \<Rightarrow> instant \<Rightarrow> string list" where
  "fresh_marker_ids markers now =
     sort (List.map_filter
       (\<lambda>(scope, updatedAt).
          case cut_prefix scope ''channel:'' of (rest, found) \<Rightarrow>
            let channel = trim_suffix rest '':unavailable'' in
            if found \<and> channel \<noteq> [] \<and> UnavailableMarkerActive updatedAt now
            then Some channel else None)
       markers)"

definition FreshUnavailableChannelIDs :: "env \<Rightarrow> string list call" where
  "FreshUnavailableChannelIDs env w =
     (case SyncStateBySuffix env '':unavailable'' w of
        (Inl e, w1) \<Rightarrow> (Inl e, w1)
      | (Inr markers, w1) \<Rightarrow> (Inr (fresh_marker_ids markers (envNow env (wTick w1))), w1))"

section \<open>Reading back cursors\<close>

lemma sync_cursor_put: "sync_cursor (put_cursor s c now d) t = (if t = s then c else sync_cursor d t)"
  by (simp add: sync_cursor_def put_cursor_def update_conv')

lemma sync_cursor_delete:
  "sync_cursor (d\<lparr>dbSyncState := AList.delete s (dbSyncState d)\<rparr>) t =
     (if t = s then [] else sync_cursor d t)"
  by (simp add: sync_cursor_def delete_conv')

lemmas cursor_simps [simp] = sync_cursor_put sync_cursor_delete

lemma put_cursor_frame [simp]:
  "dbMessages (put_cursor s c now d) = dbMessages d"
  "dbChannels (put_cursor s c now d) = dbChannels d"
  "dbFailures (put_cursor s c now d) = dbFailures d"
  by (simp_all add: put_cursor_def)

text \<open>The text after the last colon tells the scopes apart, whatever the channel ids contain.\<close>

definition scope_field :: "string \<Rightarrow> string" where
  "scope_field s = rev (takeWhile (\<lambda>c. c \<noteq> CHR '':'') (rev s))"

lemma scope_field_append [simp]:
  "CHR '':'' \<notin> set f \<Longrightarrow> scope_field (s @ CHR '':'' # f) = f"
proof -
  assume "CHR '':'' \<notin> set f"
  then have "\<And>x. x \<in> set (rev f) \<Longrightarrow> x \<noteq> CHR '':''" by auto
  then have "takeWhile (\<lambda>c. c \<noteq> CHR '':'') (rev f @ CHR '':'' # rev s) = rev f"
    by (subst takeWhile_append2) auto
  then show ?thesis by (simp add: scope_field_def)
qed

lemma scope_field_channel:
  assumes "CHR '':'' \<notin> set f"
  shows "scope_field (''channel:'' @ c @ CHR '':'' # f) = f"
  using scope_field_append [OF assms, of "''channel:'' @ c"] by simp

lemmas scope_field_channel_nf = scope_field_channel [simplified]

lemma scope_fields:
  "scope_field (channelLatestScope c) = ''latest_message_id''"
  "scope_field (channelBackfillScope c) = ''backfill_before_id''"
  "scope_field (channelHistoryCompleteScope c) = ''history_complete''"
  "scope_field (channelHistoryVerificationScope c) = ''history_verification_pending''"
  "scope_field (channelVerifiedEmptyScope c) = ''verified_empty''"
  "scope_field (channelMessageUnavailableScope c) = ''unavailable''"
  "scope_field (channelThreadCatalogUnavailableScope c) = ''thread_catalog_unavailable''"
  "scope_field (channelArchivedThreadCursorScope c False) = ''archived_public_threads_after''"
  "scope_field (channelArchivedThreadCursorScope c True) = ''archived_private_threads_after''"
  by (simp_all add: scope_defs scope_field_channel_nf)

lemma scope_field_neq: "scope_field a \<noteq> scope_field b \<Longrightarrow> a \<noteq> b"
  by blast

lemma scope_distinct [simp]:
  "channelLatestScope a \<noteq> channelBackfillScope b"
  "channelLatestScope a \<noteq> channelHistoryCompleteScope b"
  "channelLatestScope a \<noteq> channelHistoryVerificationScope b"
  "channelLatestScope a \<noteq> channelVerifiedEmptyScope b"
  "channelLatestScope a \<noteq> channelMessageUnavailableScope b"
  "channelLatestScope a \<noteq> channelThreadCatalogUnavailableScope b"
  "channelBackfillScope a \<noteq> channelLatestScope b"
  "channelBackfillScope a \<noteq> channelHistoryCompleteScope b"
  "channelBackfillScope a \<noteq> channelHistoryVerificationScope b"
  "channelBackfillScope a \<noteq> channelVerifiedEmptyScope b"
  "channelBackfillScope a \<noteq> channelMessageUnavailableScope b"
  "channelBackfillScope a \<noteq> channelThreadCatalogUnavailableScope b"
  "channelHistoryCompleteScope a \<noteq> channelLatestScope b"
  "channelHistoryCompleteScope a \<noteq> channelBackfillScope b"
  "channelHistoryCompleteScope a \<noteq> channelHistoryVerificationScope b"
  "channelHistoryCompleteScope a \<noteq> channelVerifiedEmptyScope b"
  "channelHistoryCompleteScope a \<noteq> channelMessageUnavailableScope b"
  "channelHistoryCompleteScope a \<noteq> channelThreadCatalogUnavailableScope b"
  "channelHistoryVerificationScope a \<noteq> channelLatestScope b"
  "channelHistoryVerificationScope a \<noteq> channelBackfillScope b"
  "channelHistoryVerificationScope a \<noteq> channelHistoryCompleteScope b"
  "channelHistoryVerificationScope a \<noteq> channelVerifiedEmptyScope b"
  "channelHistoryVerificationScope a \<noteq> channelMessageUnavailableScope b"
  "channelHistoryVerificationScope a \<noteq> channelThreadCatalogUnavailableScope b"
  "channelVerifiedEmptyScope a \<noteq> channelLatestScope b"
  "channelVerifiedEmptyScope a \<noteq> channelBackfillScope b"
  "channelVerifiedEmptyScope a \<noteq> channelHistoryCompleteScope b"
  "channelVerifiedEmptyScope a \<noteq> channelHistoryVerificationScope b"
  "channelVerifiedEmptyScope a \<noteq> channelMessageUnavailableScope b"
  "channelVerifiedEmptyScope a \<noteq> channelThreadCatalogUnavailableScope b"
  "channelMessageUnavailableScope a \<noteq> channelLatestScope b"
  "channelMessageUnavailableScope a \<noteq> channelBackfillScope b"
  "channelMessageUnavailableScope a \<noteq> channelHistoryCompleteScope b"
  "channelMessageUnavailableScope a \<noteq> channelHistoryVerificationScope b"
  "channelMessageUnavailableScope a \<noteq> channelVerifiedEmptyScope b"
  "channelMessageUnavailableScope a \<noteq> channelThreadCatalogUnavailableScope b"
  "channelThreadCatalogUnavailableScope a \<noteq> channelLatestScope b"
  "channelThreadCatalogUnavailableScope a \<noteq> channelBackfillScope b"
  "channelThreadCatalogUnavailableScope a \<noteq> channelHistoryCompleteScope b"
  "channelThreadCatalogUnavailableScope a \<noteq> channelHistoryVerificationScope b"
  "channelThreadCatalogUnavailableScope a \<noteq> channelVerifiedEmptyScope b"
  "channelThreadCatalogUnavailableScope a \<noteq> channelMessageUnavailableScope b"
  by (rule scope_field_neq, simp add: scope_fields)+

lemma scope_inject [simp]:
  "channelLatestScope a = channelLatestScope b \<longleftrightarrow> a = b"
  "channelBackfillScope a = channelBackfillScope b \<longleftrightarrow> a = b"
  "channelHistoryCompleteScope a = channelHistoryCompleteScope b \<longleftrightarrow> a = b"
  "channelHistoryVerificationScope a = channelHistoryVerificationScope b \<longleftrightarrow> a = b"
  "channelVerifiedEmptyScope a = channelVerifiedEmptyScope b \<longleftrightarrow> a = b"
  "channelMessageUnavailableScope a = channelMessageUnavailableScope b \<longleftrightarrow> a = b"
  "channelThreadCatalogUnavailableScope a = channelThreadCatalogUnavailableScope b \<longleftrightarrow> a = b"
  by (simp_all add: scope_defs)

section \<open>The latest cursor only moves forward\<close>

text \<open>A stored latest cursor the writers produce: empty, or a canonical decimal.\<close>

definition cursor_ok :: "string \<Rightarrow> bool" where
  "cursor_ok c \<longleftrightarrow> c = [] \<or> isCanonicalDecimalSnowflake c"

text \<open>The order of latest cursors: the empty cursor first, then by number.\<close>

definition cursor_le :: "string \<Rightarrow> string \<Rightarrow> bool" where
  "cursor_le a b \<longleftrightarrow> a = [] \<or> (b \<noteq> [] \<and> dec_val a \<le> dec_val b)"

lemma cursor_le_refl [simp]: "cursor_le a a"
  by (simp add: cursor_le_def)

lemma cursor_le_trans: "cursor_le a b \<Longrightarrow> cursor_le b c \<Longrightarrow> cursor_le a c"
  by (auto simp: cursor_le_def)

lemma canonical_guard:
  "isCanonicalDecimalSnowflake s \<Longrightarrow>
     list_all is_digit s \<and> (s = ''0'' \<or> \<not> has_prefix s ''0'')"
  by (cases s) (auto simp: isCanonicalDecimalSnowflake_def has_prefix_def)

lemma advance_applies_canonical:
  assumes "cursor_ok (sync_cursor d scope)" and m: "isCanonicalDecimalSnowflake m"
  shows "advance_applies d scope m \<longleftrightarrow> \<not> cursor_le m (sync_cursor d scope)"
proof (cases "map_of (dbSyncState d) scope")
  case None
  then show ?thesis
    using canonical_nonempty [OF m] by (simp add: advance_applies_def cursor_le_def sync_cursor_def)
next
  case (Some r)
  show ?thesis
  proof (cases "srCursor r = []")
    case True
    with Some show ?thesis
      using canonical_nonempty [OF m] by (simp add: advance_applies_def cursor_le_def sync_cursor_def)
  next
    case False
    with assms Some have c: "isCanonicalDecimalSnowflake (srCursor r)"
      by (simp add: cursor_ok_def sync_cursor_def)
    show ?thesis
      using Some False canonical_guard [OF c] canonical_nonempty [OF m] id_less_numeric [OF c m]
      by (auto simp: advance_applies_def cursor_le_def sync_cursor_def)
  qed
qed

text \<open>The effect of one advance statement.\<close>

definition advance_stmt :: "string \<Rightarrow> string \<Rightarrow> instant \<Rightarrow> db \<Rightarrow> db" where
  "advance_stmt scope m now d =
     (if advance_applies d scope m then put_cursor scope m now d else d)"

lemma advance_stmt_cursor:
  assumes "cursor_ok (sync_cursor d scope)" and m: "isCanonicalDecimalSnowflake m"
  shows "cursor_ok (sync_cursor (advance_stmt scope m now d) scope)"
    "cursor_le (sync_cursor d scope) (sync_cursor (advance_stmt scope m now d) scope)"
    "cursor_le m (sync_cursor (advance_stmt scope m now d) scope)"
  using advance_applies_canonical [OF assms] assms canonical_nonempty [OF m]
  by (auto simp: advance_stmt_def cursor_ok_def cursor_le_def)

lemma advance_stmt_other:
  "t \<noteq> scope \<Longrightarrow> sync_cursor (advance_stmt scope m now d) t = sync_cursor d t"
  by (simp add: advance_stmt_def)

lemma advance_stmt_frame [simp]:
  "dbMessages (advance_stmt s m now d) = dbMessages d"
  "dbChannels (advance_stmt s m now d) = dbChannels d"
  by (simp_all add: advance_stmt_def)

text \<open>Every run of \<open>AdvanceChannelLatestMessageID\<close> applies its statement at most once.\<close>

lemma advance_db:
  "wDB (snd (AdvanceChannelLatestMessageID env c m w)) = wDB w \<or>
   (isCanonicalDecimalSnowflake m \<and>
    (\<exists>now. wDB (snd (AdvanceChannelLatestMessageID env c m w))
           = advance_stmt (channelLatestScope c) m now (wDB w)))"
proof -
  have st: "(\<lambda>now d. if advance_applies d s m then put_cursor s m now d else d) = advance_stmt s m"
    for s by (simp add: advance_stmt_def fun_eq_iff)
  show ?thesis
    using db_exec_db [of env "advance_stmt (channelLatestScope c) m" w]
    unfolding AdvanceChannelLatestMessageID_def st Let_def channelLatestScope_def GetSyncState_def
    by (auto split: prod.splits option.splits sum.splits dest!: db_query_Inl db_query_Inr)
qed

lemma advance_success:
  assumes "AdvanceChannelLatestMessageID env c m w = (None, w')" and "m \<noteq> []"
    and "cursor_ok (sync_cursor (wDB w) (channelLatestScope c))"
  shows "cursor_le m (sync_cursor (wDB w') (channelLatestScope c))"
proof -
  have st: "(\<lambda>now d. if advance_applies d s m then put_cursor s m now d else d) = advance_stmt s m"
    for s by (simp add: advance_stmt_def fun_eq_iff)
  from assms(1,2) have m: "isCanonicalDecimalSnowflake m"
    by (auto simp: AdvanceChannelLatestMessageID_def split: if_splits)
  from assms obtain now where "wDB w' = advance_stmt (channelLatestScope c) m now (wDB w)"
    unfolding AdvanceChannelLatestMessageID_def st Let_def channelLatestScope_def GetSyncState_def
    by (auto split: prod.splits option.splits sum.splits if_splits
        dest!: db_exec_None db_query_Inl db_query_Inr)
  with advance_stmt_cursor(3) [OF assms(3) m] show ?thesis by simp
qed

section \<open>Listing markers\<close>

text \<open>A pattern without wildcards matches up to ASCII case; a leading wildcard matches a suffix.\<close>

lemma sql_like_plain:
  "CHR 0x25 \<notin> set p \<Longrightarrow> CHR ''_'' \<notin> set p \<Longrightarrow> sql_like p s \<longleftrightarrow> map lower_char p = map lower_char s"
proof (induction p arbitrary: s)
  case (Cons c p)
  then show ?case by (cases s) auto
qed auto

lemma sql_like_suffix: "sql_like (CHR 0x25 # p) s \<longleftrightarrow> (\<exists>t u. s = t @ u \<and> sql_like p u)"
proof (induction s)
  case (Cons c s)
  have "(\<exists>t u. c # s = t @ u \<and> sql_like p u) \<longleftrightarrow> sql_like p (c # s) \<or> (\<exists>t u. s = t @ u \<and> sql_like p u)"
    by (metis append_Cons append_Nil append_eq_Cons_conv)
  with Cons show ?case by simp
qed simp

lemma marker_like: "sql_like (CHR 0x25 # '':unavailable'') (channelMessageUnavailableScope c)"
  unfolding sql_like_suffix
  by (intro exI [of _ "''channel:'' @ c"] exI [of _ "'':unavailable''"])
    (simp add: channelMessageUnavailableScope_def)

lemma digit_not_e: "is_digit ch \<Longrightarrow> lower_char ch \<noteq> CHR ''e''"
  by (auto simp: is_digit_def lower_char_def Let_def less_eq_char_def)

lemma marker_unique:
  assumes like: "sql_like (CHR 0x25 # '':unavailable'') s" and cut: "cut_prefix s ''channel:'' = (rest, True)"
    and c: "trim_suffix rest '':unavailable'' = c" "c \<noteq> []" "list_all is_digit c"
  shows "s = channelMessageUnavailableScope c"
proof -
  from cut have s: "s = ''channel:'' @ rest" by (auto simp: cut_prefix_def has_prefix_iff split: if_splits)
  show ?thesis
  proof (cases "has_suffix rest '':unavailable''")
    case True
    then obtain t where "rest = t @ '':unavailable''" by (auto simp: has_suffix_iff)
    with c(1) s show ?thesis by (simp add: trim_suffix_def channelMessageUnavailableScope_def)
  next
    case False
    then have "rest = c" using c(1) by (simp add: trim_suffix_def cut_suffix_def)
    with like s obtain t u where u: "''channel:'' @ c = t @ u" "map lower_char u = map lower_char '':unavailable''"
      unfolding sql_like_suffix by (subst (asm) sql_like_plain) auto
    have "last (map lower_char u) = CHR ''e''" unfolding u(2) by (simp add: lower_char_def)
    moreover have "u \<noteq> []" using u(2) by auto
    ultimately have "lower_char (last (''channel:'' @ c)) = CHR ''e''"
      unfolding u(1) by (simp add: last_map)
    moreover have "is_digit (last c)" using c(2,3) by (simp add: list_all_iff)
    ultimately show ?thesis using c(2) digit_not_e by simp
  qed
qed

lemma in_map_filter: "x \<in> set (List.map_filter f xs) \<longleftrightarrow> (\<exists>y \<in> set xs. f y = Some x)"
  by (induction xs) (auto simp: map_filter_simps split: option.splits)

lemma marker_selected:
  "(case cut_prefix s p of (rest, found) \<Rightarrow>
      let channel = trim_suffix rest q in if found \<and> channel \<noteq> [] \<and> A then Some channel else None) = Some c \<longleftrightarrow>
   (\<exists>rest. cut_prefix s p = (rest, True) \<and> trim_suffix rest q = c \<and> c \<noteq> [] \<and> A)"
  by (cases "cut_prefix s p") (auto simp: Let_def)

lemma fresh_marker_iff:
  assumes dist: "distinct (map fst (dbSyncState d))" and c: "c \<noteq> []" "list_all is_digit c"
  shows "c \<in> set (fresh_marker_ids (map (\<lambda>(scope, r). (scope, srUpdatedAt r))
      (sort_key (\<lambda>(scope, r). srUpdatedAt r)
        (filter (\<lambda>(scope, r). sql_like (CHR 0x25 # '':unavailable'') scope) (dbSyncState d)))) now) \<longleftrightarrow>
    (\<exists>r. map_of (dbSyncState d) (channelMessageUnavailableScope c) = Some r \<and>
       UnavailableMarkerActive (srUpdatedAt r) now)" (is "?L \<longleftrightarrow> ?R")
proof -
  have "?L \<longleftrightarrow> (\<exists>s r rest. (s, r) \<in> set (dbSyncState d) \<and> sql_like (CHR 0x25 # '':unavailable'') s \<and>
      cut_prefix s ''channel:'' = (rest, True) \<and> trim_suffix rest '':unavailable'' = c \<and>
      UnavailableMarkerActive (srUpdatedAt r) now)"
    unfolding fresh_marker_ids_def set_sort in_map_filter set_map set_filter
    using c(1) by (auto simp: marker_selected)
  also have "\<dots> \<longleftrightarrow> (\<exists>r. (channelMessageUnavailableScope c, r) \<in> set (dbSyncState d) \<and>
      UnavailableMarkerActive (srUpdatedAt r) now)"
  proof
    assume "\<exists>r. (channelMessageUnavailableScope c, r) \<in> set (dbSyncState d) \<and>
      UnavailableMarkerActive (srUpdatedAt r) now"
    moreover have "cut_prefix (channelMessageUnavailableScope c) ''channel:'' = (c @ '':unavailable'', True)"
      unfolding channelMessageUnavailableScope_def by (rule cut_prefix_append)
    moreover have "trim_suffix (c @ '':unavailable'') '':unavailable'' = c"
      unfolding trim_suffix_def cut_suffix_append by simp
    ultimately show "\<exists>s r rest. (s, r) \<in> set (dbSyncState d) \<and> sql_like (CHR 0x25 # '':unavailable'') s \<and>
      cut_prefix s ''channel:'' = (rest, True) \<and> trim_suffix rest '':unavailable'' = c \<and>
      UnavailableMarkerActive (srUpdatedAt r) now"
      using marker_like by blast
  qed (use marker_unique c in blast)
  also have "\<dots> \<longleftrightarrow> ?R" using dist by simp
  finally show ?thesis .
qed

section \<open>Properties\<close>

lemma advance_step:
  assumes "cursor_ok (sync_cursor (wDB w) (channelLatestScope c))"
  shows "cursor_ok (sync_cursor (wDB (snd (AdvanceChannelLatestMessageID env c m w))) (channelLatestScope c))"
    and "cursor_le (sync_cursor (wDB w) (channelLatestScope c))
           (sync_cursor (wDB (snd (AdvanceChannelLatestMessageID env c m w))) (channelLatestScope c))"
  using advance_db [of env c m w] advance_stmt_cursor [OF assms] assms by auto

text \<open>
  C35. The latest-message cursor never moves backwards: whatever ids arrive in whatever order, and
  however the database fails or reports failure after it committed, a run of advances leaves a
  well-formed cursor that is numerically at least the one it started from, and at least every id
  whose advance reported success.
\<close>
theorem latest_cursor_never_regresses:
  assumes "cursor_ok (sync_cursor (wDB w) (channelLatestScope c))"
  shows "cursor_ok (sync_cursor (wDB (fold (\<lambda>m w. snd (AdvanceChannelLatestMessageID env c m w)) ms w))
      (channelLatestScope c)) \<and>
     cursor_le (sync_cursor (wDB w) (channelLatestScope c))
      (sync_cursor (wDB (fold (\<lambda>m w. snd (AdvanceChannelLatestMessageID env c m w)) ms w))
      (channelLatestScope c)) \<and>
     (fst (AdvanceChannelLatestMessageID env c m w) = None \<longrightarrow> m \<noteq> [] \<longrightarrow>
      cursor_le m (sync_cursor (wDB (fold (\<lambda>m w. snd (AdvanceChannelLatestMessageID env c m w)) (m # ms) w))
      (channelLatestScope c)))"
proof (intro conjI impI)
  let ?L = "channelLatestScope c" and ?run = "\<lambda>ms w. fold (\<lambda>m w. snd (AdvanceChannelLatestMessageID env c m w)) ms w"
  have run: "cursor_ok (sync_cursor (wDB v) ?L) \<Longrightarrow>
      cursor_ok (sync_cursor (wDB (?run ms v)) ?L) \<and> cursor_le (sync_cursor (wDB v) ?L) (sync_cursor (wDB (?run ms v)) ?L)"
    for v ms
  proof (induction ms arbitrary: v)
    case (Cons m ms)
    with advance_step [OF Cons.prems, of env m] show ?case by (auto intro: cursor_le_trans)
  qed simp
  show "cursor_ok (sync_cursor (wDB (?run ms w)) ?L)"
    and "cursor_le (sync_cursor (wDB w) ?L) (sync_cursor (wDB (?run ms w)) ?L)"
    using run assms by auto
  assume s: "fst (AdvanceChannelLatestMessageID env c m w) = None" "m \<noteq> []"
  obtain w' where w': "AdvanceChannelLatestMessageID env c m w = (None, w')" using s(1) by (metis prod.collapse)
  have "cursor_le m (sync_cursor (wDB w') ?L)" using advance_success [OF w' s(2) assms] .
  moreover have "cursor_ok (sync_cursor (wDB w') ?L)" using advance_step(1) [OF assms, of env m] w' by simp
  ultimately show "cursor_le m (sync_cursor (wDB (?run (m # ms) w)) ?L)"
    using run [of w' ms] w' by (auto intro: cursor_le_trans)
qed

definition empty_db :: db where
  "empty_db = \<lparr>dbSyncState = [], dbChannels = [], dbGuilds = [], dbGuildChecks = [], dbMembers = [],
     dbMemberChecks = [], dbMemberFTS = [], dbMessages = [], dbChecks = [], dbChannelChecks = [], dbEvents = [], dbFTS = [],
     dbJobs = [], dbEmbeddings = [], dbEmbeddingHistory = [], dbFailures = [], dbNextFailureID = 1\<rparr>"

definition calm_env :: env where
  "calm_env = \<lparr>envNow = (\<lambda>n. 100 + int n), envDB = (\<lambda>_. None), envCtx = (\<lambda>_. None),
     envMessages = (\<lambda>_ _ _ _. Inr []), envMessage = (\<lambda>_ _ _. Inr None), envChannel = (\<lambda>_ _. Inr None), envCanRead = (\<lambda>_ _. Inr True),
     envGuild = (\<lambda>_ _. Inr None), envGuildMember = (\<lambda>_ _ _. Inr None), envMemberPage = (\<lambda>_ _ _. Inr []),
     envExtract = (\<lambda>_ m. Inr (gContent m, [])), envSideChanged = (\<lambda>_. False), envText = (\<lambda>_ s. Inr (s, [])),
     envCanonicalRaw = (\<lambda>_ raw. raw), envSameRaw = (=), envSameShape = (=),
     envCanonicalChannel = (\<lambda>_ _ raw. raw), envSameChannel = (\<lambda>_. (=)),
     envCanonicalEntity = (\<lambda>_ _ raw. raw), envSameEntity = (\<lambda>_. (=)), envProfileText = (\<lambda>s. s),
     envClass = (\<lambda>_. ''error''), envSanitize = (\<lambda>s. s),
     envJSON = (\<lambda>_. None), envTimeText = show_int, envParseTime = (\<lambda>_. None)\<rparr>"

theorem latest_cursor_never_regresses_witness:
  "cursor_le ''20'' (sync_cursor (wDB (fold (\<lambda>m w. snd (AdvanceChannelLatestMessageID calm_env ''5'' m w))
     [''20'', ''9''] \<lparr>wDB = empty_db, wTick = 0\<rparr>)) (channelLatestScope ''5''))"
proof (rule latest_cursor_never_regresses [THEN conjunct2, THEN conjunct2, rule_format])
  show "cursor_ok (sync_cursor (wDB \<lparr>wDB = empty_db, wTick = 0\<rparr>) (channelLatestScope ''5''))"
    by (simp add: cursor_ok_def sync_cursor_def empty_db_def)
  show "fst (AdvanceChannelLatestMessageID calm_env ''5'' ''20'' \<lparr>wDB = empty_db, wTick = 0\<rparr>) = None"
    by code_simp
qed simp

text \<open>
  Unavailable markers hold a channel back for the retry window and no longer: the listing of
  fresh markers contains a channel (with a decimal id) exactly when its marker row exists, has a
  valid timestamp and is younger than seven days at the time of the listing.
\<close>
theorem unavailable_markers_expire:
  assumes "FreshUnavailableChannelIDs env w = (Inr ids, w')"
    and "distinct (map fst (dbSyncState (wDB w)))" and "c \<noteq> []" and "list_all is_digit c"
  shows "c \<in> set ids \<longleftrightarrow>
    (\<exists>r. map_of (dbSyncState (wDB w)) (channelMessageUnavailableScope c) = Some r \<and>
       \<not> is_zero_time (srUpdatedAt r) \<and> envNow env (wTick w') < srUpdatedAt r + 7 * 24 * hour_ns)"
proof -
  let ?q = "\<lambda>d. map (\<lambda>(scope, r). (scope, srUpdatedAt r)) (sort_key (\<lambda>(scope, r). srUpdatedAt r)
      (filter (\<lambda>(scope, r). sql_like (CHR 0x25 # '':unavailable'') scope) (dbSyncState d)))"
  from assms(1) obtain markers where q: "db_query env ?q w = (Inr markers, w')"
    and ids: "ids = fresh_marker_ids markers (envNow env (wTick w'))"
    by (auto simp: FreshUnavailableChannelIDs_def SyncStateBySuffix_def split: prod.splits sum.splits)
  from db_query_Inr [OF q] have "markers = ?q (wDB w)" by simp
  then show ?thesis
    unfolding ids using fresh_marker_iff [OF assms(2,3,4), of "envNow env (wTick w')"]
    by (simp add: UnavailableMarkerActive_def UnavailableMarkerWindow_def algebra_simps)
qed

theorem unavailable_markers_expire_witness:
  "\<exists>ids w'. FreshUnavailableChannelIDs calm_env
      \<lparr>wDB = empty_db\<lparr>dbSyncState := [(channelMessageUnavailableScope ''5'', \<lparr>srCursor = ''x'', srUpdatedAt = 7\<rparr>)]\<rparr>,
       wTick = 0\<rparr> = (Inr ids, w') \<and> ''5'' \<in> set ids"
proof -
  let ?w = "\<lparr>wDB = empty_db\<lparr>dbSyncState := [(channelMessageUnavailableScope ''5'', \<lparr>srCursor = ''x'', srUpdatedAt = 7\<rparr>)]\<rparr>,
       wTick = 0\<rparr> :: world"
  let ?r = "FreshUnavailableChannelIDs calm_env ?w"
  have "\<not> isl (fst ?r)" by code_simp
  then have r: "?r = (Inr (projr (fst ?r)), snd ?r)" by (metis prod.collapse sum.collapse(2))
  have "wTick (snd ?r) = 1" by code_simp
  then have n: "envNow calm_env (wTick (snd ?r)) = 101" by (simp add: calm_env_def)
  have "''5'' \<in> set (projr (fst ?r))"
    by (subst unavailable_markers_expire [OF r]) (simp_all add: n is_digit_def less_eq_char_def hour_ns_def)
  with r show ?thesis by metis
qed

end
