(* ===== verification/Channels.thy ===== *)
theory Channels
  imports SyncState "HOL-Library.Product_Lexorder" "HOL-Library.Multiset"
begin

text \<open>
  The channel catalog: channel kinds and types, stored rows and live channels, target selection
  (internal/syncer/channel_catalog.go, the selection functions of internal/syncer/message_sync.go
  and internal/syncer/records.go). A nil pointer is \<open>None\<close>. A Go string set is a list read
  through its elements; a Go map is an association list with distinct keys, whose order stands
  for the unspecified iteration order.
\<close>

type_synonym chanp = "dchannel option"
type_synonym strset = "string list"
type_synonym catalog = "(string \<times> dchannel) list"

section \<open>Kinds and types\<close>

definition isThreadChannel :: "chanp \<Rightarrow> bool" where
  "isThreadChannel channel =
     (case channel of None \<Rightarrow> False
      | Some c \<Rightarrow> cType c \<in> {ChannelTypeGuildPublicThread, ChannelTypeGuildPrivateThread,
                             ChannelTypeGuildNewsThread})"

definition isThreadParent :: "chanp \<Rightarrow> bool" where
  "isThreadParent channel =
     (case channel of None \<Rightarrow> False
      | Some c \<Rightarrow> cType c \<in> {ChannelTypeGuildText, ChannelTypeGuildNews, ChannelTypeGuildForum})"

definition IsMessageChannel :: "chanp \<Rightarrow> bool" where
  "IsMessageChannel channel =
     (case channel of None \<Rightarrow> False
      | Some c \<Rightarrow> cType c \<in> {ChannelTypeGuildText, ChannelTypeGuildNews, ChannelTypeGuildVoice,
                             ChannelTypeGuildStageVoice, ChannelTypeGuildPublicThread,
                             ChannelTypeGuildPrivateThread, ChannelTypeGuildNewsThread})"

definition channelKind :: "dchannel \<Rightarrow> string" where
  "channelKind c =
     (if cType c = ChannelTypeGuildCategory then ''category''
      else if cType c = ChannelTypeGuildText then ''text''
      else if cType c = ChannelTypeGuildNews then ''announcement''
      else if cType c = ChannelTypeGuildForum then ''forum''
      else if cType c = ChannelTypeGuildPublicThread then ''thread_public''
      else if cType c = ChannelTypeGuildPrivateThread then ''thread_private''
      else if cType c = ChannelTypeGuildNewsThread then ''thread_announcement''
      else if cType c = ChannelTypeGuildVoice then ''voice''
      else ''type_'' @ show_int (cType c))"

text \<open>\<open>strconv.Atoi\<close>: an optional sign, decimal digits, within 64 bits.\<close>

definition go_atoi :: "string \<Rightarrow> int option" where
  "go_atoi s =
     (let neg = has_prefix s ''-''; body = (if neg \<or> has_prefix s ''+'' then tl s else s);
          v = (if neg then - int (dec_val body) else int (dec_val body)) in
      if body \<noteq> [] \<and> list_all is_digit body \<and> - (2 ^ 63) \<le> v \<and> v < 2 ^ 63
      then Some v else None)"

definition channelTypeFromKind :: "string \<Rightarrow> int" where
  "channelTypeFromKind kind =
     (if kind = ''category'' then ChannelTypeGuildCategory
      else if kind = ''text'' then ChannelTypeGuildText
      else if kind = ''announcement'' then ChannelTypeGuildNews
      else if kind = ''forum'' then ChannelTypeGuildForum
      else if kind = ''thread_public'' then ChannelTypeGuildPublicThread
      else if kind = ''thread_private'' then ChannelTypeGuildPrivateThread
      else if kind = ''thread_announcement'' then ChannelTypeGuildNewsThread
      else if kind = ''voice'' then ChannelTypeGuildVoice
      else if kind = ''stage'' then ChannelTypeGuildStageVoice
      else case cut_prefix kind ''type_'' of
             (raw, True) \<Rightarrow>
               (case go_atoi raw of
                  Some value \<Rightarrow> (if value \<ge> 0 \<and> show_int value = raw then value else - 1)
                | None \<Rightarrow> - 1)
           | (raw, False) \<Rightarrow> - 1)"

definition archivedThreadPrivacy :: "dchannel \<Rightarrow> bool list" where
  "archivedThreadPrivacy c = (if cType c = ChannelTypeGuildText then [False, True] else [False])"

section \<open>Records and rows\<close>

definition toChannelRecord :: "dchannel \<Rightarrow> string \<Rightarrow> channel_record" where
  "toChannelRecord c raw =
     \<lparr>crID = cID c, crGuildID = cGuildID c, crParentID = cParentID c, crKind = channelKind c,
      crName = cName c, crTopic = cTopic c, crPosition = cPosition c, crIsNSFW = cNSFW c,
      crIsArchived = (case cThreadMetadata c of None \<Rightarrow> False | Some m \<Rightarrow> tmArchived m),
      crIsLocked = (case cThreadMetadata c of None \<Rightarrow> False | Some m \<Rightarrow> tmLocked m),
      crIsPrivateThread = (cType c = ChannelTypeGuildPrivateThread),
      crThreadParentID = (case cThreadMetadata c of None \<Rightarrow> [] | Some m \<Rightarrow> cParentID c),
      crArchiveTimestamp = (case cThreadMetadata c of None \<Rightarrow> 0 | Some m \<Rightarrow> tmArchiveTimestamp m),
      crRawJSON = raw\<rparr>"

definition channelFromRow :: "'a channel_record_scheme \<Rightarrow> dchannel" where
  "channelFromRow row =
     \<lparr>cID = crID row, cGuildID = crGuildID row, cParentID = crParentID row, cName = crName row,
      cTopic = crTopic row, cPosition = crPosition row, cNSFW = crIsNSFW row,
      cType = channelTypeFromKind (crKind row), cLastMessageID = [],
      cThreadMetadata =
        (if has_prefix (crKind row) ''thread_''
         then Some \<lparr>tmArchived = crIsArchived row, tmLocked = crIsLocked row,
                    tmArchiveTimestamp = crArchiveTimestamp row\<rparr>
         else None),
      cHasOverwrites = False\<rparr>"

section \<open>Sets and slices\<close>

definition makeGuildSet :: "string list \<Rightarrow> strset" where
  "makeGuildSet ids = remdups (filter (\<lambda>id. id \<noteq> []) ids)"

fun unique_ids_loop :: "string list \<Rightarrow> strset \<Rightarrow> string list \<Rightarrow> string list" where
  "unique_ids_loop [] seen out = out"
| "unique_ids_loop (x # ids) seen out =
     (if x = [] then unique_ids_loop ids seen out
      else if x \<in> set seen then unique_ids_loop ids seen out
      else unique_ids_loop ids (x # seen) (out @ [x]))"

definition uniqueIDs :: "string list \<Rightarrow> string list" where
  "uniqueIDs ids = unique_ids_loop ids [] []"

definition sortChannels :: "dchannel list \<Rightarrow> dchannel list" where
  "sortChannels channels = sort_key (\<lambda>c. (cPosition c, cID c)) channels"

definition mapsToSlice :: "catalog \<Rightarrow> dchannel list" where
  "mapsToSlice m = sortChannels (map snd m)"

definition storedChannelCatalog :: "'a channel_record_scheme list \<Rightarrow> catalog" where
  "storedChannelCatalog rows =
     fold (\<lambda>row out. AList.update (crID row) (channelFromRow row) out) rows []"

definition mergedChannelCatalog :: "catalog \<Rightarrow> catalog \<Rightarrow> catalog" where
  "mergedChannelCatalog base overlay = fold (\<lambda>(k, v) out. AList.update k v out) overlay base"

definition mergeStoredThreadChannels ::
    "catalog \<Rightarrow> 'a channel_record_scheme list \<Rightarrow> catalog" where
  "mergeStoredThreadChannels allChannels rows =
     fold (\<lambda>row m. if \<not> has_prefix (crKind row) ''thread_'' then m
                   else if map_of m (crID row) \<noteq> None then m
                   else AList.update (crID row) (channelFromRow row) m) rows allChannels"

definition selectStoredChannels :: "'a channel_record_scheme list \<Rightarrow> strset \<Rightarrow> catalog" where
  "selectStoredChannels rows requested =
     (if rows = [] \<or> requested = [] then []
      else fold (\<lambda>row out. if crID row \<notin> set requested then out
                           else AList.update (crID row) (channelFromRow row) out) rows [])"

definition includeStoredThreadTargets ::
    "'a channel_record_scheme list \<Rightarrow> string \<Rightarrow> string list \<Rightarrow> string list" where
  "includeStoredThreadTargets rows guildID requested =
     (let targets = makeGuildSet requested;
          parents = map crID (filter (\<lambda>row. let c = channelFromRow row in
             cID c \<in> set targets \<and> cGuildID c = guildID \<and>
             (cType c = ChannelTypeGuildText \<or> cType c = ChannelTypeGuildNews)) rows);
          children = map crID (filter (\<lambda>row. let c = channelFromRow row in
             cParentID c \<in> set parents \<and> cGuildID c = guildID \<and> isThreadChannel (Some c)) rows)
      in sort (remdups (targets @ children)))"

definition canUseStoredTargets :: "catalog \<Rightarrow> strset \<Rightarrow> bool" where
  "canUseStoredTargets storedByID requested =
     (requested \<noteq> [] \<and> length storedByID = length requested \<and>
      (\<forall>(k, c) \<in> set storedByID. cType c \<noteq> ChannelTypeGuildForum))"

definition requestedForumParents :: "catalog \<Rightarrow> strset \<Rightarrow> strset" where
  "requestedForumParents channels requested =
     filter (\<lambda>id. case map_of channels id of
                    None \<Rightarrow> False | Some c \<Rightarrow> cType c = ChannelTypeGuildForum) requested"

text \<open>The inner loop of \<open>selectRequestedChannels\<close>: the live threads of one forum.\<close>

definition thread_children :: "catalog \<Rightarrow> string \<Rightarrow> catalog \<Rightarrow> catalog" where
  "thread_children live forumID m =
     fold (\<lambda>(k, c) m'. if cParentID c \<noteq> forumID \<or> \<not> isThreadChannel (Some c) then m'
                       else AList.update (cID c) c m') live m"

definition selectRequestedChannels :: "catalog \<Rightarrow> catalog \<Rightarrow> strset \<Rightarrow> dchannel list" where
  "selectRequestedChannels liveByID storedByID requested =
     (if requested = [] then []
      else
        let selected = fold (\<lambda>id m. case map_of liveByID id of
                 Some c \<Rightarrow> AList.update id c m
               | None \<Rightarrow> (case map_of storedByID id of
                            Some c \<Rightarrow> AList.update id c m | None \<Rightarrow> m)) requested [];
            expanded = fold (thread_children liveByID)
               (requestedForumParents selected requested) selected
        in mapsToSlice expanded)"

definition unresolvedRequestedIDs :: "dchannel list \<Rightarrow> strset \<Rightarrow> nat" where
  "unresolvedRequestedIDs selected requested =
     length (filter (\<lambda>id. id \<notin> set (map cID selected)) requested)"

definition threadParentIDs :: "dchannel list \<Rightarrow> string list" where
  "threadParentIDs channels = map cID (filter (\<lambda>c. isThreadParent (Some c)) channels)"

definition storedThreadParentIDs :: "'a channel_record_scheme list \<Rightarrow> strset" where
  "storedThreadParentIDs rows =
     remdups (map crParentID
       (filter (\<lambda>row. has_prefix (crKind row) ''thread_'' \<and> crParentID row \<noteq> []) rows))"

definition hydratedObservations ::
    "catalog \<Rightarrow> strset \<Rightarrow> strset \<Rightarrow> dchannel list \<Rightarrow> dchannel list" where
  "hydratedObservations cat liveIDs targets selected =
     (if targets = [] then mapsToSlice cat
      else mapsToSlice (filter (\<lambda>(id, c).
             \<not> ((id \<notin> set liveIDs \<or> id \<in> set targets) \<and> id \<notin> set (map cID selected))) cat))"

section \<open>Message targets\<close>

definition channel_index :: "chanp list \<Rightarrow> catalog" where
  "channel_index channels =
     fold (\<lambda>channel m. case channel of None \<Rightarrow> m | Some c \<Rightarrow> AList.update (cID c) c m) channels []"

definition requestedMessageTarget :: "chanp \<Rightarrow> catalog \<Rightarrow> strset \<Rightarrow> bool" where
  "requestedMessageTarget channel channelByID requested =
     (case channel of
        None \<Rightarrow> False
      | Some c \<Rightarrow>
          if cID c \<in> set requested then True
          else if \<not> isThreadChannel channel then False
          else if cParentID c \<notin> set requested then False
          else (case map_of channelByID (cParentID c) of
                  None \<Rightarrow> False | Some parent \<Rightarrow> cType parent = ChannelTypeGuildForum))"

definition filterMessageChannels :: "chanp list \<Rightarrow> string list \<Rightarrow> dchannel list" where
  "filterMessageChannels channels requested =
     (let requestedSet = makeGuildSet requested; channelByID = channel_index channels in
      List.map_filter id
        (filter (\<lambda>channel. IsMessageChannel channel \<and>
           \<not> (requestedSet \<noteq> [] \<and> \<not> requestedMessageTarget channel channelByID requestedSet))
          channels))"

section \<open>Guild selection\<close>

text \<open>The reachable guilds are given by their ids; \<open>missingGuildIDs\<close> trims and skips duplicates.\<close>

definition selectGuilds :: "string list \<Rightarrow> string list \<Rightarrow> string list" where
  "selectGuilds all requested =
     (if requested = [] then all else filter (\<lambda>g. g \<in> set (makeGuildSet requested)) all)"

fun missing_guild_loop :: "string list \<Rightarrow> string list \<Rightarrow> strset \<Rightarrow> string list \<Rightarrow> string list" where
  "missing_guild_loop available [] seen missing = missing"
| "missing_guild_loop available (raw # ids) seen missing =
     (let x = trim_space raw in
      if x = [] then missing_guild_loop available ids seen missing
      else if x \<in> set seen then missing_guild_loop available ids seen missing
      else missing_guild_loop available ids (x # seen)
             (if x \<in> set available then missing else missing @ [x]))"

definition missingGuildIDs :: "string list \<Rightarrow> string list \<Rightarrow> string list" where
  "missingGuildIDs all requested =
     (if requested = [] then []
      else missing_guild_loop (filter (\<lambda>g. g \<noteq> []) all) requested [] [])"

section \<open>Kinds round trip\<close>

lemma go_atoi_show:
  assumes "0 \<le> i" "i < 2 ^ 63"
  shows "go_atoi (show_int i) = Some i"
proof -
  have d: "show_nat (nat i) \<noteq> []" "list_all is_digit (show_nat (nat i))" "dec_val (show_nat (nat i)) = nat i"
    using show_nat_digits [of "nat i"] by auto
  then have "is_digit (hd (show_nat (nat i)))" by (cases "show_nat (nat i)") auto
  then have "hd (show_nat (nat i)) \<noteq> CHR ''-''" "hd (show_nat (nat i)) \<noteq> CHR ''+''"
    by (auto simp: is_digit_def less_eq_char_def)
  then have "\<not> has_prefix (show_nat (nat i)) ''-''" "\<not> has_prefix (show_nat (nat i)) ''+''"
    using d(1) by (auto simp: has_prefix_def take_Suc)
  then show ?thesis using assms d by (simp add: go_atoi_def show_int_def Let_def)
qed

lemma cut_type_prefix: "cut_prefix (''type_'' @ s) ''type_'' = (s, True)"
  by (rule cut_prefix_append)

lemma kind_of_type:
  assumes "0 \<le> cType c" "cType c < 2 ^ 63"
  shows "channelTypeFromKind (channelKind c) = cType c"
  using assms go_atoi_show [OF assms] cut_type_prefix [of "show_int (cType c)"]
  unfolding channelTypeFromKind_def channelKind_def channel_type_defs
  by (simp split: prod.split option.split)

lemma thread_kind:
  "has_prefix (channelKind c) ''thread_'' \<longleftrightarrow> isThreadChannel (Some c)"
  by (auto simp: channelKind_def isThreadChannel_def channel_type_defs has_prefix_def)

section \<open>Slices do not depend on map order\<close>

lemma filter_same_key:
  "distinct (map f xs) \<Longrightarrow> x \<in> set xs \<Longrightarrow> filter (\<lambda>y. f x = f y) xs = [x]"
  by (induction xs) (auto simp: filter_empty_conv rev_image_eqI)

lemma sort_key_unique:
  assumes "mset xs = mset ys" and d: "distinct (map f xs)"
  shows "sort_key f xs = sort_key f ys"
proof (rule properties_for_sort_key)
  let ?s = "sort_key f ys"
  show m: "mset ?s = mset xs" using assms(1) by simp
  from m have "mset (map f ?s) = mset (map f xs)" by (simp add: mset_map)
  then have ds: "distinct (map f ?s)" using d by (metis mset_eq_imp_distinct_iff)
  fix k
  assume "k \<in> set ?s"
  moreover from this m have "k \<in> set xs" by (metis set_mset_mset)
  ultimately show "filter (\<lambda>x. f k = f x) ?s = filter (\<lambda>x. f k = f x) xs"
    using filter_same_key [OF ds] filter_same_key [OF d] by simp
next
  show "sorted (map f (sort_key f ys))" by simp
qed

lemma mapsToSlice_unordered:
  assumes "mset m = mset m'" and "distinct (map (\<lambda>(k, c). cID c) m)"
  shows "mapsToSlice m = mapsToSlice m'"
  unfolding mapsToSlice_def sortChannels_def
proof (rule sort_key_unique)
  show "mset (map snd m) = mset (map snd m')" using assms(1) by (simp add: mset_map)
  have "distinct (map cID (map snd m))" using assms(2) by (simp add: case_prod_beta' comp_def)
  then show "distinct (map (\<lambda>c. (cPosition c, cID c)) (map snd m))"
    by (auto simp: distinct_map inj_on_def)
qed

lemma set_mapsToSlice [simp]: "set (mapsToSlice m) = snd ` set m"
  by (simp add: mapsToSlice_def sortChannels_def)

section \<open>Selection\<close>

lemma set_makeGuildSet [simp]: "set (makeGuildSet ids) = {i \<in> set ids. i \<noteq> []}"
  by (auto simp: makeGuildSet_def)

lemma makeGuildSet_Nil: "makeGuildSet ids = [] \<longleftrightarrow> (\<forall>i \<in> set ids. i = [])"
  by (auto simp: makeGuildSet_def filter_empty_conv)

lemma unique_ids_loop_props:
  "distinct out \<Longrightarrow> set out = set seen \<Longrightarrow>
     distinct (unique_ids_loop ids seen out) \<and>
     set (unique_ids_loop ids seen out) = set out \<union> {i \<in> set ids. i \<noteq> []}"
  by (induction ids arbitrary: seen out) auto

lemma uniqueIDs_props: "distinct (uniqueIDs ids) \<and> set (uniqueIDs ids) = {i \<in> set ids. i \<noteq> []}"
  using unique_ids_loop_props [of "[]" "[]" ids] by (simp add: uniqueIDs_def)

lemma map_of_select_fold:
  "map_of (fold (\<lambda>i m. case map_of live i of
       Some c \<Rightarrow> AList.update i c m
     | None \<Rightarrow> (case map_of stored i of Some c \<Rightarrow> AList.update i c m | None \<Rightarrow> m)) req m0) x =
   (if x \<in> set req \<and> (map_of live x \<noteq> None \<or> map_of stored x \<noteq> None)
    then (case map_of live x of Some c \<Rightarrow> Some c | None \<Rightarrow> map_of stored x)
    else map_of m0 x)"
  by (induction req arbitrary: m0) (auto simp: update_conv' split: option.splits)

lemma distinct_select_fold:
  "distinct (map fst m0) \<Longrightarrow> distinct (map fst (fold (\<lambda>i m. case map_of live i of
       Some c \<Rightarrow> AList.update i c m
     | None \<Rightarrow> (case map_of stored i of Some c \<Rightarrow> AList.update i c m | None \<Rightarrow> m)) req m0))"
  by (induction req arbitrary: m0) (auto simp: distinct_update split: option.split)

lemma thread_children_Cons:
  "thread_children ((k, c) # live) f m =
     thread_children live f (if cParentID c \<noteq> f \<or> \<not> isThreadChannel (Some c) then m
                             else AList.update (cID c) c m)"
  by (simp add: thread_children_def)

lemma distinct_thread_children:
  "distinct (map fst m) \<Longrightarrow> distinct (map fst (thread_children live f m))"
  by (induction live arbitrary: m) (auto simp: thread_children_Cons distinct_update, simp add: thread_children_def)

lemma map_of_fold_update:
  "distinct (map fst xs) \<Longrightarrow>
     map_of (fold (\<lambda>(k, c). AList.update k c) xs m) x =
       (case map_of xs x of Some c \<Rightarrow> Some c | None \<Rightarrow> map_of m x)"
proof (induction xs arbitrary: m)
  case Nil
  then show ?case by simp
next
  case (Cons kc xs)
  obtain k c where kc: "kc = (k, c)" by (cases kc)
  with Cons.prems have "map_of xs k = None" by (simp add: map_of_eq_None_iff)
  with Cons kc show ?case by (auto simp: update_conv' split: option.split)
qed

lemma map_of_filter_distinct:
  "distinct (map fst xs) \<Longrightarrow>
     map_of (filter P xs) x =
       (case map_of xs x of Some c \<Rightarrow> if P (x, c) then Some c else None | None \<Rightarrow> None)"
proof (induction xs)
  case Nil
  then show ?case by simp
next
  case (Cons kc xs)
  obtain k c where kc: "kc = (k, c)" by (cases kc)
  with Cons.prems have "map_of xs k = None" by (simp add: map_of_eq_None_iff)
  with Cons kc show ?case by (auto split: option.split)
qed

text \<open>A catalog as the sources build it: distinct keys, each the id of its channel.\<close>

definition catalog_ok :: "catalog \<Rightarrow> bool" where
  "catalog_ok m \<longleftrightarrow> distinct (map fst m) \<and> (\<forall>(k, c) \<in> set m. k = cID c)"

lemma catalog_lookup: "catalog_ok m \<Longrightarrow> map_of m k = Some c \<Longrightarrow> k = cID c \<and> (cID c, c) \<in> set m"
  unfolding catalog_ok_def by (drule map_of_SomeD) fastforce

lemma thread_children_filter:
  assumes "\<forall>(k, c) \<in> set live. k = cID c"
  shows "thread_children live f m =
    fold (\<lambda>(k, c). AList.update k c)
      (filter (\<lambda>(k, c). cParentID c = f \<and> isThreadChannel (Some c)) live) m"
  using assms
proof (induction live arbitrary: m)
  case Nil
  then show ?case by (simp add: thread_children_def)
next
  case (Cons kc live)
  then show ?case by (cases kc) (simp add: thread_children_Cons)
qed

text \<open>What the forum expansion adds: the live threads below one of the forums.\<close>

lemma thread_children_step:
  assumes live: "catalog_ok live"
    and m: "\<And>x c. map_of m x = Some c \<Longrightarrow> map_of live x = None \<or> map_of live x = Some c"
  shows "map_of (thread_children live f m) x = Some c \<longleftrightarrow>
    map_of m x = Some c \<or>
    (map_of live x = Some c \<and> cParentID c = f \<and> isThreadChannel (Some c))"
proof -
  let ?P = "\<lambda>(k :: string, c). cParentID c = f \<and> isThreadChannel (Some c)"
  have d: "distinct (map fst live)" using live by (simp add: catalog_ok_def)
  then have d': "distinct (map fst (filter ?P live))" by (rule distinct_map_filter)
  have "thread_children live f m = fold (\<lambda>(k, c). AList.update k c) (filter ?P live) m"
    using live by (intro thread_children_filter) (simp add: catalog_ok_def)
  then show ?thesis
    using m [of x] by (auto simp: map_of_fold_update [OF d'] map_of_filter_distinct [OF d]
        split: option.splits if_splits)
qed

lemma thread_children_fold:
  assumes live: "catalog_ok live"
    and m: "\<And>x c. map_of m x = Some c \<Longrightarrow> map_of live x = None \<or> map_of live x = Some c"
  shows "map_of (fold (thread_children live) fs m) x = Some c \<longleftrightarrow>
    map_of m x = Some c \<or>
    (map_of live x = Some c \<and> cParentID c \<in> set fs \<and> isThreadChannel (Some c))"
  using m
proof (induction fs arbitrary: m)
  case Nil
  then show ?case by simp
next
  case (Cons f fs)
  note step = thread_children_step [OF live, of m f, OF Cons.prems]
  have "map_of (fold (thread_children live) fs (thread_children live f m)) x = Some c \<longleftrightarrow>
    map_of (thread_children live f m) x = Some c \<or>
    (map_of live x = Some c \<and> cParentID c \<in> set fs \<and> isThreadChannel (Some c))"
  proof (rule Cons.IH)
    fix x c
    assume "map_of (thread_children live f m) x = Some c"
    then show "map_of live x = None \<or> map_of live x = Some c"
      using step [of x c] Cons.prems by auto
  qed
  then show ?case using step [of x c] by auto
qed

lemma distinct_thread_fold:
  "distinct (map fst m) \<Longrightarrow> distinct (map fst (fold (thread_children live) fs m))"
  by (induction fs arbitrary: m) (auto simp: distinct_thread_children)

section \<open>Properties\<close>

text \<open>
  Kind texts round trip: a channel type in the range of the API is recovered from the kind
  text that \<open>channelKind\<close> stores for it, and a stored record rebuilds the live channel it came
  from (up to the fields rows do not keep) when thread metadata sits on threads only.
\<close>
theorem channel_row_roundtrip:
  assumes "0 \<le> cType c" and "cType c < 2 ^ 63"
    and "cThreadMetadata c \<noteq> None \<longleftrightarrow> isThreadChannel (Some c)"
  shows "channelTypeFromKind (channelKind c) = cType c \<and>
     channelFromRow (toChannelRecord c raw) = c\<lparr>cLastMessageID := [], cHasOverwrites := False\<rparr>"
  using assms kind_of_type [OF assms(1,2)] thread_kind [of c]
  by (auto simp: channelFromRow_def toChannelRecord_def split: option.splits)

definition sample_thread :: dchannel where
  "sample_thread =
     \<lparr>cID = ''7'', cGuildID = ''1'', cParentID = ''5'', cName = ''t'', cTopic = [], cPosition = 2,
      cNSFW = False, cType = 11, cLastMessageID = [],
      cThreadMetadata = Some \<lparr>tmArchived = True, tmLocked = False, tmArchiveTimestamp = 9\<rparr>,
      cHasOverwrites = False\<rparr>"

definition sample_forum :: dchannel where
  "sample_forum =
     \<lparr>cID = ''5'', cGuildID = ''1'', cParentID = [], cName = ''f'', cTopic = [], cPosition = 1,
      cNSFW = False, cType = 15, cLastMessageID = [], cThreadMetadata = None, cHasOverwrites = True\<rparr>"

theorem channel_row_roundtrip_witness:
  "channelTypeFromKind (channelKind sample_thread) = 11 \<and>
   channelFromRow (toChannelRecord sample_thread ''{}'') = sample_thread"
proof -
  have h: "0 \<le> cType sample_thread" "cType sample_thread < 2 ^ 63"
    "cThreadMetadata sample_thread \<noteq> None \<longleftrightarrow> isThreadChannel (Some sample_thread)"
    by (simp_all add: sample_thread_def isThreadChannel_def channel_type_defs)
  show ?thesis
    using channel_row_roundtrip [OF h, of "''{}''"]
    by (simp add: sample_thread_def)
qed

text \<open>
  The catalog slice is independent of Go's map iteration order: two enumerations of one map
  give the same slice, sorted by position and id, with exactly the map's channels.
\<close>
theorem catalog_slice_deterministic:
  assumes "mset m = mset m'" and "distinct (map (\<lambda>(k, c). cID c) m)"
  shows "mapsToSlice m = mapsToSlice m' \<and>
     sorted (map (\<lambda>c. (cPosition c, cID c)) (mapsToSlice m)) \<and>
     set (mapsToSlice m) = snd ` set m"
  by (intro conjI mapsToSlice_unordered [OF assms]) (simp_all add: mapsToSlice_def sortChannels_def)

theorem catalog_slice_deterministic_witness:
  "mapsToSlice [(''7'', sample_thread), (''5'', sample_forum)] =
   mapsToSlice [(''5'', sample_forum), (''7'', sample_thread)]"
  by (rule catalog_slice_deterministic [THEN conjunct1]) (simp_all add: sample_thread_def sample_forum_def)

text \<open>
  Targeted selection returns exactly the requested channels, live metadata first and stored
  rows as the fallback, plus the live threads whose parent is a requested forum.
\<close>
theorem select_requested_exact:
  assumes live: "catalog_ok live" and stored: "catalog_ok stored"
  shows "c \<in> set (selectRequestedChannels live stored requested) \<longleftrightarrow>
    (cID c \<in> set requested \<and>
       (map_of live (cID c) = Some c \<or> (map_of live (cID c) = None \<and> map_of stored (cID c) = Some c))) \<or>
    (map_of live (cID c) = Some c \<and> isThreadChannel (Some c) \<and> cParentID c \<in> set requested \<and>
     (\<exists>parent. cType parent = ChannelTypeGuildForum \<and>
        (map_of live (cParentID c) = Some parent \<or>
         (map_of live (cParentID c) = None \<and> map_of stored (cParentID c) = Some parent))))"
proof (cases "requested = []")
  case True
  then show ?thesis by (simp add: selectRequestedChannels_def)
next
  case False
  let ?sel = "fold (\<lambda>id m. case map_of live id of
                 Some c \<Rightarrow> AList.update id c m
               | None \<Rightarrow> (case map_of stored id of
                            Some c \<Rightarrow> AList.update id c m | None \<Rightarrow> m)) requested []"
  let ?fs = "requestedForumParents ?sel requested"
  note sel = map_of_select_fold
    [where live = live and stored = stored and req = requested and ?m0.0 = "[]"]
  have compat: "\<And>x c. map_of ?sel x = Some c \<Longrightarrow> map_of live x = None \<or> map_of live x = Some c"
    unfolding sel by (auto split: option.splits if_splits)
  have "\<And>x c. map_of ?sel x = Some c \<Longrightarrow> map_of live x = Some c \<or> map_of stored x = Some c"
    unfolding sel by (auto split: option.splits if_splits)
  then have keyed: "\<And>x c. map_of ?sel x = Some c \<Longrightarrow> x = cID c"
    using catalog_lookup [OF live] catalog_lookup [OF stored] by blast
  have dist: "distinct (map fst (fold (thread_children live) ?fs ?sel))"
    by (intro distinct_thread_fold distinct_select_fold) simp
  have "c \<in> set (selectRequestedChannels live stored requested) \<longleftrightarrow>
      (\<exists>x. map_of (fold (thread_children live) ?fs ?sel) x = Some c)"
    using False map_of_eq_Some_iff [OF dist] by (force simp: selectRequestedChannels_def Let_def)
  also have "\<dots> \<longleftrightarrow> (\<exists>x. map_of ?sel x = Some c \<or>
      (map_of live x = Some c \<and> cParentID c \<in> set ?fs \<and> isThreadChannel (Some c)))"
    by (simp only: thread_children_fold [OF live compat])
  also have "\<dots> \<longleftrightarrow> map_of ?sel (cID c) = Some c \<or>
      (map_of live (cID c) = Some c \<and> cParentID c \<in> set ?fs \<and> isThreadChannel (Some c))"
    using keyed catalog_lookup [OF live] by blast
  finally show ?thesis
    unfolding requestedForumParents_def set_filter mem_Collect_eq sel
    by (auto split: option.splits if_splits)
qed

theorem select_requested_exact_witness:
  "sample_thread \<in> set (selectRequestedChannels [(''7'', sample_thread), (''5'', sample_forum)] [] [''5''])"
proof -
  have ok: "catalog_ok [(''7'', sample_thread), (''5'', sample_forum)]" "catalog_ok []"
    by (simp_all add: catalog_ok_def sample_thread_def sample_forum_def)
  show ?thesis
    unfolding select_requested_exact [OF ok]
    by (simp add: sample_thread_def sample_forum_def isThreadChannel_def channel_type_defs)
qed

text \<open>
  Stored-thread expansion: the targets are the requested ids plus the stored threads, in the
  same guild, whose parent is an explicitly requested text or announcement channel of that guild;
  they come sorted and without duplicates, and a requested leaf never pulls in its siblings.
\<close>
theorem stored_thread_targets:
  "set (includeStoredThreadTargets rows guildID requested) =
     {i \<in> set requested. i \<noteq> []} \<union>
     {crID row |row. row \<in> set rows \<and> crGuildID row = guildID \<and>
        isThreadChannel (Some (channelFromRow row)) \<and>
        (\<exists>parent \<in> set rows. crID parent = crParentID row \<and> crID parent \<in> set requested \<and>
           crID parent \<noteq> [] \<and> crGuildID parent = guildID \<and>
           channelTypeFromKind (crKind parent) \<in> {ChannelTypeGuildText, ChannelTypeGuildNews})} \<and>
   sorted (includeStoredThreadTargets rows guildID requested) \<and>
   distinct (includeStoredThreadTargets rows guildID requested)"
proof -
  have s: "set (includeStoredThreadTargets rows guildID requested) =
     {i \<in> set requested. i \<noteq> []} \<union>
     {crID row |row. row \<in> set rows \<and> crGuildID row = guildID \<and>
        isThreadChannel (Some (channelFromRow row)) \<and>
        (\<exists>parent \<in> set rows. crID parent = crParentID row \<and> crID parent \<in> set requested \<and>
           crID parent \<noteq> [] \<and> crGuildID parent = guildID \<and>
           channelTypeFromKind (crKind parent) \<in> {ChannelTypeGuildText, ChannelTypeGuildNews})}"
    by (auto simp: includeStoredThreadTargets_def Let_def channelFromRow_def image_iff) metis+
  show ?thesis using s by (simp add: includeStoredThreadTargets_def Let_def)
qed

end
