(* ===== verification/Exclusions.thy ===== *)
theory Exclusions
  imports Channels
begin

text \<open>
  Collection exclusions (internal/syncer/channel_exclusions.go) and the collection-scope decision
  (internal/syncer/collection_scope.go). The ancestor walks stop at a repeated channel; each is
  proved to agree with its meaning over the whole ancestry of a channel.
\<close>

record channelExclusions =
  exIDs :: strset
  exKinds :: strset
  exAllowedCategoryIDs :: strset
  exCategoryScopeSet :: bool

definition normalizedStringSet :: "string list \<Rightarrow> bool \<Rightarrow> strset" where
  "normalizedStringSet values lower =
     remdups (filter (\<lambda>v. v \<noteq> [])
       (map (\<lambda>v. let t = trim_space v in if lower then to_lower t else t) values))"

definition newChannelScope :: "string list \<Rightarrow> string list \<Rightarrow> string list \<Rightarrow> channelExclusions" where
  "newChannelScope ids kinds allowedCategoryIDs =
     (let categories = normalizedStringSet allowedCategoryIDs False in
      \<lparr>exIDs = normalizedStringSet ids False, exKinds = normalizedStringSet kinds True,
       exAllowedCategoryIDs = categories, exCategoryScopeSet = (categories \<noteq> [])\<rparr>)"

definition intersectOptionalSets ::
    "strset \<Rightarrow> bool \<Rightarrow> strset \<Rightarrow> bool \<Rightarrow> strset \<times> bool" where
  "intersectOptionalSets left leftSet right rightSet =
     (if \<not> leftSet \<and> \<not> rightSet then ([], False)
      else if \<not> leftSet then (right, True)
      else if \<not> rightSet then (left, True)
      else (filter (\<lambda>v. v \<in> set right) left, True))"

definition merged :: "channelExclusions \<Rightarrow> channelExclusions \<Rightarrow> channelExclusions" where
  "merged e other =
     (case intersectOptionalSets (exAllowedCategoryIDs e) (exCategoryScopeSet e)
             (exAllowedCategoryIDs other) (exCategoryScopeSet other) of
        (allowed, scopeSet) \<Rightarrow>
          \<lparr>exIDs = remdups (exIDs e @ exIDs other), exKinds = remdups (exKinds e @ exKinds other),
           exAllowedCategoryIDs = allowed, exCategoryScopeSet = scopeSet\<rparr>)"

definition excludesID :: "channelExclusions \<Rightarrow> string \<Rightarrow> bool" where
  "excludesID e channelID \<longleftrightarrow> channelID \<in> set (exIDs e)"

definition excludesKind :: "channelExclusions \<Rightarrow> string \<Rightarrow> bool" where
  "excludesKind e raw =
     (let kind = to_lower (trim_space raw) in
      if kind \<in> set (exKinds e) then True
      else if kind = ''thread_announcement'' then ''announcement'' \<in> set (exKinds e)
      else if kind = ''stage'' \<or> kind = ''type_13''
        then ''stage'' \<in> set (exKinds e) \<or> ''type_13'' \<in> set (exKinds e)
      else False)"

section \<open>Ancestor walks\<close>

text \<open>What the walks read of a channel, live or stored: id, kind and parent.\<close>

record cnode =
  nID :: string
  nKind :: string
  nParentID :: string

definition dnode :: "dchannel \<Rightarrow> cnode" where
  "dnode c = \<lparr>nID = cID c, nKind = channelKind c, nParentID = cParentID c\<rparr>"

definition rnode :: "'a channel_record_scheme \<Rightarrow> cnode" where
  "rnode r = \<lparr>nID = crID r, nKind = crKind r, nParentID = crParentID r\<rparr>"

type_synonym nodes = "(string \<times> cnode) list"

definition node_ids :: "nodes \<Rightarrow> string set" where
  "node_ids cat = (\<lambda>(k, n). nID n) ` set cat"

lemma finite_node_ids [simp]: "finite (node_ids cat)"
  by (simp add: node_ids_def)

lemma node_ids_lookup: "map_of cat k = Some n \<Longrightarrow> nID n \<in> node_ids cat"
  by (force simp: node_ids_def dest: map_of_SomeD)

lemma walk_measure:
  assumes "nID cur \<notin> set seen" and "map_of cat k = Some parent"
  shows "card (insert (nID parent) (node_ids cat) - set (nID cur # seen))
       < card (insert (nID cur) (node_ids cat) - set seen)"
proof (rule psubset_card_mono)
  show "finite (insert (nID cur) (node_ids cat) - set seen)" by simp
  show "insert (nID parent) (node_ids cat) - set (nID cur # seen)
      \<subset> insert (nID cur) (node_ids cat) - set seen"
    using assms node_ids_lookup [OF assms(2)] by auto
qed

definition node_excluded :: "channelExclusions \<Rightarrow> cnode \<Rightarrow> bool" where
  "node_excluded e n \<longleftrightarrow>
     excludesID e (nID n) \<or> excludesKind e (nKind n) \<or> excludesID e (nParentID n)"

text \<open>The first loop of \<open>excludesDiscordChannel\<close> and \<open>excludesStoredChannel\<close>.\<close>

function exclusion_walk :: "channelExclusions \<Rightarrow> nodes \<Rightarrow> cnode \<Rightarrow> strset \<Rightarrow> bool" where
  "exclusion_walk e cat cur seen =
     (if node_excluded e cur then True
      else if nID cur \<in> set seen then False
      else (case map_of cat (nParentID cur) of
              None \<Rightarrow> False
            | Some parent \<Rightarrow> exclusion_walk e cat parent (nID cur # seen)))"
  by pat_completeness auto
termination
  by (relation "measure (\<lambda>(e, cat, cur, seen). card (insert (nID cur) (node_ids cat) - set seen))")
    (auto intro: walk_measure [simplified])

text \<open>The loop of \<open>allowsDiscordCategory\<close> and \<open>allowsStoredCategory\<close>.\<close>

lemma category_measure:
  assumes "k \<notin> set seen" and "map_of cat k = Some parent"
  shows "card (set (map fst cat) - set (k # seen)) < card (set (map fst cat) - set seen)"
proof (rule psubset_card_mono)
  show "finite (set (map fst cat) - set seen)" by simp
  have "k \<in> set (map fst cat)" using assms(2) by (force dest: map_of_SomeD)
  then show "set (map fst cat) - set (k # seen) \<subset> set (map fst cat) - set seen"
    using assms(1) by auto
qed

function category_walk :: "channelExclusions \<Rightarrow> nodes \<Rightarrow> cnode \<Rightarrow> strset \<Rightarrow> bool" where
  "category_walk e cat cur seen =
     (if nParentID cur = [] then False
      else if nParentID cur \<in> set (exAllowedCategoryIDs e) then True
      else if nParentID cur \<in> set seen then False
      else (case map_of cat (nParentID cur) of
              None \<Rightarrow> False
            | Some parent \<Rightarrow> category_walk e cat parent (nParentID cur # seen)))"
  by pat_completeness auto
termination
  by (relation "measure (\<lambda>(e, cat, cur, seen). card (set (map fst cat) - set seen))")
    (auto intro: category_measure [simplified])

declare exclusion_walk.simps [simp del] category_walk.simps [simp del]

definition allowsUnparented :: "channelExclusions \<Rightarrow> string \<Rightarrow> bool" where
  "allowsUnparented e channelID =
     (if \<not> exCategoryScopeSet e then True else channelID \<in> set (exAllowedCategoryIDs e))"

definition allowsCategory :: "channelExclusions \<Rightarrow> cnode \<Rightarrow> nodes \<Rightarrow> bool" where
  "allowsCategory e c cat = (if \<not> exCategoryScopeSet e then True else category_walk e cat c [])"

definition excludes_node :: "channelExclusions \<Rightarrow> cnode \<Rightarrow> nodes \<Rightarrow> bool" where
  "excludes_node e c cat =
     (if exclusion_walk e cat c [] then True
      else if nParentID c = [] then \<not> allowsUnparented e (nID c)
      else \<not> allowsCategory e c cat)"

definition catalog_nodes :: "catalog \<Rightarrow> nodes" where
  "catalog_nodes m = map (\<lambda>(k, c). (k, dnode c)) m"

definition excludesDiscordChannel :: "channelExclusions \<Rightarrow> chanp \<Rightarrow> catalog \<Rightarrow> bool" where
  "excludesDiscordChannel e channel channelByID =
     (case channel of None \<Rightarrow> False
      | Some c \<Rightarrow> excludes_node e (dnode c) (catalog_nodes channelByID))"

definition excludesStoredChannel ::
    "channelExclusions \<Rightarrow> 'a channel_record_scheme \<Rightarrow> (string \<times> 'a channel_record_scheme) list \<Rightarrow> bool" where
  "excludesStoredChannel e row channelByID =
     excludes_node e (rnode row) (map (\<lambda>(k, r). (k, rnode r)) channelByID)"

section \<open>Filters\<close>

definition configured :: "channelExclusions \<Rightarrow> bool" where
  "configured e \<longleftrightarrow> exIDs e \<noteq> [] \<or> exKinds e \<noteq> [] \<or> exCategoryScopeSet e"

definition filterExcludedDiscordChannelsWithCatalog ::
    "dchannel list \<Rightarrow> catalog \<Rightarrow> channelExclusions \<Rightarrow> dchannel list" where
  "filterExcludedDiscordChannelsWithCatalog channels channelByID exclusions =
     (if exIDs exclusions = [] \<and> exKinds exclusions = [] \<and> \<not> exCategoryScopeSet exclusions
      then channels
      else filter (\<lambda>c. \<not> excludesDiscordChannel exclusions (Some c) channelByID) channels)"

definition filterExcludedDiscordChannels ::
    "dchannel list \<Rightarrow> channelExclusions \<Rightarrow> dchannel list" where
  "filterExcludedDiscordChannels channels exclusions =
     filterExcludedDiscordChannelsWithCatalog channels (channel_index (map Some channels)) exclusions"

definition filter_excluded_stored_ids ::
    "channelExclusions \<Rightarrow> channel_row list \<Rightarrow> string list \<Rightarrow> string list" where
  "filter_excluded_stored_ids exclusions channels channelIDs =
     (let channelByID = fold (\<lambda>r m. AList.update (crID r) r m) channels [] in
      filter (\<lambda>i. case map_of channelByID i of
                    Some r \<Rightarrow> \<not> excludesStoredChannel exclusions r channelByID
                  | None \<Rightarrow> \<not> excludesID exclusions i) channelIDs)"

definition filterExcludedStoredChannelIDs ::
    "env \<Rightarrow> channelExclusions \<Rightarrow> string \<Rightarrow> string list \<Rightarrow> string list call" where
  "filterExcludedStoredChannelIDs env exclusions guildID channelIDs w =
     (if exIDs exclusions = [] \<and> exKinds exclusions = [] \<and> \<not> exCategoryScopeSet exclusions
      then (Inr channelIDs, w)
      else case db_query env
             (\<lambda>d. filter (\<lambda>r. guildID = [] \<or> crGuildID r = guildID) (dbChannels d)) w of
             (Inl e, w1) \<Rightarrow> (Inl e, w1)
           | (Inr channels, w1) \<Rightarrow> (Inr (filter_excluded_stored_ids exclusions channels channelIDs), w1))"

definition scopedThreadParentIDs :: "dchannel list \<Rightarrow> channelExclusions \<Rightarrow> string list" where
  "scopedThreadParentIDs channels exclusions =
     (let channelByID = channel_index (map Some channels) in
      map cID (filter (\<lambda>c. isThreadParent (Some c) \<and>
                           \<not> excludesDiscordChannel exclusions (Some c) channelByID) channels))"

section \<open>The collection-scope decision\<close>

text \<open>
  \<open>scope\<close> of collection_scope.go. The loop returns a decision, or the ids it has seen when it
  reaches a root of the original channel's guild.
\<close>

function scope_walk ::
    "channelExclusions \<Rightarrow> (string \<times> channel_row) list \<Rightarrow> string \<Rightarrow> channel_row \<Rightarrow> strset \<Rightarrow>
     string + strset" where
  "scope_walk e cat guild c seen =
     (if crDeletedAt c \<noteq> 0 \<or> excludesID e (crID c) \<or> excludesID e (crParentID c) \<or> excludesKind e (crKind c)
      then Inl ''excluded''
      else if crID c \<in> set seen \<or> crGuildID c = [] \<or> crGuildID c \<noteq> guild then Inl ''unknown''
      else if crParentID c = [] then Inr (crID c # seen)
      else (case map_of cat (crParentID c) of
              None \<Rightarrow> Inl ''unknown''
            | Some parent \<Rightarrow> scope_walk e cat guild parent (crID c # seen)))"
  by pat_completeness auto
termination
proof (relation "measure (\<lambda>(e, cat, guild, c, seen).
    card (insert (crID c) (crID ` snd ` set cat) - set seen))", goal_cases)
  case (2 e cat guild c seen parent)
  then have p: "crID parent \<in> crID ` snd ` set cat" by (force dest: map_of_SomeD)
  have "card (insert (crID parent) (crID ` snd ` set cat) - set (crID c # seen))
      < card (insert (crID c) (crID ` snd ` set cat) - set seen)"
    by (rule psubset_card_mono) (use 2 p in auto)
  then show ?case by simp
qed simp

declare scope_walk.simps [simp del]

definition scope :: "channelExclusions \<Rightarrow> string \<Rightarrow> (string \<times> channel_row) list \<Rightarrow> string" where
  "scope e i cat =
     (if excludesID e i then ''excluded''
      else case map_of cat i of
        None \<Rightarrow> ''unknown''
      | Some original \<Rightarrow>
          (case scope_walk e cat (crGuildID original) original [] of
             Inl decision \<Rightarrow> decision
           | Inr seen \<Rightarrow>
               let rows = filter (\<lambda>(k, r). k \<in> set seen) cat in
               if excludesStoredChannel e original rows then ''excluded'' else ''allowed''))"

section \<open>The walks over the whole ancestry\<close>

inductive ancestor :: "nodes \<Rightarrow> cnode \<Rightarrow> cnode \<Rightarrow> bool" for cat c where
  self: "ancestor cat c c"
| parent: "ancestor cat c a \<Longrightarrow> map_of cat (nParentID a) = Some p \<Longrightarrow> ancestor cat c p"

text \<open>A node catalog as the sources index it, with \<open>c\<close> its own entry when it has one.\<close>

definition keyed_nodes :: "nodes \<Rightarrow> bool" where
  "keyed_nodes cat \<longleftrightarrow> (\<forall>k n. map_of cat k = Some n \<longrightarrow> nID n = k \<and> k \<noteq> [])"

lemma ancestor_closed:
  assumes "ancestor cat c a" and "c \<in> V"
    and "\<And>v p. v \<in> V \<Longrightarrow> map_of cat (nParentID v) = Some p \<Longrightarrow> p \<in> V"
  shows "a \<in> V"
  using assms(1) by induction (auto intro: assms)

lemma ancestor_up:
  assumes "ancestor cat p a" and "map_of cat (nParentID c) = Some p"
  shows "ancestor cat c a"
  using assms by induction (auto intro: ancestor.intros)

lemma exclusion_walk_sound: "exclusion_walk e cat c seen \<Longrightarrow> \<exists>a. ancestor cat c a \<and> node_excluded e a"
proof (induction e cat c seen rule: exclusion_walk.induct)
  case (1 e cat cur seen)
  then show ?case
    by (auto simp: exclusion_walk.simps [of e cat cur seen] split: if_splits option.splits
        intro: ancestor.intros ancestor_up)
qed

lemma exclusion_walk_closed:
  assumes "\<not> exclusion_walk e cat c seen" and "keyed_nodes cat"
    and "map_of cat (nID c) = None \<or> map_of cat (nID c) = Some c"
  shows "\<exists>V. c \<in> V \<and> (\<forall>v \<in> V. \<not> node_excluded e v \<and> (v = c \<or> map_of cat (nID v) = Some v) \<and>
    (nID v \<in> set seen \<or> (\<forall>p. map_of cat (nParentID v) = Some p \<longrightarrow> p \<in> V)))"
  using assms
proof (induction e cat c seen rule: exclusion_walk.induct)
  case (1 e cat cur seen)
  from "1.prems"(1) have ex: "\<not> node_excluded e cur"
    by (subst (asm) exclusion_walk.simps) (simp split: if_splits)
  show ?case
  proof (cases "nID cur \<in> set seen \<or> map_of cat (nParentID cur) = None")
    case True
    with ex show ?thesis by (intro exI [of _ "{cur}"]) auto
  next
    case False
    then obtain p where p: "map_of cat (nParentID cur) = Some p" by auto
    then have self: "map_of cat (nID p) = Some p" using "1.prems"(2) by (auto simp: keyed_nodes_def)
    have w: "\<not> exclusion_walk e cat p (nID cur # seen)"
      using "1.prems"(1) False ex p by (subst (asm) exclusion_walk.simps) simp
    from "1.IH" [OF ex _ p w "1.prems"(2)] False self obtain V where V: "p \<in> V"
      "\<forall>v \<in> V. \<not> node_excluded e v \<and> (v = p \<or> map_of cat (nID v) = Some v) \<and>
        (nID v \<in> set (nID cur # seen) \<or> (\<forall>q. map_of cat (nParentID v) = Some q \<longrightarrow> q \<in> V))"
      by auto
    have same: "\<forall>v \<in> V. nID v = nID cur \<longrightarrow> v = cur" using V(2) self "1.prems"(3) by (metis option.inject option.simps(3))
    have "nID v \<in> set seen \<or> (\<forall>q. map_of cat (nParentID v) = Some q \<longrightarrow> q \<in> insert cur V)"
      if v: "v \<in> V" for v
    proof (cases "nID v = nID cur")
      case True
      with same v have "v = cur" by blast
      with p V(1) show ?thesis by simp
    next
      case False
      with V(2) v show ?thesis by auto
    qed
    then have "\<forall>v \<in> insert cur V. \<not> node_excluded e v \<and> (v = cur \<or> map_of cat (nID v) = Some v) \<and>
        (nID v \<in> set seen \<or> (\<forall>q. map_of cat (nParentID v) = Some q \<longrightarrow> q \<in> insert cur V))"
      using V ex p self by auto
    then show ?thesis by (intro exI [of _ "insert cur V"] conjI insertI1)
  qed
qed

lemma exclusion_walk_meaning:
  assumes "keyed_nodes cat" and "map_of cat (nID c) = None \<or> map_of cat (nID c) = Some c"
  shows "exclusion_walk e cat c [] \<longleftrightarrow> (\<exists>a. ancestor cat c a \<and> node_excluded e a)"
proof
  assume r: "\<exists>a. ancestor cat c a \<and> node_excluded e a"
  show "exclusion_walk e cat c []"
  proof (rule ccontr)
    assume "\<not> exclusion_walk e cat c []"
    from exclusion_walk_closed [OF this assms] obtain V where
      "c \<in> V" "\<forall>v \<in> V. \<not> node_excluded e v \<and> (\<forall>p. map_of cat (nParentID v) = Some p \<longrightarrow> p \<in> V)"
      by auto
    then show False using r ancestor_closed by (metis (no_types, lifting))
  qed
qed (rule exclusion_walk_sound)

definition under_allowed :: "channelExclusions \<Rightarrow> cnode \<Rightarrow> bool" where
  "under_allowed e n \<longleftrightarrow> nParentID n \<noteq> [] \<and> nParentID n \<in> set (exAllowedCategoryIDs e)"

lemma category_walk_sound: "category_walk e cat c seen \<Longrightarrow> \<exists>a. ancestor cat c a \<and> under_allowed e a"
proof (induction e cat c seen rule: category_walk.induct)
  case (1 e cat cur seen)
  then show ?case
    by (auto simp: category_walk.simps [of e cat cur seen] under_allowed_def
        split: if_splits option.splits intro: ancestor.intros ancestor_up)
qed

lemma category_walk_closed:
  assumes "\<not> category_walk e cat c seen" and "map_of cat [] = None"
  shows "\<exists>V. c \<in> V \<and> (\<forall>v \<in> V. \<not> under_allowed e v \<and>
    (nParentID v \<in> set seen \<or> (\<forall>p. map_of cat (nParentID v) = Some p \<longrightarrow> p \<in> V)))"
  using assms
proof (induction e cat c seen rule: category_walk.induct)
  case (1 e cat cur seen)
  from "1.prems"(1) have ex: "\<not> under_allowed e cur"
    by (subst (asm) category_walk.simps) (auto simp: under_allowed_def split: if_splits)
  show ?case
  proof (cases "nParentID cur \<in> set seen \<or> map_of cat (nParentID cur) = None")
    case True
    with ex show ?thesis by (intro exI [of _ "{cur}"]) auto
  next
    case False
    then obtain p where p: "map_of cat (nParentID cur) = Some p" by auto
    then have ne: "nParentID cur \<noteq> []" using "1.prems"(2) by auto
    with ex have na: "nParentID cur \<notin> set (exAllowedCategoryIDs e)" by (simp add: under_allowed_def)
    have w: "\<not> category_walk e cat p (nParentID cur # seen)"
      using "1.prems"(1) False ne na p by (subst (asm) category_walk.simps) simp
    from "1.IH" [OF ne na _ p w "1.prems"(2)] False obtain V where V: "p \<in> V"
      "\<forall>v \<in> V. \<not> under_allowed e v \<and> (nParentID v \<in> set (nParentID cur # seen) \<or>
         (\<forall>q. map_of cat (nParentID v) = Some q \<longrightarrow> q \<in> V))"
      by auto
    then show ?thesis using ex p by (intro exI [of _ "insert cur V"]) auto
  qed
qed

lemma category_walk_meaning:
  assumes "map_of cat [] = None"
  shows "category_walk e cat c [] \<longleftrightarrow> (\<exists>a. ancestor cat c a \<and> under_allowed e a)"
proof
  assume r: "\<exists>a. ancestor cat c a \<and> under_allowed e a"
  show "category_walk e cat c []"
  proof (rule ccontr)
    assume "\<not> category_walk e cat c []"
    from category_walk_closed [OF this assms] obtain V where
      "c \<in> V" "\<forall>v \<in> V. \<not> under_allowed e v \<and> (\<forall>p. map_of cat (nParentID v) = Some p \<longrightarrow> p \<in> V)"
      by auto
    then show False using r ancestor_closed by (metis (no_types, lifting))
  qed
qed (rule category_walk_sound)

section \<open>Merged exclusions\<close>

lemma merged_sets [simp]:
  "set (exIDs (merged e f)) = set (exIDs e) \<union> set (exIDs f)"
  "set (exKinds (merged e f)) = set (exKinds e) \<union> set (exKinds f)"
  "exCategoryScopeSet (merged e f) \<longleftrightarrow> exCategoryScopeSet e \<or> exCategoryScopeSet f"
  by (auto simp: merged_def intersectOptionalSets_def)

lemma merged_categories:
  "exCategoryScopeSet e \<Longrightarrow> set (exAllowedCategoryIDs (merged e f)) \<subseteq> set (exAllowedCategoryIDs e)"
  "exCategoryScopeSet f \<Longrightarrow> set (exAllowedCategoryIDs (merged e f)) \<subseteq> set (exAllowedCategoryIDs f)"
  by (auto simp: merged_def intersectOptionalSets_def)

text \<open>\<open>stricter f e\<close>: \<open>f\<close> excludes at least what \<open>e\<close> excludes.\<close>

definition stricter :: "channelExclusions \<Rightarrow> channelExclusions \<Rightarrow> bool" where
  "stricter f e \<longleftrightarrow> set (exIDs e) \<subseteq> set (exIDs f) \<and> set (exKinds e) \<subseteq> set (exKinds f) \<and>
     (exCategoryScopeSet e \<longrightarrow>
        exCategoryScopeSet f \<and> set (exAllowedCategoryIDs f) \<subseteq> set (exAllowedCategoryIDs e))"

lemma merged_stricter: "stricter (merged e f) e" "stricter (merged e f) f"
  using merged_categories [of e f] merged_categories [of f e]
  by (auto simp: stricter_def dest: merged_categories [THEN subsetD])

lemma stricter_node: "stricter f e \<Longrightarrow> node_excluded e n \<Longrightarrow> node_excluded f n"
  by (auto simp: stricter_def node_excluded_def excludesID_def excludesKind_def Let_def split: if_splits)

lemma stricter_exclusion_walk:
  "stricter f e \<Longrightarrow> exclusion_walk e cat c seen \<Longrightarrow> exclusion_walk f cat c seen"
proof (induction e cat c seen rule: exclusion_walk.induct)
  case (1 e cat cur seen)
  then show ?case
    by (auto simp: exclusion_walk.simps [of _ cat cur seen] split: if_splits option.splits
        dest: stricter_node)
qed

lemma stricter_category_walk:
  "set (exAllowedCategoryIDs f) \<subseteq> set (exAllowedCategoryIDs e) \<Longrightarrow>
   category_walk f cat c seen \<Longrightarrow> category_walk e cat c seen"
proof (induction e cat c seen rule: category_walk.induct)
  case (1 e cat cur seen)
  then show ?case
    by (auto simp: category_walk.simps [of _ cat cur seen] split: if_splits option.splits)
qed

lemma stricter_excludes:
  assumes s: "stricter f e" and x: "excludes_node e c cat"
  shows "excludes_node f c cat"
proof (cases "exclusion_walk e cat c []")
  case True
  then show ?thesis using stricter_exclusion_walk [OF s] by (simp add: excludes_node_def)
next
  case False
  with x have set_e: "exCategoryScopeSet e"
    by (auto simp: excludes_node_def allowsUnparented_def allowsCategory_def split: if_splits)
  with s have sub: "exCategoryScopeSet f" "set (exAllowedCategoryIDs f) \<subseteq> set (exAllowedCategoryIDs e)"
    by (auto simp: stricter_def)
  with x False set_e show ?thesis
    using stricter_category_walk [OF sub(2)]
    by (auto simp: excludes_node_def allowsUnparented_def allowsCategory_def split: if_splits)
qed

section \<open>Collection scope and complete ancestry\<close>

type_synonym rows = "(string \<times> channel_row) list"

text \<open>The ancestors of a row up to a root, in order.\<close>

fun ancestry :: "rows \<Rightarrow> channel_row \<Rightarrow> channel_row list \<Rightarrow> bool" where
  "ancestry cat c [] = (crParentID c = [])"
| "ancestry cat c (p # ps) =
     (crParentID c \<noteq> [] \<and> map_of cat (crParentID c) = Some p \<and> ancestry cat p ps)"

definition keyed_rows :: "rows \<Rightarrow> bool" where
  "keyed_rows cat \<longleftrightarrow> (\<forall>k r. map_of cat k = Some r \<longrightarrow> crID r = k \<and> k \<noteq> [])"

text \<open>What the loop of \<open>scope\<close> requires of each row it meets.\<close>

definition row_admissible :: "channelExclusions \<Rightarrow> string \<Rightarrow> channel_row \<Rightarrow> bool" where
  "row_admissible e guild r \<longleftrightarrow>
     crDeletedAt r = 0 \<and> \<not> node_excluded e (rnode r) \<and> crGuildID r = guild \<and> guild \<noteq> []"

lemma node_excluded_rnode:
  "node_excluded e (rnode r) \<longleftrightarrow>
     excludesID e (crID r) \<or> excludesKind e (crKind r) \<or> excludesID e (crParentID r)"
  by (simp add: node_excluded_def rnode_def)

lemma ancestry_unique: "ancestry cat c ps \<Longrightarrow> ancestry cat c qs \<Longrightarrow> ps = qs"
proof (induction ps arbitrary: c qs)
  case Nil
  then show ?case by (cases qs) auto
next
  case (Cons p ps)
  then show ?case by (cases qs) auto
qed

lemma ancestry_suffix: "ancestry cat c ps \<Longrightarrow> a \<in> set ps \<Longrightarrow>
    map_of cat (crID a) = Some a \<or> \<not> keyed_rows cat"
  by (induction ps arbitrary: c) (auto simp: keyed_rows_def)

lemma ancestry_tail: "ancestry cat c ps \<Longrightarrow> a \<in> set ps \<Longrightarrow> \<exists>qs. ancestry cat a qs \<and> length qs < length ps"
proof (induction ps arbitrary: c)
  case (Cons p ps)
  then show ?case by (cases "a = p") (auto intro: less_SucI)
qed simp

lemma ancestry_distinct:
  assumes "keyed_rows cat"
  shows "ancestry cat c ps \<Longrightarrow> map_of cat (crID c) = Some c \<Longrightarrow> distinct (map crID (c # ps))"
proof (induction ps arbitrary: c)
  case (Cons p ps)
  have "crID c \<notin> crID ` set (p # ps)"
  proof
    assume "crID c \<in> crID ` set (p # ps)"
    then obtain a where a: "a \<in> set (p # ps)" "crID a = crID c" by (metis imageE)
    from ancestry_suffix [OF Cons.prems(1) a(1)] assms have "map_of cat (crID a) = Some a" by blast
    with Cons.prems(2) a(2) have "a = c" by (metis option.inject)
    with a(1) have "c \<in> set (p # ps)" by simp
    from ancestry_tail [OF Cons.prems(1) this] obtain qs where
      qs: "ancestry cat c qs" "length qs < length (p # ps)" by (elim exE conjE)
    from ancestry_unique [OF Cons.prems(1) qs(1)] qs(2) show False by simp
  qed
  moreover have "map_of cat (crID p) = Some p"
    using ancestry_suffix [OF Cons.prems(1), of p] assms by simp
  then have "distinct (map crID (p # ps))"
    using Cons.IH [of p] Cons.prems(1) by (simp only: ancestry.simps)
  ultimately show ?case by simp
qed simp

lemma scope_walk_Inr:
  "scope_walk e cat guild c seen = Inr s \<Longrightarrow>
     \<exists>ps. ancestry cat c ps \<and> (\<forall>a \<in> set (c # ps). row_admissible e guild a) \<and>
          set s = crID ` set (c # ps) \<union> set seen"
proof (induction e cat guild c seen rule: scope_walk.induct)
  case (1 e cat guild c seen)
  then have adm: "row_admissible e guild c"
    by (auto simp: scope_walk.simps [of e cat guild c seen] row_admissible_def node_excluded_rnode
        split: if_splits)
  show ?case
  proof (cases "crParentID c = []")
    case True
    with 1(2) adm show ?thesis
      by (subst (asm) scope_walk.simps) (auto split: if_splits intro: exI [of _ "[]"])
  next
    case False
    with 1(2) obtain p where p: "map_of cat (crParentID c) = Some p"
      "scope_walk e cat guild p (crID c # seen) = Inr s"
      "\<not> (crDeletedAt c \<noteq> 0 \<or> excludesID e (crID c) \<or> excludesID e (crParentID c) \<or> excludesKind e (crKind c))"
      "\<not> (crID c \<in> set seen \<or> crGuildID c = [] \<or> crGuildID c \<noteq> guild)"
      by (subst (asm) scope_walk.simps) (auto split: if_splits option.splits)
    from 1(1) [OF p(3,4) False p(1,2)] obtain ps where "ancestry cat p ps"
      "\<forall>a \<in> set (p # ps). row_admissible e guild a" "set s = crID ` set (p # ps) \<union> set (crID c # seen)"
      by blast
    with adm p False show ?thesis by (intro exI [of _ "p # ps"]) auto
  qed
qed

lemma scope_decision: "scope_walk e cat guild c seen = Inl d \<Longrightarrow> d \<noteq> ''allowed''"
proof (induction e cat guild c seen rule: scope_walk.induct)
  case (1 e cat guild c seen)
  then show ?case
    by (auto simp: scope_walk.simps [of e cat guild c seen] split: if_splits option.splits)
qed

lemma scope_walk_ancestry:
  "ancestry cat c ps \<Longrightarrow> (\<forall>a \<in> set (c # ps). row_admissible e guild a) \<Longrightarrow>
   distinct (map crID (c # ps)) \<Longrightarrow> set (map crID (c # ps)) \<inter> set seen = {} \<Longrightarrow>
   \<exists>s. scope_walk e cat guild c seen = Inr s \<and> set s = crID ` set (c # ps) \<union> set seen"
proof (induction ps arbitrary: c seen)
  case Nil
  then show ?case
    by (subst scope_walk.simps) (auto simp: row_admissible_def node_excluded_rnode)
next
  case (Cons p ps)
  from Cons.IH [of p "crID c # seen"] Cons.prems obtain s where
    "scope_walk e cat guild p (crID c # seen) = Inr s" "set s = crID ` set (p # ps) \<union> set (crID c # seen)"
    by auto
  with Cons.prems show ?case
    by (subst scope_walk.simps) (auto simp: row_admissible_def node_excluded_rnode)
qed

lemma exclusion_walk_ancestry:
  "ancestry cat c ps \<Longrightarrow> keyed_rows cat \<Longrightarrow> (\<forall>a \<in> set (c # ps). \<not> node_excluded e (rnode a)) \<Longrightarrow>
   \<not> exclusion_walk e (map (\<lambda>(k, r). (k, rnode r)) cat) (rnode c) seen"
proof (induction ps arbitrary: c seen)
  case Nil
  then have "map_of (map (\<lambda>(k, r). (k, rnode r)) cat) [] = None"
    by (cases "map_of cat []") (auto simp: map_of_map keyed_rows_def)
  with Nil show ?case by (subst exclusion_walk.simps) (simp add: rnode_def)
next
  case (Cons p ps)
  then show ?case by (subst exclusion_walk.simps) (simp add: rnode_def map_of_map)
qed

lemma category_walk_ancestry:
  "ancestry cat c ps \<Longrightarrow> keyed_rows cat \<Longrightarrow> distinct (map crID ps) \<Longrightarrow>
   set (map crID ps) \<inter> set seen = {} \<Longrightarrow>
   category_walk e (map (\<lambda>(k, r). (k, rnode r)) cat) (rnode c) seen \<longleftrightarrow>
     (\<exists>a \<in> set ps. crID a \<in> set (exAllowedCategoryIDs e))"
proof (induction ps arbitrary: c seen)
  case Nil
  then show ?case by (subst category_walk.simps) (simp add: rnode_def)
next
  case (Cons p ps)
  then have p: "crParentID c \<noteq> []" "crID p = crParentID c" "map_of cat (crParentID c) = Some p"
    by (auto simp: keyed_rows_def)
  with Cons.IH [of p "crID p # seen"] Cons.prems show ?case
    by (subst category_walk.simps) (auto simp: rnode_def map_of_map)
qed

lemma map_of_filter_key: "map_of (filter (\<lambda>(k, r). k \<in> S) cat) k = (if k \<in> S then map_of cat k else None)"
  by (induction cat) auto

lemma ancestry_filter:
  "ancestry cat c ps \<Longrightarrow> keyed_rows cat \<Longrightarrow> crID ` set ps \<subseteq> S \<Longrightarrow>
     ancestry (filter (\<lambda>(k, r). k \<in> S) cat) c ps"
  by (induction ps arbitrary: c) (auto simp: map_of_filter_key keyed_rows_def)

text \<open>The last step of \<open>scope\<close>, on the rows of a complete admissible ancestry.\<close>

definition category_gate :: "channelExclusions \<Rightarrow> channel_row \<Rightarrow> channel_row list \<Rightarrow> bool" where
  "category_gate e c ps \<longleftrightarrow> \<not> exCategoryScopeSet e \<or>
     (if ps = [] then crID c \<in> set (exAllowedCategoryIDs e)
      else \<exists>a \<in> set ps. crID a \<in> set (exAllowedCategoryIDs e))"

lemma excludes_ancestry:
  assumes "ancestry cat c ps" "keyed_rows cat" "distinct (map crID ps)"
    and "\<forall>a \<in> set (c # ps). row_admissible e guild a"
  shows "excludesStoredChannel e c cat \<longleftrightarrow> \<not> category_gate e c ps"
proof -
  have "\<not> exclusion_walk e (map (\<lambda>(k, r). (k, rnode r)) cat) (rnode c) []"
    using assms(1,2,4) by (intro exclusion_walk_ancestry) (auto simp: row_admissible_def)
  moreover have "category_walk e (map (\<lambda>(k, r). (k, rnode r)) cat) (rnode c) [] \<longleftrightarrow>
     (\<exists>a \<in> set ps. crID a \<in> set (exAllowedCategoryIDs e))"
    using category_walk_ancestry [OF assms(1,2,3), of "[]"] by simp
  moreover have "crParentID c = [] \<longleftrightarrow> ps = []" using assms(1) by (cases ps) auto
  ultimately show ?thesis
    by (simp add: excludesStoredChannel_def excludes_node_def allowsUnparented_def allowsCategory_def
        category_gate_def) (simp add: rnode_def)
qed

lemma scope_allowed_iff:
  assumes k: "keyed_rows cat"
  shows "scope e i cat = ''allowed'' \<longleftrightarrow>
    (\<exists>c ps. map_of cat i = Some c \<and> ancestry cat c ps \<and>
       (\<forall>a \<in> set (c # ps). row_admissible e (crGuildID c) a) \<and> category_gate e c ps)"
    (is "?allowed \<longleftrightarrow> ?good")
proof -
  have core: "scope_walk e cat (crGuildID c) c [] = Inr s \<Longrightarrow> map_of cat i = Some c \<Longrightarrow>
      ancestry cat c ps \<Longrightarrow> \<forall>a \<in> set (c # ps). row_admissible e (crGuildID c) a \<Longrightarrow>
      set s = crID ` set (c # ps) \<Longrightarrow> ?allowed \<longleftrightarrow> category_gate e c ps" for c s ps
  proof -
    assume h: "scope_walk e cat (crGuildID c) c [] = Inr s" "map_of cat i = Some c" "ancestry cat c ps"
      "\<forall>a \<in> set (c # ps). row_admissible e (crGuildID c) a" "set s = crID ` set (c # ps)"
    let ?rows = "filter (\<lambda>(k, r). k \<in> set s) cat"
    from k h(2) have i: "crID c = i" by (simp add: keyed_rows_def)
    have d: "distinct (map crID ps)" using ancestry_distinct [OF k h(3)] h(2) i by simp
    have kr: "keyed_rows ?rows" using k by (auto simp: keyed_rows_def map_of_filter_key split: if_splits)
    have "ancestry ?rows c ps" using h k by (intro ancestry_filter) auto
    from excludes_ancestry [OF this kr d h(4)] h i show ?thesis
      by (auto simp: scope_def row_admissible_def node_excluded_rnode)
  qed
  show ?thesis
  proof
    assume a: ?allowed
    then obtain c s where c: "map_of cat i = Some c" "scope_walk e cat (crGuildID c) c [] = Inr s"
      using scope_decision [of e cat _ _ "[]"] by (auto simp: scope_def split: if_splits option.splits sum.splits)
    from scope_walk_Inr [OF c(2)] obtain ps where "ancestry cat c ps"
      "\<forall>a \<in> set (c # ps). row_admissible e (crGuildID c) a" "set s = crID ` set (c # ps)" by auto
    with core [OF c(2,1)] a c show ?good by blast
  next
    assume ?good
    then obtain c ps where g: "map_of cat i = Some c" "ancestry cat c ps"
      "\<forall>a \<in> set (c # ps). row_admissible e (crGuildID c) a" "category_gate e c ps" by blast
    have "distinct (map crID (c # ps))"
      using ancestry_distinct [OF k g(2)] g(1) k by (simp add: keyed_rows_def)
    from scope_walk_ancestry [OF g(2,3) this, of "[]"] obtain s where
      "scope_walk e cat (crGuildID c) c [] = Inr s" "set s = crID ` set (c # ps)" by auto
    with core g show ?allowed by blast
  qed
qed

section \<open>Properties\<close>

lemma catalog_nodes_lookup: "map_of (catalog_nodes m) k = map_option dnode (map_of m k)"
  by (simp add: catalog_nodes_def map_of_map)

lemma catalog_nodes_keyed:
  assumes "catalog_ok m" and "map_of m [] = None"
  shows "keyed_nodes (catalog_nodes m)"
  unfolding keyed_nodes_def catalog_nodes_lookup
  using assms catalog_lookup [OF assms(1)] by (auto simp: dnode_def)

text \<open>
  C34. An exclusion reaches through the whole ancestry: a live channel is excluded exactly when the
  channel or one of its ancestors in the catalog (or the id of an ancestor's missing parent) matches
  an excluded id or kind, or category scoping is on and neither the parentless channel itself nor an
  ancestor lies in an allowed category. Parent cycles in the catalog do not change the answer.
\<close>
theorem exclusion_covers_ancestry:
  assumes cat: "catalog_ok m" and root: "map_of m [] = None" and c: "map_of m (cID c) = Some c"
  shows "excludesDiscordChannel e (Some c) m \<longleftrightarrow>
    (\<exists>a. ancestor (catalog_nodes m) (dnode c) a \<and> node_excluded e a) \<or>
    (exCategoryScopeSet e \<and>
      (if cParentID c = [] then cID c \<notin> set (exAllowedCategoryIDs e)
       else \<not> (\<exists>a. ancestor (catalog_nodes m) (dnode c) a \<and> under_allowed e a)))"
proof -
  have r: "map_of (catalog_nodes m) [] = None" using root by (simp add: catalog_nodes_lookup)
  have s: "map_of (catalog_nodes m) (nID (dnode c)) = Some (dnode c)"
    using c by (simp add: catalog_nodes_lookup) (simp add: dnode_def)
  have ids: "nID (dnode c) = cID c" "nParentID (dnode c) = cParentID c" by (simp_all add: dnode_def)
  show ?thesis
    using exclusion_walk_meaning [OF catalog_nodes_keyed [OF cat root], of "dnode c" e] s
      category_walk_meaning [OF r, of e "dnode c"]
    by (auto simp: excludesDiscordChannel_def excludes_node_def allowsUnparented_def
        allowsCategory_def ids)
qed

definition ban :: "string \<Rightarrow> channelExclusions" where
  "ban i = \<lparr>exIDs = [i], exKinds = [], exAllowedCategoryIDs = [], exCategoryScopeSet = False\<rparr>"

theorem exclusion_covers_ancestry_witness:
  "excludesDiscordChannel (ban ''5'') (Some sample_thread) [(''7'', sample_thread), (''5'', sample_forum)]"
proof -
  let ?m = "[(''7'', sample_thread), (''5'', sample_forum)]"
  have h: "catalog_ok ?m" "map_of ?m [] = None" "map_of ?m (cID sample_thread) = Some sample_thread"
    by (simp_all add: catalog_ok_def sample_thread_def sample_forum_def)
  have "ancestor (catalog_nodes ?m) (dnode sample_thread) (dnode sample_forum)"
    by (rule ancestor.parent [OF ancestor.self])
      (simp add: catalog_nodes_lookup, simp add: dnode_def sample_thread_def)
  moreover have "node_excluded (ban ''5'') (dnode sample_forum)"
    by (simp add: node_excluded_def excludesID_def ban_def dnode_def sample_forum_def)
  ultimately show ?thesis unfolding exclusion_covers_ancestry [OF h] by blast
qed

text \<open>
  Merging never loosens: whatever either policy excludes, live or stored, the merged policy
  excludes, for every catalog.
\<close>
theorem merged_never_loosens:
  "(excludesDiscordChannel e c m \<or> excludesDiscordChannel f c m \<longrightarrow>
      excludesDiscordChannel (merged e f) c m) \<and>
     (excludesStoredChannel e r rs \<or> excludesStoredChannel f r rs \<longrightarrow>
      excludesStoredChannel (merged e f) r rs)"
  using stricter_excludes [OF merged_stricter(1) [of e f]] stricter_excludes [OF merged_stricter(2) [of e f]]
  by (auto simp: excludesDiscordChannel_def excludesStoredChannel_def split: option.splits)

theorem merged_never_loosens_witness:
  "excludesDiscordChannel (merged (ban ''1'') (ban ''5'')) (Some sample_forum) []"
proof (rule merged_never_loosens [THEN conjunct1, THEN mp], rule disjI2)
  show "excludesDiscordChannel (ban ''5'') (Some sample_forum) []"
    by (simp add: excludesDiscordChannel_def excludes_node_def exclusion_walk.simps node_excluded_def
        excludesID_def ban_def dnode_def sample_forum_def)
qed

text \<open>
  The collection-scope decision fails closed: a stored channel is allowed exactly when its row
  exists, its parents lead through existing rows to a root, and every row of that ancestry is free
  of tombstones, of excluded ids, kinds and parents, and of one non-empty guild; with category
  scoping on, an allowed category must lie on the path. In particular a missing parent, a parent
  cycle or a guild change is never allowed.
\<close>
theorem scope_allowed_exact:
  assumes "keyed_rows cat"
  shows "scope e i cat = ''allowed'' \<longleftrightarrow>
    (\<exists>c ps. map_of cat i = Some c \<and> ancestry cat c ps \<and>
       (\<forall>a \<in> set (c # ps). row_admissible e (crGuildID c) a) \<and> category_gate e c ps)"
  using assms by (rule scope_allowed_iff)

definition sample_row :: channel_row where
  "sample_row = \<lparr>crID = ''5'', crGuildID = ''1'', crParentID = [], crKind = ''forum'', crName = ''f'',
     crTopic = [], crPosition = 1, crIsNSFW = False, crIsArchived = False, crIsLocked = False,
     crIsPrivateThread = False, crThreadParentID = [], crArchiveTimestamp = 0, crRawJSON = ''{}'',
     crDeletedAt = 0, crDeletionSource = [], crCollectionScope = ''unknown'', crScopePolicy = [],
     crUpdatedAt = 0\<rparr>"

definition sample_child :: channel_row where
  "sample_child = sample_row\<lparr>crID := ''7'', crParentID := ''5'', crKind := ''thread_public''\<rparr>"

theorem scope_allowed_exact_witness:
  "scope (ban ''9'') ''7'' [(''7'', sample_child), (''5'', sample_row)] = ''allowed''"
proof -
  let ?cat = "[(''7'', sample_child), (''5'', sample_row)]"
  have k: "keyed_rows ?cat" by (simp add: keyed_rows_def sample_child_def sample_row_def)
  have "ancestry ?cat sample_child [sample_row]" by (simp add: sample_child_def sample_row_def)
  moreover have "\<forall>a \<in> set [sample_child, sample_row]. row_admissible (ban ''9'') (crGuildID sample_child) a"
    by (simp add: row_admissible_def node_excluded_rnode excludesID_def excludesKind_def ban_def
        sample_child_def sample_row_def Let_def)
  moreover have "category_gate (ban ''9'') sample_child [sample_row]"
    by (simp add: category_gate_def ban_def)
  ultimately show ?thesis unfolding scope_allowed_exact [OF k] by fastforce
qed

end
