(* ===== verification/SnapshotFilter.thy ===== *)
theory SnapshotFilter
  imports Channels "HOL-Library.Word"
begin

unbundle bit_operations_syntax

text \<open>
  The publication filter (internal/share/filter.go): which rows of the archive a published snapshot
  may contain. The public-channel decision is memoised over shared maps in the source; it is modelled
  with that state and proved equal to an inductive specification of a public channel, whatever order
  the channel map is enumerated in.
\<close>

section \<open>Options and data\<close>

record FilterOptions =
  PublicOnly :: bool
  IncludeChannelIDs :: "string list"
  ExcludeChannelIDs :: "string list"

definition stringSet :: "string list \<Rightarrow> strset" where
  "stringSet xs = remdups (filter (\<lambda>v. v \<noteq> []) (map trim_space xs))"

definition Active :: "FilterOptions \<Rightarrow> bool" where
  "Active opts \<longleftrightarrow>
     PublicOnly opts \<or> stringSet (IncludeChannelIDs opts) \<noteq> [] \<or> stringSet (ExcludeChannelIDs opts) \<noteq> []"

text \<open>\<open>scDeletedAt\<close> is the column's text, empty for NULL.\<close>

record snapshotChannel =
  scID :: string
  scGuildID :: string
  scParentID :: string
  scThreadParentID :: string
  scKind :: string
  scIsPrivateThread :: bool
  scRawJSON :: string
  scCollectionScope :: string
  scDeletedAt :: string

record snapshotFilter =
  sfActive :: bool
  sfPublicOnly :: bool
  sfInclude :: strset
  sfExclude :: strset
  sfAllowedChannels :: strset
  sfAllowedGuilds :: strset
  sfAllowedMembers :: "(string \<times> strset) list"
  sfAllowedMessageIDs :: strset
  sfChannels :: "(string \<times> snapshotChannel) list"
  sfGuilds :: "(string \<times> string) list"
  sfPublicMemo :: "(string \<times> bool) list"
  sfPublicSeen :: strset
  sfPublicMissing :: "(string \<times> bool) list"
  sfUnavailable :: strset

text \<open>
  The tables the filter reads. \<open>smAuthor = None\<close> is a NULL author; \<open>sdFault\<close> is the outcome of
  the query on a table.
\<close>

record snap_message =
  smID :: string
  smGuildID :: string
  smChannelID :: string
  smAuthor :: "string option"

record snap_mention =
  snGuildID :: string
  snChannelID :: string
  snTargetType :: string
  snTargetID :: string

record snap_db =
  sdGuilds :: "(string \<times> string \<times> string) list"
  sdChannels :: "snapshotChannel list"
  sdScopes :: "string list"
  sdMessages :: "snap_message list"
  sdMentions :: "snap_mention list"
  sdFault :: "string \<Rightarrow> go_error option"

definition directMessageGuildID :: string where
  "directMessageGuildID = ''@me''"

definition channelParentID :: "snapshotChannel \<Rightarrow> string" where
  "channelParentID ch = (if scThreadParentID ch \<noteq> [] then scThreadParentID ch else scParentID ch)"

section \<open>Permission bits\<close>

definition permissionViewChannel :: "64 word" where
  "permissionViewChannel = push_bit 10 1"

text \<open>With \<open>UseNumber\<close> a number is a \<open>json.Number\<close>; \<open>strconv.ParseInt\<close> in base 10, 64 bits.\<close>

fun parsePermissionBits :: "json \<Rightarrow> 64 word option" where
  "parsePermissionBits JNull = Some 0"
| "parsePermissionBits (JStr s) = map_option word_of_int (go_atoi s)"
| "parsePermissionBits (JNum s) = map_option word_of_int (go_atoi s)"
| "parsePermissionBits v = None"

fun isRoleOverwrite :: "json \<Rightarrow> bool" where
  "isRoleOverwrite (JNum s) = (go_atoi s = Some 0)"
| "isRoleOverwrite (JStr s) = (s = ''0'' \<or> map lower_char s = ''role'')"
| "isRoleOverwrite v = False"

definition dec_role :: "json \<Rightarrow> (string \<times> json) option" where
  "dec_role v =
     (case dec_fields v of None \<Rightarrow> None
      | Some fs \<Rightarrow> (case dec_string (key_values ''id'' fs) [] of None \<Rightarrow> None
          | Some i \<Rightarrow> Some (i, dec_any (key_values ''permissions'' fs))))"

definition dec_roles :: "json_reader \<Rightarrow> string \<Rightarrow> (string \<times> json) list option" where
  "dec_roles dec raw =
     (case dec raw of None \<Rightarrow> None
      | Some v \<Rightarrow> (case dec_fields v of None \<Rightarrow> None
          | Some fs \<Rightarrow> map_option (\<lambda>r. case r of None \<Rightarrow> [] | Some rs \<Rightarrow> rs)
                         (dec_slice dec_role (key_values ''roles'' fs) None)))"

definition everyoneGuildPermissions :: "json_reader \<Rightarrow> string \<Rightarrow> string \<Rightarrow> 64 word option" where
  "everyoneGuildPermissions dec rawGuild guildID =
     (case dec_roles dec rawGuild of None \<Rightarrow> None
      | Some roles \<Rightarrow> (case find (\<lambda>(i, p). i = guildID) roles of
            None \<Rightarrow> None | Some (i, p) \<Rightarrow> parsePermissionBits p))"

record overwrite =
  owID :: string
  owType :: json
  owAllow :: json
  owDeny :: json

definition dec_overwrite :: "json \<Rightarrow> overwrite option" where
  "dec_overwrite v =
     (case dec_fields v of None \<Rightarrow> None
      | Some fs \<Rightarrow> (case dec_string (key_values ''id'' fs) [] of None \<Rightarrow> None
          | Some i \<Rightarrow> Some \<lparr>owID = i, owType = dec_any (key_values ''type'' fs),
              owAllow = dec_any (key_values ''allow'' fs), owDeny = dec_any (key_values ''deny'' fs)\<rparr>))"

text \<open>Outer \<open>None\<close>: the channel's JSON does not decode; inner \<open>None\<close>: no overwrite list.\<close>

definition dec_overwrites :: "json_reader \<Rightarrow> string \<Rightarrow> overwrite list option option" where
  "dec_overwrites dec raw =
     (case dec raw of None \<Rightarrow> None
      | Some v \<Rightarrow> (case dec_fields v of None \<Rightarrow> None
          | Some fs \<Rightarrow> dec_slice dec_overwrite (key_values ''permission_overwrites'' fs) None))"

fun apply_overwrites :: "string \<Rightarrow> overwrite list \<Rightarrow> 64 word \<Rightarrow> 64 word option" where
  "apply_overwrites guildID [] permissions = Some permissions"
| "apply_overwrites guildID (ow # ows) permissions =
     (if owID ow \<noteq> guildID \<or> \<not> isRoleOverwrite (owType ow) then apply_overwrites guildID ows permissions
      else case (parsePermissionBits (owAllow ow), parsePermissionBits (owDeny ow)) of
        (Some allow, Some deny) \<Rightarrow>
          apply_overwrites guildID ows ((permissions AND NOT deny) OR allow)
      | _ \<Rightarrow> None)"

definition applyEveryoneOverwrite :: "json_reader \<Rightarrow> 64 word \<Rightarrow> string \<Rightarrow> string \<Rightarrow> 64 word option" where
  "applyEveryoneOverwrite dec permissions rawChannel guildID =
     (case dec_overwrites dec rawChannel of
        Some (Some ows) \<Rightarrow> apply_overwrites guildID ows permissions
      | _ \<Rightarrow> None)"

section \<open>The public-channel decision\<close>

datatype scope_verdict = ScopeOpen | ScopeMissing | ScopeClosed

text \<open>The ancestor loop of \<open>publicChannel\<close>.\<close>

lemma parent_walk_measure:
  assumes "map_of chans k = Some a" and "k \<notin> set seen"
  shows "card (fst ` set chans - set (k # seen)) < card (fst ` set chans - set seen)"
proof (rule psubset_card_mono)
  have "k \<in> fst ` set chans" using assms(1) by (force dest: map_of_SomeD)
  then show "fst ` set chans - set (k # seen) \<subset> fst ` set chans - set seen"
    using assms(2) by auto
qed simp

function scope_verdict_walk ::
    "(string \<times> snapshotChannel) list \<Rightarrow> strset \<Rightarrow> string \<Rightarrow> strset \<Rightarrow> scope_verdict" where
  "scope_verdict_walk chans unavailable i seen =
     (if i = [] then ScopeOpen
      else case map_of chans i of
        None \<Rightarrow> ScopeMissing
      | Some a \<Rightarrow>
          if i \<in> set seen \<or> scCollectionScope a = ''unknown'' \<or> scCollectionScope a = [] then ScopeMissing
          else if scCollectionScope a \<noteq> ''allowed'' \<or> scDeletedAt a \<noteq> [] \<or> i \<in> set unavailable
            then ScopeClosed
          else scope_verdict_walk chans unavailable (channelParentID a) (i # seen))"
  by pat_completeness auto
termination
  by (relation "measure (\<lambda>(chans, unavailable, i, seen). card (fst ` set chans - set seen))")
    (auto intro: parent_walk_measure [simplified])

declare scope_verdict_walk.simps [simp del]

definition memo_public :: "string \<Rightarrow> bool \<Rightarrow> bool \<Rightarrow> snapshotFilter \<Rightarrow> snapshotFilter" where
  "memo_public i missing allowed f =
     f\<lparr>sfPublicMissing := AList.update i missing (sfPublicMissing f),
       sfPublicMemo := AList.update i allowed (sfPublicMemo f)\<rparr>"

definition is_missing :: "snapshotFilter \<Rightarrow> string \<Rightarrow> bool" where
  "is_missing f i \<longleftrightarrow> map_of (sfPublicMissing f) i = Some True"

definition guild_raw :: "snapshotFilter \<Rightarrow> string \<Rightarrow> string" where
  "guild_raw f g = (case map_of (sfGuilds f) g of None \<Rightarrow> [] | Some raw \<Rightarrow> raw)"

text \<open>
  The permission part of \<open>publicChannel\<close> for a channel that is no thread: the answer and whether
  permission metadata was missing (\<open>missing\<close> is what \<open>publicMissing\<close> held before).
\<close>

definition everyone_view :: "json_reader \<Rightarrow> snapshotFilter \<Rightarrow> snapshotChannel \<Rightarrow> bool \<Rightarrow> bool \<times> bool" where
  "everyone_view dec f ch missing =
     (case everyoneGuildPermissions dec (guild_raw f (scGuildID ch)) (scGuildID ch) of
        None \<Rightarrow> (False, True)
      | Some base \<Rightarrow>
          let parent = map_of (sfChannels f) (scParentID ch);
              missing1 = missing \<or> (scParentID ch \<noteq> [] \<and> parent = None);
              inherited = (case parent of
                  Some p \<Rightarrow> if scKind p = ''category''
                            then applyEveryoneOverwrite dec base (scRawJSON p) (scGuildID ch)
                            else Some base
                | None \<Rightarrow> Some base)
          in case inherited of
               None \<Rightarrow> (False, True)
             | Some permissions \<Rightarrow>
                 (case applyEveryoneOverwrite dec permissions (scRawJSON ch) (scGuildID ch) of
                    None \<Rightarrow> (False, True)
                  | Some final \<Rightarrow> (final AND permissionViewChannel \<noteq> 0, missing1)))"

definition is_thread_kind :: "snapshotChannel \<Rightarrow> bool" where
  "is_thread_kind ch = has_prefix (scKind ch) ''thread_''"

text \<open>\<open>delete(f.publicSeen, channelID)\<close> of the deferred call.\<close>

definition leave_public :: "string \<Rightarrow> snapshotFilter \<Rightarrow> snapshotFilter" where
  "leave_public i f = f\<lparr>sfPublicSeen := removeAll i (sfPublicSeen f)\<rparr>"

text \<open>
  The body of \<open>publicChannel\<close> between the two marks: an answer with its missing-metadata flag,
  or the parent a thread defers to.
\<close>

datatype public_step = Answer bool bool | AskParent string

definition public_step :: "json_reader \<Rightarrow> snapshotFilter \<Rightarrow> string \<Rightarrow> public_step" where
  "public_step dec f channelID =
     (let missing = is_missing f channelID in
      case map_of (sfChannels f) channelID of
        None \<Rightarrow> Answer True False
      | Some ch \<Rightarrow>
          if scIsPrivateThread ch \<or> scKind ch = ''thread_private'' then Answer missing False
          else case scope_verdict_walk (sfChannels f) (sfUnavailable f) channelID [] of
            ScopeMissing \<Rightarrow> Answer True False
          | ScopeClosed \<Rightarrow> Answer missing False
          | ScopeOpen \<Rightarrow>
              if scGuildID ch = [] then Answer True False
              else if is_thread_kind ch then
                (if channelParentID ch = [] then Answer True False else AskParent (channelParentID ch))
              else (case everyone_view dec f ch missing of (allowed, m) \<Rightarrow> Answer m allowed))"

lemma public_step_known: "public_step dec f i = AskParent p \<Longrightarrow> \<exists>ch. map_of (sfChannels f) i = Some ch"
  by (auto simp: public_step_def Let_def split: option.splits)

function publicChannel :: "json_reader \<Rightarrow> snapshotFilter \<Rightarrow> string \<Rightarrow> bool \<times> snapshotFilter" where
  "publicChannel dec f channelID =
     (case map_of (sfPublicMemo f) channelID of
        Some cached \<Rightarrow> (cached, f)
      | None \<Rightarrow>
          if channelID \<in> set (sfPublicSeen f)
          then (False, f\<lparr>sfPublicMissing := AList.update channelID True (sfPublicMissing f)\<rparr>)
          else
            let f1 = f\<lparr>sfPublicSeen := channelID # sfPublicSeen f\<rparr> in
            case public_step dec f channelID of
              Answer missing allowed \<Rightarrow>
                (allowed, leave_public channelID (memo_public channelID missing allowed f1))
            | AskParent parentID \<Rightarrow>
                (case publicChannel dec f1 parentID of
                   (allowed, f2) \<Rightarrow>
                     (allowed, leave_public channelID
                        (memo_public channelID (is_missing f2 parentID) allowed f2))))"
  by pat_completeness auto
termination
  by (relation "measure (\<lambda>(dec, f, i). card (fst ` set (sfChannels f) - set (sfPublicSeen f)))")
    (auto intro: parent_walk_measure [simplified] dest: public_step_known)

declare publicChannel.simps [simp del]

definition channelAllowed :: "json_reader \<Rightarrow> snapshotFilter \<Rightarrow> snapshotChannel \<Rightarrow> bool \<times> snapshotFilter" where
  "channelAllowed dec f ch =
     (let parentID = channelParentID ch in
      if scID ch = [] then (False, f)
      else if scID ch \<in> set (sfExclude f) then (False, f)
      else if parentID \<noteq> [] \<and> parentID \<in> set (sfExclude f) then (False, f)
      else if sfInclude f \<noteq> [] \<and> scID ch \<notin> set (sfInclude f) \<and>
              (\<not> is_thread_kind ch \<or> parentID \<notin> set (sfInclude f)) then (False, f)
      else if sfPublicOnly f then publicChannel dec f (scID ch)
      else (True, f))"

section \<open>Loading the filter\<close>

definition loadGuilds :: "snap_db \<Rightarrow> snapshotFilter \<Rightarrow> go_error + snapshotFilter" where
  "loadGuilds d f =
     (case sdFault d ''guilds'' of
        Some e \<Rightarrow> Inl (ErrWrap ''query guilds for share filter: '' e [])
      | None \<Rightarrow> Inr (f\<lparr>sfGuilds := fold (\<lambda>(i, name, raw). AList.update i raw) (sdGuilds d) (sfGuilds f)\<rparr>))"

definition loadChannels :: "snap_db \<Rightarrow> snapshotFilter \<Rightarrow> go_error + snapshotFilter" where
  "loadChannels d f =
     (case sdFault d ''channels'' of
        Some e \<Rightarrow> Inl (ErrWrap ''query channels for share filter: '' e [])
      | None \<Rightarrow> Inr (f\<lparr>sfChannels := fold (\<lambda>ch. AList.update (scID ch) ch) (sdChannels d) (sfChannels f)\<rparr>))"

definition unavailable_id :: "string \<Rightarrow> string option" where
  "unavailable_id scope =
     (case cut_prefix scope ''channel:'' of
        (rest, True) \<Rightarrow>
          (case cut_suffix rest '':unavailable'' of
             (i, True) \<Rightarrow> (if i \<noteq> [] \<and> \<not> str_contains i '':'' then Some i else None)
           | (i, False) \<Rightarrow> None)
      | (rest, False) \<Rightarrow> None)"

definition like_unavailable :: string where
  "like_unavailable = ''channel:'' @ [CHR 0x25] @ '':unavailable''"

definition loadUnavailableChannels :: "snap_db \<Rightarrow> snapshotFilter \<Rightarrow> go_error + snapshotFilter" where
  "loadUnavailableChannels d f =
     (case sdFault d ''sync_state'' of
        Some e \<Rightarrow> Inl (ErrWrap ''query unavailable channels for share filter: '' e [])
      | None \<Rightarrow> Inr (f\<lparr>sfUnavailable :=
          List.map_filter unavailable_id (filter (sql_like like_unavailable) (sdScopes d)) @ sfUnavailable f\<rparr>))"

definition allowChannelID :: "snapshotFilter \<Rightarrow> string \<Rightarrow> bool" where
  "allowChannelID f channelID = (if \<not> sfActive f then True else channelID \<in> set (sfAllowedChannels f))"

definition member_set :: "snapshotFilter \<Rightarrow> string \<Rightarrow> strset option" where
  "member_set f guildID = map_of (sfAllowedMembers f) guildID"

definition add_member :: "string \<Rightarrow> string \<Rightarrow> snapshotFilter \<Rightarrow> snapshotFilter" where
  "add_member guildID userID f =
     f\<lparr>sfAllowedMembers := AList.update guildID
         (userID # (case member_set f guildID of None \<Rightarrow> [] | Some us \<Rightarrow> us)) (sfAllowedMembers f)\<rparr>"

text \<open>
  The message rows: a NULL author cannot be scanned into a Go string, so the first such row ends
  the load with an error.
\<close>

fun scan_messages :: "snap_message list \<Rightarrow> snapshotFilter \<Rightarrow> go_error + snapshotFilter" where
  "scan_messages [] f = Inr f"
| "scan_messages (m # ms) f =
     (case smAuthor m of
        None \<Rightarrow> Inl (ErrWrap ''scan message share filter: ''
                  (ErrText ''converting NULL to string is unsupported'') [])
      | Some authorID \<Rightarrow>
          if \<not> allowChannelID f (smChannelID m) then scan_messages ms f
          else
            let f1 = f\<lparr>sfAllowedMessageIDs := smID m # sfAllowedMessageIDs f\<rparr> in
            scan_messages ms
              (if smGuildID m \<noteq> [] \<and> authorID \<noteq> [] then add_member (smGuildID m) authorID f1 else f1))"

fun scan_mentions :: "snap_mention list \<Rightarrow> snapshotFilter \<Rightarrow> snapshotFilter" where
  "scan_mentions [] f = f"
| "scan_mentions (m # ms) f =
     (if \<not> allowChannelID f (snChannelID m) then scan_mentions ms f
      else scan_mentions ms
        (if snGuildID m \<noteq> [] \<and> snTargetID m \<noteq> [] \<and> member_set f (snGuildID m) \<noteq> None
         then add_member (snGuildID m) (snTargetID m) f else f))"

definition loadAllowedMessages :: "snap_db \<Rightarrow> snapshotFilter \<Rightarrow> go_error + snapshotFilter" where
  "loadAllowedMessages d f =
     (case sdFault d ''messages'' of
        Some e \<Rightarrow> Inl (ErrWrap ''query messages for share filter: '' e [])
      | None \<Rightarrow>
          (case scan_messages (filter (\<lambda>m. smGuildID m \<noteq> directMessageGuildID) (sdMessages d)) f of
             Inl e \<Rightarrow> Inl e
           | Inr f1 \<Rightarrow>
               (case sdFault d ''mention_events'' of
                  Some e \<Rightarrow> Inl (ErrWrap ''query mentions for share filter: '' e [])
                | None \<Rightarrow> Inr (scan_mentions
                    (filter (\<lambda>m. snTargetType m = ''user'' \<and> snGuildID m \<noteq> directMessageGuildID)
                       (sdMentions d)) f1))))"

definition empty_filter :: "FilterOptions \<Rightarrow> snapshotFilter" where
  "empty_filter opts =
     \<lparr>sfActive = Active opts, sfPublicOnly = PublicOnly opts,
      sfInclude = stringSet (IncludeChannelIDs opts), sfExclude = stringSet (ExcludeChannelIDs opts),
      sfAllowedChannels = [], sfAllowedGuilds = [], sfAllowedMembers = [], sfAllowedMessageIDs = [],
      sfChannels = [], sfGuilds = [], sfPublicMemo = [], sfPublicSeen = [], sfPublicMissing = [],
      sfUnavailable = []\<rparr>"

text \<open>The loop over the channel map, in the order of the enumeration.\<close>

fun admit_channels :: "json_reader \<Rightarrow> (string \<times> snapshotChannel) list \<Rightarrow> snapshotFilter \<Rightarrow> snapshotFilter" where
  "admit_channels dec [] f = f"
| "admit_channels dec ((i, ch) # chs) f =
     (case channelAllowed dec f ch of
        (False, f1) \<Rightarrow> admit_channels dec chs f1
      | (True, f1) \<Rightarrow>
          admit_channels dec chs
            (f1\<lparr>sfAllowedChannels := i # sfAllowedChannels f1,
                sfAllowedGuilds := (if scGuildID ch \<noteq> [] then scGuildID ch # sfAllowedGuilds f1
                                    else sfAllowedGuilds f1)\<rparr>))"

definition newSnapshotFilter :: "json_reader \<Rightarrow> snap_db \<Rightarrow> FilterOptions \<Rightarrow> go_error + snapshotFilter" where
  "newSnapshotFilter dec d opts =
     (let f = empty_filter opts in
      if \<not> sfActive f then Inr f
      else case loadGuilds d f of Inl e \<Rightarrow> Inl e
      | Inr f1 \<Rightarrow> (case loadChannels d f1 of Inl e \<Rightarrow> Inl e
      | Inr f2 \<Rightarrow> (case (if sfPublicOnly f2 then loadUnavailableChannels d f2 else Inr f2) of
                     Inl e \<Rightarrow> Inl e
      | Inr f3 \<Rightarrow> loadAllowedMessages d (admit_channels dec (sfChannels f3) f3))))"

section \<open>Row decisions\<close>

datatype cell = CText string | CNumber string | COther

type_synonym snap_row = "string \<Rightarrow> cell option"

fun stringValue :: "cell option \<Rightarrow> string" where
  "stringValue (Some (CText s)) = s"
| "stringValue (Some (CNumber s)) = s"
| "stringValue v = []"

definition isLocalOnlyGuildID :: "string \<Rightarrow> bool" where
  "isLocalOnlyGuildID guildID \<longleftrightarrow> guildID = directMessageGuildID"

definition isDirectMessageSnapshotRow :: "string \<Rightarrow> snap_row \<Rightarrow> bool" where
  "isDirectMessageSnapshotRow table row =
     (if table = ''guilds'' then isLocalOnlyGuildID (stringValue (row ''id''))
      else if table \<in> {''channels'', ''members'', ''messages'', ''message_events'',
                       ''message_attachments'', ''mention_events''}
        then isLocalOnlyGuildID (stringValue (row ''guild_id''))
      else if table = ''sync_state'' then
        has_prefix (stringValue (row ''scope'')) ''wiretap:'' \<or>
        has_prefix (stringValue (row ''scope'')) ''worker:''
      else False)"

definition allowSyncState :: "snapshotFilter \<Rightarrow> string \<Rightarrow> bool" where
  "allowSyncState f scope =
     (case cut_prefix scope ''channel:'' of
        (rest, True) \<Rightarrow>
          (case str_cut rest '':'' of (channelID, cursor, _) \<Rightarrow>
             if sfPublicOnly f \<and> cursor = ''archived_private_threads_after'' then False
             else allowChannelID f channelID)
      | (_, False) \<Rightarrow>
          if has_prefix scope ''wiretap:'' \<or> has_prefix scope ''worker:'' then False
          else if has_prefix scope ''share:'' then False
          else case cut_prefix scope ''guild:'' of
            (rest, True) \<Rightarrow>
              if has_suffix scope '':members:last_success'' then False
              else (case str_cut rest '':'' of (guildID, _, _) \<Rightarrow> guildID \<in> set (sfAllowedGuilds f))
          | (_, False) \<Rightarrow> False)"

definition allow :: "snapshotFilter \<Rightarrow> string \<Rightarrow> snap_row \<Rightarrow> bool" where
  "allow f table row =
     (if isDirectMessageSnapshotRow table row then False
      else if \<not> sfActive f then True
      else if table = ''guilds'' then stringValue (row ''id'') \<in> set (sfAllowedGuilds f)
      else if table = ''channels'' then allowChannelID f (stringValue (row ''id''))
      else if table = ''members'' then
        (case member_set f (stringValue (row ''guild_id'')) of
           None \<Rightarrow> False | Some us \<Rightarrow> stringValue (row ''user_id'') \<in> set us)
      else if table = ''messages'' \<or> table = ''message_events'' then
        stringValue (row ''message_id'') \<in> set (sfAllowedMessageIDs f) \<or>
        allowChannelID f (stringValue (row ''channel_id''))
      else if table = ''message_attachments'' \<or> table = ''mention_events'' then
        allowChannelID f (stringValue (row ''channel_id''))
      else if table = ''sync_state'' then allowSyncState f (stringValue (row ''scope''))
      else True)"

text \<open>
  \<open>snapshotDeleteQuery\<close>: the rows an import deletes before it loads a snapshot. SQL comparison
  with a text parameter is on the column's text.
\<close>

definition snapshotDeleteQuery :: "string \<Rightarrow> snap_row \<Rightarrow> bool" where
  "snapshotDeleteQuery table row =
     (if table = ''guilds'' then stringValue (row ''id'') \<noteq> directMessageGuildID
      else if table \<in> {''message_events'', ''mention_events''} then
        stringValue (row ''guild_id'') \<noteq> directMessageGuildID
      else if table \<in> {''channels'', ''members'', ''messages'', ''message_attachments''} then
        stringValue (row ''guild_id'') \<noteq> directMessageGuildID
      else if table = ''sync_state'' then
        \<not> sql_like (''wiretap:'' @ [CHR 0x25]) (stringValue (row ''scope'')) \<and>
        \<not> sql_like (''worker:'' @ [CHR 0x25]) (stringValue (row ''scope''))
      else True)"

section \<open>Specification of a public channel\<close>

text \<open>
  A channel whose ancestors, itself included, all exist, are in collection scope, carry no tombstone
  and no unavailable marker, up to a root. Being inductive, it excludes parent cycles.
\<close>

inductive open_path :: "(string \<times> snapshotChannel) list \<Rightarrow> strset \<Rightarrow> string \<Rightarrow> bool"
  for chans unavailable where
  root: "open_path chans unavailable []"
| up: "i \<noteq> [] \<Longrightarrow> map_of chans i = Some a \<Longrightarrow> scCollectionScope a = ''allowed'' \<Longrightarrow>
    scDeletedAt a = [] \<Longrightarrow> i \<notin> set unavailable \<Longrightarrow>
    open_path chans unavailable (channelParentID a) \<Longrightarrow> open_path chans unavailable i"

text \<open>
  What \<open>--public-only\<close> promises of a channel: no private thread, an open path, and view
  permission for the everyone role; a thread takes the permission of its parent.
\<close>

inductive public_channel :: "json_reader \<Rightarrow> snapshotFilter \<Rightarrow> string \<Rightarrow> bool" for dec f where
  direct: "map_of (sfChannels f) i = Some ch \<Longrightarrow> \<not> scIsPrivateThread ch \<Longrightarrow> scKind ch \<noteq> ''thread_private'' \<Longrightarrow>
    open_path (sfChannels f) (sfUnavailable f) i \<Longrightarrow> scGuildID ch \<noteq> [] \<Longrightarrow> \<not> is_thread_kind ch \<Longrightarrow>
    fst (everyone_view dec f ch False) \<Longrightarrow> public_channel dec f i"
| thread: "map_of (sfChannels f) i = Some ch \<Longrightarrow> \<not> scIsPrivateThread ch \<Longrightarrow> scKind ch \<noteq> ''thread_private'' \<Longrightarrow>
    open_path (sfChannels f) (sfUnavailable f) i \<Longrightarrow> scGuildID ch \<noteq> [] \<Longrightarrow> is_thread_kind ch \<Longrightarrow>
    channelParentID ch \<noteq> [] \<Longrightarrow> public_channel dec f (channelParentID ch) \<Longrightarrow> public_channel dec f i"

lemma public_channel_iff:
  "map_of (sfChannels f) i = Some ch \<Longrightarrow>
   public_channel dec f i \<longleftrightarrow>
     \<not> (scIsPrivateThread ch \<or> scKind ch = ''thread_private'') \<and>
     open_path (sfChannels f) (sfUnavailable f) i \<and> scGuildID ch \<noteq> [] \<and>
     (if is_thread_kind ch then channelParentID ch \<noteq> [] \<and> public_channel dec f (channelParentID ch)
      else fst (everyone_view dec f ch False))"
  by (subst public_channel.simps) auto

lemma public_channel_known: "public_channel dec f i \<Longrightarrow> \<exists>ch. map_of (sfChannels f) i = Some ch"
  by (auto elim: public_channel.cases)

definition parent_step :: "(string \<times> snapshotChannel) list \<Rightarrow> string \<Rightarrow> string \<Rightarrow> bool" where
  "parent_step chans i j \<longleftrightarrow> i \<noteq> [] \<and> (\<exists>a. map_of chans i = Some a \<and> channelParentID a = j)"

lemma parent_step_unique: "parent_step chans i j \<Longrightarrow> parent_step chans i k \<Longrightarrow> j = k"
  by (auto simp: parent_step_def)

lemma open_path_acyclic: "open_path chans unavailable i \<Longrightarrow> \<not> (parent_step chans)\<^sup>+\<^sup>+ i i"
proof (induction rule: open_path.induct)
  case root
  show ?case
  proof
    assume "(parent_step chans)\<^sup>+\<^sup>+ [] []"
    then obtain j where "parent_step chans [] j" by (blast dest: tranclpD)
    then show False by (simp add: parent_step_def)
  qed
next
  case (up i a)
  show ?case
  proof
    assume "(parent_step chans)\<^sup>+\<^sup>+ i i"
    then obtain j where j: "parent_step chans i j" "(parent_step chans)\<^sup>*\<^sup>* j i" by (blast dest: tranclpD)
    have p: "parent_step chans i (channelParentID a)" using up by (simp add: parent_step_def)
    then have "j = channelParentID a" using j(1) parent_step_unique by metis
    then have "(parent_step chans)\<^sup>+\<^sup>+ (channelParentID a) (channelParentID a)"
      using j(2) p by (metis rtranclp_into_tranclp1)
    then show False using up.IH by blast
  qed
qed

lemma scope_walk_open: "scope_verdict_walk chans unavailable i seen = ScopeOpen \<Longrightarrow> open_path chans unavailable i"
proof (induction chans unavailable i seen rule: scope_verdict_walk.induct)
  case (1 chans unavailable i seen)
  then show ?case
    by (cases "i = []")
      (auto simp: scope_verdict_walk.simps [of chans unavailable i seen] intro: open_path.intros
        split: option.splits if_splits)
qed

lemma open_path_walk:
  "open_path chans unavailable i \<Longrightarrow> (\<And>s. s \<in> set seen \<Longrightarrow> (parent_step chans)\<^sup>+\<^sup>+ s i) \<Longrightarrow>
   scope_verdict_walk chans unavailable i seen = ScopeOpen"
proof (induction arbitrary: seen rule: open_path.induct)
  case root
  then show ?case by (simp add: scope_verdict_walk.simps)
next
  case (up i a)
  have step: "parent_step chans i (channelParentID a)" using up by (simp add: parent_step_def)
  have "open_path chans unavailable i" by (rule open_path.up) (use up in auto)
  then have fresh: "i \<notin> set seen" using up.prems open_path_acyclic by blast
  have "scope_verdict_walk chans unavailable (channelParentID a) (i # seen) = ScopeOpen"
    using step up.prems by (intro up.IH) (auto intro: tranclp.intros)
  with up fresh show ?case by (simp add: scope_verdict_walk.simps [of chans unavailable i seen])
qed

lemma scope_walk_open_iff:
  "scope_verdict_walk chans unavailable i [] = ScopeOpen \<longleftrightarrow> open_path chans unavailable i"
  using scope_walk_open open_path_walk [where seen = "[]"] by auto

section \<open>The memoised decision meets the specification\<close>

definition same_data :: "snapshotFilter \<Rightarrow> snapshotFilter \<Rightarrow> bool" where
  "same_data f g \<longleftrightarrow>
     sfActive g = sfActive f \<and> sfPublicOnly g = sfPublicOnly f \<and> sfInclude g = sfInclude f \<and>
     sfExclude g = sfExclude f \<and> sfChannels g = sfChannels f \<and> sfGuilds g = sfGuilds f \<and>
     sfUnavailable g = sfUnavailable f"

lemma everyone_view_missing: "fst (everyone_view dec f ch m) = fst (everyone_view dec f ch False)"
  by (simp add: everyone_view_def Let_def split: option.split)

lemma everyone_view_cong: "same_data f g \<Longrightarrow> everyone_view dec g = everyone_view dec f"
  unfolding same_data_def everyone_view_def guild_raw_def by (intro ext) (elim conjE, simp only:)

lemma public_channel_mono: "public_channel dec f i \<Longrightarrow> same_data f g \<Longrightarrow> public_channel dec g i"
proof (induction rule: public_channel.induct)
  case (direct i ch)
  then show ?case
    by (intro public_channel.direct [of g i ch]) (auto simp: everyone_view_cong, auto simp: same_data_def)
next
  case (thread i ch)
  then show ?case
    by (intro public_channel.thread [of g i ch]) (auto simp: same_data_def)
qed

lemma same_data_sym: "same_data f g \<Longrightarrow> same_data g f"
  by (simp add: same_data_def)

lemma same_data_trans: "same_data f g \<Longrightarrow> same_data g h \<Longrightarrow> same_data f h"
  by (simp add: same_data_def)

lemma public_channel_cong: "same_data f g \<Longrightarrow> public_channel dec g i \<longleftrightarrow> public_channel dec f i"
  using public_channel_mono same_data_sym by blast

text \<open>Every memo entry is the specified answer.\<close>

definition memo_sound :: "json_reader \<Rightarrow> snapshotFilter \<Rightarrow> bool" where
  "memo_sound dec f \<longleftrightarrow> (\<forall>i b. map_of (sfPublicMemo f) i = Some b \<longrightarrow> (b \<longleftrightarrow> public_channel dec f i))"

text \<open>The fields a public-channel query leaves alone.\<close>

definition same_result :: "snapshotFilter \<Rightarrow> snapshotFilter \<Rightarrow> bool" where
  "same_result f g \<longleftrightarrow> same_data f g \<and> sfPublicSeen g = sfPublicSeen f \<and>
     sfAllowedChannels g = sfAllowedChannels f \<and> sfAllowedGuilds g = sfAllowedGuilds f \<and>
     sfAllowedMembers g = sfAllowedMembers f \<and> sfAllowedMessageIDs g = sfAllowedMessageIDs f"

lemma same_result_refl [simp]: "same_result f f"
  by (simp add: same_result_def same_data_def)

lemma same_result_trans: "same_result f g \<Longrightarrow> same_result g h \<Longrightarrow> same_result f h"
  by (simp add: same_result_def same_data_def)

text \<open>Leaving the query: the answer is recorded and the mark removed.\<close>

lemma leave_memo:
  assumes "memo_sound dec g" and "same_result (f\<lparr>sfPublicSeen := i # sfPublicSeen f\<rparr>) g"
    and "i \<notin> set (sfPublicSeen f)" and "allowed \<longleftrightarrow> public_channel dec f i"
  shows "memo_sound dec (leave_public i (memo_public i missing allowed g))"
    and "same_result f (leave_public i (memo_public i missing allowed g))"
proof -
  let ?h = "leave_public i (memo_public i missing allowed g)"
  show r: "same_result f ?h"
    using assms(2,3) by (simp add: same_result_def same_data_def leave_public_def memo_public_def)
  have gh: "same_data g ?h" "same_data f g"
    using assms(2) by (simp_all add: same_data_def same_result_def leave_public_def memo_public_def)
  show "memo_sound dec ?h"
    unfolding memo_sound_def public_channel_cong [OF gh(1)]
    using assms(1,4) public_channel_cong [OF gh(2), of dec]
    by (auto simp: memo_sound_def leave_public_def memo_public_def update_conv' split: if_splits)
qed

lemma public_step_Answer:
  assumes "public_step dec f i = Answer missing allowed"
  shows "allowed \<longleftrightarrow> public_channel dec f i"
proof (cases "map_of (sfChannels f) i")
  case None
  with assms public_channel_known [of dec f i] show ?thesis by (auto simp: public_step_def Let_def)
next
  case (Some ch)
  show ?thesis
    unfolding public_channel_iff [OF Some]
    using assms Some scope_walk_open_iff [of "sfChannels f" "sfUnavailable f" i]
      everyone_view_missing [of dec f ch "is_missing f i"]
    by (auto simp: public_step_def Let_def split: if_splits scope_verdict.splits prod.splits)
qed

lemma public_step_AskParent:
  assumes "public_step dec f i = AskParent p" and "i \<noteq> []"
  shows "p \<noteq> []" and "parent_step (sfChannels f) i p" and "open_path (sfChannels f) (sfUnavailable f) i"
    and "public_channel dec f i \<longleftrightarrow> public_channel dec f p"
proof -
  from public_step_known [OF assms(1)] obtain ch where ch: "map_of (sfChannels f) i = Some ch" by blast
  have c: "\<not> scIsPrivateThread ch" "scKind ch \<noteq> ''thread_private''" "scGuildID ch \<noteq> []"
    "is_thread_kind ch" "p = channelParentID ch" "p \<noteq> []"
    and op: "open_path (sfChannels f) (sfUnavailable f) i"
    using assms ch scope_walk_open_iff [of "sfChannels f" "sfUnavailable f" i]
    by (auto simp: public_step_def Let_def split: if_splits scope_verdict.splits prod.splits)
  show "p \<noteq> []" "open_path (sfChannels f) (sfUnavailable f) i" using c op by auto
  show "parent_step (sfChannels f) i p" using ch c assms(2) by (simp add: parent_step_def)
  show "public_channel dec f i \<longleftrightarrow> public_channel dec f p"
    using c op by (simp add: public_channel_iff [OF ch])
qed

lemma publicChannel_spec:
  assumes "i \<noteq> []" and "memo_sound dec f"
    and "\<And>s. s \<in> set (sfPublicSeen f) \<Longrightarrow> open_path (sfChannels f) (sfUnavailable f) s \<and>
           (parent_step (sfChannels f))\<^sup>+\<^sup>+ s i"
  shows "fst (publicChannel dec f i) = public_channel dec f i \<and>
    memo_sound dec (snd (publicChannel dec f i)) \<and> same_result f (snd (publicChannel dec f i))"
  using assms
proof (induction dec f i rule: publicChannel.induct)
  case (1 dec f i)
  show ?case
  proof (cases "map_of (sfPublicMemo f) i")
    case (Some b)
    then show ?thesis using "1.prems"(2) by (auto simp: publicChannel.simps memo_sound_def)
  next
    case memo: None
    have fresh: "i \<notin> set (sfPublicSeen f)" using "1.prems"(3) open_path_acyclic by blast
    let ?f1 = "f\<lparr>sfPublicSeen := i # sfPublicSeen f\<rparr>"
    have f1: "same_data f ?f1" by (simp add: same_data_def)
    have m1: "memo_sound dec ?f1"
      using "1.prems"(2) by (simp add: memo_sound_def public_channel_cong [OF f1])
    note unfold = publicChannel.simps [of dec f i] memo fresh Let_def
    show ?thesis
    proof (cases "public_step dec f i")
      case (Answer missing allowed)
      with leave_memo [OF m1 same_result_refl fresh public_step_Answer [OF Answer]] public_step_Answer [OF Answer]
      show ?thesis by (simp add: unfold)
    next
      case (AskParent p)
      note ask = public_step_AskParent [OF AskParent "1.prems"(1)]
      have rec: "fst (publicChannel dec ?f1 p) = public_channel dec ?f1 p \<and>
          memo_sound dec (snd (publicChannel dec ?f1 p)) \<and> same_result ?f1 (snd (publicChannel dec ?f1 p))"
        by (rule "1.IH" [OF memo fresh refl AskParent ask(1) m1])
          (use ask "1.prems"(3) in \<open>auto intro: tranclp.intros\<close>)
      obtain allowed g where g: "publicChannel dec ?f1 p = (allowed, g)" by force
      with rec ask(4) public_channel_cong [OF f1, of dec p]
      have "allowed \<longleftrightarrow> public_channel dec f i" by simp
      with leave_memo [where dec = dec and g = g and f = f and i = i and allowed = allowed and
          missing = "is_missing g p"] rec g AskParent fresh
      show ?thesis by (simp add: unfold)
    qed
  qed
qed

section \<open>What a loaded filter admits\<close>

definition channel_admitted :: "json_reader \<Rightarrow> snapshotFilter \<Rightarrow> snapshotChannel \<Rightarrow> bool" where
  "channel_admitted dec f ch \<longleftrightarrow>
     scID ch \<noteq> [] \<and> scID ch \<notin> set (sfExclude f) \<and>
     (channelParentID ch = [] \<or> channelParentID ch \<notin> set (sfExclude f)) \<and>
     (sfInclude f = [] \<or> scID ch \<in> set (sfInclude f) \<or>
        (is_thread_kind ch \<and> channelParentID ch \<in> set (sfInclude f))) \<and>
     (sfPublicOnly f \<longrightarrow> public_channel dec f (scID ch))"

lemma channel_admitted_cong: "same_data f g \<Longrightarrow> channel_admitted dec g ch \<longleftrightarrow> channel_admitted dec f ch"
  using public_channel_cong [of f g dec "scID ch"] by (simp add: channel_admitted_def same_data_def)

lemma channelAllowed_spec:
  assumes "memo_sound dec f" and "sfPublicSeen f = []"
  shows "fst (channelAllowed dec f ch) = channel_admitted dec f ch"
    and "memo_sound dec (snd (channelAllowed dec f ch))"
    and "same_result f (snd (channelAllowed dec f ch))"
  using assms publicChannel_spec [of "scID ch" dec f]
  by (auto simp: channelAllowed_def channel_admitted_def Let_def)

lemma memo_sound_cong:
  "same_data f g \<Longrightarrow> sfPublicMemo g = sfPublicMemo f \<Longrightarrow> memo_sound dec g \<longleftrightarrow> memo_sound dec f"
  by (simp add: memo_sound_def public_channel_cong)

lemma admit_channels_spec:
  assumes "memo_sound dec f" and "sfPublicSeen f = []"
  shows "same_data f (admit_channels dec chs f) \<and>
    sfAllowedMembers (admit_channels dec chs f) = sfAllowedMembers f \<and>
    sfAllowedMessageIDs (admit_channels dec chs f) = sfAllowedMessageIDs f \<and>
    set (sfAllowedChannels (admit_channels dec chs f)) =
      set (sfAllowedChannels f) \<union> {i. \<exists>ch. (i, ch) \<in> set chs \<and> channel_admitted dec f ch} \<and>
    set (sfAllowedGuilds (admit_channels dec chs f)) =
      set (sfAllowedGuilds f) \<union>
      {g. \<exists>i ch. (i, ch) \<in> set chs \<and> channel_admitted dec f ch \<and> g = scGuildID ch \<and> g \<noteq> []}"
  using assms
proof (induction chs arbitrary: f)
  case Nil
  then show ?case by (simp add: same_data_def)
next
  case (Cons kc chs)
  obtain k ch where kc: "kc = (k, ch)" by (cases kc)
  obtain b f1 where ca: "channelAllowed dec f ch = (b, f1)" by force
  have b: "b = channel_admitted dec f ch" and m: "memo_sound dec f1" and r: "same_result f f1"
    using channelAllowed_spec [OF Cons.prems, of ch] ca by simp_all
  define f2 where "f2 = (if b then f1\<lparr>sfAllowedChannels := k # sfAllowedChannels f1,
      sfAllowedGuilds := (if scGuildID ch \<noteq> [] then scGuildID ch # sfAllowedGuilds f1
                          else sfAllowedGuilds f1)\<rparr> else f1)"
  have step: "admit_channels dec (kc # chs) f = admit_channels dec chs f2"
    using kc ca by (simp add: f2_def split: bool.split)
  have d: "same_data f f2" using r by (simp add: f2_def same_result_def same_data_def)
  have "same_data f1 f2" by (simp add: f2_def same_data_def)
  then have "memo_sound dec f2" using m memo_sound_cong [of f1 f2 dec] by (simp add: f2_def)
  moreover have "sfPublicSeen f2 = []" using r Cons.prems(2) by (simp add: f2_def same_result_def)
  ultimately have IH: "same_data f2 (admit_channels dec chs f2) \<and>
      sfAllowedMembers (admit_channels dec chs f2) = sfAllowedMembers f2 \<and>
      sfAllowedMessageIDs (admit_channels dec chs f2) = sfAllowedMessageIDs f2 \<and>
      set (sfAllowedChannels (admit_channels dec chs f2)) =
        set (sfAllowedChannels f2) \<union> {i. \<exists>ch. (i, ch) \<in> set chs \<and> channel_admitted dec f ch} \<and>
      set (sfAllowedGuilds (admit_channels dec chs f2)) =
        set (sfAllowedGuilds f2) \<union>
        {g. \<exists>i ch. (i, ch) \<in> set chs \<and> channel_admitted dec f ch \<and> g = scGuildID ch \<and> g \<noteq> []}"
    using Cons.IH [of f2] channel_admitted_cong [OF d, of dec] by simp
  then show ?case
    unfolding step using r b kc same_data_trans [OF d]
    by (auto simp: f2_def same_result_def)
qed

text \<open>The membership sets as a relation.\<close>

definition allowed_member :: "snapshotFilter \<Rightarrow> string \<Rightarrow> string \<Rightarrow> bool" where
  "allowed_member f g u \<longleftrightarrow> (\<exists>us. member_set f g = Some us \<and> u \<in> set us)"

lemma add_member_frame:
  "same_data f (add_member g u f)" "sfAllowedChannels (add_member g u f) = sfAllowedChannels f"
  "sfAllowedGuilds (add_member g u f) = sfAllowedGuilds f"
  "sfAllowedMessageIDs (add_member g u f) = sfAllowedMessageIDs f"
  by (simp_all add: add_member_def same_data_def)

lemma allowed_member_add:
  "allowed_member (add_member g u f) h v \<longleftrightarrow> allowed_member f h v \<or> (h = g \<and> v = u)"
  by (cases "map_of (sfAllowedMembers f) g")
    (auto simp: allowed_member_def member_set_def add_member_def update_conv')

lemma allowChannelID_cong:
  "same_data f g \<Longrightarrow> sfAllowedChannels g = sfAllowedChannels f \<Longrightarrow> allowChannelID g i = allowChannelID f i"
  by (simp add: allowChannelID_def same_data_def)

text \<open>What the filter keeps while it reads messages and mentions.\<close>

definition same_channels :: "snapshotFilter \<Rightarrow> snapshotFilter \<Rightarrow> bool" where
  "same_channels f g \<longleftrightarrow> same_data f g \<and> sfAllowedChannels g = sfAllowedChannels f \<and>
     sfAllowedGuilds g = sfAllowedGuilds f"

lemma scan_messages_spec:
  "scan_messages ms f = Inr g \<Longrightarrow>
     same_channels f g \<and> (\<forall>m \<in> set ms. smAuthor m \<noteq> None) \<and>
     set (sfAllowedMessageIDs g) = set (sfAllowedMessageIDs f) \<union>
       {smID m |m. m \<in> set ms \<and> allowChannelID f (smChannelID m)} \<and>
     (\<forall>h u. allowed_member g h u \<longleftrightarrow> allowed_member f h u \<or>
        (\<exists>m \<in> set ms. allowChannelID f (smChannelID m) \<and> smGuildID m = h \<and> smAuthor m = Some u \<and>
           h \<noteq> [] \<and> u \<noteq> []))"
proof (induction ms arbitrary: f)
  case Nil
  then show ?case by (simp add: same_channels_def same_data_def)
next
  case (Cons m ms)
  then obtain a where a: "smAuthor m = Some a" by (auto split: option.splits)
  show ?case
  proof (cases "allowChannelID f (smChannelID m)")
    case False
    with Cons a have rest: "scan_messages ms f = Inr g" by simp
    from Cons.IH [OF rest] False a show ?thesis by auto
  next
    case True
    let ?f1 = "f\<lparr>sfAllowedMessageIDs := smID m # sfAllowedMessageIDs f\<rparr>"
    let ?f2 = "if smGuildID m \<noteq> [] \<and> a \<noteq> [] then add_member (smGuildID m) a ?f1 else ?f1"
    have rest: "scan_messages ms ?f2 = Inr g" using Cons.prems a True by (simp add: Let_def)
    have fr: "same_channels f ?f2" by (auto simp: same_channels_def same_data_def add_member_def)
    then have al: "allowChannelID ?f2 c = allowChannelID f c" for c
      by (intro allowChannelID_cong) (auto simp: same_channels_def)
    have mem: "allowed_member ?f2 h u \<longleftrightarrow> allowed_member f h u \<or>
        (h = smGuildID m \<and> u = a \<and> h \<noteq> [] \<and> u \<noteq> [])" for h u
      by (auto simp: allowed_member_add) (auto simp: allowed_member_def member_set_def)
    have ids: "set (sfAllowedMessageIDs ?f2) = insert (smID m) (set (sfAllowedMessageIDs f))"
      by (simp add: add_member_def)
    from Cons.IH [OF rest] fr have "same_channels f g"
      by (auto simp: same_channels_def intro: same_data_trans)
    with Cons.IH [OF rest] show ?thesis
      unfolding al mem ids using a True by auto
  qed
qed

lemma scan_messages_null:
  "\<exists>m \<in> set ms. smAuthor m = None \<Longrightarrow> \<exists>e. scan_messages ms f = Inl e"
  by (induction ms arbitrary: f) (auto simp: Let_def split: option.split)

lemma scan_mentions_spec:
  "same_channels f (scan_mentions ms f) \<and>
   sfAllowedMessageIDs (scan_mentions ms f) = sfAllowedMessageIDs f \<and>
   (\<forall>h u. allowed_member (scan_mentions ms f) h u \<longrightarrow> allowed_member f h u \<or>
      (\<exists>m \<in> set ms. allowChannelID f (snChannelID m) \<and> snGuildID m = h \<and> snTargetID m = u))"
proof (induction ms arbitrary: f)
  case Nil
  then show ?case by (simp add: same_channels_def same_data_def)
next
  case (Cons m ms)
  let ?f1 = "if snGuildID m \<noteq> [] \<and> snTargetID m \<noteq> [] \<and> member_set f (snGuildID m) \<noteq> None
             then add_member (snGuildID m) (snTargetID m) f else f"
  show ?case
  proof (cases "allowChannelID f (snChannelID m)")
    case False
    then show ?thesis using Cons.IH [of f] by auto
  next
    case True
    have fr: "same_channels f ?f1" "sfAllowedMessageIDs ?f1 = sfAllowedMessageIDs f"
      by (auto simp: same_channels_def same_data_def add_member_def)
    then have al: "allowChannelID ?f1 c = allowChannelID f c" for c
      by (intro allowChannelID_cong) (auto simp: same_channels_def)
    have mem: "allowed_member ?f1 h u \<Longrightarrow> allowed_member f h u \<or> (h = snGuildID m \<and> u = snTargetID m)" for h u
      by (auto simp: allowed_member_add split: if_splits)
    have step: "scan_mentions (m # ms) f = scan_mentions ms ?f1" using True by simp
    note IH = Cons.IH [of ?f1, unfolded al fr(2)]
    from IH fr have "same_channels f (scan_mentions ms ?f1)"
      by (auto simp: same_channels_def intro: same_data_trans)
    moreover have "allowed_member (scan_mentions ms ?f1) h u \<Longrightarrow> allowed_member f h u \<or>
      (\<exists>m \<in> set (m # ms). allowChannelID f (snChannelID m) \<and> snGuildID m = h \<and> snTargetID m = u)" for h u
      using IH mem [of h u] True by auto
    ultimately show ?thesis unfolding step using IH by blast
  qed
qed

section \<open>The loaded filter\<close>

lemma fold_update_distinct:
  "distinct (map fst m) \<Longrightarrow> distinct (map fst (fold (\<lambda>x. AList.update (key x) x) xs m))"
  by (induction xs arbitrary: m) (simp_all add: distinct_update)

lemma fold_update_keyed:
  "(\<And>k v. map_of m k = Some v \<Longrightarrow> key v = k) \<Longrightarrow>
   map_of (fold (\<lambda>x. AList.update (key x) x) xs m) k = Some v \<Longrightarrow> key v = k"
proof (induction xs arbitrary: m)
  case (Cons x xs)
  show ?case
  proof (rule Cons.IH)
    show "map_of (fold (\<lambda>x. AList.update (key x) x) xs (AList.update (key x) x m)) k = Some v"
      using Cons.prems(2) by simp
    fix k v
    assume "map_of (AList.update (key x) x m) k = Some v"
    then show "key v = k" using Cons.prems(1) by (cases "k = key x") (simp_all add: update_conv')
  qed
qed simp

text \<open>The filter once the tables are loaded, before the channels are admitted.\<close>

definition tables_loaded :: "snap_db \<Rightarrow> FilterOptions \<Rightarrow> snapshotFilter \<Rightarrow> bool" where
  "tables_loaded d opts f \<longleftrightarrow>
     sfChannels f = fold (\<lambda>ch. AList.update (scID ch) ch) (sdChannels d) [] \<and> sfActive f \<and>
     sfPublicOnly f = PublicOnly opts \<and> sfInclude f = stringSet (IncludeChannelIDs opts) \<and>
     sfExclude f = stringSet (ExcludeChannelIDs opts) \<and> sfPublicMemo f = [] \<and> sfPublicSeen f = [] \<and>
     sfAllowedChannels f = [] \<and> sfAllowedGuilds f = [] \<and> sfAllowedMembers f = [] \<and>
     sfAllowedMessageIDs f = []"

lemma newSnapshotFilter_load:
  assumes "newSnapshotFilter dec d opts = Inr f" and "Active opts"
  shows "\<exists>f3. tables_loaded d opts f3 \<and>
    loadAllowedMessages d (admit_channels dec (sfChannels f3) f3) = Inr f"
proof -
  let ?f0 = "empty_filter opts"
  have act: "sfActive ?f0" using assms(2) by (simp add: empty_filter_def)
  from assms(1) act obtain f1 where f1: "loadGuilds d ?f0 = Inr f1"
    by (auto simp: newSnapshotFilter_def Let_def split: sum.splits)
  from assms(1) act f1 obtain f2 where f2: "loadChannels d f1 = Inr f2"
    by (auto simp: newSnapshotFilter_def Let_def split: sum.splits)
  from assms(1) act f1 f2 obtain f3 where
    f3: "(if sfPublicOnly f2 then loadUnavailableChannels d f2 else Inr f2) = Inr f3"
    "loadAllowedMessages d (admit_channels dec (sfChannels f3) f3) = Inr f"
    by (auto simp: newSnapshotFilter_def Let_def split: sum.splits)
  have "tables_loaded d opts f2"
    using act f1 f2
    by (auto simp: tables_loaded_def loadGuilds_def loadChannels_def empty_filter_def split: option.splits)
  then have "tables_loaded d opts f3"
    using f3(1) by (auto simp: tables_loaded_def loadUnavailableChannels_def split: option.splits if_splits)
  with f3(2) show ?thesis by blast
qed

text \<open>The properties of a filter that \<open>newSnapshotFilter\<close> returns for active options.\<close>

lemma newSnapshotFilter_spec:
  assumes "newSnapshotFilter dec d opts = Inr f" and "Active opts"
  shows "sfActive f" and "sfPublicOnly f = PublicOnly opts"
    and "sfInclude f = stringSet (IncludeChannelIDs opts)"
    and "sfExclude f = stringSet (ExcludeChannelIDs opts)"
    and "sfChannels f = fold (\<lambda>ch. AList.update (scID ch) ch) (sdChannels d) []"
    and "set (sfAllowedChannels f) =
           {i. \<exists>ch. map_of (sfChannels f) i = Some ch \<and> channel_admitted dec f ch}"
    and "set (sfAllowedGuilds f) =
           {g. \<exists>i ch. map_of (sfChannels f) i = Some ch \<and> channel_admitted dec f ch \<and> g = scGuildID ch \<and> g \<noteq> []}"
    and "set (sfAllowedMessageIDs f) =
           {smID m |m. m \<in> set (sdMessages d) \<and> smGuildID m \<noteq> directMessageGuildID \<and>
              allowChannelID f (smChannelID m)}"
    and "\<forall>m \<in> set (sdMessages d). smGuildID m \<noteq> directMessageGuildID \<longrightarrow> smAuthor m \<noteq> None"
    and "\<And>g u. allowed_member f g u \<Longrightarrow> g \<noteq> directMessageGuildID \<and>
           ((\<exists>m \<in> set (sdMessages d). allowChannelID f (smChannelID m) \<and> smGuildID m = g \<and> smAuthor m = Some u) \<or>
            (\<exists>m \<in> set (sdMentions d). allowChannelID f (snChannelID m) \<and> snGuildID m = g \<and> snTargetID m = u))"
proof -
  let ?msgs = "filter (\<lambda>m. smGuildID m \<noteq> directMessageGuildID) (sdMessages d)"
  let ?ments = "filter (\<lambda>m. snTargetType m = ''user'' \<and> snGuildID m \<noteq> directMessageGuildID) (sdMentions d)"
  let ?chans = "fold (\<lambda>ch. AList.update (scID ch) ch) (sdChannels d) []"
  from newSnapshotFilter_load [OF assms] obtain f3 where t: "tables_loaded d opts f3"
    and load: "loadAllowedMessages d (admit_channels dec (sfChannels f3) f3) = Inr f" by blast
  note f3 = t [unfolded tables_loaded_def]
  have e3: "sfAllowedChannels f3 = []" "sfAllowedGuilds f3 = []" "sfAllowedMembers f3 = []"
    "sfAllowedMessageIDs f3 = []" using f3 by simp_all
  let ?f4 = "admit_channels dec (sfChannels f3) f3"
  have m3: "memo_sound dec f3" "sfPublicSeen f3 = []" using f3 by (simp_all add: memo_sound_def)
  note admit = admit_channels_spec [OF m3, of "sfChannels f3"]
  from load obtain f5 where f5: "scan_messages ?msgs ?f4 = Inr f5" "f = scan_mentions ?ments f5"
    by (auto simp: loadAllowedMessages_def split: option.splits sum.splits)
  note msgs = scan_messages_spec [OF f5(1)]
  note ments = scan_mentions_spec [of f5 ?ments, folded f5(2)]
  have d34: "same_data f3 ?f4" using admit by blast
  have c4f: "same_channels ?f4 f"
    using msgs ments by (auto simp: same_channels_def intro: same_data_trans)
  then have d: "same_data f3 f" using d34 same_data_trans by (auto simp: same_channels_def)
  show "sfActive f" "sfPublicOnly f = PublicOnly opts"
    "sfInclude f = stringSet (IncludeChannelIDs opts)" "sfExclude f = stringSet (ExcludeChannelIDs opts)"
    "sfChannels f = ?chans"
    using d f3 by (simp_all add: same_data_def)
  have dist: "distinct (map fst (sfChannels f))"
    using fold_update_distinct [of "[]" scID "sdChannels d"] d f3 by (simp add: same_data_def)
  have lk: "(i, ch) \<in> set (sfChannels f3) \<longleftrightarrow> map_of (sfChannels f) i = Some ch" for i ch
    using map_of_eq_Some_iff [OF dist] d by (simp add: same_data_def)
  show "set (sfAllowedChannels f) =
      {i. \<exists>ch. map_of (sfChannels f) i = Some ch \<and> channel_admitted dec f ch}"
    using admit c4f e3 by (simp add: same_channels_def lk channel_admitted_cong [OF d])
  show "set (sfAllowedGuilds f) =
      {g. \<exists>i ch. map_of (sfChannels f) i = Some ch \<and> channel_admitted dec f ch \<and> g = scGuildID ch \<and> g \<noteq> []}"
    using admit c4f e3 by (simp add: same_channels_def lk channel_admitted_cong [OF d])
  have al4: "allowChannelID ?f4 i = allowChannelID f i" for i
    using c4f allowChannelID_cong [of ?f4 f i] by (simp add: same_channels_def)
  have al5: "allowChannelID f5 i = allowChannelID f i" for i
    using ments allowChannelID_cong [of f5 f i] by (simp add: same_channels_def)
  show "set (sfAllowedMessageIDs f) =
      {smID m |m. m \<in> set (sdMessages d) \<and> smGuildID m \<noteq> directMessageGuildID \<and>
         allowChannelID f (smChannelID m)}"
    using msgs ments admit e3 by (auto simp: al4)
  show "\<forall>m \<in> set (sdMessages d). smGuildID m \<noteq> directMessageGuildID \<longrightarrow> smAuthor m \<noteq> None"
    using msgs by auto
  fix g u
  assume "allowed_member f g u"
  moreover have "\<not> allowed_member ?f4 g u"
    using admit e3 by (simp add: allowed_member_def member_set_def)
  ultimately show "g \<noteq> directMessageGuildID \<and>
      ((\<exists>m \<in> set (sdMessages d). allowChannelID f (smChannelID m) \<and> smGuildID m = g \<and> smAuthor m = Some u) \<or>
       (\<exists>m \<in> set (sdMentions d). allowChannelID f (snChannelID m) \<and> snGuildID m = g \<and> snTargetID m = u))"
    using ments msgs by (fastforce simp: al4 al5)
qed

lemma newSnapshotFilter_inactive:
  "newSnapshotFilter dec d opts = Inr f \<Longrightarrow> \<not> Active opts \<Longrightarrow> f = empty_filter opts \<and> \<not> sfActive f"
  by (auto simp: newSnapshotFilter_def empty_filter_def Let_def)

lemma allowChannelID_spec:
  assumes "newSnapshotFilter dec d opts = Inr f" and "Active opts"
  shows "allowChannelID f i \<longleftrightarrow> (\<exists>ch. map_of (sfChannels f) i = Some ch \<and> channel_admitted dec f ch)"
  using newSnapshotFilter_spec(1,6) [OF assms] by (simp add: allowChannelID_def)

lemma loaded_channel_id:
  assumes "newSnapshotFilter dec d opts = Inr f" and "Active opts" and "map_of (sfChannels f) i = Some ch"
  shows "scID ch = i"
  using fold_update_keyed [of "[]" scID "sdChannels d" i ch] newSnapshotFilter_spec(5) [OF assms(1,2)] assms(3)
  by simp

lemma public_only_channel:
  assumes "newSnapshotFilter dec d opts = Inr f" and "PublicOnly opts" and "allowChannelID f i"
  shows "public_channel dec f i"
proof -
  have act: "Active opts" using assms(2) by (simp add: Active_def)
  with assms obtain ch where ch: "map_of (sfChannels f) i = Some ch" "channel_admitted dec f ch"
    by (auto simp: allowChannelID_spec)
  with newSnapshotFilter_spec(2) [OF assms(1) act] loaded_channel_id [OF assms(1) act ch(1)] assms(2)
  show ?thesis by (simp add: channel_admitted_def)
qed

lemma sql_like_Nil_percent: "sql_like [CHR 0x25] s"
  by (induction s) simp_all

lemma sql_like_prefix: "CHR 0x25 \<notin> set p \<Longrightarrow> sql_like (p @ [CHR 0x25]) (p @ s)"
  by (induction p) (auto simp: sql_like_Nil_percent)

lemma view_bit: "q AND permissionViewChannel \<noteq> 0 \<longleftrightarrow> bit q 10" for q :: "64 word"
  using and_exp_eq_0_iff_not_bit [of q 10] by (simp add: permissionViewChannel_def)

lemma str_cut_colon:
  assumes "CHR '':'' \<notin> set c"
  shows "str_cut (c @ CHR '':'' # rest) '':'' = (c, rest, True)"
  using assms by (induction c) (auto simp: has_prefix_def)

lemma allowSyncState_channel:
  assumes "CHR '':'' \<notin> set c"
  shows "allowSyncState f (''channel:'' @ c @ CHR '':'' # cursor) =
    (if sfPublicOnly f \<and> cursor = ''archived_private_threads_after'' then False else allowChannelID f c)"
  using cut_prefix_append [of "''channel:''" "c @ CHR '':'' # cursor"]
  by (simp add: allowSyncState_def str_cut_colon [OF assms])

section \<open>Properties\<close>

text \<open>
  C31. Public-only publication is private by construction: whatever JSON reader, archive content and
  enumeration order, a channel, attachment, mention or message row that passes a public-only filter
  belongs to a channel that is public in the sense of the specification (no private thread, every
  ancestor in scope, without tombstone and unavailable marker, view permission for everyone), and a
  message event passes only for such a channel or for a stored message of such a channel.
\<close>
theorem public_only_export_is_public:
  assumes f: "newSnapshotFilter dec d opts = Inr f" and po: "PublicOnly opts" and a: "allow f table row"
  shows "(table = ''channels'' \<longrightarrow> public_channel dec f (stringValue (row ''id''))) \<and>
     (table \<in> {''message_attachments'', ''mention_events''} \<longrightarrow>
      public_channel dec f (stringValue (row ''channel_id''))) \<and>
     (table = ''messages'' \<longrightarrow> row ''message_id'' = None \<longrightarrow> [] \<notin> smID ` set (sdMessages d) \<longrightarrow>
      public_channel dec f (stringValue (row ''channel_id''))) \<and>
     (table = ''message_events'' \<longrightarrow>
      public_channel dec f (stringValue (row ''channel_id'')) \<or>
      (\<exists>m \<in> set (sdMessages d). smID m = stringValue (row ''message_id'') \<and>
      smGuildID m \<noteq> directMessageGuildID \<and> public_channel dec f (smChannelID m)))"
proof (intro conjI impI)
  have act: "Active opts" using po by (simp add: Active_def)
  note active = newSnapshotFilter_spec(1) [OF f act]
  note ids = newSnapshotFilter_spec(8) [OF f act]
  note pub = public_only_channel [OF f po]
  show "table = ''channels'' \<Longrightarrow> public_channel dec f (stringValue (row ''id''))"
    using a active pub by (auto simp: allow_def split: if_splits)
  show "table \<in> {''message_attachments'', ''mention_events''} \<Longrightarrow>
      public_channel dec f (stringValue (row ''channel_id''))"
    using a active pub by (auto simp: allow_def split: if_splits)
  show "table = ''messages'' \<Longrightarrow> row ''message_id'' = None \<Longrightarrow> [] \<notin> smID ` set (sdMessages d) \<Longrightarrow>
      public_channel dec f (stringValue (row ''channel_id''))"
    using a active pub by (auto simp: allow_def ids image_iff split: if_splits)
  show "table = ''message_events'' \<Longrightarrow>
      public_channel dec f (stringValue (row ''channel_id'')) \<or>
      (\<exists>m \<in> set (sdMessages d). smID m = stringValue (row ''message_id'') \<and>
         smGuildID m \<noteq> directMessageGuildID \<and> public_channel dec f (smChannelID m))"
    using a active pub by (auto simp: allow_def ids split: if_splits)
qed

definition sample_reader :: json_reader where
  "sample_reader s =
     (if s = ''G'' then Some (JObj [(''roles'', JArr [JObj [(''id'', JStr ''1''), (''permissions'', JStr ''1024'')]])])
      else if s = ''C'' then Some (JObj [(''permission_overwrites'', JArr [])])
      else None)"

definition sample_channel :: snapshotChannel where
  "sample_channel = \<lparr>scID = ''5'', scGuildID = ''1'', scParentID = [], scThreadParentID = [],
     scKind = ''text'', scIsPrivateThread = False, scRawJSON = ''C'', scCollectionScope = ''allowed'',
     scDeletedAt = []\<rparr>"

definition sample_message :: snap_message where
  "sample_message = \<lparr>smID = ''50'', smGuildID = ''1'', smChannelID = ''5'', smAuthor = Some ''8''\<rparr>"

definition sample_snapshot :: snap_db where
  "sample_snapshot = \<lparr>sdGuilds = [(''1'', ''g'', ''G'')],
     sdChannels = [sample_channel, sample_channel\<lparr>scID := ''7'', scKind := ''thread_private'', scThreadParentID := ''5''\<rparr>],
     sdScopes = [], sdMessages = [sample_message, sample_message\<lparr>smID := ''51'', smChannelID := ''7''\<rparr>],
     sdMentions = [], sdFault = (\<lambda>_. None)\<rparr>"

definition sample_public :: FilterOptions where
  "sample_public = \<lparr>PublicOnly = True, IncludeChannelIDs = [], ExcludeChannelIDs = []\<rparr>"

definition sample_filter :: snapshotFilter where
  "sample_filter = projr (newSnapshotFilter sample_reader sample_snapshot sample_public)"

lemma sample_filter_ok: "newSnapshotFilter sample_reader sample_snapshot sample_public = Inr sample_filter"
proof -
  have "\<not> isl (newSnapshotFilter sample_reader sample_snapshot sample_public)" by code_simp
  then show ?thesis by (simp add: sample_filter_def)
qed

theorem public_only_export_is_public_witness:
  "public_channel sample_reader sample_filter ''5'' \<and>
   \<not> allow sample_filter ''message_attachments'' [''channel_id'' \<mapsto> CText ''7'', ''guild_id'' \<mapsto> CText ''1'']"
proof -
  let ?row = "[''channel_id'' \<mapsto> CText ''5'', ''guild_id'' \<mapsto> CText ''1'']"
  have po: "PublicOnly sample_public" by (simp add: sample_public_def)
  have al: "allowChannelID sample_filter ''5''" "\<not> allowChannelID sample_filter ''7''" by code_simp+
  have "sfActive sample_filter" by code_simp
  then have a: "allow sample_filter ''message_attachments'' ?row"
    and n: "\<not> allow sample_filter ''message_attachments'' [''channel_id'' \<mapsto> CText ''7'', ''guild_id'' \<mapsto> CText ''1'']"
    using al by (simp_all add: allow_def isDirectMessageSnapshotRow_def isLocalOnlyGuildID_def directMessageGuildID_def)
  have "public_channel sample_reader sample_filter ''5''"
    using public_only_export_is_public [OF sample_filter_ok po a] by simp
  with n show ?thesis by blast
qed

text \<open>
  Admission is exact and independent of the order in which the channel map is enumerated: an
  active filter admits a channel id exactly when a row with that id is stored, neither it nor its
  parent is excluded, it or (for a thread) its parent is included when an include list is given, and
  it is public when the filter is public-only. The memo tables of the public-channel search do not
  influence the answer, and exclusion wins over inclusion.
\<close>
theorem snapshot_admission_exact:
  assumes "newSnapshotFilter dec d opts = Inr f" and "Active opts"
  shows "allowChannelID f i \<longleftrightarrow>
    (\<exists>ch. map_of (sfChannels f) i = Some ch \<and> scID ch = i \<and> i \<noteq> [] \<and>
      i \<notin> set (stringSet (ExcludeChannelIDs opts)) \<and>
      (channelParentID ch = [] \<or> channelParentID ch \<notin> set (stringSet (ExcludeChannelIDs opts))) \<and>
      (stringSet (IncludeChannelIDs opts) = [] \<or> i \<in> set (stringSet (IncludeChannelIDs opts)) \<or>
        (is_thread_kind ch \<and> channelParentID ch \<in> set (stringSet (IncludeChannelIDs opts)))) \<and>
      (PublicOnly opts \<longrightarrow> public_channel dec f i))"
  unfolding allowChannelID_spec [OF assms] channel_admitted_def newSnapshotFilter_spec(2,3,4) [OF assms]
  using loaded_channel_id [OF assms] by blast

theorem snapshot_admission_exact_witness:
  "public_channel sample_reader sample_filter ''5'' \<and> \<not> allowChannelID sample_filter ''6''"
proof -
  have act: "Active sample_public" by (simp add: Active_def sample_public_def)
  note exact = snapshot_admission_exact [OF sample_filter_ok act]
  have "allowChannelID sample_filter ''5''" "\<not> allowChannelID sample_filter ''6''" by code_simp+
  then show ?thesis using exact [of "''5''"] by (auto simp: sample_public_def)
qed

text \<open>
  C37. Local-only rows stay local in both directions: for every filter, active or not, a direct
  message row or a wiretap or worker cursor is neither published nor deleted by the import of a
  snapshot.
\<close>
theorem local_rows_stay_local:
  assumes "isDirectMessageSnapshotRow table row"
  shows "\<not> allow f table row \<and>
     \<not> snapshotDeleteQuery table row"
proof (intro conjI impI)
  show "\<not> allow f table row" using assms by (simp add: allow_def)
  have like: "has_prefix t p \<Longrightarrow> CHR 0x25 \<notin> set p \<Longrightarrow> sql_like (p @ [CHR 0x25]) t" for t p
    using sql_like_prefix by (auto simp: has_prefix_iff)
  show "\<not> snapshotDeleteQuery table row"
    using assms like [of "stringValue (row ''scope'')" "''wiretap:''"]
      like [of "stringValue (row ''scope'')" "''worker:''"]
    by (auto simp: isDirectMessageSnapshotRow_def snapshotDeleteQuery_def isLocalOnlyGuildID_def split: if_splits)
qed

theorem local_rows_stay_local_witness:
  "\<not> allow sample_filter ''messages'' [''guild_id'' \<mapsto> CText ''@me''] \<and>
   \<not> snapshotDeleteQuery ''sync_state'' [''scope'' \<mapsto> CText ''wiretap:x'']"
  using local_rows_stay_local [of "''messages''" "[''guild_id'' \<mapsto> CText ''@me'']" sample_filter]
    local_rows_stay_local [of "''sync_state''" "[''scope'' \<mapsto> CText ''wiretap:x'']"]
  by (simp add: isDirectMessageSnapshotRow_def isLocalOnlyGuildID_def directMessageGuildID_def has_prefix_def)

text \<open>
  View permission under overwrites: the everyone role can view a channel after its overwrites
  exactly when the last applicable overwrite that sets the view bit allows it (allow wins over deny
  in one overwrite), and otherwise as before the overwrites; overwrites of other roles, of members
  or of malformed type change nothing.
\<close>
theorem overwrite_view_bit:
  assumes "apply_overwrites guildID ows p = Some q"
  shows "q AND permissionViewChannel \<noteq> 0 \<longleftrightarrow>
    fold (\<lambda>ow v. if bit (the (parsePermissionBits (owAllow ow))) 10 then True
                 else if bit (the (parsePermissionBits (owDeny ow))) 10 then False else v)
      (filter (\<lambda>ow. owID ow = guildID \<and> isRoleOverwrite (owType ow)) ows)
      (p AND permissionViewChannel \<noteq> 0)"
  using assms
proof (induction ows arbitrary: p)
  case Nil
  then show ?case by simp
next
  case (Cons ow ows)
  show ?case
  proof (cases "owID ow = guildID \<and> isRoleOverwrite (owType ow)")
    case False
    with Cons show ?thesis by auto
  next
    case True
    with Cons.prems obtain al de where "parsePermissionBits (owAllow ow) = Some al"
      "parsePermissionBits (owDeny ow) = Some de"
      "apply_overwrites guildID ows ((p AND NOT de) OR al) = Some q"
      by (auto split: option.splits)
    with Cons.IH [of "(p AND NOT de) OR al"] True show ?thesis
      by (simp add: view_bit bit_or_iff bit_and_iff bit_not_iff)
  qed
qed

theorem overwrite_view_bit_witness:
  "\<exists>q. apply_overwrites ''1'' [\<lparr>owID = ''1'', owType = JNum ''0'', owAllow = JStr ''0'', owDeny = JStr ''1024''\<rparr>]
      (2048 OR 1024) = Some q \<and> q AND permissionViewChannel = 0"
proof -
  let ?ow = "\<lparr>owID = ''1'', owType = JNum ''0'', owAllow = JStr ''0'', owDeny = JStr ''1024''\<rparr>"
  have e: "apply_overwrites ''1'' [?ow] (2048 OR 1024) = Some 2048" by code_simp
  have b: "isRoleOverwrite (JNum ''0'')" "\<not> bit (the (parsePermissionBits (JStr ''0''))) 10"
    "bit (the (parsePermissionBits (JStr ''1024''))) 10" by code_simp+
  show ?thesis using overwrite_view_bit [OF e] b e by auto
qed

text \<open>
  Cursor scopes follow their channel: for a channel id without a colon, each cursor the syncer
  keeps for the channel is published exactly when the channel is admitted, except that a public-only
  snapshot never carries the private archived-thread cursor; scopes outside the channel and guild
  families are never published by an active filter.
\<close>
theorem cursor_scopes_follow_channel:
  assumes "CHR '':'' \<notin> set c"
  shows "allowSyncState f (channelLatestScope c) = allowChannelID f c \<and>
     allowSyncState f (channelHistoryCompleteScope c) = allowChannelID f c \<and>
     allowSyncState f (channelMessageUnavailableScope c) = allowChannelID f c \<and>
     allowSyncState f (channelArchivedThreadCursorScope c True) = (\<not> sfPublicOnly f \<and> allowChannelID f c) \<and>
     (\<not> has_prefix s ''channel:'' \<longrightarrow> \<not> has_prefix s ''guild:'' \<longrightarrow> \<not> allowSyncState f s)"
  using allowSyncState_channel [OF assms, of f "''latest_message_id''"]
    allowSyncState_channel [OF assms, of f "''history_complete''"]
    allowSyncState_channel [OF assms, of f "''unavailable''"]
    allowSyncState_channel [OF assms, of f "''archived_private_threads_after''"]
  by (auto simp: scope_defs allowSyncState_def cut_prefix_def)

theorem cursor_scopes_follow_channel_witness:
  "allowSyncState sample_filter (channelLatestScope ''5'') \<and>
   \<not> allowSyncState sample_filter (channelArchivedThreadCursorScope ''5'' True)"
proof -
  have "allowChannelID sample_filter ''5''" "sfPublicOnly sample_filter" by code_simp+
  then show ?thesis
    using cursor_scopes_follow_channel [of "''5''" sample_filter] by simp
qed

text \<open>
  C38. A published member is visible in the snapshot: an active filter passes a member row only when
  the user wrote a stored message in an admitted channel of that guild, or is mentioned in an
  admitted channel of that guild, and never for the direct-message guild.
\<close>
theorem published_members_are_visible:
  assumes f: "newSnapshotFilter dec d opts = Inr f" and act: "Active opts" and a: "allow f ''members'' row"
  shows "stringValue (row ''guild_id'') \<noteq> directMessageGuildID \<and>
     ((\<exists>m \<in> set (sdMessages d). allowChannelID f (smChannelID m) \<and>
      smGuildID m = stringValue (row ''guild_id'') \<and> smAuthor m = Some (stringValue (row ''user_id''))) \<or>
      (\<exists>m \<in> set (sdMentions d). allowChannelID f (snChannelID m) \<and>
      snGuildID m = stringValue (row ''guild_id'') \<and> snTargetID m = stringValue (row ''user_id'')))"
proof -
  have "allowed_member f (stringValue (row ''guild_id'')) (stringValue (row ''user_id''))"
    using a newSnapshotFilter_spec(1) [OF f act]
    by (auto simp: allow_def allowed_member_def split: if_splits option.splits)
  from newSnapshotFilter_spec(10) [OF f act this] show ?thesis by blast
qed

theorem published_members_are_visible_witness:
  "\<exists>m \<in> set (sdMessages sample_snapshot). allowChannelID sample_filter (smChannelID m) \<and> smAuthor m = Some ''8''"
proof -
  let ?row = "[''guild_id'' \<mapsto> CText ''1'', ''user_id'' \<mapsto> CText ''8'']"
  have act: "Active sample_public" by (simp add: Active_def sample_public_def)
  have "sfActive sample_filter" "member_set sample_filter ''1'' = Some [''8'']" by code_simp+
  then have a: "allow sample_filter ''members'' ?row"
    by (simp add: allow_def isDirectMessageSnapshotRow_def isLocalOnlyGuildID_def directMessageGuildID_def)
  from published_members_are_visible [OF sample_filter_ok act a]
  show ?thesis by (auto simp: sample_snapshot_def)
qed

text \<open>
  C39. A message without an author blocks filtered publication: the store keeps an empty author id as
  NULL, and an active filter cannot be built while such a message lies outside the direct-message
  guild, whatever the filter would select.
\<close>
theorem authorless_message_blocks_filter:
  assumes "Active opts" and "m \<in> set (sdMessages d)" and "smGuildID m \<noteq> directMessageGuildID"
    and "smAuthor m = None"
  shows "\<exists>e. newSnapshotFilter dec d opts = Inl e"
  using newSnapshotFilter_spec(9) [of dec d opts] assms
  by (cases "newSnapshotFilter dec d opts") blast+

theorem authorless_message_blocks_filter_witness:
  "\<exists>e. newSnapshotFilter sample_reader (sample_snapshot\<lparr>sdMessages := [sample_message\<lparr>smAuthor := None\<rparr>]\<rparr>)
     (sample_public\<lparr>PublicOnly := False, ExcludeChannelIDs := [''5'']\<rparr>) = Inl e"
proof (rule authorless_message_blocks_filter)
  show "Active (sample_public\<lparr>PublicOnly := False, ExcludeChannelIDs := [''5'']\<rparr>)" by code_simp
qed (auto simp: sample_message_def directMessageGuildID_def)

end
