(* ===== verification/Preflight.thy ===== *)
theory Preflight
  imports SnapshotFilter
begin

text \<open>
  The publication preflight (internal/share/preflight.go) and the guild projection of a filtered
  publication (internal/share/publication_privacy.go). The archive is read as one consistent
  \<open>snap_db\<close>. The main result: the counts the preflight reports are the numbers of rows the export
  with the same options lets through.
\<close>

record PublishScopeGuild =
  psGuildID :: string
  psGuildName :: string
  psSourceHint :: string
  psMetadataReady :: bool
  psCandidateChannels :: int
  psAllowedChannels :: int
  psCandidateMessages :: int
  psAllowedMessages :: int

record PublishScopeCount =
  pcCandidate :: int
  pcAllowed :: int
  pcExcluded :: int

record PublishScopePreflight =
  ppReady :: bool
  ppPublicOnly :: bool
  ppIncludeChannelIDs :: "string list"
  ppExcludeChannelIDs :: "string list"
  ppGuilds :: "PublishScopeGuild list"
  ppChannels :: PublishScopeCount
  ppMessages :: PublishScopeCount
  ppEmpty :: bool
  ppEmptyReason :: string
  ppWarnings :: "string list"
  ppRepairCommand :: string

type_synonym guild_counts = "(string \<times> PublishScopeGuild) list"

definition publishSourceHint :: "json_reader \<Rightarrow> string \<Rightarrow> bool \<Rightarrow> string" where
  "publishSourceHint dec raw metadataReady =
     (let source = (case dec raw of None \<Rightarrow> None
                    | Some v \<Rightarrow> (case dec_fields v of None \<Rightarrow> None
                        | Some fs \<Rightarrow> dec_string (key_values ''source'' fs) [])) in
      if (case source of None \<Rightarrow> False | Some s \<Rightarrow> fold_key (trim_space s) = ''discord_desktop'')
      then ''discord_desktop''
      else if metadataReady then ''discord_metadata''
      else ''unknown'')"

definition loadPublishScopeGuilds :: "json_reader \<Rightarrow> snap_db \<Rightarrow> go_error + guild_counts" where
  "loadPublishScopeGuilds dec d =
     (case sdFault d ''guilds preflight'' of
        Some e \<Rightarrow> Inl (ErrWrap ''query guild publish preflight: '' e [])
      | None \<Rightarrow> Inr (fold
          (\<lambda>(i, name, raw) m.
             let ready = everyoneGuildPermissions dec raw i \<noteq> None in
             AList.update i
               \<lparr>psGuildID = i, psGuildName = name, psSourceHint = publishSourceHint dec raw ready,
                psMetadataReady = ready, psCandidateChannels = 0, psAllowedChannels = 0,
                psCandidateMessages = 0, psAllowedMessages = 0\<rparr> m)
          (sort_key fst (filter (\<lambda>(i, name, raw). i \<noteq> directMessageGuildID) (sdGuilds d))) []))"

definition ensurePublishScopeGuild :: "guild_counts \<Rightarrow> string \<Rightarrow> PublishScopeGuild" where
  "ensurePublishScopeGuild guilds guildID =
     (case map_of guilds guildID of
        Some g \<Rightarrow> g
      | None \<Rightarrow> \<lparr>psGuildID = guildID, psGuildName = [], psSourceHint = ''unknown'',
                 psMetadataReady = False, psCandidateChannels = 0, psAllowedChannels = 0,
                 psCandidateMessages = 0, psAllowedMessages = 0\<rparr>)"

text \<open>What both counting loops thread through: the guild map and the report's two counters.\<close>

record tally =
  tlGuilds :: guild_counts
  tlCandidate :: int
  tlAllowed :: int

definition count_channel :: "snapshotFilter \<Rightarrow> snapshotFilter \<Rightarrow> snapshotChannel \<Rightarrow> tally \<Rightarrow> tally" where
  "count_channel candidateFilter selectedFilter ch t =
     (if \<not> allowChannelID candidateFilter (scID ch) then t
      else
        let guild = ensurePublishScopeGuild (tlGuilds t) (scGuildID ch);
            guild1 = guild\<lparr>psCandidateChannels := psCandidateChannels guild + 1,
                           psMetadataReady := psMetadataReady guild \<and>
                             \<not> (sfPublicOnly selectedFilter \<and> is_missing selectedFilter (scID ch))\<rparr>;
            allowed = allowChannelID selectedFilter (scID ch);
            guild2 = (if allowed then guild1\<lparr>psAllowedChannels := psAllowedChannels guild1 + 1\<rparr> else guild1)
        in t\<lparr>tlGuilds := AList.update (scGuildID ch) guild2 (tlGuilds t),
             tlCandidate := tlCandidate t + 1,
             tlAllowed := tlAllowed t + (if allowed then 1 else 0)\<rparr>)"

definition countPublishScopeChannels ::
    "snap_db \<Rightarrow> snapshotFilter \<Rightarrow> snapshotFilter \<Rightarrow> guild_counts \<Rightarrow>
     go_error + ((string \<times> string) list \<times> tally)" where
  "countPublishScopeChannels d candidateFilter selectedFilter guilds =
     (case sdFault d ''channels preflight'' of
        Some e \<Rightarrow> Inl (ErrWrap ''query channel publish preflight: '' e [])
      | None \<Rightarrow>
          let rows = filter (\<lambda>ch. scGuildID ch \<noteq> directMessageGuildID) (sdChannels d) in
          Inr (fold (\<lambda>ch. AList.update (scID ch) (scGuildID ch)) rows [],
               fold (count_channel candidateFilter selectedFilter) rows
                 \<lparr>tlGuilds = guilds, tlCandidate = 0, tlAllowed = 0\<rparr>))"

definition count_message ::
    "snapshotFilter \<Rightarrow> snapshotFilter \<Rightarrow> (string \<times> string) list \<Rightarrow> snap_message \<Rightarrow> tally \<Rightarrow> tally" where
  "count_message candidateFilter selectedFilter channelGuilds m t =
     (if \<not> allowChannelID candidateFilter (smChannelID m) then t
      else
        let guildID = (case map_of channelGuilds (smChannelID m) of Some g \<Rightarrow> g | None \<Rightarrow> smGuildID m);
            guild = ensurePublishScopeGuild (tlGuilds t) guildID;
            guild1 = guild\<lparr>psCandidateMessages := psCandidateMessages guild + 1,
                           psMetadataReady := psMetadataReady guild \<and>
                             \<not> (sfPublicOnly selectedFilter \<and>
                                map_of (sfChannels selectedFilter) (smChannelID m) = None)\<rparr>;
            allowed = (smID m \<in> set (sfAllowedMessageIDs selectedFilter) \<or>
                       allowChannelID selectedFilter (smChannelID m));
            guild2 = (if allowed then guild1\<lparr>psAllowedMessages := psAllowedMessages guild1 + 1\<rparr> else guild1)
        in t\<lparr>tlGuilds := AList.update guildID guild2 (tlGuilds t),
             tlCandidate := tlCandidate t + 1,
             tlAllowed := tlAllowed t + (if allowed then 1 else 0)\<rparr>)"

definition countPublishScopeMessages ::
    "snap_db \<Rightarrow> snapshotFilter \<Rightarrow> snapshotFilter \<Rightarrow> (string \<times> string) list \<Rightarrow> guild_counts \<Rightarrow>
     go_error + tally" where
  "countPublishScopeMessages d candidateFilter selectedFilter channelGuilds guilds =
     (case sdFault d ''messages preflight'' of
        Some e \<Rightarrow> Inl (ErrWrap ''query message publish preflight: '' e [])
      | None \<Rightarrow>
          Inr (fold (count_message candidateFilter selectedFilter channelGuilds)
                 (filter (\<lambda>m. smGuildID m \<noteq> directMessageGuildID) (sdMessages d))
                 \<lparr>tlGuilds = guilds, tlCandidate = 0, tlAllowed = 0\<rparr>))"

definition guild_not_ready :: "FilterOptions \<Rightarrow> PublishScopeGuild \<Rightarrow> bool" where
  "guild_not_ready opts g \<longleftrightarrow>
     PublicOnly opts \<and> (psCandidateChannels g > 0 \<or> psCandidateMessages g > 0) \<and> \<not> psMetadataReady g"

definition preflight_report :: "FilterOptions \<Rightarrow> tally \<Rightarrow> tally \<Rightarrow> PublishScopePreflight" where
  "preflight_report opts channels messages =
     (let guilds = sort_key psGuildID (map snd (tlGuilds messages));
          notReady = filter (guild_not_ready opts) guilds;
          ready = (notReady = []);
          empty = (tlAllowed messages = 0) in
      \<lparr>ppReady = ready, ppPublicOnly = PublicOnly opts,
       ppIncludeChannelIDs = sort (stringSet (IncludeChannelIDs opts)),
       ppExcludeChannelIDs = sort (stringSet (ExcludeChannelIDs opts)),
       ppGuilds = guilds,
       ppChannels = \<lparr>pcCandidate = tlCandidate channels, pcAllowed = tlAllowed channels,
                     pcExcluded = tlCandidate channels - tlAllowed channels\<rparr>,
       ppMessages = \<lparr>pcCandidate = tlCandidate messages, pcAllowed = tlAllowed messages,
                     pcExcluded = tlCandidate messages - tlAllowed messages\<rparr>,
       ppEmpty = empty,
       ppEmptyReason =
         (if \<not> empty then []
          else if tlCandidate messages = 0 then ''no_matching_messages''
          else if \<not> ready then ''metadata_incomplete''
          else ''filters_match_no_publishable_messages''),
       ppWarnings = sort (map (\<lambda>g. ''guild '' @ psGuildID g @
         '' lacks usable guild, channel or category permission metadata for public-only selection'') notReady),
       ppRepairCommand = (if ready then [] else ''discrawl sync --source discord'')\<rparr>)"

definition PreflightPublishScope ::
    "json_reader \<Rightarrow> snap_db \<Rightarrow> FilterOptions \<Rightarrow> go_error + PublishScopePreflight" where
  "PreflightPublishScope dec d opts =
     (case newSnapshotFilter dec d (opts\<lparr>PublicOnly := False\<rparr>) of
        Inl e \<Rightarrow> Inl e
      | Inr candidateFilter \<Rightarrow>
     (case newSnapshotFilter dec d opts of
        Inl e \<Rightarrow> Inl e
      | Inr selectedFilter \<Rightarrow>
     (case loadPublishScopeGuilds dec d of
        Inl e \<Rightarrow> Inl e
      | Inr guilds \<Rightarrow>
     (case countPublishScopeChannels d candidateFilter selectedFilter guilds of
        Inl e \<Rightarrow> Inl e
      | Inr (channelGuilds, channels) \<Rightarrow>
     (case countPublishScopeMessages d candidateFilter selectedFilter channelGuilds (tlGuilds channels) of
        Inl e \<Rightarrow> Inl e
      | Inr messages \<Rightarrow> Inr (preflight_report opts channels messages))))))"

section \<open>The published guild payload\<close>

text \<open>
  \<open>projectPublishedGuild\<close>: the JSON object that replaces the raw payload of a published guild row,
  with the keys in the order \<open>json.Marshal\<close> writes a map.
\<close>

fun project_roles :: "string \<Rightarrow> (string \<times> json) list \<Rightarrow> json list option" where
  "project_roles guildID [] = Some []"
| "project_roles guildID ((i, p) # roles) =
     (if i \<noteq> guildID then project_roles guildID roles
      else case parsePermissionBits p of
        None \<Rightarrow> None
      | Some permissions \<Rightarrow>
          map_option (\<lambda>rs. JObj [(''id'', JStr i), (''permissions'', JStr (show_int (sint permissions)))] # rs)
            (project_roles guildID roles))"

definition projectPublishedGuild :: "json_reader \<Rightarrow> snap_row \<Rightarrow> go_error + json" where
  "projectPublishedGuild dec row =
     (case dec_roles dec (stringValue (row ''raw_json'')) of
        None \<Rightarrow> Inl (ErrText ''decode published guild permissions'')
      | Some roles \<Rightarrow>
          (case project_roles (stringValue (row ''id'')) roles of
             None \<Rightarrow> Inl (ErrText ''invalid published guild permissions'')
           | Some rs \<Rightarrow> Inr (JObj
               [(''icon'', JStr (stringValue (row ''icon''))), (''id'', JStr (stringValue (row ''id''))),
                (''name'', JStr (stringValue (row ''name''))), (''roles'', JArr rs)])))"

section \<open>The counting loops\<close>

lemma length_filter_imp: "(\<And>x. P x \<Longrightarrow> Q x) \<Longrightarrow> length (filter P xs) \<le> length (filter Q xs)"
  by (induction xs) (auto intro: le_SucI)

lemma count_channels:
  "tlAllowed (fold (count_channel c s) chs t) = tlAllowed t +
     int (length (filter (\<lambda>ch. allowChannelID c (scID ch) \<and> allowChannelID s (scID ch)) chs))"
  "tlCandidate (fold (count_channel c s) chs t) = tlCandidate t +
     int (length (filter (\<lambda>ch. allowChannelID c (scID ch)) chs))"
  by (induction chs arbitrary: t) (simp_all add: count_channel_def Let_def)

lemma count_messages:
  "tlAllowed (fold (count_message c s g) ms t) = tlAllowed t +
     int (length (filter (\<lambda>m. allowChannelID c (smChannelID m) \<and>
       (smID m \<in> set (sfAllowedMessageIDs s) \<or> allowChannelID s (smChannelID m))) ms))"
  "tlCandidate (fold (count_message c s g) ms t) = tlCandidate t +
     int (length (filter (\<lambda>m. allowChannelID c (smChannelID m)) ms))"
  by (induction ms arbitrary: t) (simp_all add: count_message_def Let_def)

text \<open>A public-only selection is part of its candidates.\<close>

lemma candidates_cover:
  assumes c: "newSnapshotFilter dec d (opts\<lparr>PublicOnly := False\<rparr>) = Inr fc"
    and s: "newSnapshotFilter dec d opts = Inr fs" and a: "allowChannelID fs i"
  shows "allowChannelID fc i"
proof (cases "Active (opts\<lparr>PublicOnly := False\<rparr>)")
  case False
  then show ?thesis using newSnapshotFilter_inactive [OF c] by (auto simp: allowChannelID_def)
next
  case True
  then have act: "Active opts" by (auto simp: Active_def)
  have ch: "sfChannels fc = sfChannels fs"
    using newSnapshotFilter_spec(5) [OF c True] newSnapshotFilter_spec(5) [OF s act] by simp
  show ?thesis
    using a newSnapshotFilter_spec(2,3,4) [OF c True] newSnapshotFilter_spec(2,3,4) [OF s act]
    unfolding allowChannelID_spec [OF c True] allowChannelID_spec [OF s act] ch
    by (auto simp: channel_admitted_def)
qed

text \<open>A message counted by its id is counted by its channel: message ids are a primary key.\<close>

lemma allowed_by_id:
  assumes s: "newSnapshotFilter dec d opts = Inr fs" and dist: "distinct (map smID (sdMessages d))"
    and m: "m \<in> set (sdMessages d)" "smID m \<in> set (sfAllowedMessageIDs fs)"
  shows "allowChannelID fs (smChannelID m)"
proof (cases "Active opts")
  case False
  then show ?thesis using newSnapshotFilter_inactive [OF s] by (auto simp: allowChannelID_def)
next
  case True
  from m(2) newSnapshotFilter_spec(8) [OF s True] obtain m' where
    "m' \<in> set (sdMessages d)" "smID m' = smID m" "allowChannelID fs (smChannelID m')" by auto
  moreover from this(1,2) m(1) dist have "m' = m" by (auto simp: distinct_map dest: inj_onD)
  ultimately show ?thesis by simp
qed

section \<open>Properties\<close>

definition channel_cells :: "snapshotChannel \<Rightarrow> snap_row" where
  "channel_cells ch = [''id'' \<mapsto> CText (scID ch), ''guild_id'' \<mapsto> CText (scGuildID ch)]"

definition message_cells :: "snap_message \<Rightarrow> snap_row" where
  "message_cells m =
     [''id'' \<mapsto> CText (smID m), ''guild_id'' \<mapsto> CText (smGuildID m), ''channel_id'' \<mapsto> CText (smChannelID m)]"

lemma allow_channel_cells:
  "allow f ''channels'' (channel_cells ch) \<longleftrightarrow>
     scGuildID ch \<noteq> directMessageGuildID \<and> allowChannelID f (scID ch)"
  by (auto simp: allow_def isDirectMessageSnapshotRow_def isLocalOnlyGuildID_def channel_cells_def
      allowChannelID_def)

lemma allow_message_cells:
  "[] \<notin> set (sfAllowedMessageIDs f) \<Longrightarrow>
   allow f ''messages'' (message_cells m) \<longleftrightarrow>
     smGuildID m \<noteq> directMessageGuildID \<and> allowChannelID f (smChannelID m)"
  by (auto simp: allow_def isDirectMessageSnapshotRow_def isLocalOnlyGuildID_def message_cells_def
      allowChannelID_def)

text \<open>
  C36. The preflight tells the truth about the export: when message ids are distinct and non-empty,
  as the primary key has it, a preflight that succeeds has built the filter the export uses, the
  allowed counts it reports are exactly the numbers of channel and message rows that filter lets
  through, the excluded counts are not negative, and the report calls the publication empty exactly
  when the export would contain no message.
\<close>
theorem preflight_counts_exported_rows:
  assumes p: "PreflightPublishScope dec d opts = Inr r"
    and dist: "distinct (map smID (sdMessages d))" and ne: "[] \<notin> smID ` set (sdMessages d)"
  shows "\<exists>f. newSnapshotFilter dec d opts = Inr f \<and>
    pcAllowed (ppChannels r) =
      int (length (filter (\<lambda>ch. allow f ''channels'' (channel_cells ch)) (sdChannels d))) \<and>
    pcAllowed (ppMessages r) =
      int (length (filter (\<lambda>m. allow f ''messages'' (message_cells m)) (sdMessages d))) \<and>
    pcExcluded (ppChannels r) \<ge> 0 \<and> pcExcluded (ppMessages r) \<ge> 0 \<and>
    (ppEmpty r \<longleftrightarrow> (\<forall>m \<in> set (sdMessages d). \<not> allow f ''messages'' (message_cells m)))"
proof -
  from p obtain fc fs guilds cg ch ms where
    c: "newSnapshotFilter dec d (opts\<lparr>PublicOnly := False\<rparr>) = Inr fc" and
    s: "newSnapshotFilter dec d opts = Inr fs" and
    ch: "countPublishScopeChannels d fc fs guilds = Inr (cg, ch)" and
    ms: "countPublishScopeMessages d fc fs cg (tlGuilds ch) = Inr ms" and
    r: "r = preflight_report opts ch ms"
    by (auto simp: PreflightPublishScope_def split: sum.splits)
  let ?chs = "filter (\<lambda>ch. scGuildID ch \<noteq> directMessageGuildID) (sdChannels d)"
  let ?ms = "filter (\<lambda>m. smGuildID m \<noteq> directMessageGuildID) (sdMessages d)"
  note cover = candidates_cover [OF c s]
  have noid: "[] \<notin> set (sfAllowedMessageIDs fs)"
    using newSnapshotFilter_spec(8) [OF s] newSnapshotFilter_inactive [OF s] ne
    by (cases "Active opts") (auto simp: empty_filter_def image_iff)
  have "tlAllowed ch = int (length (filter (\<lambda>ch. allowChannelID fs (scID ch)) ?chs))"
    using ch cover count_channels(1) [of fc fs ?chs]
    by (auto simp: countPublishScopeChannels_def Let_def split: option.splits
        intro!: arg_cong [where f = length] filter_cong)
  then have "tlAllowed ch = int (length (filter (\<lambda>ch. allow fs ''channels'' (channel_cells ch)) (sdChannels d)))"
    by (simp add: allow_channel_cells conj_commute)
  moreover have "tlAllowed ms = int (length (filter (\<lambda>m. allowChannelID fs (smChannelID m)) ?ms))"
    using ms cover allowed_by_id [OF s dist] count_messages(1) [of fc fs cg ?ms]
    by (auto simp: countPublishScopeMessages_def split: option.splits
        intro!: arg_cong [where f = length] filter_cong)
  then have m: "tlAllowed ms = int (length (filter (\<lambda>m. allow fs ''messages'' (message_cells m)) (sdMessages d)))"
    by (simp add: allow_message_cells [OF noid] conj_commute)
  moreover have "tlAllowed ch \<le> tlCandidate ch"
    using ch count_channels [of fc fs ?chs]
    by (auto simp: countPublishScopeChannels_def Let_def split: option.splits intro!: length_filter_imp)
  moreover have "tlAllowed ms \<le> tlCandidate ms"
    using ms count_messages [of fc fs cg ?ms]
    by (auto simp: countPublishScopeMessages_def split: option.splits intro!: length_filter_imp)
  ultimately show ?thesis
    using s r by (auto simp: preflight_report_def Let_def filter_empty_conv)
qed

theorem preflight_counts_exported_rows_witness:
  "\<exists>r f. PreflightPublishScope sample_reader sample_snapshot sample_public = Inr r \<and>
     pcAllowed (ppMessages r) =
      int (length (filter (\<lambda>m. allow f ''messages'' (message_cells m)) (sdMessages sample_snapshot))) \<and>
     pcAllowed (ppMessages r) = 1"
proof -
  let ?r = "PreflightPublishScope sample_reader sample_snapshot sample_public"
  have "\<not> isl ?r" by code_simp
  then have r: "?r = Inr (projr ?r)" by simp
  have one: "pcAllowed (ppMessages (projr ?r)) = 1" by code_simp
  have "distinct (map smID (sdMessages sample_snapshot))" "[] \<notin> smID ` set (sdMessages sample_snapshot)"
    by (simp_all add: sample_snapshot_def sample_message_def)
  from preflight_counts_exported_rows [OF r this] r one show ?thesis by metis
qed

lemma show_int_minus: "i < 0 \<Longrightarrow> - (2 ^ 63) \<le> i \<Longrightarrow> go_atoi (show_int i) = Some i"
  using show_nat_digits [of "nat (- i)"]
  by (simp add: go_atoi_def show_int_def has_prefix_def Let_def)

lemma show_int_sint: "go_atoi (show_int (sint (w :: 64 word))) = Some (sint w)"
proof (cases "sint w < 0")
  case True
  then show ?thesis using sint_ge [of w] by (intro show_int_minus) simp_all
next
  case False
  then show ?thesis using sint_lt [of w] by (intro go_atoi_show) simp_all
qed

lemma key_fold_simps [simp]:
  "fold_key ''id'' = ''id''" "fold_key ''icon'' = ''icon''" "fold_key ''name'' = ''name''"
  "fold_key ''roles'' = ''roles''" "fold_key ''permissions'' = ''permissions''"
  by code_simp+

lemma project_roles_find:
  "project_roles g roles = Some rs \<Longrightarrow>
     \<exists>ps. dec_all dec_role rs = Some ps \<and> (\<forall>(i, p) \<in> set ps. i = g) \<and>
       (case find (\<lambda>(i, p). i = g) ps of None \<Rightarrow> None | Some (i, p) \<Rightarrow> parsePermissionBits p) =
       (case find (\<lambda>(i, p). i = g) roles of None \<Rightarrow> None | Some (i, p) \<Rightarrow> parsePermissionBits p)"
proof (induction roles arbitrary: rs)
  case (Cons ip roles)
  obtain i p where ip: "ip = (i, p)" by (cases ip)
  show ?case
  proof (cases "i = g")
    case False
    with Cons ip show ?thesis by auto
  next
    case True
    with Cons.prems ip obtain w rs' where w: "parsePermissionBits p = Some w"
      "project_roles g roles = Some rs'"
      "rs = JObj [(''id'', JStr i), (''permissions'', JStr (show_int (sint w)))] # rs'"
      by (auto split: option.splits)
    from Cons.IH [OF w(2)] obtain ps where "dec_all dec_role rs' = Some ps" "\<forall>(i, p) \<in> set ps. i = g" by blast
    moreover have "dec_role (JObj [(''id'', JStr i), (''permissions'', JStr (show_int (sint w)))]) =
        Some (i, JStr (show_int (sint w)))"
      by (simp add: dec_role_def key_values_def dec_any_def)
    ultimately show ?thesis
      using True ip w show_int_sint [of w]
      by (intro exI [of _ "(i, JStr (show_int (sint w))) # ps"]) simp
  qed
qed simp

text \<open>
  C40. A filtered publication strips the guild payload without changing its meaning: the projected
  payload names no role but the everyone role of the guild, and a subscriber who reads it back gets
  the same everyone permissions as the publisher had.
\<close>
theorem published_guild_roundtrip:
  assumes p: "projectPublishedGuild dec row = Inr v" and rd: "dec2 raw = Some v"
  shows "everyoneGuildPermissions dec2 raw (stringValue (row ''id'')) =
      everyoneGuildPermissions dec (stringValue (row ''raw_json'')) (stringValue (row ''id'')) \<and>
     (\<exists>roles. dec_roles dec2 raw = Some roles \<and> (\<forall>(i, perms) \<in> set roles. i = stringValue (row ''id'')))"
proof (intro conjI impI)
  let ?g = "stringValue (row ''id'')"
  from p obtain roles rs where r: "dec_roles dec (stringValue (row ''raw_json'')) = Some roles"
    "project_roles ?g roles = Some rs"
    "v = JObj [(''icon'', JStr (stringValue (row ''icon''))), (''id'', JStr ?g),
       (''name'', JStr (stringValue (row ''name''))), (''roles'', JArr rs)]"
    by (auto simp: projectPublishedGuild_def split: option.splits)
  from project_roles_find [OF r(2)] obtain ps where ps: "dec_all dec_role rs = Some ps"
    "\<forall>(i, p) \<in> set ps. i = ?g"
    "(case find (\<lambda>(i, p). i = ?g) ps of None \<Rightarrow> None | Some (i, p) \<Rightarrow> parsePermissionBits p) =
     (case find (\<lambda>(i, p). i = ?g) roles of None \<Rightarrow> None | Some (i, p) \<Rightarrow> parsePermissionBits p)"
    by blast
  have d: "dec_roles dec2 raw = Some ps"
    using rd r(3) ps(1) by (simp add: dec_roles_def key_values_def)
  show "everyoneGuildPermissions dec2 raw ?g =
      everyoneGuildPermissions dec (stringValue (row ''raw_json'')) ?g"
    using d r(1) ps(3) by (simp add: everyoneGuildPermissions_def)
  show "\<exists>roles. dec_roles dec2 raw = Some roles \<and> (\<forall>(i, perms) \<in> set roles. i = ?g)"
    using d ps(2) by blast
qed

theorem published_guild_roundtrip_witness:
  "\<exists>v. projectPublishedGuild sample_reader [''id'' \<mapsto> CText ''1'', ''raw_json'' \<mapsto> CText ''G''] = Inr v \<and>
     everyoneGuildPermissions (\<lambda>_. Some v) ''P'' ''1'' = Some 1024"
proof -
  let ?row = "[''id'' \<mapsto> CText ''1'', ''raw_json'' \<mapsto> CText ''G'']"
  let ?v = "projectPublishedGuild sample_reader ?row"
  have "\<not> isl ?v" by code_simp
  then have v: "?v = Inr (projr ?v)" by simp
  have "everyoneGuildPermissions sample_reader ''G'' ''1'' = Some 1024" by code_simp
  with published_guild_roundtrip [OF v, of "\<lambda>_. Some (projr ?v)" "''P''"]
  have "everyoneGuildPermissions (\<lambda>_. Some (projr ?v)) ''P'' ''1'' = Some 1024" by simp
  with v show ?thesis by blast
qed

end
