(* ===== verification/SyncErrors.thy ===== *)
theory SyncErrors
  imports SyncState
begin

text \<open>
  Error classification of the message crawl (internal/syncer/errors.go, with
  \<open>syncErrorOutcome\<close> of message_sync.go and \<open>confirmedDiscordMissing\<close> of reconcile.go): which
  errors end a run, which skip one channel, and the evidence a skip leaves behind.
\<close>

definition isUnknownChannel :: "go_error \<Rightarrow> bool" where
  "isUnknownChannel err =
     (let msg = to_lower (err_msg err) in
      str_contains msg ''unknown channel'' \<or>
      (str_contains msg ''http 404'' \<and> str_contains msg (CHR 0x22 # ''code'' @ CHR 0x22 # '': 10003'')))"

definition isMissingAccess :: "go_error \<Rightarrow> bool" where
  "isMissingAccess err =
     (let msg = err_msg err in str_contains msg ''403 Forbidden'' \<or> str_contains msg ''Missing Access'')"

definition unavailableReason :: "go_error \<Rightarrow> string" where
  "unavailableReason err =
     (if err_is err ErrHistoryPermissionDenied then ''missing_history_permissions''
      else if isMissingAccess err then ''missing_access''
      else if isUnknownChannel err then ''unknown_channel''
      else [])"

text \<open>The words a transport error is recognised by.\<close>

definition retryable_words :: "string list" where
  "retryable_words =
     [''deadline exceeded'', ''timeout'', ''eof'', ''connection reset'', ''broken pipe'', ''stream error'',
      ''goaway'', ''http 429'', ''http 500'', ''http 502'', ''http 503'', ''http 504'']"

text \<open>The first argument is \<open>ctx.Err()\<close>.\<close>

definition isRetryableSyncError :: "go_error option \<Rightarrow> go_error \<Rightarrow> bool" where
  "isRetryableSyncError ctxErr err =
     (if ctxErr \<noteq> None then False
      else if err_is err ErrCanceled then False
      else if err_is err ErrDeadline then True
      else case err_net err of
        Some timeout \<Rightarrow> timeout
      | None \<Rightarrow> (let msg = to_lower (err_msg err) in \<exists>word \<in> set retryable_words. str_contains msg word))"

definition confirmedDiscordMissing :: "go_error option \<Rightarrow> nat \<Rightarrow> bool" where
  "confirmedDiscordMissing err code =
     (case err of None \<Rightarrow> False | Some e \<Rightarrow> err_rest e = Some (404, code))"

definition syncErrorOutcome :: "go_error \<Rightarrow> string" where
  "syncErrorOutcome err =
     (if unavailableReason err = ''missing_access'' then ''skipped_missing_access''
      else if unavailableReason err = ''unknown_channel'' then ''skipped_unknown_channel''
      else if isRetryableSyncError None err then ''deferred_retryable''
      else ''skipped'')"

text \<open>
  Whether the error is answered by skipping; the marker is written first, and a marker that cannot
  be written turns the skip into a failure. The read of the previous reason only chooses a log level.
\<close>

definition skipUnavailableChannelByID ::
    "env \<Rightarrow> string \<Rightarrow> go_error \<Rightarrow> (string \<Rightarrow> string) \<Rightarrow> world \<Rightarrow> bool \<times> world" where
  "skipUnavailableChannelByID env channelID err scopeForChannel w =
     (let reason = unavailableReason err in
      if reason = [] then (False, w)
      else if channelID = [] then (True, w)
      else
        let scope = scopeForChannel channelID;
            w1 = snd (GetSyncState env scope w) in
        case SetSyncState env scope reason w1 of
          (Some e, w2) \<Rightarrow> (False, w2)
        | (None, w2) \<Rightarrow> (True, w2))"

definition skipUnavailableChannel :: "env \<Rightarrow> dchannel option \<Rightarrow> go_error \<Rightarrow> world \<Rightarrow> bool \<times> world" where
  "skipUnavailableChannel env channel err w =
     (case channel of None \<Rightarrow> (False, w)
      | Some c \<Rightarrow> skipUnavailableChannelByID env (cID c) err channelMessageUnavailableScope w)"

definition skipThreadCatalogUnavailableChannelByID :: "env \<Rightarrow> string \<Rightarrow> go_error \<Rightarrow> world \<Rightarrow> bool \<times> world" where
  "skipThreadCatalogUnavailableChannelByID env channelID err =
     skipUnavailableChannelByID env channelID err channelThreadCatalogUnavailableScope"

definition skipSyncError :: "env \<Rightarrow> dchannel option \<Rightarrow> go_error \<Rightarrow> world \<Rightarrow> bool \<times> world" where
  "skipSyncError env channel err w =
     (if err_is err ErrCollectionScope then (True, w)
      else case skipUnavailableChannel env channel err w of
        (True, w1) \<Rightarrow> (True, w1)
      | (False, w1) \<Rightarrow> (isRetryableSyncError (envCtx env (wTick w1)) err, w1))"

lemma skip_frame:
  "dbMessages (wDB (snd (skipSyncError env ch err w))) = dbMessages (wDB w) \<and>
   dbChannels (wDB (snd (skipSyncError env ch err w))) = dbChannels (wDB w) \<and>
   dbFailures (wDB (snd (skipSyncError env ch err w))) = dbFailures (wDB w)"
proof -
  let ?P = "\<lambda>d. dbMessages d = dbMessages (wDB w) \<and> dbChannels d = dbChannels (wDB w) \<and>
      dbFailures d = dbFailures (wDB w)"
  have "keeps ?P (SetSyncState env s r)" for s r
    unfolding SetSyncState_def by (rule keeps_exec) simp
  from keepsD [OF this] have "?P (wDB v) \<Longrightarrow> ?P (wDB (snd (SetSyncState env s r v)))" for s r v by blast
  moreover have "?P (wDB (snd (GetSyncState env s w)))" for s by (simp add: GetSyncState_def)
  ultimately have set_get: "?P (wDB (snd (SetSyncState env s r (snd (GetSyncState env s w)))))" for s r by blast
  show ?thesis
    using set_get
    by (auto simp: skipSyncError_def skipUnavailableChannel_def skipUnavailableChannelByID_def Let_def
        split: option.splits prod.splits bool.splits if_splits) (metis snd_conv)+
qed

section \<open>Properties\<close>

lemma set_sync_state_None:
  "SetSyncState env s c w = (None, w') \<Longrightarrow> sync_cursor (wDB w') s = c"
  unfolding SetSyncState_def by (drule db_exec_None) simp

text \<open>
  A skipped channel leaves evidence or is about to be retried: when the crawl skips a channel
  with a non-empty id over an error, either the channel left collection scope, or its unavailable
  marker now holds the reason, or the error is retryable and the run has not been cancelled. Under
  a cancelled run, a failed marker write always surfaces the error.
\<close>
theorem skip_leaves_evidence:
  assumes "skipSyncError env (Some ch) err w = (True, w')" and "cID ch \<noteq> []"
  shows "err_is err ErrCollectionScope \<or>
    (unavailableReason err \<noteq> [] \<and>
      sync_cursor (wDB w') (channelMessageUnavailableScope (cID ch)) = unavailableReason err) \<or>
    (isRetryableSyncError None err \<and> envCtx env (wTick w') = None)"
proof (cases "err_is err ErrCollectionScope")
  case False
  show ?thesis
  proof (cases "unavailableReason err = []")
    case True
    with assms False show ?thesis
      by (auto simp: skipSyncError_def skipUnavailableChannel_def skipUnavailableChannelByID_def
          isRetryableSyncError_def split: if_splits)
  next
    case reason: False
    let ?s = "channelMessageUnavailableScope (cID ch)"
    obtain r w2 where set: "SetSyncState env ?s (unavailableReason err) (snd (GetSyncState env ?s w)) = (r, w2)"
      by force
    show ?thesis
    proof (cases r)
      case None
      with set set_sync_state_None have "sync_cursor (wDB w2) ?s = unavailableReason err" by blast
      with None set assms False reason show ?thesis
        by (simp add: skipSyncError_def skipUnavailableChannel_def skipUnavailableChannelByID_def Let_def)
    next
      case (Some e)
      with set assms False reason show ?thesis
        by (auto simp: skipSyncError_def skipUnavailableChannel_def skipUnavailableChannelByID_def Let_def
            isRetryableSyncError_def split: if_splits)
    qed
  qed
qed blast

definition forbidden :: go_error where
  "forbidden = ErrREST 403 50001 ''Missing Access''"

definition plain_channel :: "string \<Rightarrow> dchannel" where
  "plain_channel i = \<lparr>cID = i, cGuildID = ''1'', cParentID = [], cName = ''c'', cTopic = [], cPosition = 0,
     cNSFW = False, cType = 0, cLastMessageID = [], cThreadMetadata = None, cHasOverwrites = False\<rparr>"

lemma forbidden_reason: "unavailableReason forbidden = ''missing_access''"
  by (simp add: unavailableReason_def isMissingAccess_def forbidden_def has_prefix_def)

theorem skip_leaves_evidence_witness:
  "\<exists>w'. skipSyncError calm_env (Some (plain_channel ''5'')) forbidden \<lparr>wDB = empty_db, wTick = 0\<rparr> = (True, w') \<and>
     sync_cursor (wDB w') (channelMessageUnavailableScope ''5'') = ''missing_access''"
proof -
  let ?r = "skipSyncError calm_env (Some (plain_channel ''5'')) forbidden \<lparr>wDB = empty_db, wTick = 0\<rparr>"
  have "\<not> err_is forbidden ErrCollectionScope" by (simp add: forbidden_def)
  then have "fst ?r"
    by (simp add: skipSyncError_def skipUnavailableChannel_def skipUnavailableChannelByID_def Let_def
        forbidden_reason SetSyncState_def GetSyncState_def db_exec_def db_query_def calm_env_def
        plain_channel_def)
  then have r: "?r = (True, snd ?r)" by (simp add: prod_eq_iff)
  have h: "cID (plain_channel ''5'') \<noteq> []" "\<not> err_is forbidden ErrCollectionScope"
    by (simp_all add: plain_channel_def forbidden_def)
  have m: "to_lower (err_msg forbidden) = ''missing access''"
    by (simp add: forbidden_def to_lower.simps has_prefix_def lower_char_def char_of_eq_iff)
  have n: "\<not> isRetryableSyncError None forbidden"
    unfolding isRetryableSyncError_def m retryable_words_def by (simp add: forbidden_def has_prefix_def)
  have v: "cID (plain_channel ''5'') = ''5''" by (simp add: plain_channel_def)
  have "sync_cursor (wDB (snd ?r)) (channelMessageUnavailableScope ''5'') = ''missing_access''"
    using skip_leaves_evidence [OF r h(1)] h(2) n unfolding v forbidden_reason by blast
  with r show ?thesis by (intro exI conjI)
qed

text \<open>
  Cancellation is never retried and never skipped silently: a cancelled error, or any error
  once the context is done, is not retryable, whatever its text says; a deadline is retryable while
  the run goes on; and every outcome reported for a skip is one of the four counters' names.
\<close>
theorem cancellation_never_retryable:
  "(err_is err ErrCanceled \<longrightarrow> \<not> isRetryableSyncError ctx err) \<and>
     (ctx \<noteq> None \<longrightarrow> \<not> isRetryableSyncError ctx err) \<and>
     (\<not> err_is err ErrCanceled \<longrightarrow> err_is err ErrDeadline \<longrightarrow> isRetryableSyncError None err) \<and>
     syncErrorOutcome err \<in> {''skipped_missing_access'', ''skipped_unknown_channel'', ''deferred_retryable'', ''skipped''}"
  by (simp_all add: isRetryableSyncError_def syncErrorOutcome_def)

theorem cancellation_never_retryable_witness:
  "\<not> isRetryableSyncError None (ErrWrap ''timeout: '' ErrCanceled []) \<and>
   isRetryableSyncError None (ErrWrap ''page: '' ErrDeadline [])"
  using cancellation_never_retryable [of "ErrWrap ''timeout: '' ErrCanceled []" None]
    cancellation_never_retryable [of "ErrWrap ''page: '' ErrDeadline []"] by simp

end
