(* ===== verification/Scope.thy ===== *)
theory Scope
  imports Exclusions
begin

text \<open>
  Persisted collection scope (internal/store/integrity.go, internal/syncer/collection_scope.go and
  \<open>requirePersistedScope\<close> of message_sync.go): the scope columns of the \<open>channels\<close> table, the
  guards that read them, deletion of channels and the refresh that writes decisions back.
  \<open>policyID\<close>, a SHA-256 of the policy, is the parameter \<open>cfPolicyID\<close> of the configuration.
\<close>

record syncer_cfg =
  cfExclusions :: channelExclusions
  cfPolicyID :: "channelExclusions \<Rightarrow> string"
  cfAttachmentText :: bool

definition scope_policy :: "syncer_cfg \<Rightarrow> string" where
  "scope_policy cfg = (if configured (cfExclusions cfg) then cfPolicyID cfg (cfExclusions cfg) else [])"

definition find_channel :: "channel_row list \<Rightarrow> string \<Rightarrow> channel_row option" where
  "find_channel chans i = find (\<lambda>r. crID r = i) chans"

lemma find_channel_Some: "find_channel chans i = Some r \<Longrightarrow> r \<in> set chans \<and> crID r = i"
  by (auto simp: find_channel_def find_Some_iff)

section \<open>Ancestry and descendants in SQL\<close>

text \<open>The recursive query for a tombstone on the channel or an ancestor.\<close>

function tombstone_walk :: "channel_row list \<Rightarrow> string \<Rightarrow> strset \<Rightarrow> bool" where
  "tombstone_walk chans i seen =
     (case find_channel chans i of
        None \<Rightarrow> False
      | Some r \<Rightarrow>
          if crDeletedAt r \<noteq> 0 then True
          else if crParentID r = [] \<or> i \<in> set seen then False
          else tombstone_walk chans (crParentID r) (i # seen))"
  by pat_completeness auto
termination
proof (relation "measure (\<lambda>(chans, i, seen). card (crID ` set chans - set seen))", goal_cases)
  case (2 chans i seen r)
  then have "i \<in> crID ` set chans" "i \<notin> set seen" using find_channel_Some by fastforce+
  then have "crID ` set chans - set (i # seen) \<subset> crID ` set chans - set seen" by auto
  then have "card (crID ` set chans - set (i # seen)) < card (crID ` set chans - set seen)"
    by (intro psubset_card_mono) simp_all
  then show ?case by simp
qed simp

declare tombstone_walk.simps [simp del]

definition tombstoned :: "channel_row list \<Rightarrow> string \<Rightarrow> bool" where
  "tombstoned chans i = tombstone_walk chans i []"

text \<open>The recursive query for the channel and everything below it.\<close>

function descendants :: "channel_row list \<Rightarrow> strset \<Rightarrow> strset" where
  "descendants chans ids =
     (let new = filter (\<lambda>c. crParentID c \<noteq> [] \<and> crParentID c \<in> set ids \<and> crID c \<notin> set ids) chans in
      if new = [] then ids else descendants chans (map crID new @ ids))"
  by pat_completeness auto
termination
proof (relation "measure (\<lambda>(chans, ids). card (crID ` set chans - set ids))", goal_cases)
  case (2 chans ids new)
  obtain c where "c \<in> set new" using 2(2) by (cases new) auto
  then have c: "c \<in> set chans" "crID c \<notin> set ids" "c \<in> set new" using 2(1) by auto
  then have "crID ` set chans - set (map crID new @ ids) \<subset> crID ` set chans - set ids" by auto
  then have "card (crID ` set chans - set (map crID new @ ids)) < card (crID ` set chans - set ids)"
    by (intro psubset_card_mono) simp_all
  then show ?case by simp
qed simp

declare descendants.simps [simp del]

section \<open>Store operations\<close>

definition ScopeChannels :: "env \<Rightarrow> channel_row list call" where
  "ScopeChannels env = db_query env dbChannels"

definition ChannelScopeRevision :: "env \<Rightarrow> string \<Rightarrow> instant option call" where
  "ChannelScopeRevision env i = db_query env (\<lambda>d. map_option crUpdatedAt (find_channel (dbChannels d) i))"

definition ChannelTombstoned :: "env \<Rightarrow> string \<Rightarrow> bool call" where
  "ChannelTombstoned env i =
     db_query env (\<lambda>d. \<exists>r \<in> set (dbChannels d). crID r = i \<and> crDeletedAt r \<noteq> 0)"

definition ChannelFailureSupersession :: "env \<Rightarrow> string \<Rightarrow> string \<Rightarrow> string call" where
  "ChannelFailureSupersession env i policy w =
     (case db_query env (\<lambda>d. tombstoned (dbChannels d) i) w of
        (Inl e, w1) \<Rightarrow> (Inl e, w1)
      | (Inr tombstones, w1) \<Rightarrow>
          if tombstones then (Inr ''superseded_by_deletion'', w1)
          else if policy = [] then (Inr [], w1)
          else case db_query env (\<lambda>d. \<exists>r \<in> set (dbChannels d).
                 crID r = i \<and> crCollectionScope r = ''excluded'' \<and> crScopePolicy r = policy) w1 of
                 (Inl e, w2) \<Rightarrow> (Inl e, w2)
               | (Inr excluded, w2) \<Rightarrow>
                   (Inr (if excluded then ''excluded_by_collection_policy'' else []), w2))"

definition channel_allowed_row :: "string \<Rightarrow> string \<Rightarrow> channel_row \<Rightarrow> bool" where
  "channel_allowed_row i policy r \<longleftrightarrow>
     crID r = i \<and> crDeletedAt r = 0 \<and> crCollectionScope r = ''allowed'' \<and> crScopePolicy r = policy"

definition ChannelCollectionAllowed :: "env \<Rightarrow> string \<Rightarrow> string \<Rightarrow> bool call" where
  "ChannelCollectionAllowed env i policy =
     db_query env (\<lambda>d. \<exists>r \<in> set (dbChannels d). channel_allowed_row i policy r)"

definition ChannelCollectionAdmitted :: "env \<Rightarrow> string \<Rightarrow> string \<Rightarrow> bool call" where
  "ChannelCollectionAdmitted env i policy =
     (if policy \<noteq> [] then ChannelCollectionAllowed env i policy
      else db_query env (\<lambda>d. \<not> tombstoned (dbChannels d) i))"

text \<open>A decision carries the revision it was made on; a row that changed since is left alone.\<close>

record ScopeDecision =
  sdState :: string
  sdRevision :: instant

definition set_scope_row :: "string \<Rightarrow> string \<Rightarrow> ScopeDecision \<Rightarrow> instant \<Rightarrow> channel_row \<Rightarrow> channel_row" where
  "set_scope_row policy i decision now r =
     (if crID r = i \<and> crUpdatedAt r = sdRevision decision \<and>
         (crCollectionScope r \<noteq> sdState decision \<or> crScopePolicy r \<noteq> policy)
      then r\<lparr>crCollectionScope := sdState decision, crScopePolicy := policy, crUpdatedAt := now\<rparr>
      else r)"

definition set_scope :: "env \<Rightarrow> string \<Rightarrow> instant \<Rightarrow> string \<times> ScopeDecision \<Rightarrow> action" where
  "set_scope env policy now = (\<lambda>(i, decision).
     if sdState decision \<notin> {''allowed'', ''excluded'', ''unknown''}
     then fail_with (ErrText ''invalid collection scope'')
     else db_exec env (\<lambda>_ d. d\<lparr>dbChannels := map (set_scope_row policy i decision now) (dbChannels d)\<rparr>))"

definition SetChannelScopes :: "env \<Rightarrow> (string \<times> ScopeDecision) list \<Rightarrow> string \<Rightarrow> action" where
  "SetChannelScopes env scopes policy =
     with_tx env (\<lambda>w. sequence_actions (set_scope env policy (envNow env (wTick w))) scopes w)"

definition invalidate_row :: "strset \<Rightarrow> instant \<Rightarrow> channel_row \<Rightarrow> channel_row" where
  "invalidate_row ids now r =
     (if crID r \<in> set ids
      then r\<lparr>crCollectionScope := ''unknown'', crScopePolicy := [], crUpdatedAt := now\<rparr> else r)"

definition invalidateChannelScope :: "env \<Rightarrow> string \<Rightarrow> action" where
  "invalidateChannelScope env i =
     db_exec env (\<lambda>now d. d\<lparr>dbChannels := map (invalidate_row (descendants (dbChannels d) [i]) now) (dbChannels d)\<rparr>)"

definition tombstone_stub :: "string \<Rightarrow> string \<Rightarrow> instant \<Rightarrow> channel_row" where
  "tombstone_stub guildID i now =
     \<lparr>crID = i, crGuildID = guildID, crParentID = [], crKind = ''unknown'', crName = [], crTopic = [],
      crPosition = 0, crIsNSFW = False, crIsArchived = False, crIsLocked = False,
      crIsPrivateThread = False, crThreadParentID = [], crArchiveTimestamp = 0,
      crRawJSON = json_object [(''guild_id'', guildID), (''id'', i)],
      crDeletedAt = 0, crDeletionSource = [], crCollectionScope = ''unknown'', crScopePolicy = [],
      crUpdatedAt = now\<rparr>"

definition tombstone_row :: "string \<Rightarrow> string \<Rightarrow> string \<Rightarrow> instant \<Rightarrow> channel_row \<Rightarrow> channel_row" where
  "tombstone_row guildID i source now r =
     (if crID r = i \<and> crGuildID r = guildID
      then r\<lparr>crDeletedAt := (if crDeletedAt r \<noteq> 0 then crDeletedAt r else now),
             crDeletionSource := source, crCollectionScope := ''excluded'', crUpdatedAt := now\<rparr>
      else r)"

definition mark_channel_deleted_tx :: "env \<Rightarrow> string \<Rightarrow> string \<Rightarrow> string \<Rightarrow> action" where
  "mark_channel_deleted_tx env guildID i source =
     withResult (db_query env (\<lambda>d. map_option crGuildID (find_channel (dbChannels d) i)))
       (\<lambda>existingGuild.
          if existingGuild \<noteq> None \<and> existingGuild \<noteq> Some guildID
          then fail_with (ErrText ''channel deletion guild mismatch'')
          else andThen
            (if existingGuild = None
             then db_exec env (\<lambda>now d. d\<lparr>dbChannels := dbChannels d @ [tombstone_stub guildID i now]\<rparr>)
             else ok)
            (andThen (invalidateChannelScope env i)
               (db_exec env (\<lambda>now d. d\<lparr>dbChannels := map (tombstone_row guildID i source now) (dbChannels d)\<rparr>))))"

definition MarkChannelDeleted :: "env \<Rightarrow> string \<Rightarrow> string \<Rightarrow> string \<Rightarrow> action" where
  "MarkChannelDeleted env guildID i source =
     (if guildID = [] \<or> i = [] \<or> source = []
      then fail_with (ErrText ''channel tombstone requires scope and source'')
      else with_tx env (mark_channel_deleted_tx env guildID i source))"

text \<open>The guard inside the message transaction; the message's channel and guild.\<close>

definition requireMessageScope :: "env \<Rightarrow> string \<Rightarrow> string \<Rightarrow> string \<Rightarrow> action" where
  "requireMessageScope env channelID guildID policy =
     (if policy = [] then
        withResult (db_query env (\<lambda>d. tombstoned (dbChannels d) channelID))
          (\<lambda>tombstones. if tombstones then fail_with ErrCollectionScope else ok)
      else
        withResult (db_query env (\<lambda>d. find (\<lambda>r. crID r = channelID \<and> crDeletedAt r = 0) (dbChannels d)))
          (\<lambda>row. case row of
             None \<Rightarrow> fail_with ErrCollectionScope
           | Some r \<Rightarrow>
               if crCollectionScope r \<noteq> ''allowed'' \<or> crScopePolicy r \<noteq> policy \<or> crGuildID r \<noteq> guildID
               then fail_with (ErrWrap [] ErrCollectionScope ('': channel '' @ channelID))
               else ok))"

section \<open>Syncer operations\<close>

definition requirePersistedScope :: "env \<Rightarrow> syncer_cfg \<Rightarrow> string \<Rightarrow> action" where
  "requirePersistedScope env cfg channelID =
     (if channelID = [] then ok
      else withResult (ChannelCollectionAdmitted env channelID (scope_policy cfg))
        (\<lambda>allowed. if allowed then ok else fail_with ErrCollectionScope))"

definition scope_catalog :: "channel_row list \<Rightarrow> rows" where
  "scope_catalog rs = fold (\<lambda>r. AList.update (crID r) r) rs []"

definition scope_changes :: "channelExclusions \<Rightarrow> string \<Rightarrow> channel_row list \<Rightarrow> (string \<times> ScopeDecision) list" where
  "scope_changes e policy rs =
     fold (\<lambda>r m. let state = scope e (crID r) (scope_catalog rs) in
             if crCollectionScope r \<noteq> state \<or> crScopePolicy r \<noteq> policy
             then AList.update (crID r) \<lparr>sdState = state, sdRevision = crUpdatedAt r\<rparr> m else m) rs []"

definition refreshCollectionScopes :: "env \<Rightarrow> channelExclusions \<Rightarrow> string \<Rightarrow> rows call" where
  "refreshCollectionScopes env e policy w =
     (case ScopeChannels env w of
        (Inl err, w1) \<Rightarrow> (Inl err, w1)
      | (Inr rs, w1) \<Rightarrow>
          let changes = scope_changes e policy rs in
          if changes = [] then (Inr (scope_catalog rs), w1)
          else (case SetChannelScopes env changes policy w1 of
                  (Some err, w2) \<Rightarrow> (Inl err, w2)
                | (None, w2) \<Rightarrow> (Inr (scope_catalog rs), w2)))"

section \<open>Meaning of the recursive queries\<close>

text \<open>One step from a stored channel to its parent id, and any number of them.\<close>

definition child_of :: "channel_row list \<Rightarrow> string \<Rightarrow> string \<Rightarrow> bool" where
  "child_of chans i j \<longleftrightarrow> (\<exists>r. find_channel chans i = Some r \<and> crParentID r = j \<and> j \<noteq> [])"

abbreviation below :: "channel_row list \<Rightarrow> string \<Rightarrow> string \<Rightarrow> bool" where
  "below chans \<equiv> (child_of chans)\<^sup>*\<^sup>*"

definition deleted_row :: "channel_row list \<Rightarrow> string \<Rightarrow> bool" where
  "deleted_row chans i \<longleftrightarrow> (\<exists>r. find_channel chans i = Some r \<and> crDeletedAt r \<noteq> 0)"

lemma tombstone_walk_sound: "tombstone_walk chans i seen \<Longrightarrow> \<exists>j. below chans i j \<and> deleted_row chans j"
proof (induction chans i seen rule: tombstone_walk.induct)
  case (1 chans i seen)
  then obtain r where r: "find_channel chans i = Some r"
    by (subst (asm) (2) tombstone_walk.simps) (auto split: option.splits)
  show ?case
  proof (cases "crDeletedAt r \<noteq> 0")
    case True
    with r show ?thesis by (intro exI [of _ i]) (simp add: deleted_row_def)
  next
    case False
    with 1(2) r have c: "\<not> (crParentID r = [] \<or> i \<in> set seen)" "tombstone_walk chans (crParentID r) (i # seen)"
      by (simp_all add: tombstone_walk.simps [of chans i seen] split: if_splits)
    from 1(1) [OF r False c] obtain j where "below chans (crParentID r) j" "deleted_row chans j" by blast
    moreover have "child_of chans i (crParentID r)" using r c by (simp add: child_of_def)
    ultimately show ?thesis by (meson converse_rtranclp_into_rtranclp)
  qed
qed

lemma tombstone_walk_closed:
  "\<not> tombstone_walk chans i seen \<Longrightarrow>
   \<exists>V. i \<in> V \<and> (\<forall>v \<in> V. \<not> deleted_row chans v \<and> (v \<in> set seen \<or> (\<forall>j. child_of chans v j \<longrightarrow> j \<in> V)))"
proof (induction chans i seen rule: tombstone_walk.induct)
  case (1 chans i seen)
  have nd: "\<not> deleted_row chans i"
    using 1(2) by (auto simp: deleted_row_def tombstone_walk.simps [of chans i seen] split: if_splits)
  show ?case
  proof (cases "i \<in> set seen \<or> (\<forall>j. \<not> child_of chans i j)")
    case True
    with nd show ?thesis by (intro exI [of _ "{i}"]) auto
  next
    case False
    then obtain r where r: "find_channel chans i = Some r" "crParentID r \<noteq> []" "i \<notin> set seen"
      by (auto simp: child_of_def)
    then have d: "\<not> crDeletedAt r \<noteq> 0" using nd by (auto simp: deleted_row_def)
    have w: "\<not> tombstone_walk chans (crParentID r) (i # seen)"
      using 1(2) r d by (simp add: tombstone_walk.simps [of chans i seen])
    from 1(1) [OF r(1) d _ w] r obtain V where V: "crParentID r \<in> V"
      "\<forall>v \<in> V. \<not> deleted_row chans v \<and> (v \<in> set (i # seen) \<or> (\<forall>j. child_of chans v j \<longrightarrow> j \<in> V))" by auto
    have "\<forall>j. child_of chans i j \<longrightarrow> j \<in> V" using r(1) V(1) by (auto simp: child_of_def)
    with V nd show ?thesis by (intro exI [of _ "insert i V"]) auto
  qed
qed

lemma tombstoned_iff: "tombstoned chans i \<longleftrightarrow> (\<exists>j. below chans i j \<and> deleted_row chans j)"
proof
  assume r: "\<exists>j. below chans i j \<and> deleted_row chans j"
  show "tombstoned chans i"
  proof (rule ccontr)
    assume "\<not> tombstoned chans i"
    then obtain V where V: "i \<in> V" "\<forall>v \<in> V. \<not> deleted_row chans v \<and> (\<forall>j. child_of chans v j \<longrightarrow> j \<in> V)"
      using tombstone_walk_closed [of chans i "[]"] by (auto simp: tombstoned_def)
    have "below chans i j \<Longrightarrow> j \<in> V" for j
      by (induction rule: rtranclp_induct) (use V in auto)
    with r V(2) show False by blast
  qed
qed (use tombstone_walk_sound in \<open>auto simp: tombstoned_def\<close>)

lemma descendants_closed:
  "set ids \<subseteq> set (descendants chans ids) \<and>
   (\<forall>c \<in> set chans. crParentID c \<noteq> [] \<and> crParentID c \<in> set (descendants chans ids) \<longrightarrow>
      crID c \<in> set (descendants chans ids))"
proof (induction chans ids rule: descendants.induct)
  case (1 chans ids)
  let ?new = "filter (\<lambda>c. crParentID c \<noteq> [] \<and> crParentID c \<in> set ids \<and> crID c \<notin> set ids) chans"
  show ?case
  proof (cases "?new = []")
    case True
    then have "descendants chans ids = ids" by (simp add: descendants.simps [of chans ids])
    moreover have "\<forall>c \<in> set chans. crParentID c \<noteq> [] \<and> crParentID c \<in> set ids \<longrightarrow> crID c \<in> set ids"
      using True by (auto simp: filter_empty_conv)
    ultimately show ?thesis by simp
  next
    case False
    then have "descendants chans ids = descendants chans (map crID ?new @ ids)"
      by (simp add: descendants.simps [of chans ids])
    with 1 [OF refl False] show ?thesis by simp
  qed
qed

lemma below_descendant: "below chans j i \<Longrightarrow> j \<in> set (descendants chans [i])"
proof (induction rule: converse_rtranclp_induct)
  case base
  then show ?case using descendants_closed [of "[i]" chans] by auto
next
  case (step j k)
  then obtain r where "find_channel chans j = Some r" "crParentID r = k" "k \<noteq> []" by (auto simp: child_of_def)
  with step(3) descendants_closed [of "[i]" chans] find_channel_Some [of chans j r] show ?case by auto
qed

text \<open>Updates that keep ids and parents keep the hierarchy.\<close>

lemma find_channel_map:
  assumes "\<And>r. crID (f r) = crID r"
  shows "find_channel (map f chans) i = map_option f (find_channel chans i)"
  by (induction chans) (simp_all add: find_channel_def assms)

lemma below_map:
  assumes "\<And>r. crID (f r) = crID r" and "\<And>r. crParentID (f r) = crParentID r"
  shows "below (map f chans) = below chans"
proof -
  have "child_of (map f chans) = child_of chans"
    by (intro ext) (auto simp: child_of_def find_channel_map [OF assms(1)] assms(2))
  then show ?thesis by simp
qed

lemma row_updates [simp]:
  "crID (invalidate_row ids now r) = crID r" "crParentID (invalidate_row ids now r) = crParentID r"
  "crID (tombstone_row g i src now r) = crID r" "crParentID (tombstone_row g i src now r) = crParentID r"
  "crID (set_scope_row p i dec now r) = crID r" "crParentID (set_scope_row p i dec now r) = crParentID r"
  by (simp_all add: invalidate_row_def tombstone_row_def set_scope_row_def)

lemma find_channel_append:
  "find_channel (xs @ ys) i = (case find_channel xs i of Some r \<Rightarrow> Some r | None \<Rightarrow> find_channel ys i)"
  by (induction xs) (simp_all add: find_channel_def)

lemma find_stub [simp]: "find_channel [tombstone_stub g i now] i = Some (tombstone_stub g i now)"
  "crGuildID (tombstone_stub g i now) = g"
  by (simp_all add: find_channel_def tombstone_stub_def)

section \<open>Deletion\<close>

text \<open>The table after a successful deletion.\<close>

lemma mark_deleted_table:
  assumes "MarkChannelDeleted env g i src w = (None, w')"
  shows "\<exists>base n1 n2 n3.
    (find_channel (dbChannels (wDB w)) i = None \<and> base = dbChannels (wDB w) @ [tombstone_stub g i (envNow env n1)] \<or>
     (\<exists>r. find_channel (dbChannels (wDB w)) i = Some r \<and> crGuildID r = g) \<and> base = dbChannels (wDB w)) \<and>
    dbChannels (wDB w') =
      map (tombstone_row g i src (envNow env n3)) (map (invalidate_row (descendants base [i]) (envNow env n2)) base)"
proof -
  from assms have "with_tx env (mark_channel_deleted_tx env g i src) w = (None, w')"
    by (auto simp: MarkChannelDeleted_def fail_with_def split: if_splits)
  from with_tx_None [OF this] obtain v1 v2 where v: "wDB v1 = wDB w"
    "mark_channel_deleted_tx env g i src v1 = (None, v2)" "wDB w' = wDB v2" by blast
  from withResult_None [OF v(2) [unfolded mark_channel_deleted_tx_def]] obtain eg u where
    q: "db_query env (\<lambda>d. map_option crGuildID (find_channel (dbChannels d) i)) v1 = (Inr eg, u)" and
    k: "(if eg \<noteq> None \<and> eg \<noteq> Some g then fail_with (ErrText ''channel deletion guild mismatch'')
         else andThen (if eg = None
             then db_exec env (\<lambda>now d. d\<lparr>dbChannels := dbChannels d @ [tombstone_stub g i now]\<rparr>) else ok)
            (andThen (invalidateChannelScope env i)
               (db_exec env (\<lambda>now d. d\<lparr>dbChannels := map (tombstone_row g i src now) (dbChannels d)\<rparr>)))) u
       = (None, v2)" by blast
  from db_query_Inr [OF q] have eg: "eg = map_option crGuildID (find_channel (dbChannels (wDB w)) i)"
    and u: "wDB u = wDB w" using v(1) by auto
  from k have ok_g: "eg = None \<or> eg = Some g" by (auto simp: fail_with_def split: if_splits)
  from k ok_g have "andThen (if eg = None
             then db_exec env (\<lambda>now d. d\<lparr>dbChannels := dbChannels d @ [tombstone_stub g i now]\<rparr>) else ok)
            (andThen (invalidateChannelScope env i)
               (db_exec env (\<lambda>now d. d\<lparr>dbChannels := map (tombstone_row g i src now) (dbChannels d)\<rparr>))) u = (None, v2)"
    by (auto split: if_splits)
  from andThen_None [OF this] obtain u1 where ins: "(if eg = None
             then db_exec env (\<lambda>now d. d\<lparr>dbChannels := dbChannels d @ [tombstone_stub g i now]\<rparr>) else ok) u = (None, u1)"
    and rest: "andThen (invalidateChannelScope env i)
      (db_exec env (\<lambda>now d. d\<lparr>dbChannels := map (tombstone_row g i src now) (dbChannels d)\<rparr>)) u1 = (None, v2)"
    by blast
  from andThen_None [OF rest] obtain u2 where inv: "invalidateChannelScope env i u1 = (None, u2)"
    and tomb: "db_exec env (\<lambda>now d. d\<lparr>dbChannels := map (tombstone_row g i src now) (dbChannels d)\<rparr>) u2 = (None, v2)"
    by blast
  note e = db_exec_None [OF inv [unfolded invalidateChannelScope_def]] db_exec_None [OF tomb]
  show ?thesis
  proof (cases "eg = None")
    case True
    with ins have "wDB u1 = (wDB u)\<lparr>dbChannels := dbChannels (wDB u) @ [tombstone_stub g i (envNow env (wTick u))]\<rparr>"
      by (auto dest: db_exec_None)
    with True eg e u v(3) show ?thesis
      by (intro exI [of _ "dbChannels (wDB u1)"] exI [of _ "wTick u"] exI [of _ "wTick u1"] exI [of _ "wTick u2"])
        auto
  next
    case False
    with ins ok_g have "wDB u1 = wDB u" by (auto simp: ok_def)
    with False ok_g eg e u v(3) show ?thesis
      by (intro exI [of _ "dbChannels (wDB w)"] exI [of _ 0] exI [of _ "wTick u1"] exI [of _ "wTick u2"]) auto
  qed
qed

lemma mark_deleted_effect:
  assumes "MarkChannelDeleted env g i src w = (None, w')" and "\<And>n. envNow env n \<noteq> 0"
  shows "deleted_row (dbChannels (wDB w')) i"
    and "below (dbChannels (wDB w')) j i \<Longrightarrow> r \<in> set (dbChannels (wDB w')) \<Longrightarrow> crID r = j \<Longrightarrow>
         crCollectionScope r \<noteq> ''allowed''"
proof -
  from mark_deleted_table [OF assms(1)] obtain base n1 n2 n3 where
    base: "find_channel (dbChannels (wDB w)) i = None \<and> base = dbChannels (wDB w) @ [tombstone_stub g i (envNow env n1)] \<or>
     (\<exists>r. find_channel (dbChannels (wDB w)) i = Some r \<and> crGuildID r = g) \<and> base = dbChannels (wDB w)" and
    tab: "dbChannels (wDB w') =
      map (tombstone_row g i src (envNow env n3)) (map (invalidate_row (descendants base [i]) (envNow env n2)) base)"
    by blast
  have "find_channel base i \<noteq> None \<and> crGuildID (the (find_channel base i)) = g"
    using base by (auto simp: find_channel_append find_stub)
  then obtain c where c: "find_channel base i = Some c" "crGuildID c = g" by auto
  with find_channel_Some have "crID c = i" by blast
  then have "crDeletedAt (tombstone_row g i src (envNow env n3)
      (invalidate_row (descendants base [i]) (envNow env n2) c)) \<noteq> 0"
    using c(2) assms(2) by (simp add: tombstone_row_def invalidate_row_def)
  then show "deleted_row (dbChannels (wDB w')) i"
    unfolding tab deleted_row_def using c(1) by (simp add: find_channel_map del: map_map)
  assume b: "below (dbChannels (wDB w')) j i" and r: "r \<in> set (dbChannels (wDB w'))" "crID r = j"
  then have "j \<in> set (descendants base [i])"
    unfolding tab by (intro below_descendant) (simp add: below_map del: map_map)
  with r show "crCollectionScope r \<noteq> ''allowed''"
    unfolding tab by (auto simp: tombstone_row_def invalidate_row_def)
qed

section \<open>Refresh\<close>

lemma set_scopes_table:
  "sequence_actions (set_scope env policy now) ds w = (None, w') \<Longrightarrow>
   dbChannels (wDB w') = map (\<lambda>r. fold (\<lambda>(i, dec). set_scope_row policy i dec now) ds r) (dbChannels (wDB w))"
proof (induction ds arbitrary: w)
  case Nil
  then show ?case by simp
next
  case (Cons d ds)
  obtain i dec where d: "d = (i, dec)" by (cases d)
  from Cons.prems obtain w1 where s: "set_scope env policy now d w = (None, w1)"
    and rest: "sequence_actions (set_scope env policy now) ds w1 = (None, w')"
    by (auto split: prod.splits option.splits)
  from s d have "wDB w1 = (wDB w)\<lparr>dbChannels := map (set_scope_row policy i dec now) (dbChannels (wDB w))\<rparr>"
    by (auto simp: set_scope_def fail_with_def split: if_splits dest: db_exec_None)
  with Cons.IH [OF rest] d show ?case by simp
qed

lemma set_scope_other: "i \<noteq> crID r \<Longrightarrow> set_scope_row policy i dec now r = r"
  by (simp add: set_scope_row_def)

lemma fold_set_scope:
  "distinct (map fst ds) \<Longrightarrow>
   fold (\<lambda>(i, dec). set_scope_row policy i dec now) ds r =
     (case map_of ds (crID r) of None \<Rightarrow> r | Some dec \<Rightarrow> set_scope_row policy (crID r) dec now r)"
proof (induction ds arbitrary: r)
  case (Cons d ds)
  obtain i dec where d: "d = (i, dec)" by (cases d)
  show ?case
  proof (cases "i = crID r")
    case True
    with Cons.prems d have "map_of ds (crID (set_scope_row policy i dec now r)) = None"
      by (simp add: map_of_eq_None_iff)
    with Cons d True show ?thesis by simp
  next
    case False
    with Cons d show ?thesis by (simp add: set_scope_other)
  qed
qed simp

lemma scope_changes_fold:
  "distinct (map crID rs) \<Longrightarrow> distinct (map fst m) \<Longrightarrow> (\<And>r. r \<in> set rs \<Longrightarrow> map_of m (crID r) = None) \<Longrightarrow>
   distinct (map fst (fold (\<lambda>r m. if P r then AList.update (crID r) (f r) m else m) rs m)) \<and>
   (\<forall>r \<in> set rs. map_of (fold (\<lambda>r m. if P r then AList.update (crID r) (f r) m else m) rs m) (crID r) =
      (if P r then Some (f r) else None)) \<and>
   (\<forall>k. k \<notin> crID ` set rs \<longrightarrow>
      map_of (fold (\<lambda>r m. if P r then AList.update (crID r) (f r) m else m) rs m) k = map_of m k)"
proof (induction rs arbitrary: m)
  case (Cons r rs)
  let ?m = "if P r then AList.update (crID r) (f r) m else m"
  have "distinct (map fst ?m)" using Cons.prems(2) by (simp add: distinct_update)
  moreover have "map_of ?m (crID q) = None" if q: "q \<in> set rs" for q
  proof -
    have "crID q \<noteq> crID r" using Cons.prems(1) q by (auto simp: image_iff)
    then show ?thesis using Cons.prems(3) [of q] q by (simp add: update_conv')
  qed
  ultimately show ?case
    using Cons.IH [of ?m] Cons.prems by (auto simp: update_conv')
qed simp

lemma scope_changes_map:
  assumes "distinct (map crID rs)"
  shows "distinct (map fst (scope_changes e policy rs))"
    and "r \<in> set rs \<Longrightarrow> map_of (scope_changes e policy rs) (crID r) =
      (if crCollectionScope r \<noteq> scope e (crID r) (scope_catalog rs) \<or> crScopePolicy r \<noteq> policy
       then Some \<lparr>sdState = scope e (crID r) (scope_catalog rs), sdRevision = crUpdatedAt r\<rparr> else None)"
  using scope_changes_fold [of rs "[]"
      "\<lambda>r. crCollectionScope r \<noteq> scope e (crID r) (scope_catalog rs) \<or> crScopePolicy r \<noteq> policy"
      "\<lambda>r. \<lparr>sdState = scope e (crID r) (scope_catalog rs), sdRevision = crUpdatedAt r\<rparr>"] assms
  by (simp_all add: scope_changes_def Let_def)

lemma set_channel_scopes_table:
  assumes "SetChannelScopes env ds policy w = (None, w')" and "distinct (map fst ds)"
  shows "\<exists>now. dbChannels (wDB w') =
    map (\<lambda>r. case map_of ds (crID r) of None \<Rightarrow> r | Some dec \<Rightarrow> set_scope_row policy (crID r) dec now r)
      (dbChannels (wDB w))"
proof -
  from with_tx_None [OF assms(1) [unfolded SetChannelScopes_def]] obtain v1 v2 where v: "wDB v1 = wDB w"
    "sequence_actions (set_scope env policy (envNow env (wTick v1))) ds v1 = (None, v2)" "wDB w' = wDB v2"
    by blast
  from set_scopes_table [OF v(2)] v fold_set_scope [OF assms(2)] show ?thesis
    by (auto intro!: exI [of _ "envNow env (wTick v1)"])
qed

section \<open>Properties\<close>

text \<open>
  C33. A recorded channel deletion stops collection below it: once a deletion has been recorded, the
  channel and every channel below it are refused, by the crawl guard with and without a configured
  policy, and by the guard inside the message write, until a new scope decision is made.
\<close>
theorem deletion_blocks_descendants:
  assumes del: "MarkChannelDeleted env g i src w = (None, w')" and clock: "\<And>n. envNow env n \<noteq> 0"
    and below: "below (dbChannels (wDB w')) j i" and v: "wDB v = wDB w'"
  shows "(ChannelCollectionAdmitted env2 j policy v = (Inr b, v') \<longrightarrow> \<not> b) \<and>
     (\<exists>e. fst (requireMessageScope env2 j guildID policy v) = Some e)"
proof (intro conjI impI)
  note eff = mark_deleted_effect [OF del clock]
  have t: "tombstoned (dbChannels (wDB v)) j" using eff(1) below v tombstoned_iff by auto
  have n: "\<not> channel_allowed_row j policy r" if "r \<in> set (dbChannels (wDB v))" for r
    using that eff(2) [OF below] v by (auto simp: channel_allowed_row_def)
  show "ChannelCollectionAdmitted env2 j policy v = (Inr b, v') \<Longrightarrow> \<not> b"
    using t n by (auto simp: ChannelCollectionAdmitted_def ChannelCollectionAllowed_def split: if_splits
        dest!: db_query_Inr)
  let ?q = "\<lambda>d. find (\<lambda>r. crID r = j \<and> crDeletedAt r = 0) (dbChannels d)"
  have row: "?q (wDB v) = Some r \<Longrightarrow> crCollectionScope r \<noteq> ''allowed''" for r
    using eff(2) [OF below] v by (auto simp: find_Some_iff dest: nth_mem)
  have row2: "db_query env2 ?q v = (Inr (Some r), v2) \<Longrightarrow> crCollectionScope r \<noteq> ''allowed''" for r v2
    using row db_query_Inr [of env2 ?q v "Some r" v2] by auto
  have ts: "db_query env2 (\<lambda>d. tombstoned (dbChannels d) j) v \<noteq> (Inr False, v2)" for v2
    using t db_query_Inr [of env2 "\<lambda>d. tombstoned (dbChannels d) j" v False v2] by auto
  show "\<exists>e. fst (requireMessageScope env2 j guildID policy v) = Some e"
    using row2 ts
    by (auto simp: requireMessageScope_def withResult_def fail_with_def split: prod.splits sum.splits option.splits
        if_splits)
qed

definition two_channels :: db where
  "two_channels = empty_db\<lparr>dbChannels := [sample_child, sample_row]\<rparr>"

theorem deletion_blocks_descendants_witness:
  "\<exists>w' v'. MarkChannelDeleted calm_env ''1'' ''5'' ''gateway'' \<lparr>wDB = two_channels, wTick = 0\<rparr> = (None, w') \<and>
     ChannelCollectionAdmitted calm_env ''7'' [] w' = (Inr False, v')"
proof -
  let ?r = "MarkChannelDeleted calm_env ''1'' ''5'' ''gateway'' \<lparr>wDB = two_channels, wTick = 0\<rparr>"
  have "fst ?r = None" by code_simp
  then have r: "?r = (None, snd ?r)" by (simp add: prod_eq_iff)
  have clock: "\<And>n. envNow calm_env n \<noteq> 0" by (simp add: calm_env_def)
  have "map_option crParentID (find_channel (dbChannels (wDB (snd ?r))) ''7'') = Some ''5''" by code_simp
  then have b: "below (dbChannels (wDB (snd ?r))) ''7'' ''5''"
    by (intro r_into_rtranclp) (auto simp: child_of_def)
  obtain x v' where a: "ChannelCollectionAdmitted calm_env ''7'' [] (snd ?r) = (Inr x, v')"
    by (auto simp: ChannelCollectionAdmitted_def db_query_def calm_env_def)
  from deletion_blocks_descendants [OF r clock b refl, THEN conjunct1, THEN mp, OF a] a have
    "ChannelCollectionAdmitted calm_env ''7'' [] (snd ?r) = (Inr False, v')" by simp
  with r show ?thesis by (intro exI conjI)
qed

text \<open>
  A message write is admitted only where the crawl is: when the guard inside the message
  transaction lets a message pass, the crawl's admission query on the same database answers yes;
  with a policy the stored channel also belongs to the guild the message claims.
\<close>
theorem write_guard_implies_admission:
  assumes "requireMessageScope env channelID guildID policy w = (None, w')"
    and "ChannelCollectionAdmitted env2 channelID policy v = (Inr b, v')" and "wDB v = wDB w"
  shows "b \<and>
     (policy \<noteq> [] \<longrightarrow> (\<exists>r \<in> set (dbChannels (wDB w)). crID r = channelID \<and> crGuildID r = guildID))"
proof (intro conjI impI)
  let ?q = "\<lambda>d. find (\<lambda>r. crID r = channelID \<and> crDeletedAt r = 0) (dbChannels d)"
  have pol: "policy \<noteq> [] \<Longrightarrow> \<exists>r \<in> set (dbChannels (wDB w)). channel_allowed_row channelID policy r \<and> crGuildID r = guildID"
  proof -
    assume "policy \<noteq> []"
    with assms(1) obtain x w1 where q: "db_query env ?q w = (Inr x, w1)"
      and k: "x \<noteq> None" "crCollectionScope (the x) = ''allowed''" "crScopePolicy (the x) = policy" "crGuildID (the x) = guildID"
      by (auto simp: requireMessageScope_def fail_with_def dest!: withResult_None split: option.splits if_splits)
    from db_query_Inr [OF q] k obtain r where "?q (wDB w) = Some r" "x = Some r" by auto
    with k show ?thesis by (auto simp: find_Some_iff channel_allowed_row_def dest: nth_mem)
  qed
  then show "policy \<noteq> [] \<Longrightarrow> \<exists>r \<in> set (dbChannels (wDB w)). crID r = channelID \<and> crGuildID r = guildID"
    by (auto simp: channel_allowed_row_def)
  show b
  proof (cases "policy = []")
    case True
    with assms(1) have "\<not> tombstoned (dbChannels (wDB w)) channelID"
      by (auto simp: requireMessageScope_def fail_with_def dest!: withResult_None db_query_Inr split: if_splits)
    with True assms(2,3) show ?thesis by (auto simp: ChannelCollectionAdmitted_def dest!: db_query_Inr)
  next
    case False
    with pol assms(2,3) show ?thesis
      by (auto simp: ChannelCollectionAdmitted_def ChannelCollectionAllowed_def dest!: db_query_Inr)
  qed
qed

theorem write_guard_implies_admission_witness:
  "\<exists>b v'. ChannelCollectionAdmitted calm_env ''7'' [] \<lparr>wDB = two_channels, wTick = 0\<rparr> = (Inr b, v') \<and> b"
proof -
  let ?w = "\<lparr>wDB = two_channels, wTick = 0\<rparr> :: world"
  have "fst (requireMessageScope calm_env ''7'' ''1'' [] ?w) = None" by code_simp
  then have g: "requireMessageScope calm_env ''7'' ''1'' [] ?w =
      (None, snd (requireMessageScope calm_env ''7'' ''1'' [] ?w))" by (simp add: prod_eq_iff)
  obtain x v' where a: "ChannelCollectionAdmitted calm_env ''7'' [] ?w = (Inr x, v')"
    by (auto simp: ChannelCollectionAdmitted_def db_query_def calm_env_def)
  from write_guard_implies_admission [OF g a refl] a show ?thesis by blast
qed

text \<open>
  A scope refresh makes the persisted scope agree with the decision: after a successful refresh
  every channel row carries the decision of \<open>scope\<close> on the catalog the refresh read, under the
  current policy; and whenever scopes are written, a row whose revision is not the one the decision
  was made on keeps its scope.
\<close>
theorem refresh_persists_decisions:
  assumes "refreshCollectionScopes env e policy w = (Inr cat, w')" and "distinct (map crID (dbChannels (wDB w)))"
  shows "(\<forall>r \<in> set (dbChannels (wDB w')). crCollectionScope r = scope e (crID r) cat \<and> crScopePolicy r = policy) \<and>
     (SetChannelScopes env ds policy u = (None, u') \<longrightarrow> distinct (map fst ds) \<longrightarrow>
      r \<in> set (dbChannels (wDB u)) \<longrightarrow> (\<forall>dec. map_of ds (crID r) = Some dec \<longrightarrow> sdRevision dec \<noteq> crUpdatedAt r) \<longrightarrow>
      r \<in> set (dbChannels (wDB u')))"
proof (intro conjI impI)
  let ?rs = "dbChannels (wDB w)"
  from assms(1) obtain w1 where q: "ScopeChannels env w = (Inr ?rs, w1)" "wDB w1 = wDB w" and cat: "cat = scope_catalog ?rs"
    and res: "(scope_changes e policy ?rs = [] \<and> w' = w1) \<or> SetChannelScopes env (scope_changes e policy ?rs) policy w1 = (None, w')"
    by (auto simp: refreshCollectionScopes_def ScopeChannels_def Let_def split: prod.splits sum.splits if_splits option.splits
        dest!: db_query_Inr)
  note ch = scope_changes_map [OF assms(2), where e = e and policy = policy]
  show "\<forall>r \<in> set (dbChannels (wDB w')). crCollectionScope r = scope e (crID r) cat \<and> crScopePolicy r = policy"
  proof (cases "scope_changes e policy ?rs = [] \<and> w' = w1")
    case True
    have "crCollectionScope r = scope e (crID r) (scope_catalog ?rs) \<and> crScopePolicy r = policy" if "r \<in> set ?rs" for r
      using ch(2) [OF that] True by (auto split: if_splits)
    then show ?thesis using True q(2) cat by simp
  next
    case False
    with res have s: "SetChannelScopes env (scope_changes e policy ?rs) policy w1 = (None, w')" by blast
    from set_channel_scopes_table [OF s ch(1)] obtain now where tab: "dbChannels (wDB w') =
      map (\<lambda>r. case map_of (scope_changes e policy ?rs) (crID r) of None \<Rightarrow> r
                | Some dec \<Rightarrow> set_scope_row policy (crID r) dec now r) (dbChannels (wDB w1))" by blast
    show ?thesis
      unfolding tab using ch(2) q(2) cat by (auto simp: set_scope_row_def split: if_splits)
  qed
  assume u: "SetChannelScopes env ds policy u = (None, u')" "distinct (map fst ds)" "r \<in> set (dbChannels (wDB u))"
    "\<forall>dec. map_of ds (crID r) = Some dec \<longrightarrow> sdRevision dec \<noteq> crUpdatedAt r"
  from set_channel_scopes_table [OF u(1,2)] obtain now where tab: "dbChannels (wDB u') =
    map (\<lambda>r. case map_of ds (crID r) of None \<Rightarrow> r | Some dec \<Rightarrow> set_scope_row policy (crID r) dec now r)
      (dbChannels (wDB u))" by blast
  have "(case map_of ds (crID r) of None \<Rightarrow> r | Some dec \<Rightarrow> set_scope_row policy (crID r) dec now r) = r"
    using u(4) by (auto simp: set_scope_row_def split: option.splits)
  with u(3) show "r \<in> set (dbChannels (wDB u'))" unfolding tab by (metis (no_types, lifting) image_eqI image_set)
qed

theorem refresh_persists_decisions_witness:
  "\<exists>cat w'. refreshCollectionScopes calm_env (ban ''9'') ''p'' \<lparr>wDB = two_channels, wTick = 0\<rparr> = (Inr cat, w') \<and>
     (\<forall>r \<in> set (dbChannels (wDB w')). crScopePolicy r = ''p'')"
proof -
  let ?w = "\<lparr>wDB = two_channels, wTick = 0\<rparr> :: world"
  let ?r = "refreshCollectionScopes calm_env (ban ''9'') ''p'' ?w"
  have "\<not> isl (fst ?r)" by code_simp
  then have r: "?r = (Inr (projr (fst ?r)), snd ?r)" by (simp add: prod_eq_iff)
  have d: "distinct (map crID (dbChannels (wDB ?w)))" by (simp add: two_channels_def sample_child_def sample_row_def)
  from refresh_persists_decisions [OF r d] r show ?thesis by blast
qed

end
