(* ===== verification/FailureLedger.thy ===== *)
theory FailureLedger
  imports Scope
begin

text \<open>
  The failure ledger (internal/store/failures.go and the resolution operations of
  internal/store/integrity.go). \<open>failureClass\<close> reads Go type names and \<open>sanitizeFailureMessage\<close>
  runs regular expressions: they are the functions \<open>envClass\<close> and \<open>envSanitize\<close> of the environment.
  The timing diagnostics of \<open>RecordFailureWithMessageScopeTimed\<close> are not modelled.
\<close>

section \<open>References\<close>

definition mergeFailureRef :: "failure_ref \<Rightarrow> failure_ref \<Rightarrow> failure_ref" where
  "mergeFailureRef base contextual =
     (let pick = (\<lambda>sel. if sel base = [] then sel contextual else sel base) in
      \<lparr>rOperation = pick rOperation, rSource = pick rSource, rGuildID = pick rGuildID,
       rChannelID = pick rChannelID, rMessageID = pick rMessageID, rRelatedKind = pick rRelatedKind,
       rRelatedID = pick rRelatedID\<rparr>)"

definition normalizeFailureRef :: "failure_ref \<Rightarrow> failure_ref" where
  "normalizeFailureRef ref =
     \<lparr>rOperation = trim_space (rOperation ref), rSource = trim_space (rSource ref),
      rGuildID = trim_space (rGuildID ref), rChannelID = trim_space (rChannelID ref),
      rMessageID = trim_space (rMessageID ref), rRelatedKind = trim_space (rRelatedKind ref),
      rRelatedID = trim_space (rRelatedID ref)\<rparr>"

definition empty_ref :: failure_ref where
  "empty_ref = \<lparr>rOperation = [], rSource = [], rGuildID = [], rChannelID = [], rMessageID = [],
     rRelatedKind = [], rRelatedID = []\<rparr>"

definition FailureRefFromError :: "go_error \<Rightarrow> failure_ref" where
  "FailureRefFromError err = (case err_row err of Some ref \<Rightarrow> ref | None \<Rightarrow> empty_ref)"

definition ledger_ref :: "failure_ref \<Rightarrow> go_error \<Rightarrow> failure_ref" where
  "ledger_ref ref err = normalizeFailureRef (mergeFailureRef ref (FailureRefFromError err))"

definition ref_ok :: "failure_ref \<Rightarrow> bool" where
  "ref_ok ref \<longleftrightarrow> rOperation ref \<noteq> [] \<and> rSource ref \<noteq> []"

definition ref_required :: go_error where
  "ref_required = ErrText ''failure operation and source are required''"

definition annotate :: "(go_error \<Rightarrow> go_error) \<Rightarrow> action \<Rightarrow> action" where
  "annotate f a w = (case a w of (Some e, w') \<Rightarrow> (Some (f e), w') | (None, w') \<Rightarrow> (None, w'))"

section \<open>Statements\<close>

text \<open>The upsert of \<open>recordFailure\<close>: the identity columns are a unique key.\<close>

definition ledger_upsert :: "failure_ref \<Rightarrow> string \<Rightarrow> string \<Rightarrow> instant \<Rightarrow> db \<Rightarrow> db" where
  "ledger_upsert ref cls msg now d =
     (if \<exists>f \<in> set (dbFailures d). fRef f = ref
      then d\<lparr>dbFailures := map (\<lambda>f. if fRef f = ref
               then f\<lparr>fErrorClass := cls, fErrorMessage := msg, fLastSeenAt := now,
                      fRetryCount := fRetryCount f + 1, fResolutionReason := [], fResolvedAt := None\<rparr>
               else f) (dbFailures d)\<rparr>
      else d\<lparr>dbFailures := dbFailures d @
               [\<lparr>fFailureID = dbNextFailureID d, fRef = ref, fErrorClass = cls, fErrorMessage = msg,
                 fFirstSeenAt = now, fLastSeenAt = now, fRetryCount = 0, fResolvedAt = None,
                 fResolutionReason = []\<rparr>],
             dbNextFailureID := dbNextFailureID d + 1\<rparr>)"

definition update_failures :: "(failure \<Rightarrow> bool) \<Rightarrow> (failure \<Rightarrow> failure) \<Rightarrow> db \<Rightarrow> db" where
  "update_failures P g d = d\<lparr>dbFailures := map (\<lambda>f. if P f then g f else f) (dbFailures d)\<rparr>"

definition resolved_now :: "instant \<Rightarrow> failure \<Rightarrow> failure" where
  "resolved_now now f = f\<lparr>fResolvedAt := Some now\<rparr>"

definition resolvedFailureMaxAge :: duration where
  "resolvedFailureMaxAge = 90 * 24 * hour_ns"

definition prune_failures :: "instant \<Rightarrow> db \<Rightarrow> db" where
  "prune_failures now d =
     d\<lparr>dbFailures := filter (\<lambda>f. \<not> (case fResolvedAt f of None \<Rightarrow> False
                                    | Some t \<Rightarrow> t < now - resolvedFailureMaxAge)) (dbFailures d)\<rparr>"

definition pruneResolvedFailures :: "env \<Rightarrow> instant \<Rightarrow> action" where
  "pruneResolvedFailures env now =
     annotate (\<lambda>e. ErrWrap ''prune resolved failures: '' e []) (db_exec env (\<lambda>_. prune_failures now))"

section \<open>Recording\<close>

definition recordFailure :: "env \<Rightarrow> failure_ref \<Rightarrow> go_error \<Rightarrow> instant \<Rightarrow> action" where
  "recordFailure env ref0 err now =
     (let ref = ledger_ref ref0 err in
      if \<not> ref_ok ref then fail_with ref_required
      else annotate (\<lambda>e. ErrWrap (''record '' @ rSource ref @ ''/'' @ rOperation ref @ '' failure: '') e [])
        (db_exec env (\<lambda>_. ledger_upsert ref (envClass env err) (envSanitize env (err_msg err)) now)))"

definition matches_ref :: "failure_ref \<Rightarrow> failure \<Rightarrow> bool" where
  "matches_ref ref f \<longleftrightarrow>
     fResolvedAt f = None \<and> rOperation (fRef f) = rOperation ref \<and> rSource (fRef f) = rSource ref \<and>
     (rGuildID ref \<noteq> [] \<longrightarrow> rGuildID (fRef f) = rGuildID ref) \<and>
     (rChannelID ref \<noteq> [] \<longrightarrow> rChannelID (fRef f) = rChannelID ref) \<and>
     (rMessageID ref \<noteq> [] \<longrightarrow> rMessageID (fRef f) = rMessageID ref) \<and>
     (rRelatedKind ref \<noteq> [] \<longrightarrow> rRelatedKind (fRef f) = rRelatedKind ref) \<and>
     (rRelatedID ref \<noteq> [] \<longrightarrow> rRelatedID (fRef f) = rRelatedID ref)"

definition ResolveFailures :: "env \<Rightarrow> failure_ref \<Rightarrow> action" where
  "ResolveFailures env ref0 w =
     (let ref = normalizeFailureRef ref0; now = envNow env (wTick w) in
      if \<not> ref_ok ref then (Some ref_required, w)
      else andThen
        (annotate (\<lambda>e. ErrWrap (''resolve '' @ rSource ref @ ''/'' @ rOperation ref @ '' failures: '') e [])
           (db_exec env (\<lambda>_. update_failures (matches_ref ref) (resolved_now now))))
        (pruneResolvedFailures env now) w)"

definition RecordFailure :: "env \<Rightarrow> failure_ref \<Rightarrow> go_error option \<Rightarrow> action" where
  "RecordFailure env ref failure w =
     (case failure of
        None \<Rightarrow> ResolveFailures env ref w
      | Some err \<Rightarrow>
          let now = envNow env (wTick w) in
          andThen (recordFailure env ref err now) (pruneResolvedFailures env now) w)"

definition RecordEventFailure :: "env \<Rightarrow> failure_ref \<Rightarrow> go_error option \<Rightarrow> instant \<Rightarrow> action" where
  "RecordEventFailure env ref0 failure receivedAt w =
     (case failure of
        None \<Rightarrow> (Some (ErrText ''event failure is required''), w)
      | Some err \<Rightarrow>
          let now = envNow env (wTick w);
              eventAt = (if \<not> is_zero_time receivedAt \<and> receivedAt < now then receivedAt else now);
              ref = ledger_ref ref0 err in
          andThen
            (with_tx env
               (andThen (recordFailure env ref0 err now)
                  (annotate (\<lambda>e. ErrWrap (''record '' @ rSource ref @ ''/'' @ rOperation ref @ '' event time: '') e [])
                     (db_exec env (\<lambda>_. update_failures (\<lambda>f. fRef f = ref) (\<lambda>f. f\<lparr>fFirstSeenAt := eventAt\<rparr>))))))
            (pruneResolvedFailures env now) w)"

text \<open>The scope of a message failure after the lookup of the stored message.\<close>

definition message_failure_scope :: "failure_ref \<Rightarrow> (string \<times> string) option \<Rightarrow> go_error + failure_ref" where
  "message_failure_scope ref stored =
     (case stored of
        None \<Rightarrow> Inr ref
      | Some (storedGuildID, storedChannelID) \<Rightarrow>
          if rChannelID ref \<noteq> [] \<and> storedChannelID \<noteq> [] \<and> rChannelID ref \<noteq> storedChannelID
          then Inl (ErrText (''message channel mismatch: event='' @ rChannelID ref @ '' stored='' @ storedChannelID))
          else
            let ref1 = (if rChannelID ref = [] then ref\<lparr>rChannelID := storedChannelID\<rparr> else ref) in
            if rGuildID ref1 \<noteq> [] \<and> storedGuildID \<noteq> [] \<and> rGuildID ref1 \<noteq> storedGuildID
            then Inl (ErrText (''message guild mismatch: event='' @ rGuildID ref1 @ '' stored='' @ storedGuildID))
            else Inr (if rGuildID ref1 = [] then ref1\<lparr>rGuildID := storedGuildID\<rparr> else ref1))"

definition record_message_scoped :: "env \<Rightarrow> failure_ref \<Rightarrow> go_error \<Rightarrow> action" where
  "record_message_scoped env ref err =
     withResult (db_query env (\<lambda>d. map_option (\<lambda>m. (mrGuildID m, mrChannelID m)) (map_of (dbMessages d) (rMessageID ref))))
       (\<lambda>stored. case message_failure_scope ref stored of
          Inl e \<Rightarrow> fail_with e
        | Inr ref1 \<Rightarrow>
            if rGuildID ref1 = [] \<or> rChannelID ref1 = []
            then fail_with (ErrText (''message identity is incomplete: guild_id='' @ json_quote (rGuildID ref1) @
                   '' channel_id='' @ json_quote (rChannelID ref1) @ '' message_id='' @ json_quote (rMessageID ref1)))
            else (\<lambda>w. let now = envNow env (wTick w) in
                    andThen (recordFailure env ref1 err now) (pruneResolvedFailures env now) w))"

text \<open>The prefixes the begin, lookup and commit errors are wrapped in are left out.\<close>

definition RecordFailureWithMessageScopeTimed :: "env \<Rightarrow> failure_ref \<Rightarrow> go_error option \<Rightarrow> action" where
  "RecordFailureWithMessageScopeTimed env ref0 failure =
     (case failure of
        None \<Rightarrow> fail_with (ErrText ''message-scoped failure is required'')
      | Some err \<Rightarrow>
          let ref = ledger_ref ref0 err in
          if \<not> ref_ok ref then fail_with ref_required
          else if rMessageID ref = [] then fail_with (ErrText ''message id is required'')
          else andThen
            (annotate (\<lambda>e. ErrWrap ''acquire message-scoped failure connection: '' e []) (db_side env))
            (with_tx env (record_message_scoped env ref err)))"

section \<open>Resolving\<close>

definition ResolveFailureIdentity :: "env \<Rightarrow> failure_ref \<Rightarrow> action" where
  "ResolveFailureIdentity env ref0 w =
     (let ref = normalizeFailureRef ref0; now = envNow env (wTick w) in
      if \<not> ref_ok ref then (Some ref_required, w)
      else andThen
        (annotate (\<lambda>e. ErrWrap (''resolve exact '' @ rSource ref @ ''/'' @ rOperation ref @ '' failure: '') e [])
           (db_exec env (\<lambda>_. update_failures (\<lambda>f. fResolvedAt f = None \<and> fRef f = ref) (resolved_now now))))
        (pruneResolvedFailures env now) w)"

function batches :: "nat \<Rightarrow> 'a list \<Rightarrow> 'a list list" where
  "batches n xs = (if xs = [] \<or> n = 0 then [] else take n xs # batches n (drop n xs))"
  by pat_completeness auto
termination
  by (relation "measure (\<lambda>(n, xs). length xs)") auto

declare batches.simps [simp del]

definition message_id_list :: "string list \<Rightarrow> string list" where
  "message_id_list messageIDs = rev (remdups (rev (filter (\<lambda>i. i \<noteq> []) (map trim_space messageIDs))))"

definition ResolveMessageFailures :: "env \<Rightarrow> failure_ref \<Rightarrow> string list \<Rightarrow> action" where
  "ResolveMessageFailures env ref0 messageIDs w =
     (let ref = normalizeFailureRef ref0; ids = message_id_list messageIDs; now = envNow env (wTick w) in
      if \<not> ref_ok ref then (Some ref_required, w)
      else if ids = [] then (None, w)
      else andThen
        (sequence_actions
           (\<lambda>batch. annotate (\<lambda>e. ErrWrap (''resolve '' @ rSource ref @ ''/'' @ rOperation ref @ '' message failures: '') e [])
              (db_exec env (\<lambda>_. update_failures
                 (\<lambda>f. matches_ref (ref\<lparr>rMessageID := []\<rparr>) f \<and> rMessageID (fRef f) \<in> set batch) (resolved_now now))))
           (batches 500 ids))
        (pruneResolvedFailures env now) w)"

definition ResolveFailureWithReason :: "env \<Rightarrow> failure_ref \<Rightarrow> string \<Rightarrow> action" where
  "ResolveFailureWithReason env ref reason =
     (if reason = [] then fail_with (ErrText ''resolution reason required'')
      else db_exec env (\<lambda>now. update_failures (\<lambda>f. fResolvedAt f = None \<and> fRef f = ref)
             (\<lambda>f. f\<lparr>fResolvedAt := Some now, fResolutionReason := reason\<rparr>)))"

definition ResolveFailureGeneration :: "env \<Rightarrow> failure \<Rightarrow> string \<Rightarrow> action" where
  "ResolveFailureGeneration env failure reason =
     (if reason = [] then fail_with (ErrText ''resolution reason required'')
      else if fFailureID failure = 0 then fail_with (ErrText ''failure id required'')
      else db_exec env (\<lambda>now. update_failures
             (\<lambda>f. fFailureID f = fFailureID failure \<and> fRetryCount f = fRetryCount failure \<and> fResolvedAt f = None)
             (\<lambda>f. f\<lparr>fResolvedAt := Some now, fResolutionReason := reason\<rparr>)))"

section \<open>Listing\<close>

record FailureListOptions =
  loIncludeResolved :: bool
  loSource :: string
  loGuildID :: string
  loChannelID :: string
  loLimit :: int

definition failureWhere :: "FailureListOptions \<Rightarrow> failure \<Rightarrow> bool" where
  "failureWhere opts f \<longleftrightarrow>
     (loIncludeResolved opts \<or> fResolvedAt f = None) \<and>
     (loSource opts = [] \<or> rSource (fRef f) = loSource opts) \<and>
     (loGuildID opts = [] \<or> rGuildID (fRef f) = loGuildID opts) \<and>
     (loChannelID opts = [] \<or> rChannelID (fRef f) = loChannelID opts)"

definition ListFailures :: "env \<Rightarrow> FailureListOptions \<Rightarrow> (nat \<times> failure list) call" where
  "ListFailures env opts0 w =
     (let opts = opts0\<lparr>loSource := trim_space (loSource opts0), loGuildID := trim_space (loGuildID opts0),
                       loChannelID := trim_space (loChannelID opts0),
                       loLimit := (if loLimit opts0 \<le> 0 then 100 else loLimit opts0)\<rparr> in
      if loLimit opts > 1000 then (Inl (ErrText ''failure limit must be at most 1000''), w)
      else case db_query env (\<lambda>d. length (filter (failureWhere (opts\<lparr>loIncludeResolved := False\<rparr>)) (dbFailures d))) w of
        (Inl e, w1) \<Rightarrow> (Inl (ErrWrap ''count unresolved failures: '' e []), w1)
      | (Inr n, w1) \<Rightarrow>
          (case db_query env (\<lambda>d. take (nat (loLimit opts))
                 (sort_key (\<lambda>f. (fResolvedAt f \<noteq> None, - fLastSeenAt f, - int (fFailureID f)))
                    (filter (failureWhere opts) (dbFailures d)))) w1 of
             (Inl e, w2) \<Rightarrow> (Inl (ErrWrap ''list failures: '' e []), w2)
           | (Inr fs, w2) \<Rightarrow> (Inr (n, fs), w2)))"

text \<open>\<open>afterID = - 1\<close> selects the oldest-observation order.\<close>

definition listFailureReplayCandidates ::
    "env \<Rightarrow> failure_ref \<Rightarrow> string list \<Rightarrow> string list \<Rightarrow> int \<Rightarrow> int \<Rightarrow> failure list call" where
  "listFailureReplayCandidates env ref0 guildIDs relatedIDs afterID limit0 w =
     (let ref = normalizeFailureRef ref0; limit = (if limit0 \<le> 0 then 100 else limit0);
          P = (\<lambda>f. matches_ref ref f \<and> (guildIDs = [] \<or> rGuildID (fRef f) \<in> set guildIDs) \<and>
                 (relatedIDs = [] \<or> rRelatedID (fRef f) \<in> set relatedIDs) \<and>
                 (afterID = - 1 \<or> int (fFailureID f) > afterID)) in
      if \<not> ref_ok ref then (Inl ref_required, w)
      else if limit > 1000 then (Inl (ErrText ''failure replay limit must be at most 1000''), w)
      else case db_query env (\<lambda>d. take (nat limit)
             (sort_key (\<lambda>f. (if afterID = - 1 then fLastSeenAt f else 0, fFailureID f)) (filter P (dbFailures d)))) w of
        (Inl e, w1) \<Rightarrow> (Inl (ErrWrap ''list failure replay candidates: '' e []), w1)
      | (Inr fs, w1) \<Rightarrow> (Inr fs, w1))"

definition ListFailureReplayCandidates :: "env \<Rightarrow> failure_ref \<Rightarrow> string list \<Rightarrow> int \<Rightarrow> failure list call" where
  "ListFailureReplayCandidates env ref guildIDs limit =
     listFailureReplayCandidates env ref guildIDs [] (- 1) limit"

definition ListFailureReplayCandidatesAfter ::
    "env \<Rightarrow> failure_ref \<Rightarrow> string list \<Rightarrow> int \<Rightarrow> int \<Rightarrow> failure list call" where
  "ListFailureReplayCandidatesAfter env ref guildIDs afterID limit =
     listFailureReplayCandidates env ref guildIDs [] (if afterID < 0 then 0 else afterID) limit"

definition ListFailureReplayCandidatesMatchingRelatedIDs ::
    "env \<Rightarrow> failure_ref \<Rightarrow> string list \<Rightarrow> string list \<Rightarrow> int \<Rightarrow> failure list call" where
  "ListFailureReplayCandidatesMatchingRelatedIDs env ref guildIDs relatedIDs limit w =
     (if trim_space (rRelatedID ref) \<noteq> []
      then (Inl (ErrText ''failure related ID and related ID list cannot both be set''), w)
      else if message_id_list relatedIDs = []
      then (Inl (ErrText ''at least one failure related ID is required''), w)
      else listFailureReplayCandidates env ref guildIDs (message_id_list relatedIDs) (- 1) limit w)"

section \<open>The ledger as a set of pending failures\<close>

text \<open>
  What a client of the ledger relies on: which references are pending, that recording adds its
  reference and nothing else, and that resolving removes the references it selects and nothing else.
\<close>

locale pending_ledger =
  fixes pend :: "'d \<Rightarrow> 'k \<Rightarrow> bool"
    and rec :: "'k \<Rightarrow> 'e \<Rightarrow> 'd \<Rightarrow> 'd"
    and res :: "('k \<Rightarrow> bool) \<Rightarrow> 't \<Rightarrow> 'd \<Rightarrow> 'd"
    and clean :: "'t \<Rightarrow> 'd \<Rightarrow> 'd"
  assumes pend_rec: "pend (rec k e d) j \<longleftrightarrow> j = k \<or> pend d j"
    and pend_res: "pend (res P t d) j \<longleftrightarrow> pend d j \<and> \<not> P j"
    and pend_clean: "pend (clean t d) j \<longleftrightarrow> pend d j"
begin

lemma pend_rec_run: "pend (fold (\<lambda>(k, e). rec k e) kes d) j \<longleftrightarrow> j \<in> fst ` set kes \<or> pend d j"
  by (induction kes arbitrary: d) (auto simp: pend_rec split: prod.splits)

lemma pend_res_run: "pend (fold (\<lambda>P. res P t) Ps d) j \<longleftrightarrow> pend d j \<and> (\<forall>P \<in> set Ps. \<not> P j)"
  by (induction Ps arbitrary: d) (auto simp: pend_res)

text \<open>A reference recorded after the last resolution that selects it is pending.\<close>

lemma recorded_last_is_pending:
  assumes "k \<in> fst ` set kes"
  shows "pend (clean u (fold (\<lambda>(k, e). rec k e) kes (fold (\<lambda>P. res P t) Ps d))) k"
  using assms by (simp add: pend_clean pend_rec_run)

text \<open>Two resolutions commute on what stays pending.\<close>

lemma res_commute: "pend (res P t (res Q u d)) j \<longleftrightarrow> pend (res Q u (res P t d)) j"
  by (auto simp: pend_res)

end

definition pending :: "db \<Rightarrow> failure_ref \<Rightarrow> bool" where
  "pending d ref \<longleftrightarrow> (\<exists>f \<in> set (dbFailures d). fRef f = ref \<and> fResolvedAt f = None)"

definition resolve_refs :: "(failure_ref \<Rightarrow> bool) \<Rightarrow> instant \<Rightarrow> db \<Rightarrow> db" where
  "resolve_refs P now = update_failures (\<lambda>f. fResolvedAt f = None \<and> P (fRef f)) (resolved_now now)"

definition upsert_ref :: "failure_ref \<Rightarrow> string \<times> string \<times> instant \<Rightarrow> db \<Rightarrow> db" where
  "upsert_ref ref = (\<lambda>(cls, msg, now). ledger_upsert ref cls msg now)"

lemma pending_map:
  "pending (d\<lparr>dbFailures := map h fs\<rparr>) j \<longleftrightarrow> (\<exists>f \<in> set fs. fRef (h f) = j \<and> fResolvedAt (h f) = None)"
  by (simp add: pending_def)

lemma pending_update_failures:
  assumes "\<And>f. fRef (g f) = fRef f"
  shows "pending (update_failures P g d) j \<longleftrightarrow>
    (\<exists>f \<in> set (dbFailures d). fRef f = j \<and> (if P f then fResolvedAt (g f) = None else fResolvedAt f = None))"
  unfolding update_failures_def pending_map using assms by (intro bex_cong refl) simp

lemma upsert_existing:
  "\<exists>f \<in> set (dbFailures d). fRef f = ref \<Longrightarrow> ledger_upsert ref cls msg now d =
     update_failures (\<lambda>f. fRef f = ref) (\<lambda>f. f\<lparr>fErrorClass := cls, fErrorMessage := msg, fLastSeenAt := now,
       fRetryCount := fRetryCount f + 1, fResolutionReason := [], fResolvedAt := None\<rparr>) d"
  unfolding ledger_upsert_def update_failures_def by (rule if_P)

lemma upsert_pending: "pending (ledger_upsert k cls msg now d) j \<longleftrightarrow> j = k \<or> pending d j"
proof (cases "\<exists>f \<in> set (dbFailures d). fRef f = k")
  case True
  show ?thesis
    unfolding upsert_existing [OF True]
    by (subst pending_update_failures) (use True in \<open>auto simp: pending_def\<close>, metis)
next
  case False
  then show ?thesis by (auto simp: ledger_upsert_def pending_def)
qed

interpretation lg: pending_ledger pending upsert_ref resolve_refs prune_failures
proof unfold_locales
  fix k e d j
  show "pending (upsert_ref k e d) j \<longleftrightarrow> j = k \<or> pending d j"
    by (cases e) (simp add: upsert_ref_def upsert_pending)
next
  fix P t d j
  show "pending (resolve_refs P t d) j \<longleftrightarrow> pending d j \<and> \<not> P j"
    unfolding resolve_refs_def
    by (subst pending_update_failures) (auto simp: pending_def resolved_now_def)
next
  fix t d j
  show "pending (prune_failures t d) j \<longleftrightarrow> pending d j"
    by (auto simp: pending_def prune_failures_def split: option.splits)
qed

lemma update_matches:
  "(\<And>f. P f \<longleftrightarrow> fResolvedAt f = None \<and> Q (fRef f)) \<Longrightarrow> update_failures P (resolved_now now) = resolve_refs Q now"
  unfolding resolve_refs_def by presburger

section \<open>The table invariant\<close>

text \<open>Identities and failure ids are unique, and ids are positive and below the next one.\<close>

definition ledger_wf :: "db \<Rightarrow> bool" where
  "ledger_wf d \<longleftrightarrow> distinct (map fRef (dbFailures d)) \<and> distinct (map fFailureID (dbFailures d)) \<and>
     (\<forall>f \<in> set (dbFailures d). 0 < fFailureID f \<and> fFailureID f < dbNextFailureID d) \<and> 0 < dbNextFailureID d"

lemma ledger_wf_update:
  assumes "\<And>f. fRef (g f) = fRef f" and "\<And>f. fFailureID (g f) = fFailureID f" and "ledger_wf d"
  shows "ledger_wf (update_failures P g d)"
proof -
  have "map fRef (map (\<lambda>f. if P f then g f else f) fs) = map fRef fs"
    "map fFailureID (map (\<lambda>f. if P f then g f else f) fs) = map fFailureID fs" for fs
    using assms(1,2) by (induction fs) auto
  with assms show ?thesis by (auto simp: ledger_wf_def update_failures_def simp del: map_map)
qed

lemma ledger_wf_prune: "ledger_wf d \<Longrightarrow> ledger_wf (prune_failures now d)"
  by (auto simp: ledger_wf_def prune_failures_def distinct_map_filter)

lemma ledger_wf_upsert: "ledger_wf d \<Longrightarrow> ledger_wf (ledger_upsert ref cls msg now d)"
proof (cases "\<exists>f \<in> set (dbFailures d). fRef f = ref")
  case True
  assume "ledger_wf d"
  then show ?thesis unfolding upsert_existing [OF True] by (intro ledger_wf_update) simp_all
next
  case False
  assume "ledger_wf d"
  with False show ?thesis by (auto simp: ledger_upsert_def ledger_wf_def)
qed

lemma keeps_annotate [keeps_intros]: "keeps P a \<Longrightarrow> keeps P (annotate f a)"
  unfolding keeps_def annotate_def by (auto split: prod.split option.split)

lemma annotate_None: "annotate f a w = (None, w') \<Longrightarrow> a w = (None, w')"
  by (auto simp: annotate_def split: prod.splits option.splits)

lemma keeps_at: "(\<And>t. keeps P (a t)) \<Longrightarrow> keeps P (\<lambda>w. a (wTick w) w)"
  by (simp add: keeps_def)

text \<open>
  An invariant of the ledger statements is an invariant of every ledger operation, however the
  database fails.
\<close>

definition ledger_stable :: "(db \<Rightarrow> bool) \<Rightarrow> bool" where
  "ledger_stable P \<longleftrightarrow>
     (\<forall>d now. P d \<longrightarrow> P (prune_failures now d)) \<and>
     (\<forall>d ref cls msg now. P d \<longrightarrow> P (ledger_upsert ref cls msg now d)) \<and>
     (\<forall>d Q t. P d \<longrightarrow> P (update_failures Q (\<lambda>f. f\<lparr>fFirstSeenAt := t\<rparr>) d))"

lemma keeps_recordFailure:
  "(\<And>d ref cls msg now. P d \<Longrightarrow> P (ledger_upsert ref cls msg now d)) \<Longrightarrow> keeps P (recordFailure env ref err now)"
  unfolding recordFailure_def Let_def by (intro keeps_intros) blast

lemma keeps_prune: "(\<And>d now. P d \<Longrightarrow> P (prune_failures now d)) \<Longrightarrow> keeps P (pruneResolvedFailures env now)"
  unfolding pruneResolvedFailures_def by (intro keeps_intros) blast

lemma keeps_record_and_prune:
  "ledger_stable P \<Longrightarrow> keeps P (\<lambda>w. andThen (recordFailure env ref err (envNow env (wTick w)))
     (pruneResolvedFailures env (envNow env (wTick w))) w)"
  by (rule keeps_at [where a = "\<lambda>t. andThen (recordFailure env ref err (envNow env t))
        (pruneResolvedFailures env (envNow env t))"])
    (intro keeps_andThen keeps_recordFailure keeps_prune; simp add: ledger_stable_def)

lemma keeps_RecordFailure: "ledger_stable P \<Longrightarrow> keeps P (RecordFailure env ref (Some err))"
  using keeps_record_and_prune [of P env ref err] by (simp add: RecordFailure_def [abs_def] Let_def)

lemma keeps_record_message_scoped: "ledger_stable P \<Longrightarrow> keeps P (record_message_scoped env ref err)"
  unfolding record_message_scoped_def Let_def
  by (intro keeps_withResult) (auto split: sum.split intro: keeps_query keeps_fail keeps_record_and_prune)

lemma keeps_RecordFailureWithMessageScope:
  "ledger_stable P \<Longrightarrow> keeps P (RecordFailureWithMessageScopeTimed env ref failure)"
  unfolding RecordFailureWithMessageScopeTimed_def Let_def
  by (auto split: option.split intro!: keeps_intros keeps_record_message_scoped)

lemma keeps_RecordEventFailure:
  assumes "ledger_stable P"
  shows "keeps P (RecordEventFailure env ref failure receivedAt)"
proof (cases failure)
  case None
  then show ?thesis by (simp add: RecordEventFailure_def keeps_def)
next
  case (Some err)
  let ?body = "\<lambda>now eventAt ref1. andThen (with_tx env (andThen (recordFailure env ref err now)
      (annotate (\<lambda>e. ErrWrap (''record '' @ rSource ref1 @ ''/'' @ rOperation ref1 @ '' event time: '') e [])
        (db_exec env (\<lambda>_. update_failures (\<lambda>f. fRef f = ref1) (\<lambda>f. f\<lparr>fFirstSeenAt := eventAt\<rparr>))))))
      (pruneResolvedFailures env now)"
  have "keeps P (?body now eventAt ref1)" for now eventAt ref1
    using assms unfolding ledger_stable_def
    by (intro keeps_andThen keeps_with_tx keeps_annotate keeps_exec keeps_recordFailure keeps_prune) blast+
  from keeps_at [where a = "\<lambda>t. ?body (envNow env t)
      (if \<not> is_zero_time receivedAt \<and> receivedAt < envNow env t then receivedAt else envNow env t)
      (ledger_ref ref err)", OF this] show ?thesis
    by (simp add: RecordEventFailure_def [abs_def] Let_def Some)
qed

lemma ledger_stable_wf: "ledger_stable ledger_wf"
  by (simp add: ledger_stable_def ledger_wf_prune ledger_wf_upsert ledger_wf_update)

lemma pending_first_seen: "pending (update_failures Q (\<lambda>f. f\<lparr>fFirstSeenAt := t\<rparr>) d) j \<longleftrightarrow> pending d j"
  by (subst pending_update_failures) (auto simp: pending_def)

lemma ledger_stable_pending: "ledger_stable (\<lambda>d. pending d ref)"
  by (auto simp: ledger_stable_def lg.pend_clean upsert_pending pending_first_seen)

section \<open>Success of an operation\<close>

lemma RecordFailure_success:
  assumes "RecordFailure env ref (Some err) w = (None, w')"
  shows "ref_ok (ledger_ref ref err)"
    and "wDB w' = prune_failures (envNow env (wTick w))
           (ledger_upsert (ledger_ref ref err) (envClass env err) (envSanitize env (err_msg err)) (envNow env (wTick w)) (wDB w))"
proof -
  from assms obtain w1 where r: "recordFailure env ref err (envNow env (wTick w)) w = (None, w1)"
    and p: "pruneResolvedFailures env (envNow env (wTick w)) w1 = (None, w')"
    by (auto simp: RecordFailure_def Let_def dest!: andThen_None)
  from r show ok: "ref_ok (ledger_ref ref err)"
    by (auto simp: recordFailure_def Let_def fail_with_def split: if_splits)
  from r ok have "wDB w1 = ledger_upsert (ledger_ref ref err) (envClass env err) (envSanitize env (err_msg err))
      (envNow env (wTick w)) (wDB w)"
    by (auto simp: recordFailure_def Let_def dest!: annotate_None db_exec_None)
  with p show "wDB w' = prune_failures (envNow env (wTick w))
      (ledger_upsert (ledger_ref ref err) (envClass env err) (envSanitize env (err_msg err)) (envNow env (wTick w)) (wDB w))"
    by (auto simp: pruneResolvedFailures_def dest!: annotate_None db_exec_None)
qed

lemma set_message_id_list [simp]:
  "set (message_id_list xs) = {i. i \<noteq> [] \<and> (\<exists>x \<in> set xs. i = trim_space x)}"
  by (auto simp: message_id_list_def)

lemma batches_Nil [simp]: "batches n [] = []"
  by (simp add: batches.simps)

lemma concat_batches: "0 < n \<Longrightarrow> concat (batches n xs) = xs"
proof (induction n xs rule: batches.induct)
  case (1 n xs)
  then show ?case by (cases "xs = []") (simp_all add: batches.simps [of n xs])
qed

lemma batches_small: "0 < n \<Longrightarrow> b \<in> set (batches n xs) \<Longrightarrow> length b \<le> n \<and> b \<noteq> []"
proof (induction n xs rule: batches.induct)
  case (1 n xs)
  then show ?case by (cases "xs = []") (auto simp: batches.simps [of n xs])
qed

lemma matches_ref_split:
  "matches_ref ref f \<longleftrightarrow> fResolvedAt f = None \<and> matches_ref ref (f\<lparr>fResolvedAt := None\<rparr>)"
  by (auto simp: matches_ref_def)

text \<open>What a resolution by reference selects, as a predicate on identities.\<close>

definition ref_selects :: "failure_ref \<Rightarrow> failure_ref \<Rightarrow> bool" where
  "ref_selects ref r \<longleftrightarrow> rOperation r = rOperation ref \<and> rSource r = rSource ref \<and>
     (rGuildID ref \<noteq> [] \<longrightarrow> rGuildID r = rGuildID ref) \<and>
     (rChannelID ref \<noteq> [] \<longrightarrow> rChannelID r = rChannelID ref) \<and>
     (rMessageID ref \<noteq> [] \<longrightarrow> rMessageID r = rMessageID ref) \<and>
     (rRelatedKind ref \<noteq> [] \<longrightarrow> rRelatedKind r = rRelatedKind ref) \<and>
     (rRelatedID ref \<noteq> [] \<longrightarrow> rRelatedID r = rRelatedID ref)"

lemma matches_selects: "matches_ref ref f \<longleftrightarrow> fResolvedAt f = None \<and> ref_selects ref (fRef f)"
  by (auto simp: matches_ref_def ref_selects_def)

lemma resolve_batches:
  "sequence_actions (\<lambda>b. annotate (\<lambda>e. g e) (db_exec env (\<lambda>_. update_failures
       (\<lambda>f. matches_ref ref f \<and> rMessageID (fRef f) \<in> set b) (resolved_now now)))) bs w = (None, w') \<Longrightarrow>
   wDB w' = fold (\<lambda>P. resolve_refs P now) (map (\<lambda>b r. ref_selects ref r \<and> rMessageID r \<in> set b) bs) (wDB w)"
proof (induction bs arbitrary: w)
  case (Cons b bs)
  from Cons.prems obtain w1 where
    s: "annotate g (db_exec env (\<lambda>_. update_failures
       (\<lambda>f. matches_ref ref f \<and> rMessageID (fRef f) \<in> set b) (resolved_now now))) w = (None, w1)"
    and rest: "sequence_actions (\<lambda>b. annotate g (db_exec env (\<lambda>_. update_failures
       (\<lambda>f. matches_ref ref f \<and> rMessageID (fRef f) \<in> set b) (resolved_now now)))) bs w1 = (None, w')"
    by (auto split: prod.splits option.splits)
  have "update_failures (\<lambda>f. matches_ref ref f \<and> rMessageID (fRef f) \<in> set b) (resolved_now now) =
      resolve_refs (\<lambda>r. ref_selects ref r \<and> rMessageID r \<in> set b) now"
    by (rule update_matches) (auto simp: matches_selects)
  with db_exec_None [OF annotate_None [OF s]] Cons.IH [OF rest] show ?case by simp
qed simp

section \<open>Properties\<close>

text \<open>
  C32. The ledger stays well formed and never forgets: every recording operation keeps identities and
  failure ids unique, and leaves every pending failure pending, whether the operation succeeds, fails
  before or after its commit, or is rolled back.
\<close>
theorem ledger_never_forgets:
  assumes "P = ledger_wf \<or> P = (\<lambda>d. pending d ref0)"
  shows "keeps P (RecordFailure env ref (Some err)) \<and>
     keeps P (RecordEventFailure env ref failure receivedAt) \<and>
     keeps P (RecordFailureWithMessageScopeTimed env ref failure)"
  using assms ledger_stable_wf ledger_stable_pending [of ref0]
  by (auto intro: keeps_RecordFailure keeps_RecordEventFailure keeps_RecordFailureWithMessageScope)

definition crawl_ref :: failure_ref where
  "crawl_ref = \<lparr>rOperation = ''sync_messages'', rSource = ''discord'', rGuildID = ''1'', rChannelID = ''5'',
     rMessageID = [], rRelatedKind = [], rRelatedID = []\<rparr>"

theorem ledger_never_forgets_witness:
  "ledger_wf (wDB (snd (RecordFailure calm_env crawl_ref (Some (ErrText ''x'')) \<lparr>wDB = empty_db, wTick = 0\<rparr>)))"
proof -
  have "ledger_wf (wDB \<lparr>wDB = empty_db, wTick = 0\<rparr>)" by (simp add: ledger_wf_def empty_db_def)
  from keepsD [OF ledger_never_forgets [of ledger_wf, OF disjI1, OF refl, THEN conjunct1] this] show ?thesis .
qed

text \<open>
  A recorded failure is pending: after a successful record the merged and trimmed reference is
  pending, everything that was pending still is, and nothing else became pending.
\<close>
theorem recorded_failure_is_pending:
  assumes "RecordFailure env ref (Some err) w = (None, w')"
  shows "pending (wDB w') j \<longleftrightarrow> j = ledger_ref ref err \<or> pending (wDB w) j"
  using RecordFailure_success(2) [OF assms] by (simp add: lg.pend_clean upsert_pending)

theorem recorded_failure_is_pending_witness:
  "\<exists>w'. RecordFailure calm_env crawl_ref (Some (ErrText ''x'')) \<lparr>wDB = empty_db, wTick = 0\<rparr> = (None, w') \<and>
     pending (wDB w') (ledger_ref crawl_ref (ErrText ''x''))"
proof -
  let ?r = "RecordFailure calm_env crawl_ref (Some (ErrText ''x'')) \<lparr>wDB = empty_db, wTick = 0\<rparr>"
  have "fst ?r = None" by code_simp
  then have r: "?r = (None, snd ?r)" by (simp add: prod_eq_iff)
  from recorded_failure_is_pending [OF r] r show ?thesis by blast
qed

text \<open>
  A replay never resolves a newer failure: when the same failure is recorded again after a replay
  read it, resolving the generation the replay read leaves the failure pending; when it was not, the
  resolution settles exactly that failure.
\<close>
theorem stale_replay_keeps_failure:
  assumes wf: "ledger_wf (wDB w)" and f: "f \<in> set (dbFailures (wDB w))"
    and res: "ResolveFailureGeneration env2 f reason v = (None, v')"
  shows "(RecordFailure env ref (Some err) w = (None, w1) \<longrightarrow> fRef f = ledger_ref ref err \<longrightarrow> wDB v = wDB w1 \<longrightarrow>
      pending (wDB v') (fRef f)) \<and>
     (fResolvedAt f = None \<longrightarrow> wDB v = wDB w \<longrightarrow> pending (wDB v') j \<longleftrightarrow> pending (wDB w) j \<and> j \<noteq> fRef f)"
proof (intro conjI impI)
  let ?sel = "\<lambda>g. fFailureID g = fFailureID f \<and> fRetryCount g = fRetryCount f \<and> fResolvedAt g = None"
  have upd: "\<exists>now. wDB v' = update_failures ?sel (\<lambda>f. f\<lparr>fResolvedAt := Some now, fResolutionReason := reason\<rparr>) (wDB v)"
    using res by (auto simp: ResolveFailureGeneration_def fail_with_def split: if_splits dest!: db_exec_None)
  then obtain now where now: "wDB v' = update_failures ?sel (\<lambda>f. f\<lparr>fResolvedAt := Some now, fResolutionReason := reason\<rparr>) (wDB v)" ..
  have same: "g \<in> set (dbFailures (wDB w)) \<Longrightarrow> fFailureID g = fFailureID f \<Longrightarrow> g = f" for g
    using wf f by (auto simp: ledger_wf_def distinct_map dest: inj_onD)
  show "pending (wDB v') (fRef f)"
    if rec: "RecordFailure env ref (Some err) w = (None, w1)" "fRef f = ledger_ref ref err" "wDB v = wDB w1"
  proof -
    let ?g = "f\<lparr>fErrorClass := envClass env err, fErrorMessage := envSanitize env (err_msg err),
        fLastSeenAt := envNow env (wTick w), fRetryCount := fRetryCount f + 1, fResolutionReason := [],
        fResolvedAt := None\<rparr>"
    have ex: "\<exists>h \<in> set (dbFailures (wDB w)). fRef h = fRef f" using f by blast
    have "?g \<in> set (dbFailures (wDB v))"
      unfolding rec(3) RecordFailure_success(2) [OF rec(1)] rec(2) [symmetric] upsert_existing [OF ex]
      using f by (auto simp: update_failures_def prune_failures_def)
    then have "?g \<in> set (dbFailures (wDB v'))"
      unfolding now by (auto simp: update_failures_def image_iff intro!: bexI [of _ ?g])
    then show ?thesis by (auto simp: pending_def intro!: bexI [of _ ?g])
  qed
  assume un: "fResolvedAt f = None" and vw: "wDB v = wDB w"
  have "pending (wDB v') j \<longleftrightarrow> (\<exists>g \<in> set (dbFailures (wDB w)). fRef g = j \<and> fResolvedAt g = None \<and> \<not> ?sel g)"
    unfolding now vw by (subst pending_update_failures) auto
  also have "\<dots> \<longleftrightarrow> (\<exists>g \<in> set (dbFailures (wDB w)). fRef g = j \<and> fResolvedAt g = None \<and> g \<noteq> f)"
    using same un by metis
  also have "\<dots> \<longleftrightarrow> pending (wDB w) j \<and> j \<noteq> fRef f"
    using wf f un by (auto simp: pending_def ledger_wf_def distinct_map dest: inj_onD)
  finally show "pending (wDB v') j \<longleftrightarrow> pending (wDB w) j \<and> j \<noteq> fRef f" .
qed

definition old_failure :: failure where
  "old_failure = \<lparr>fFailureID = 1, fRef = ledger_ref crawl_ref (ErrText ''x''), fErrorClass = ''e'', fErrorMessage = ''x'',
     fFirstSeenAt = 1, fLastSeenAt = 1, fRetryCount = 0, fResolvedAt = None, fResolutionReason = []\<rparr>"

theorem stale_replay_keeps_failure_witness:
  "\<exists>w1 v'. RecordFailure calm_env crawl_ref (Some (ErrText ''x''))
       \<lparr>wDB = empty_db\<lparr>dbFailures := [old_failure], dbNextFailureID := 2\<rparr>, wTick = 0\<rparr> = (None, w1) \<and>
     ResolveFailureGeneration calm_env old_failure ''done'' w1 = (None, v') \<and> pending (wDB v') (fRef old_failure)"
proof -
  let ?w = "\<lparr>wDB = empty_db\<lparr>dbFailures := [old_failure], dbNextFailureID := 2\<rparr>, wTick = 0\<rparr> :: world"
  let ?r = "RecordFailure calm_env crawl_ref (Some (ErrText ''x'')) ?w"
  let ?v = "ResolveFailureGeneration calm_env old_failure ''done'' (snd ?r)"
  have wf: "ledger_wf (wDB ?w)" and f: "old_failure \<in> set (dbFailures (wDB ?w))"
    by (simp_all add: ledger_wf_def) (simp add: old_failure_def)
  have "fst ?r = None" "fst ?v = None" by code_simp+
  then have r: "?r = (None, snd ?r)" and v: "?v = (None, snd ?v)" by (simp_all add: prod_eq_iff)
  have "fRef old_failure = ledger_ref crawl_ref (ErrText ''x'')" by (simp add: old_failure_def)
  from stale_replay_keeps_failure [OF wf f v, THEN conjunct1, rule_format, OF r this refl] r v show ?thesis by blast
qed

text \<open>
  Bulk resolution settles exactly the listed messages: a successful call with a reference and a
  list of message ids, in batches of 500, leaves pending exactly what was pending before and is not
  selected by the reference's non-empty fields together with a (trimmed, non-empty) listed message id.
\<close>
theorem bulk_resolution_exact:
  assumes "ResolveMessageFailures env ref ids w = (None, w')"
  shows "pending (wDB w') j \<longleftrightarrow> pending (wDB w) j \<and>
    \<not> (ref_selects (normalizeFailureRef ref\<lparr>rMessageID := []\<rparr>) j \<and> rMessageID j \<noteq> [] \<and>
       rMessageID j \<in> trim_space ` set ids)"
proof (cases "message_id_list ids = []")
  case True
  with assms have "w' = w" by (auto simp: ResolveMessageFailures_def Let_def split: if_splits)
  moreover have "\<not> (rMessageID j \<noteq> [] \<and> rMessageID j \<in> trim_space ` set ids)"
    using arg_cong [OF True, of set] by auto
  ultimately show ?thesis by blast
next
  case False
  let ?ref = "normalizeFailureRef ref\<lparr>rMessageID := []\<rparr>" and ?now = "envNow env (wTick w)"
  let ?bs = "batches 500 (message_id_list ids)"
  from assms False obtain w1 where
    s: "sequence_actions (\<lambda>batch. annotate (\<lambda>e. ErrWrap (''resolve '' @ rSource (normalizeFailureRef ref) @ ''/'' @
           rOperation (normalizeFailureRef ref) @ '' message failures: '') e [])
         (db_exec env (\<lambda>_. update_failures (\<lambda>f. matches_ref ?ref f \<and> rMessageID (fRef f) \<in> set batch)
           (resolved_now ?now)))) ?bs w = (None, w1)"
    and p: "pruneResolvedFailures env ?now w1 = (None, w')"
    by (auto simp: ResolveMessageFailures_def Let_def split: if_splits dest!: andThen_None)
  have "wDB w' = prune_failures ?now (wDB w1)"
    using p by (auto simp: pruneResolvedFailures_def dest!: annotate_None db_exec_None)
  with resolve_batches [OF s] have "pending (wDB w') j \<longleftrightarrow> pending (wDB w) j \<and>
      (\<forall>b \<in> set ?bs. \<not> (ref_selects ?ref j \<and> rMessageID j \<in> set b))"
    by (simp add: lg.pend_clean lg.pend_res_run)
  moreover have "(\<exists>b \<in> set ?bs. rMessageID j \<in> set b) \<longleftrightarrow> rMessageID j \<in> set (concat ?bs)" by auto
  ultimately show ?thesis by (auto simp: concat_batches)
qed

theorem bulk_resolution_exact_witness:
  "\<exists>w'. ResolveMessageFailures calm_env crawl_ref [''77''] \<lparr>wDB = empty_db, wTick = 0\<rparr> = (None, w') \<and>
     \<not> pending (wDB w') (crawl_ref\<lparr>rMessageID := ''77''\<rparr>)"
proof -
  let ?r = "ResolveMessageFailures calm_env crawl_ref [''77''] \<lparr>wDB = empty_db, wTick = 0\<rparr>"
  have "fst ?r = None" by code_simp
  then have r: "?r = (None, snd ?r)" by (simp add: prod_eq_iff)
  have "\<not> pending empty_db j" for j by (simp add: pending_def empty_db_def)
  with bulk_resolution_exact [OF r, of "crawl_ref\<lparr>rMessageID := ''77''\<rparr>"] r show ?thesis by auto
qed

end
