(* ===== verification/MessageStore.thy ===== *)
theory MessageStore
  imports Scope "HOL-Library.Word"
begin

text \<open>
  The message writer of the archive (internal/store/write.go, the observation checks of
  internal/store/entity_state.go, \<open>MessageFTSRowID\<close> of internal/store/store.go and the channel
  probes of internal/store/query.go): upserts of message pages, deletions, the message events, the
  full-text rows and the embedding jobs that follow a message. Timestamps are instants, so
  \<open>normalizeStoredTime\<close> is the identity on the model's values. The tables for attachments,
  mentions, retained evidence and the per-language search indexes are outside the model: their
  statements are steps that may fail, and \<open>envSideChanged\<close> says whether the related rows changed.
\<close>

unbundle bit_operations_syntax

section \<open>Records\<close>

record MessageRecord =
  msID :: string
  msGuildID :: string
  msChannelID :: string
  msChannelName :: string
  msAuthorID :: string
  msAuthorName :: string
  msMessageType :: int
  msCreatedAt :: instant
  msEditedAt :: instant
  msDeletedAt :: instant
  msContent :: string
  msNormalized :: string
  msReplyTo :: string
  msPinned :: bool
  msHasAttachments :: bool
  msRawJSON :: string
  msTextParts :: string
  msTextVersion :: int

record WriteOptions =
  woObservationStartedAt :: instant
  woScopePolicy :: string
  woAppendEvent :: bool
  woEnqueueEmbedding :: bool
  woEmbeddingCatchUp :: bool
  woPreserveNewer :: bool
  woDeduplicateEvent :: bool

record MessageMutation =
  mmRecord :: MessageRecord
  mmEventType :: string
  mmPayload :: string
  mmOptions :: WriteOptions

section \<open>Search row ids\<close>

definition fnv64a :: "string \<Rightarrow> 64 word" where
  "fnv64a s = foldl (\<lambda>h c. (h XOR of_nat (of_char c)) * 1099511628211) 14695981039346656037 s"

definition MessageFTSRowID :: "string \<Rightarrow> int option" where
  "MessageFTSRowID messageID =
     (if messageID = [] then None
      else case go_atoi messageID of
        Some rowID \<Rightarrow> if rowID > 0 then Some rowID
                      else (let h = uint (fnv64a messageID AND mask 63) in Some (if h = 0 then 1 else h))
      | None \<Rightarrow> (let h = uint (fnv64a messageID AND mask 63) in Some (if h = 0 then 1 else h)))"

section \<open>Reads\<close>

definition stored_row :: "db \<Rightarrow> string \<Rightarrow> message_row option" where
  "stored_row d i = map_of (dbMessages d) i"

definition loadStoredMessageTx :: "env \<Rightarrow> string \<Rightarrow> message_row option call" where
  "loadStoredMessageTx env i = db_query env (\<lambda>d. stored_row d i)"

definition ChannelHasMessages :: "env \<Rightarrow> string \<Rightarrow> bool call" where
  "ChannelHasMessages env channelID w =
     (if channelID = [] then (Inr False, w)
      else db_query env (\<lambda>d. \<exists>(i, r) \<in> set (dbMessages d). mrChannelID r = channelID) w)"

text \<open>\<open>min(id)\<close> and \<open>max(id)\<close> of the channel's rows: SQLite compares texts byte by byte.\<close>

definition channel_ids :: "db \<Rightarrow> string \<Rightarrow> string list" where
  "channel_ids d channelID = map fst (filter (\<lambda>(i, r). mrChannelID r = channelID) (dbMessages d))"

definition ChannelMessageBounds :: "env \<Rightarrow> string \<Rightarrow> (string \<times> string) call" where
  "ChannelMessageBounds env channelID =
     db_query env (\<lambda>d. case channel_ids d channelID of
        [] \<Rightarrow> ([], [])
      | i # is \<Rightarrow> (fold min is i, fold max is i))"

section \<open>Observation checks\<close>

definition recordObservedTx :: "env \<Rightarrow> string \<Rightarrow> action" where
  "recordObservedTx env i =
     andThen (db_side env)
       (db_exec env (\<lambda>now d. d\<lparr>dbChecks :=
          AList.update i (case map_of (dbChecks d) i of None \<Rightarrow> now | Some t \<Rightarrow> max t now) (dbChecks d)\<rparr>))"

definition lastObservedTx :: "env \<Rightarrow> string \<Rightarrow> instant call" where
  "lastObservedTx env i w =
     (case db_query env (\<lambda>d. stored_row d i) w of
        (Inl e, w1) \<Rightarrow> (Inl e, w1)
      | (Inr None, w1) \<Rightarrow> (Inr 0, w1)
      | (Inr (Some r), w1) \<Rightarrow>
          (case db_query env (\<lambda>d. map_of (dbChecks d) i) w1 of
             (Inl e, w2) \<Rightarrow> (Inl e, w2)
           | (Inr None, w2) \<Rightarrow> (Inr (mrUpdatedAt r), w2)
           | (Inr (Some t), w2) \<Rightarrow> (Inr (if t > mrUpdatedAt r then t else mrUpdatedAt r), w2)))"

section \<open>Statements\<close>

text \<open>The \<open>UpsertMessage\<close> statement: a tombstone is never cleared, every other column is replaced.\<close>

definition upsertMessageParams :: "MessageRecord \<Rightarrow> instant \<Rightarrow> message_row option \<Rightarrow> message_row" where
  "upsertMessageParams m now old =
     \<lparr>mrGuildID = msGuildID m, mrChannelID = msChannelID m, mrAuthorID = msAuthorID m,
      mrMessageType = msMessageType m, mrCreatedAt = msCreatedAt m, mrEditedAt = msEditedAt m,
      mrDeletedAt = (if msDeletedAt m \<noteq> 0 then msDeletedAt m
                     else case old of None \<Rightarrow> 0 | Some r \<Rightarrow> mrDeletedAt r),
      mrContent = msContent m, mrNormalized = msNormalized m, mrReplyTo = msReplyTo m,
      mrPinned = msPinned m, mrHasAttachments = msHasAttachments m, mrRawJSON = msRawJSON m,
      mrTextParts = (case old of None \<Rightarrow> ''[]'' | Some r \<Rightarrow> mrTextParts r),
      mrTextVersion = (case old of None \<Rightarrow> 0 | Some r \<Rightarrow> mrTextVersion r), mrUpdatedAt = now\<rparr>"

definition upsert_row :: "MessageRecord \<Rightarrow> instant \<Rightarrow> db \<Rightarrow> db" where
  "upsert_row m now d =
     d\<lparr>dbMessages := AList.update (msID m) (upsertMessageParams m now (stored_row d (msID m))) (dbMessages d)\<rparr>"

definition update_row :: "string \<Rightarrow> (message_row \<Rightarrow> message_row) \<Rightarrow> db \<Rightarrow> db" where
  "update_row i f d = d\<lparr>dbMessages := map (\<lambda>(k, r). (k, if k = i then f r else r)) (dbMessages d)\<rparr>"

text \<open>The text columns: an unattributed writer resets an attributed projection.\<close>

definition text_columns :: "MessageRecord \<Rightarrow> message_row \<Rightarrow> message_row" where
  "text_columns m r =
     (if msTextVersion m > 0 then r\<lparr>mrTextParts := msTextParts m, mrTextVersion := msTextVersion m\<rparr>
      else if mrTextVersion r \<noteq> 0 then r\<lparr>mrTextParts := ''[]'', mrTextVersion := 0\<rparr>
      else r)"

definition fts_of :: "MessageRecord \<Rightarrow> fts_row" where
  "fts_of m = \<lparr>ftMessageID = msID m, ftGuildID = msGuildID m, ftChannelID = msChannelID m,
     ftAuthorID = msAuthorID m, ftAuthorName = msAuthorName m, ftChannelName = msChannelName m,
     ftContent = msNormalized m\<rparr>"

definition delete_fts :: "int \<Rightarrow> db \<Rightarrow> db" where
  "delete_fts rid d = d\<lparr>dbFTS := AList.delete rid (dbFTS d)\<rparr>"

definition insert_fts :: "int \<Rightarrow> fts_row \<Rightarrow> db \<Rightarrow> db" where
  "insert_fts rid f d = d\<lparr>dbFTS := AList.update rid f (dbFTS d)\<rparr>"

definition delete_embeddings :: "string \<Rightarrow> db \<Rightarrow> db" where
  "delete_embeddings i d = d\<lparr>dbEmbeddings := filter (\<lambda>v. evMessageID v \<noteq> i) (dbEmbeddings d)\<rparr>"

text \<open>\<open>insert or ignore\<close> of the message's vectors, joined with the message row.\<close>

definition history_key :: "embedding_vector \<Rightarrow> string \<times> string \<times> string \<times> string \<times> instant" where
  "history_key v = (evMessageID v, evProvider v, evModel v, evInputVersion v, evEmbeddedAt v)"

definition archive_embeddings :: "string \<Rightarrow> string \<Rightarrow> db \<Rightarrow> db" where
  "archive_embeddings i oldText d =
     (if stored_row d i = None then d
      else d\<lparr>dbEmbeddingHistory :=
        fold (\<lambda>v h. if \<exists>(u, t) \<in> set h. history_key u = history_key v then h else (v, oldText) # h)
          (filter (\<lambda>v. evMessageID v = i) (dbEmbeddings d)) (dbEmbeddingHistory d)\<rparr>)"

definition archiveMessageEmbeddings :: "env \<Rightarrow> string \<Rightarrow> string \<Rightarrow> action" where
  "archiveMessageEmbeddings env i oldText = db_exec env (\<lambda>_. archive_embeddings i oldText)"

definition delete_job :: "string \<Rightarrow> db \<Rightarrow> db" where
  "delete_job i d = d\<lparr>dbJobs := AList.delete i (dbJobs d)\<rparr>"

definition bump_job :: "string \<Rightarrow> (embedding_job \<Rightarrow> embedding_job) \<Rightarrow> db \<Rightarrow> db" where
  "bump_job i f d = d\<lparr>dbJobs := map (\<lambda>(j, e). (j, if j = i then f (e\<lparr>ejRevision := ejRevision e + 1, ejLeaseToken := [], ejLeaseUntil := 0\<rparr>) else e)) (dbJobs d)\<rparr>"

text \<open>A new row takes the defaults of the columns; the revision starts at 1.\<close>

definition new_job :: "instant \<Rightarrow> embedding_job" where
  "new_job now = \<lparr>ejState = ''pending'', ejAttempts = 0, ejProvider = [], ejModel = [], ejInputVersion = [],
     ejLastError = [], ejLockedAt = 0, ejUpdatedAt = now, ejRevision = 1, ejLeaseToken = [], ejLeaseUntil = 0,
     ejAvailableAt = 0, ejPriority = 0, ejEnqueuedAt = 0\<rparr>"

definition pending_job :: "string \<Rightarrow> instant \<Rightarrow> db \<Rightarrow> db" where
  "pending_job i now d =
     d\<lparr>dbJobs := AList.update i
        (case map_of (dbJobs d) i of
           None \<Rightarrow> new_job now
         | Some e \<Rightarrow> e\<lparr>ejState := ''pending'', ejAttempts := 0, ejLastError := [], ejLockedAt := 0, ejUpdatedAt := now\<rparr>) (dbJobs d)\<rparr>"

definition queue_embedding :: "env \<Rightarrow> string \<Rightarrow> string \<Rightarrow> WriteOptions \<Rightarrow> action" where
  "queue_embedding env i oldText opts =
     andThen (archiveMessageEmbeddings env i oldText)
    (andThen (db_exec env (pending_job i))
    (andThen (db_exec env (\<lambda>now. bump_job i (\<lambda>e. e\<lparr>ejAvailableAt := 0,
        ejPriority := (if woEmbeddingCatchUp opts then 0 else 1), ejEnqueuedAt := now\<rparr>)))
             (db_exec env (\<lambda>_. delete_embeddings i))))"

section \<open>Writing one message\<close>

definition messageContentChanged :: "env \<Rightarrow> message_row \<Rightarrow> MessageRecord \<Rightarrow> bool" where
  "messageContentChanged env stored m \<longleftrightarrow>
     (let deleted = (if msDeletedAt m = 0 then mrDeletedAt stored else msDeletedAt m);
          (parts, version) = (if msTextVersion m \<le> 0 then
             (if mrTextVersion stored \<noteq> 0 then (''[]'', 0) else (mrTextParts stored, mrTextVersion stored))
             else (msTextParts m, msTextVersion m)) in
      mrGuildID stored \<noteq> msGuildID m \<or> mrChannelID stored \<noteq> msChannelID m \<or> mrAuthorID stored \<noteq> msAuthorID m \<or>
      mrMessageType stored \<noteq> msMessageType m \<or> mrCreatedAt stored \<noteq> msCreatedAt m \<or>
      mrEditedAt stored \<noteq> msEditedAt m \<or> mrDeletedAt stored \<noteq> deleted \<or>
      mrContent stored \<noteq> msContent m \<or> mrNormalized stored \<noteq> msNormalized m \<or>
      mrReplyTo stored \<noteq> msReplyTo m \<or> mrPinned stored \<noteq> msPinned m \<or>
      mrHasAttachments stored \<noteq> msHasAttachments m \<or> mrTextParts stored \<noteq> parts \<or>
      mrTextVersion stored \<noteq> version \<or> \<not> envSameRaw env (mrRawJSON stored) (msRawJSON m))"

text \<open>The search row of an unchanged message, rewritten when it is missing or a name is newly known.\<close>

definition refresh_fts :: "env \<Rightarrow> MessageRecord \<Rightarrow> action" where
  "refresh_fts env m =
     (case MessageFTSRowID (msID m) of
        None \<Rightarrow> ok
      | Some rid \<Rightarrow>
          withResult (db_query env (\<lambda>d. map_of (dbFTS d) rid))
            (\<lambda>f. case f of
               None \<Rightarrow>
                 andThen (db_exec env (\<lambda>_. delete_fts rid))
                (andThen (db_side env) (andThen (db_side env) (db_exec env (\<lambda>_. insert_fts rid (fts_of m)))))
             | Some f \<Rightarrow>
                 if (msAuthorName m \<noteq> [] \<and> msAuthorName m \<noteq> ftAuthorName f) \<or>
                    (msChannelName m \<noteq> [] \<and> msChannelName m \<noteq> ftChannelName f)
                 then let m' = m\<lparr>msAuthorName := (if msAuthorName m = [] then ftAuthorName f else msAuthorName m),
                                 msChannelName := (if msChannelName m = [] then ftChannelName f else msChannelName m)\<rparr> in
                      andThen (db_exec env (\<lambda>_. delete_fts rid))
                     (andThen (db_side env) (db_exec env (\<lambda>_. insert_fts rid (fts_of m'))))
                 else ok))"

definition refreshUnchangedMessageTx :: "env \<Rightarrow> message_row \<Rightarrow> MessageRecord \<Rightarrow> WriteOptions \<Rightarrow> action" where
  "refreshUnchangedMessageTx env stored m opts =
     (if mrDeletedAt stored \<noteq> 0 then ok
      else andThen (refresh_fts env m)
       (if \<not> woEnqueueEmbedding opts \<or> msGuildID m = ''@me'' then ok
        else withResult (db_query env (\<lambda>d. map_of (dbJobs d) (msID m) \<noteq> None))
          (\<lambda>jobs. if jobs then ok else queue_embedding env (msID m) (mrNormalized stored) opts)))"

definition row_write_error :: "MessageRecord \<Rightarrow> go_error \<Rightarrow> go_error" where
  "row_write_error m e =
     ErrRow \<lparr>rOperation = ''write_message'', rSource = [], rGuildID = msGuildID m, rChannelID = msChannelID m,
             rMessageID = msID m, rRelatedKind = [], rRelatedID = []\<rparr>
       (''write_message failed: guild_id='' @ json_quote (msGuildID m) @ '' channel_id='' @ json_quote (msChannelID m) @
        '' message_id='' @ json_quote (msID m) @ '' related_id=\"\" author_id='' @ json_quote (msAuthorID m) @
        '' filename=\"\" content_type=\"\" size=0: '') e"

definition exec_row :: "env \<Rightarrow> MessageRecord \<Rightarrow> instant \<Rightarrow> action" where
  "exec_row env m now w =
     (case db_exec env (\<lambda>_. upsert_row m now) w of
        (Some e, w') \<Rightarrow> (Some (row_write_error m e), w') | (None, w') \<Rightarrow> (None, w'))"

text \<open>What a deletion does to the vectors and the job of a message.\<close>

definition purge_embeddings :: "env \<Rightarrow> string \<Rightarrow> string \<Rightarrow> action" where
  "purge_embeddings env i retained =
     andThen (archiveMessageEmbeddings env i retained)
    (andThen (db_exec env (\<lambda>_. delete_embeddings i)) (db_exec env (\<lambda>_. delete_job i)))"

text \<open>The search row after a changed write; a deletion purges the vectors instead.\<close>

definition write_fts :: "env \<Rightarrow> MessageRecord \<Rightarrow> string \<Rightarrow> action" where
  "write_fts env m previous =
     (case MessageFTSRowID (msID m) of
        None \<Rightarrow> ok
      | Some rid \<Rightarrow>
          andThen (db_exec env (\<lambda>_. delete_fts rid))
         (andThen (db_side env)
           (if msDeletedAt m \<noteq> 0 then purge_embeddings env (msID m) previous
            else db_exec env (\<lambda>_. insert_fts rid (fts_of m)))))"

definition supersede_embeddings :: "env \<Rightarrow> MessageRecord \<Rightarrow> WriteOptions \<Rightarrow> string option \<Rightarrow> action" where
  "supersede_embeddings env m opts previous =
     (case previous of
        Some p \<Rightarrow> if p \<noteq> msNormalized m then
            andThen (archiveMessageEmbeddings env (msID m) p)
           (andThen (db_exec env (\<lambda>_. delete_embeddings (msID m)))
             (if woEnqueueEmbedding opts then ok else db_exec env (\<lambda>_. bump_job (msID m) (\<lambda>e. e\<lparr>ejLockedAt := 0\<rparr>))))
          else ok
      | None \<Rightarrow> ok)"

definition previous_text :: "string option \<Rightarrow> string" where
  "previous_text p = (case p of None \<Rightarrow> [] | Some s \<Rightarrow> s)"

definition write_changed_message :: "env \<Rightarrow> MessageRecord \<Rightarrow> WriteOptions \<Rightarrow> instant \<Rightarrow> action" where
  "write_changed_message env m opts now =
     withResult (db_query env (\<lambda>d. map_option mrNormalized (stored_row d (msID m))))
       (\<lambda>previous. withResult
          (\<lambda>w. if previous \<noteq> None \<and> woEnqueueEmbedding opts
               then db_query env (\<lambda>d. map_of (dbJobs d) (msID m) \<noteq> None) w else (Inr False, w))
          (\<lambda>jobExists.
             andThen (supersede_embeddings env m opts previous)
            (andThen (exec_row env m now)
            (andThen (db_exec env (\<lambda>_. update_row (msID m) (text_columns m)))
            (andThen (write_fts env m (previous_text previous))
              (if msID m \<noteq> [] \<and> msDeletedAt m \<noteq> 0 then ok
               else if woEnqueueEmbedding opts \<and> msGuildID m \<noteq> ''@me'' \<and>
                       (previous = None \<or> previous_text previous \<noteq> msNormalized m \<or> \<not> jobExists)
               then queue_embedding env (msID m) (previous_text previous) opts
               else ok))))))"

definition upsertMessageTx :: "env \<Rightarrow> MessageRecord \<Rightarrow> WriteOptions \<Rightarrow> bool call" where
  "upsertMessageTx env m0 opts w =
     (case loadStoredMessageTx env (msID m0) w of
        (Inl e, w1) \<Rightarrow> (Inl e, w1)
      | (Inr stored, w1) \<Rightarrow>
          let m = m0\<lparr>msRawJSON := envCanonicalRaw env (case stored of None \<Rightarrow> [] | Some r \<Rightarrow> mrRawJSON r) (msRawJSON m0)\<rparr> in
          case stored of
            Some r \<Rightarrow>
              if \<not> messageContentChanged env r m then
                (case refreshUnchangedMessageTx env r m opts w1 of
                   (Some e, w2) \<Rightarrow> (Inl e, w2) | (None, w2) \<Rightarrow> (Inr False, w2))
              else
                (case andThen (db_side env) (andThen (if msDeletedAt m = 0 then db_side env else ok)
                        (\<lambda>v. write_changed_message env m opts (envNow env (wTick v)) v)) w1 of
                   (Some e, w2) \<Rightarrow> (Inl e, w2) | (None, w2) \<Rightarrow> (Inr True, w2))
          | None \<Rightarrow>
                (case andThen (if msDeletedAt m = 0 then db_side env else ok)
                        (\<lambda>v. write_changed_message env m opts (envNow env (wTick v)) v) w1 of
                   (Some e, w2) \<Rightarrow> (Inl e, w2) | (None, w2) \<Rightarrow> (Inr True, w2)))"

section \<open>Admission of an observation\<close>

definition keepStoredMessage :: "env \<Rightarrow> MessageRecord \<Rightarrow> instant \<Rightarrow> bool call" where
  "keepStoredMessage env m started w =
     (case db_query env (\<lambda>d. stored_row d (msID m)) w of
        (Inl e, w1) \<Rightarrow> (Inl e, w1)
      | (Inr None, w1) \<Rightarrow> (Inr False, w1)
      | (Inr (Some r), w1) \<Rightarrow>
          if mrDeletedAt r \<noteq> 0 then (Inr True, w1)
          else if msEditedAt m \<noteq> mrEditedAt r then (Inr (msEditedAt m < mrEditedAt r), w1)
          else (case (if is_zero_time started then (Inr 0, w1) else lastObservedTx env (msID m) w1) of
                  (Inl e, w2) \<Rightarrow> (Inl e, w2)
                | (Inr lastSeen, w2) \<Rightarrow>
                    if \<not> is_zero_time started \<and> lastSeen > started then (Inr True, w2)
                    else if msContent m \<noteq> [] \<or> msDeletedAt m \<noteq> 0 then (Inr False, w2)
                    else (case db_query env (\<lambda>d. map_option (\<lambda>r. (mrContent r, mrRawJSON r)) (stored_row d (msID m))) w2 of
                            (Inl e, w3) \<Rightarrow> (Inl e, w3)
                          | (Inr None, w3) \<Rightarrow> (Inl (ErrText ''sql: no rows in result set''), w3)
                          | (Inr (Some (content, raw)), w3) \<Rightarrow>
                              (Inr (content \<noteq> [] \<and> envSameShape env raw (envCanonicalRaw env raw (msRawJSON m))), w3))))"

definition append_event :: "string \<Rightarrow> string \<Rightarrow> string \<Rightarrow> string \<Rightarrow> string \<Rightarrow> instant \<Rightarrow> db \<Rightarrow> db" where
  "append_event guildID channelID messageID eventType payload now d =
     d\<lparr>dbEvents := dbEvents d @ [\<lparr>meGuildID = guildID, meChannelID = channelID, meMessageID = messageID,
        meEventType = eventType, meEventAt = now, mePayload = payload\<rparr>]\<rparr>"

definition appendEventTx :: "env \<Rightarrow> string \<Rightarrow> string \<Rightarrow> string \<Rightarrow> string \<Rightarrow> string \<Rightarrow> action" where
  "appendEventTx env guildID channelID messageID eventType payload =
     db_exec env (append_event guildID channelID messageID eventType payload)"

definition appendMutationEventTx :: "env \<Rightarrow> MessageMutation \<Rightarrow> action" where
  "appendMutationEventTx env mu =
     (let m = mmRecord mu;
          append = appendEventTx env (msGuildID m) (msChannelID m) (msID m) (mmEventType mu) (mmPayload mu) in
      if \<not> woAppendEvent (mmOptions mu) \<or> mmEventType mu = [] then ok
      else if woDeduplicateEvent (mmOptions mu) then
        withResult (db_query env (\<lambda>d. \<exists>e \<in> set (dbEvents d).
            meMessageID e = msID m \<and> meEventType e = mmEventType mu \<and> mePayload e = mmPayload mu))
          (\<lambda>present. if present then ok else append)
      else append)"

text \<open>
  \<open>prepareTextMutation\<close> recomputes the projection from the stored attachment texts when the
  mutation carries the current projection version.
\<close>

definition text_projection_version :: int where
  "text_projection_version = 2"

definition prepareTextMutation :: "env \<Rightarrow> MessageMutation \<Rightarrow> MessageMutation call" where
  "prepareTextMutation env mu w =
     (if msTextVersion (mmRecord mu) \<noteq> text_projection_version then (Inr mu, w)
      else case db_side env w of
        (Some e, w1) \<Rightarrow> (Inl e, w1)
      | (None, w1) \<Rightarrow>
          (case envText env (wTick w) (msRawJSON (mmRecord mu)) of
             Inl e \<Rightarrow> (Inl e, w1)
           | Inr (normalized, parts) \<Rightarrow>
               (Inr (mu\<lparr>mmRecord := (mmRecord mu)\<lparr>msNormalized := normalized, msTextParts := parts\<rparr>\<rparr>), w1)))"

section \<open>Transactions\<close>

text \<open>The body of the loop of \<open>UpsertMessages\<close> after the text is prepared.\<close>

definition touch_row :: "env \<Rightarrow> string \<Rightarrow> action" where
  "touch_row env i = db_exec env (\<lambda>now. update_row i (\<lambda>r. r\<lparr>mrUpdatedAt := now\<rparr>))"

definition write_relations :: "env \<Rightarrow> string \<Rightarrow> bool \<Rightarrow> action" where
  "write_relations env i changed w =
     andThen (andThen (db_side env) (db_side env))
       (if \<not> changed \<and> envSideChanged env (wTick w) then touch_row env i else ok) w"

definition apply_mutation :: "env \<Rightarrow> MessageMutation \<Rightarrow> action" where
  "apply_mutation env mu =
     (let m = mmRecord mu in
      withResult (\<lambda>w. if woPreserveNewer (mmOptions mu)
                      then keepStoredMessage env m (woObservationStartedAt (mmOptions mu)) w else (Inr False, w))
        (\<lambda>keep. if keep then appendMutationEventTx env mu
          else (\<lambda>w. case upsertMessageTx env m (mmOptions mu) w of
                  (Inl e, w1) \<Rightarrow> (Some e, w1)
                | (Inr changed, w1) \<Rightarrow>
                    andThen (write_relations env (msID m) changed)
                   (andThen (recordObservedTx env (msID m)) (appendMutationEventTx env mu)) w1)))"

definition upsert_mutation :: "env \<Rightarrow> MessageMutation \<Rightarrow> action" where
  "upsert_mutation env mu w =
     (case envCtx env (wTick w) of
        Some e \<Rightarrow> (Some e, w)
      | None \<Rightarrow>
          andThen (requireMessageScope env (msChannelID (mmRecord mu)) (msGuildID (mmRecord mu)) (woScopePolicy (mmOptions mu)))
         (andThen (db_side env)
           (\<lambda>v. case prepareTextMutation env mu v of
              (Inl e, w1) \<Rightarrow> (Some e, w1) | (Inr mu', w1) \<Rightarrow> apply_mutation env mu' w1)) w)"

definition UpsertMessages :: "env \<Rightarrow> MessageMutation list \<Rightarrow> action" where
  "UpsertMessages env messages =
     (if messages = [] then ok else with_tx env (sequence_actions (upsert_mutation env) messages))"

definition UpsertMessageWithOptions :: "env \<Rightarrow> MessageRecord \<Rightarrow> WriteOptions \<Rightarrow> action" where
  "UpsertMessageWithOptions env m opts =
     with_tx env (andThen (db_side env)
       (withResult (\<lambda>w. if woPreserveNewer opts then keepStoredMessage env m (woObservationStartedAt opts) w else (Inr False, w))
         (\<lambda>keep. if keep then ok
           else (\<lambda>w. case upsertMessageTx env m opts w of
                   (Inl e, w1) \<Rightarrow> (Some e, w1) | (Inr changed, w1) \<Rightarrow> recordObservedTx env (msID m) w1))))"

definition UpsertMessage :: "env \<Rightarrow> MessageRecord \<Rightarrow> action" where
  "UpsertMessage env m =
     UpsertMessageWithOptions env m \<lparr>woObservationStartedAt = 0, woScopePolicy = [], woAppendEvent = False,
       woEnqueueEmbedding = False, woEmbeddingCatchUp = False, woPreserveNewer = False, woDeduplicateEvent = False\<rparr>"

section \<open>Deletion\<close>

text \<open>The scope check of a recovered deletion: the answer is whether the tombstone is already there.\<close>

definition recover_scope :: "string \<Rightarrow> string \<Rightarrow> string \<Rightarrow> message_row option \<Rightarrow> go_error + bool" where
  "recover_scope guildID channelID messageID row =
     (case row of
        None \<Rightarrow> Inl (ErrText (''recover message delete: message '' @ json_quote messageID @ '' does not exist''))
      | Some r \<Rightarrow>
          if mrGuildID r \<noteq> guildID then
            Inl (ErrText (''recover message delete: guild mismatch for message '' @ json_quote messageID @
              '': supplied='' @ json_quote guildID @ '' stored='' @ json_quote (mrGuildID r)))
          else if mrChannelID r \<noteq> channelID then
            Inl (ErrText (''recover message delete: channel mismatch for message '' @ json_quote messageID @
              '': supplied='' @ json_quote channelID @ '' stored='' @ json_quote (mrChannelID r)))
          else Inr (mrDeletedAt r \<noteq> 0))"

definition verify_delete_scope :: "env \<Rightarrow> string \<Rightarrow> string \<Rightarrow> string \<Rightarrow> bool \<Rightarrow> bool call" where
  "verify_delete_scope env guildID channelID messageID verifyCanonicalScope w =
     (if \<not> verifyCanonicalScope then (Inr False, w)
      else case db_query env (\<lambda>d. stored_row d messageID) w of
        (Inl e, w1) \<Rightarrow> (Inl (ErrWrap ''recover message delete: verify message scope: '' e []), w1)
      | (Inr row, w1) \<Rightarrow> (recover_scope guildID channelID messageID row, w1))"

definition drop_fts :: "env \<Rightarrow> string \<Rightarrow> action" where
  "drop_fts env messageID =
     (case MessageFTSRowID messageID of
        None \<Rightarrow> ok
      | Some rid \<Rightarrow> andThen (db_exec env (\<lambda>_. delete_fts rid)) (db_side env))"

definition delete_message_tx :: "env \<Rightarrow> string \<Rightarrow> string \<Rightarrow> string \<Rightarrow> string \<Rightarrow> bool \<Rightarrow> bool \<Rightarrow> action" where
  "delete_message_tx env guildID channelID messageID eventPayload appendDeleteEvent verifyCanonicalScope =
        withResult (verify_delete_scope env guildID channelID messageID verifyCanonicalScope)
         (\<lambda>preserve.
            andThen (if preserve then ok
                     else db_exec env (\<lambda>now. update_row messageID (\<lambda>r. r\<lparr>mrDeletedAt := now, mrUpdatedAt := now\<rparr>)))
           (andThen (drop_fts env messageID)
             (withResult (db_query env (\<lambda>d. previous_text (map_option mrNormalized (stored_row d messageID))))
               (\<lambda>retainedText.
                  andThen (purge_embeddings env messageID retainedText)
                   (if appendDeleteEvent
                    then appendEventTx env guildID channelID messageID ''delete'' eventPayload else ok)))))"

definition markMessageDeleted :: "env \<Rightarrow> string \<Rightarrow> string \<Rightarrow> string \<Rightarrow> string \<Rightarrow> bool \<Rightarrow> bool \<Rightarrow> action" where
  "markMessageDeleted env guildID channelID messageID eventPayload appendDeleteEvent verifyCanonicalScope =
     with_tx env (delete_message_tx env guildID channelID messageID eventPayload appendDeleteEvent verifyCanonicalScope)"

definition MarkMessageDeleted :: "env \<Rightarrow> string \<Rightarrow> string \<Rightarrow> string \<Rightarrow> string \<Rightarrow> action" where
  "MarkMessageDeleted env guildID channelID messageID payload =
     markMessageDeleted env guildID channelID messageID payload True False"

definition MarkMessageDeletedWithoutEvent :: "env \<Rightarrow> string \<Rightarrow> string \<Rightarrow> string \<Rightarrow> action" where
  "MarkMessageDeletedWithoutEvent env guildID channelID messageID =
     markMessageDeleted env guildID channelID messageID [] False True"

section \<open>Statements and what they keep\<close>

text \<open>
  A predicate kept by every statement of the message writer is kept by every operation, whatever
  the environment does.
\<close>

definition store_stable :: "(db \<Rightarrow> bool) \<Rightarrow> bool" where
  "store_stable P \<longleftrightarrow> (\<forall>d. P d \<longrightarrow>
     (\<forall>m now. P (upsert_row m now d)) \<and> (\<forall>i m. P (update_row i (text_columns m) d)) \<and>
     (\<forall>i now. P (update_row i (\<lambda>r. r\<lparr>mrUpdatedAt := now\<rparr>) d)) \<and>
     (\<forall>rid. P (delete_fts rid d)) \<and> (\<forall>rid f. P (insert_fts rid f d)) \<and>
     (\<forall>i. P (delete_embeddings i d)) \<and> (\<forall>i t. P (archive_embeddings i t d)) \<and>
     (\<forall>i. P (delete_job i d)) \<and> (\<forall>i f. P (bump_job i f d)) \<and> (\<forall>i now. P (pending_job i now d)) \<and>
     (\<forall>c. P (d\<lparr>dbChecks := c\<rparr>)) \<and> (\<forall>ev. P (d\<lparr>dbEvents := ev\<rparr>)))"

lemma store_stableD:
  assumes "store_stable P" and "P d"
  shows "P (upsert_row m now d)" "P (update_row i (text_columns m) d)"
    "P (update_row i (\<lambda>r. r\<lparr>mrUpdatedAt := now\<rparr>) d)" "P (delete_fts rid d)" "P (insert_fts rid f d)"
    "P (delete_embeddings i d)" "P (archive_embeddings i t d)" "P (delete_job i d)" "P (bump_job i g d)"
    "P (pending_job i now d)" "P (d\<lparr>dbChecks := c\<rparr>)" "P (d\<lparr>dbEvents := ev\<rparr>)"
  using assms by (auto simp: store_stable_def)

lemma keeps_lastObservedTx: "keeps P (lastObservedTx env i)"
  unfolding lastObservedTx_def by (intro keeps_calls keeps_query)

lemma keeps_keepStoredMessage: "keeps P (keepStoredMessage env m started)"
  unfolding keepStoredMessage_def
  by (intro keeps_calls keeps_query keeps_lastObservedTx | simp split del: if_split)+

lemma keeps_prepareTextMutation: "keeps P (prepareTextMutation env mu)"
  unfolding prepareTextMutation_def
  by (auto simp: keeps_def split: prod.split sum.split option.split dest!: arg_cong [of _ _ "\<lambda>p. wDB (snd p)"])

lemma keeps_appendMutationEventTx:
  assumes "store_stable P" shows "keeps P (appendMutationEventTx env mu)"
  unfolding appendMutationEventTx_def appendEventTx_def append_event_def Let_def
  by (intro keeps_intros) (auto intro: store_stableD [OF assms])

lemma keeps_queue_embedding:
  assumes "store_stable P" shows "keeps P (queue_embedding env i t opts)"
  unfolding queue_embedding_def archiveMessageEmbeddings_def
  by (intro keeps_intros) (auto intro: store_stableD [OF assms])

lemma keeps_purge:
  assumes "store_stable P" shows "keeps P (purge_embeddings env i t)"
  unfolding purge_embeddings_def archiveMessageEmbeddings_def
  by (intro keeps_intros) (auto intro: store_stableD [OF assms])

lemma keeps_refreshUnchanged:
  assumes "store_stable P" shows "keeps P (refreshUnchangedMessageTx env stored m opts)"
  unfolding refreshUnchangedMessageTx_def refresh_fts_def Let_def
  by (intro keeps_intros keeps_queue_embedding [OF assms] | auto split: option.split intro!: keeps_intros store_stableD [OF assms])+

lemma keeps_write_changed:
  assumes "store_stable P" shows "keeps P (write_changed_message env m opts now)"
proof -
  note D = store_stableD [OF assms]
  have s: "keeps P (supersede_embeddings env m opts p)" for p
    unfolding supersede_embeddings_def archiveMessageEmbeddings_def
    by (cases p) (auto intro!: keeps_intros D)
  have e: "keeps P (exec_row env m now)"
    using keepsD [OF keeps_exec, of P "\<lambda>_. upsert_row m now" _ env] D(1)
    by (auto simp: keeps_def exec_row_def split: prod.split option.split) (metis snd_conv)+
  have f: "keeps P (write_fts env m p)" for p
    unfolding write_fts_def
    by (cases "MessageFTSRowID (msID m)") (auto intro!: keeps_intros keeps_purge [OF assms] D)
  have q: "keeps P (\<lambda>w. if b then db_query env h w else (Inr False, w))" for b and h :: "db \<Rightarrow> bool"
    by (intro keeps_calls keeps_query)
  show ?thesis
    unfolding write_changed_message_def
    by (intro keeps_intros s e f q keeps_queue_embedding [OF assms]) (rule D(2))
qed


lemma keeps_upsertMessageTx:
  assumes "store_stable P" shows "keeps P (upsertMessageTx env m opts)"
proof -
  note W = keeps_write_changed [OF assms]
  have t: "keeps P (\<lambda>v. write_changed_message env m opts (envNow env (wTick v)) v)" for m
    using W by (auto simp: keeps_def)
  show ?thesis
    unfolding upsertMessageTx_def Let_def loadStoredMessageTx_def
    by (intro keeps_calls keeps_intros t keeps_refreshUnchanged [OF assms])
qed

lemma keeps_apply_mutation:
  assumes "store_stable P" shows "keeps P (apply_mutation env mu)"
proof -
  note D = store_stableD [OF assms]
  have "keeps P (andThen (andThen (db_side env) (db_side env)) (if b then touch_row env i else ok))" for b i
    unfolding touch_row_def by (intro keeps_intros) (rule D)
  then have r: "keeps P (write_relations env i c)" for i c by (auto simp: keeps_def write_relations_def)
  have o: "keeps P (recordObservedTx env i)" for i
    unfolding recordObservedTx_def by (intro keeps_intros) (rule D)
  show ?thesis
    unfolding apply_mutation_def Let_def
    by (intro keeps_intros keeps_calls keeps_upsertMessageTx [OF assms] keeps_keepStoredMessage r o
        keeps_appendMutationEventTx [OF assms])
qed

lemma keeps_requireMessageScope: "keeps P (requireMessageScope env c g policy)"
  unfolding requireMessageScope_def
  by (auto intro!: keeps_intros split: option.split)

lemma keeps_upsert_mutation:
  assumes "store_stable P" shows "keeps P (upsert_mutation env mu)"
proof -
  have "keeps P (\<lambda>w. andThen (requireMessageScope env c g p) (andThen (db_side env)
      (\<lambda>v. case prepareTextMutation env mu v of (Inl e, w1) \<Rightarrow> (Some e, w1) | (Inr mu', w1) \<Rightarrow> apply_mutation env mu' w1)) w)"
    for c g p
    by (intro keeps_intros keeps_calls keeps_requireMessageScope keeps_prepareTextMutation keeps_apply_mutation assms)
  then show ?thesis by (auto simp: keeps_def upsert_mutation_def split: option.split)
qed

text \<open>Every operation of the writer keeps a stable predicate.\<close>

lemma keeps_UpsertMessages: "store_stable P \<Longrightarrow> keeps P (UpsertMessages env ms)"
  unfolding UpsertMessages_def by (intro keeps_intros keeps_upsert_mutation)

lemma keeps_UpsertMessageWithOptions: "store_stable P \<Longrightarrow> keeps P (UpsertMessageWithOptions env m opts)"
  unfolding UpsertMessageWithOptions_def recordObservedTx_def
  by (intro keeps_intros keeps_calls keeps_keepStoredMessage keeps_upsertMessageTx) (auto intro: store_stableD)

lemma keeps_markMessageDeleted:
  assumes s: "store_stable P"
    and d: "\<And>n d. P d \<Longrightarrow> P (update_row i (\<lambda>r. r\<lparr>mrDeletedAt := envNow env n, mrUpdatedAt := envNow env n\<rparr>) d)"
  shows "keeps P (markMessageDeleted env g c i payload ev v)"
proof -
  note D = store_stableD [OF s]
  have m: "keeps P (db_exec env (\<lambda>now. update_row i (\<lambda>r. r\<lparr>mrDeletedAt := now, mrUpdatedAt := now\<rparr>)))"
    using d by (rule keeps_exec_clock)
  have v: "keeps P (verify_delete_scope env g c i v)"
    unfolding verify_delete_scope_def by (intro keeps_calls keeps_query)
  have f: "keeps P (drop_fts env i)"
    unfolding drop_fts_def by (cases "MessageFTSRowID i") (auto intro!: keeps_intros D)
  show ?thesis
    unfolding markMessageDeleted_def delete_message_tx_def appendEventTx_def append_event_def
    by (intro keeps_intros m v f keeps_purge [OF s]) (auto intro: D)
qed

section \<open>Tables outside the writer, and rows that stay\<close>

lemma stored_upsert_row:
  "stored_row (upsert_row m now d) i =
     (if i = msID m then Some (upsertMessageParams m now (stored_row d (msID m))) else stored_row d i)"
  by (simp add: stored_row_def upsert_row_def update_conv')

lemma stored_update_row:
  "stored_row (update_row k f d) i = (if i = k then map_option f (stored_row d i) else stored_row d i)"
proof -
  have "map_of (map (\<lambda>(j, r). (j, if j = k then f r else r)) xs) i =
      (if i = k then map_option f (map_of xs i) else map_of xs i)" for xs
    by (induction xs) auto
  then show ?thesis by (simp add: stored_row_def update_row_def)
qed

lemma other_rows [simp]:
  "stored_row (delete_fts rid d) i = stored_row d i" "stored_row (insert_fts rid f d) i = stored_row d i"
  "stored_row (delete_embeddings j d) i = stored_row d i" "stored_row (archive_embeddings j t d) i = stored_row d i"
  "stored_row (delete_job j d) i = stored_row d i" "stored_row (bump_job j g d) i = stored_row d i"
  "stored_row (pending_job j now d) i = stored_row d i" "stored_row (d\<lparr>dbChecks := c\<rparr>) i = stored_row d i"
  "stored_row (d\<lparr>dbEvents := ev\<rparr>) i = stored_row d i" "stored_row (d\<lparr>dbSyncState := s\<rparr>) i = stored_row d i"
  "stored_row (d\<lparr>dbFailures := fs\<rparr>) i = stored_row d i" "stored_row (d\<lparr>dbChannels := cs\<rparr>) i = stored_row d i"
  by (simp_all add: stored_row_def delete_fts_def insert_fts_def delete_embeddings_def archive_embeddings_def
      delete_job_def bump_job_def pending_job_def)

lemmas statement_defs =
  upsert_row_def update_row_def delete_fts_def insert_fts_def delete_embeddings_def archive_embeddings_def
  delete_job_def bump_job_def pending_job_def

lemma store_stable_frame:
  assumes "\<And>d d'. dbSyncState d = dbSyncState d' \<Longrightarrow> dbChannels d = dbChannels d' \<Longrightarrow> dbFailures d = dbFailures d' \<Longrightarrow>
      dbNextFailureID d = dbNextFailureID d' \<Longrightarrow> P d = P d'"
  shows "store_stable P"
  unfolding store_stable_def by (intro allI impI conjI; erule iffD1 [OF assms, rotated -1]; simp add: statement_defs)

definition has_row :: "string \<Rightarrow> db \<Rightarrow> bool" where
  "has_row i d \<longleftrightarrow> stored_row d i \<noteq> None"

lemma store_stable_has_row: "store_stable (has_row i)"
  by (auto simp: store_stable_def has_row_def stored_upsert_row stored_update_row)

definition tombstone :: "string \<Rightarrow> db \<Rightarrow> bool" where
  "tombstone i d \<longleftrightarrow> (\<exists>r. stored_row d i = Some r \<and> mrDeletedAt r \<noteq> 0)"

lemma text_columns_simps [simp]:
  "mrDeletedAt (text_columns m r) = mrDeletedAt r" "mrEditedAt (text_columns m r) = mrEditedAt r"
  "mrNormalized (text_columns m r) = mrNormalized r" "mrChannelID (text_columns m r) = mrChannelID r"
  "mrContent (text_columns m r) = mrContent r"
  by (simp_all add: text_columns_def)

lemma store_stable_tombstone: "store_stable (tombstone i)"
  by (auto simp: store_stable_def tombstone_def stored_upsert_row stored_update_row upsertMessageParams_def)

end
