(* ===== verification/Availability.thy ===== *)
theory Availability
  imports FailureLedger SyncErrors
begin

text \<open>
  What the crawl and the gateway do with a failure (internal/syncer/failures.go and
  internal/syncer/channel_availability.go): recording a channel failure and settling an Unknown
  Channel answer that an exact lookup corroborates, the bounded repair lane over pending channel
  failures, and the durable recording and resolution of gateway message failures. The ledger
  contexts are detached from the run's context, so their calls do not observe its cancellation.
\<close>

section \<open>Corroborating an Unknown Channel answer\<close>

datatype unknownChannelVerdict = unknownChannelInconclusive | unknownChannelExists | unknownChannelConfirmed

definition ErrCodeUnknownChannel :: nat where
  "ErrCodeUnknownChannel = 10003"

definition lookup_verdict :: "string \<Rightarrow> string \<Rightarrow> go_error + dchannel option \<Rightarrow> unknownChannelVerdict" where
  "lookup_verdict guildID channelID answer =
     (case answer of
        Inl e \<Rightarrow> if confirmedDiscordMissing (Some e) ErrCodeUnknownChannel then unknownChannelConfirmed
                 else unknownChannelInconclusive
      | Inr None \<Rightarrow> unknownChannelInconclusive
      | Inr (Some c) \<Rightarrow>
          if cID c = channelID \<and> (cGuildID c = [] \<or> guildID = [] \<or> cGuildID c = guildID)
          then unknownChannelExists else unknownChannelInconclusive)"

definition verifyUnknownChannel :: "env \<Rightarrow> string \<Rightarrow> string \<Rightarrow> world \<Rightarrow> unknownChannelVerdict \<times> world" where
  "verifyUnknownChannel env guildID channelID w =
     (if channelID = [] \<or> envCtx env (wTick w) \<noteq> None then (unknownChannelInconclusive, w)
      else (lookup_verdict guildID channelID (envChannel env (wTick w) channelID), tick w))"

definition clearUnavailableChannel :: "env \<Rightarrow> string \<Rightarrow> action" where
  "clearUnavailableChannel env channelID =
     (if channelID = [] then ok else DeleteSyncState env (channelMessageUnavailableScope channelID))"

definition providerUnavailableResolution :: string where
  "providerUnavailableResolution = ''provider_unavailable_404''"

definition settleUnknownChannelFailure :: "env \<Rightarrow> string \<Rightarrow> string \<Rightarrow> (string \<Rightarrow> action) \<Rightarrow> action" where
  "settleUnknownChannelFailure env guildID channelID resolve w =
     (case verifyUnknownChannel env guildID channelID w of
        (unknownChannelConfirmed, w1) \<Rightarrow>
          withResult (GetSyncState env (channelMessageUnavailableScope channelID))
            (\<lambda>current. andThen
               (if current = [] then SetSyncState env (channelMessageUnavailableScope channelID) ''unknown_channel'' else ok)
               (resolve providerUnavailableResolution)) w1
      | (unknownChannelExists, w1) \<Rightarrow>
          withResult (GetSyncState env (channelMessageUnavailableScope channelID))
            (\<lambda>current. if current = ''unknown_channel'' then clearUnavailableChannel env channelID else ok) w1
      | (unknownChannelInconclusive, w1) \<Rightarrow> (None, w1))"

section \<open>Channel failures of a crawl\<close>

definition channel_failure_ref :: "string \<Rightarrow> string \<Rightarrow> failure_ref" where
  "channel_failure_ref guildID channelID =
     \<lparr>rOperation = ''sync_messages'', rSource = ''discord'', rGuildID = guildID, rChannelID = channelID,
      rMessageID = [], rRelatedKind = [], rRelatedID = []\<rparr>"

definition recordChannelFailure :: "env \<Rightarrow> string \<Rightarrow> string \<Rightarrow> go_error option \<Rightarrow> action" where
  "recordChannelFailure env guildID channelID failure =
     (case failure of
        None \<Rightarrow> ok
      | Some err \<Rightarrow>
          let ref = channel_failure_ref guildID channelID in
          if err_is err ErrCollectionScope
          then ResolveFailureWithReason env ref ''excluded_by_collection_policy''
          else andThen (RecordFailure env ref (Some err))
            (\<lambda>w. if unavailableReason err \<noteq> ''unknown_channel'' \<or> envCtx env (wTick w) \<noteq> None then (None, w)
                 else settleUnknownChannelFailure env guildID channelID (ResolveFailureWithReason env ref) w))"

definition resolveChannelFailures :: "env \<Rightarrow> string \<Rightarrow> string \<Rightarrow> action" where
  "resolveChannelFailures env guildID channelID = ResolveFailures env (channel_failure_ref guildID channelID)"

definition withFailureRecordError :: "go_error \<Rightarrow> go_error option \<Rightarrow> go_error" where
  "withFailureRecordError failure recordErr =
     (case recordErr of None \<Rightarrow> failure | Some e \<Rightarrow> ErrWrap2 [] failure '' (record failure ledger: '' e '')'')"

section \<open>The repair lane\<close>

definition channelFailureReplayCursorScope :: string where
  "channelFailureReplayCursorScope = ''repair:sync_messages:after_failure_id''"

definition unknownChannelReplayLimit :: int where
  "unknownChannelReplayLimit = 200"

text \<open>
  The value \<open>strconv.ParseInt\<close> returns beside its error: 0 for a malformed text, the nearest bound
  for one out of range.
\<close>

definition parse_int_value :: "string \<Rightarrow> int" where
  "parse_int_value s =
     (case go_atoi s of
        Some v \<Rightarrow> v
      | None \<Rightarrow>
          let neg = has_prefix s ''-''; body = (if neg \<or> has_prefix s ''+'' then tl s else s) in
          if body \<noteq> [] \<and> list_all is_digit body then (if neg then - (2 ^ 63) else 2 ^ 63 - 1) else 0)"

definition reconcileChannelMessageFailure :: "env \<Rightarrow> failure \<Rightarrow> string \<Rightarrow> action" where
  "reconcileChannelMessageFailure env f policy =
     (if rChannelID (fRef f) = [] \<or> rMessageID (fRef f) \<noteq> [] then ok
      else withResult (ChannelFailureSupersession env (rChannelID (fRef f)) policy)
        (\<lambda>reason. if reason \<noteq> [] then ResolveFailureGeneration env f reason
          else if \<not> isUnknownChannel (ErrText (fErrorMessage f)) then ok
          else settleUnknownChannelFailure env (rGuildID (fRef f)) (rChannelID (fRef f)) (ResolveFailureGeneration env f)))"

text \<open>The loop over the page: the error it ends with and the last row it finished.\<close>

fun reconcile_rows :: "env \<Rightarrow> string \<Rightarrow> failure list \<Rightarrow> int \<Rightarrow> world \<Rightarrow> (go_error option \<times> int) \<times> world" where
  "reconcile_rows env policy [] lastID w = ((None, lastID), w)"
| "reconcile_rows env policy (f # fs) lastID w =
     (if envCtx env (wTick w) \<noteq> None then ((None, lastID), w)
      else case reconcileChannelMessageFailure env f policy w of
        (Some e, w1) \<Rightarrow> ((Some e, lastID), w1)
      | (None, w1) \<Rightarrow> reconcile_rows env policy fs (int (fFailureID f)) w1)"

definition replay_page :: "env \<Rightarrow> string list \<Rightarrow> int \<Rightarrow> (int \<times> failure list) call" where
  "replay_page env guildIDs after w =
     (let ref = channel_failure_ref [] [] in
      case ListFailureReplayCandidatesAfter env ref guildIDs after unknownChannelReplayLimit w of
        (Inl e, w1) \<Rightarrow> (Inl e, w1)
      | (Inr rows, w1) \<Rightarrow>
          if rows = [] \<and> after > 0 then
            (case ListFailureReplayCandidatesAfter env ref guildIDs 0 unknownChannelReplayLimit w1 of
               (Inl e, w2) \<Rightarrow> (Inl e, w2) | (Inr rows2, w2) \<Rightarrow> (Inr (0, rows2), w2))
          else (Inr (after, rows), w1))"

definition reconcileChannelMessageFailures :: "env \<Rightarrow> syncer_cfg \<Rightarrow> string list \<Rightarrow> action" where
  "reconcileChannelMessageFailures env cfg guildIDs =
     withResult (GetSyncState env channelFailureReplayCursorScope)
       (\<lambda>cursorText. withResult (replay_page env guildIDs (parse_int_value cursorText))
         (\<lambda>(after, rows) w.
            case reconcile_rows env (scope_policy cfg) rows after w of
              ((err, lastID), w1) \<Rightarrow>
                (err, snd (SetSyncState env channelFailureReplayCursorScope (show_int lastID) w1))))"

section \<open>Gateway failures\<close>

record TailFailure =
  tfCode :: string
  tfEventType :: string
  tfKind :: string
  tfGuildID :: string
  tfChannelID :: string
  tfMessageID :: string
  tfUserID :: string
  tfReceivedAt :: instant
  tfForceFallback :: bool

record TailMessageFailureFallback =
  fbEventKind :: string
  fbFailureKind :: string
  fbGuildID :: string
  fbChannelID :: string
  fbMessageID :: string

definition normalizeTailMessageEventKind :: "string \<Rightarrow> string option" where
  "normalizeTailMessageEventKind eventType =
     (let kind = trim_prefix (to_lower (trim_space eventType)) ''message_'' in
      if kind \<in> {''create'', ''update'', ''delete''} then Some kind else None)"

definition tailMessageFailureSentinel :: "string \<Rightarrow> (string \<times> go_error) option" where
  "tailMessageFailureSentinel kind0 =
     (let kind = map (\<lambda>c. if c = CHR ''-'' then CHR ''_'' else c) (to_lower (trim_space kind0)) in
      if kind = ''returned_error'' then Some (kind, ErrText ''tail message handler returned an error'')
      else if kind = ''panic'' then Some (kind, ErrText ''tail message handler panicked'')
      else if kind = ''timeout'' then Some (kind, ErrText ''tail message handler timed out'')
      else None)"

definition tailMessageFailureIdentity :: "string \<Rightarrow> string \<Rightarrow> string \<Rightarrow> string \<Rightarrow> failure_ref" where
  "tailMessageFailureIdentity guildID channelID messageID eventKind =
     \<lparr>rOperation = ''tail_message'', rSource = ''discord'', rGuildID = guildID, rChannelID = channelID,
      rMessageID = messageID, rRelatedKind = ''message_event'', rRelatedID = eventKind\<rparr>"

text \<open>
  Whether the upper-cased event type begins with \<open>MESSAGE_\<close>. Besides ASCII letters only the long s
  (U+017F) has an upper case among the letters of that prefix.
\<close>

fun upper_has_prefix :: "string \<Rightarrow> string \<Rightarrow> bool" where
  "upper_has_prefix s [] = True"
| "upper_has_prefix (c # d # s) (p # ps) =
     (if c = CHR 0xC5 \<and> d = CHR 0xBF then p = CHR ''S'' \<and> upper_has_prefix s ps
      else lower_char p = lower_char c \<and> upper_has_prefix (d # s) ps)"
| "upper_has_prefix [c] (p # ps) = (lower_char p = lower_char c \<and> ps = [])"
| "upper_has_prefix [] (p # ps) = False"

text \<open>
  \<open>persist\<close> is the journal operation \<open>PersistTailMessageFailureFallback\<close>, which runs on the state of
  the file system; the theory of the fallback journal gives the real one.
\<close>

definition record_metadata_failure :: "env \<Rightarrow> TailFailure \<Rightarrow> action" where
  "record_metadata_failure env failure =
     (let cause = ''metadata event handler failed'' @ (if tfCode failure \<noteq> [] then '' ('' @ tfCode failure @ '')'' else []);
          ref = \<lparr>rOperation = ''tail_metadata'', rSource = ''discord'', rGuildID = tfGuildID failure,
                 rChannelID = tfChannelID failure, rMessageID = [], rRelatedKind = ''gateway_event'',
                 rRelatedID = tfEventType failure @ '':'' @ tfUserID failure\<rparr> in
      if tfEventType failure = ''GUILD_MEMBER_REMOVE''
      then RecordEventFailure env ref (Some (ErrText cause)) (tfReceivedAt failure)
      else RecordFailure env ref (Some (ErrText cause)))"

definition RecordTailFailure ::
  "env \<Rightarrow> (TailMessageFailureFallback \<Rightarrow> 'j \<Rightarrow> go_error option \<times> 'j) \<Rightarrow> TailFailure \<Rightarrow> world \<times> 'j \<Rightarrow>
   go_error option \<times> world \<times> 'j" where
  "RecordTailFailure env persist failure wj =
     (case wj of (w, j) \<Rightarrow>
      case normalizeTailMessageEventKind (tfEventType failure) of
        None \<Rightarrow>
          if upper_has_prefix (trim_space (tfEventType failure)) ''MESSAGE_''
          then (Some (ErrText ''record tail message failure: unsupported event type''), w, j)
          else (case record_metadata_failure env failure w of (e, w1) \<Rightarrow> (e, w1, j))
      | Some eventKind \<Rightarrow>
          (case tailMessageFailureSentinel (tfKind failure) of
             None \<Rightarrow> (Some (ErrText ''record tail message failure: unsupported failure kind''), w, j)
           | Some (failureKind, sentinel) \<Rightarrow>
               let durableFailure = (if tfCode failure \<noteq> [] then ErrWrap [] sentinel ('' ('' @ tfCode failure @ '')'') else sentinel);
                   ref = tailMessageFailureIdentity (tfGuildID failure) (tfChannelID failure) (tfMessageID failure) eventKind;
                   fallback = \<lparr>fbEventKind = eventKind, fbFailureKind = failureKind, fbGuildID = tfGuildID failure,
                               fbChannelID = tfChannelID failure, fbMessageID = tfMessageID failure\<rparr> in
               if tfMessageID failure = [] then (Some (ErrText ''record tail message failure: missing message id''), w, j)
               else
                 (case (if tfForceFallback failure then (Some (ErrText []), w)
                        else RecordFailureWithMessageScopeTimed env ref (Some durableFailure) w) of
                    (None, w1) \<Rightarrow> (None, w1, j)
                  | (Some e, w1) \<Rightarrow>
                      (case persist fallback j of
                         (None, j1) \<Rightarrow> (None, w1, j1)
                       | (Some e1, j1) \<Rightarrow> (Some (ErrText ''record tail message failure: no durable path succeeded''), w1, j1)))))"

definition resolveMessageFailure :: "env \<Rightarrow> string \<Rightarrow> string \<Rightarrow> string \<Rightarrow> string \<Rightarrow> action" where
  "resolveMessageFailure env guildID channelID messageID eventKind =
     (case normalizeTailMessageEventKind eventKind of
        None \<Rightarrow> fail_with (ErrText ''resolve tail message failure: unsupported event type'')
      | Some kind \<Rightarrow> ResolveFailureIdentity env (tailMessageFailureIdentity guildID channelID messageID kind))"

text \<open>
  The ids of a page by guild and channel, in the order the scopes first appear. The code ranges
  over a map, in any order; the statements of different scopes touch different rows.
\<close>

definition message_scopes :: "dmessage list \<Rightarrow> string \<Rightarrow> ((string \<times> string) \<times> string list) list" where
  "message_scopes messages fallbackGuildID =
     fold (\<lambda>m acc. if gID m = [] \<or> gChannelID m = [] then acc
             else let k = (if gGuildID m = [] then fallbackGuildID else gGuildID m, gChannelID m) in
                  AList.update k (case map_of acc k of None \<Rightarrow> [gID m] | Some ids \<Rightarrow> ids @ [gID m]) acc)
       messages []"

definition resolveTailMessageCreateFailuresForMessages :: "env \<Rightarrow> dmessage list \<Rightarrow> string \<Rightarrow> action" where
  "resolveTailMessageCreateFailuresForMessages env messages fallbackGuildID =
     sequence_actions
       (\<lambda>((guildID, channelID), ids). ResolveMessageFailures env (tailMessageFailureIdentity guildID channelID [] ''create'') ids)
       (message_scopes messages fallbackGuildID)"

definition tailMessageFailureRef :: "failure \<Rightarrow> failure_ref" where
  "tailMessageFailureRef failure = fRef failure"

definition validateTailMessageReplay :: "failure \<Rightarrow> dmessage option \<Rightarrow> go_error option" where
  "validateTailMessageReplay failure message =
     (case message of
        None \<Rightarrow> Some (ErrText ''exact message fetch returned no message'')
      | Some m \<Rightarrow>
          if gID m = [] then Some (ErrText ''exact message fetch returned an empty message id'')
          else if gID m \<noteq> rMessageID (fRef failure) then Some (ErrText ''exact message fetch returned a different message id'')
          else if gChannelID m = [] then Some (ErrText ''exact message fetch returned an empty channel id'')
          else if gChannelID m \<noteq> rChannelID (fRef failure) then Some (ErrText ''exact message fetch returned a different channel id'')
          else if gGuildID m \<noteq> [] \<and> rGuildID (fRef failure) \<noteq> [] \<and> gGuildID m \<noteq> rGuildID (fRef failure)
          then Some (ErrText ''exact message fetch returned a different guild id'')
          else None)"

section \<open>Settling\<close>

lemma RecordFailure_pending:
  assumes "RecordFailure env ref (Some err) w = (None, w')"
  shows "pending (wDB w') j \<longleftrightarrow> j = ledger_ref ref err \<or> pending (wDB w) j"
  using RecordFailure_success(2) [OF assms] by (simp add: lg.pend_clean upsert_pending)

lemma sync_cursor_update_failures [simp]: "sync_cursor (update_failures P g d) s = sync_cursor d s"
  by (simp add: sync_cursor_def update_failures_def)

lemma pending_put_cursor [simp]: "pending (put_cursor s c now d) j = pending d j"
  by (simp add: pending_def put_cursor_def)

lemma ResolveFailureWithReason_success:
  assumes "ResolveFailureWithReason env ref reason w = (None, w')"
  shows "pending (wDB w') j \<longleftrightarrow> pending (wDB w) j \<and> j \<noteq> ref" and "sync_cursor (wDB w') s = sync_cursor (wDB w) s"
proof -
  from assms obtain now where "wDB w' = update_failures (\<lambda>f. fResolvedAt f = None \<and> fRef f = ref)
      (\<lambda>f. f\<lparr>fResolvedAt := Some now, fResolutionReason := reason\<rparr>) (wDB w)"
    by (auto simp: ResolveFailureWithReason_def fail_with_def split: if_splits dest!: db_exec_None)
  then show "pending (wDB w') j \<longleftrightarrow> pending (wDB w) j \<and> j \<noteq> ref" "sync_cursor (wDB w') s = sync_cursor (wDB w) s"
    by (auto simp: pending_update_failures) (auto simp: pending_def)
qed

text \<open>
  A settlement either leaves the ledger alone, or it ran the resolver after a lookup that answered
  Unknown Channel, with the marker in place.
\<close>

definition lookup_denied :: "env \<Rightarrow> string \<Rightarrow> bool" where
  "lookup_denied env c \<longleftrightarrow> (\<exists>n e. envChannel env n c = Inl e \<and> err_rest e = Some (404, 10003))"

lemma settle_success:
  assumes "settleUnknownChannelFailure env g c resolve w = (None, w')"
  shows "dbFailures (wDB w') = dbFailures (wDB w) \<or>
    (\<exists>v. resolve providerUnavailableResolution v = (None, w') \<and> dbFailures (wDB v) = dbFailures (wDB w) \<and>
       lookup_denied env c \<and> sync_cursor (wDB v) (channelMessageUnavailableScope c) \<noteq> [])"
proof -
  obtain verdict w1 where v: "verifyUnknownChannel env g c w = (verdict, w1)" by force
  have w1: "wDB w1 = wDB w" using v by (auto simp: verifyUnknownChannel_def split: if_splits)
  have get: "GetSyncState env s u = (Inr x, u') \<Longrightarrow> x = sync_cursor (wDB u) s \<and> wDB u' = wDB u" for s u x u'
    by (auto simp: GetSyncState_def dest!: db_query_Inr)
  show ?thesis
  proof (cases verdict)
    case unknownChannelInconclusive
    with v assms w1 show ?thesis by (simp add: settleUnknownChannelFailure_def)
  next
    case unknownChannelExists
    with v assms obtain cur w2 where "GetSyncState env (channelMessageUnavailableScope c) w1 = (Inr cur, w2)"
      "(if cur = ''unknown_channel'' then clearUnavailableChannel env c else ok) w2 = (None, w')"
      by (auto simp: settleUnknownChannelFailure_def dest!: withResult_None)
    with get [OF this(1)] w1 show ?thesis
      by (auto simp: clearUnavailableChannel_def DeleteSyncState_def ok_def split: if_splits dest!: db_exec_None)
  next
    case unknownChannelConfirmed
    with v have den: "lookup_denied env c"
      by (auto simp: lookup_denied_def verifyUnknownChannel_def lookup_verdict_def confirmedDiscordMissing_def
          ErrCodeUnknownChannel_def split: if_splits sum.splits option.splits)
    let ?s = "channelMessageUnavailableScope c"
    from unknownChannelConfirmed v assms obtain cur w2 w3 where q: "GetSyncState env ?s w1 = (Inr cur, w2)"
      and m: "(if cur = [] then SetSyncState env ?s ''unknown_channel'' else ok) w2 = (None, w3)"
      and r: "resolve providerUnavailableResolution w3 = (None, w')"
      by (auto simp: settleUnknownChannelFailure_def dest!: withResult_None andThen_None)
    have "sync_cursor (wDB w3) ?s \<noteq> [] \<and> dbFailures (wDB w3) = dbFailures (wDB w)"
      using get [OF q] m w1 by (auto simp: SetSyncState_def ok_def split: if_splits dest!: db_exec_None)
    with r den show ?thesis by blast
  qed
qed

text \<open>
  C24. A crawl failure is never dropped on one Unknown Channel answer: after a channel failure has
  been recorded without error, its reference is pending, unless the failure itself was an Unknown
  Channel answer, an exact lookup of the same channel answered HTTP 404 with code 10003, and the
  channel carries an unavailable marker. No other pending failure is touched.
\<close>
theorem channel_failure_needs_corroboration:
  assumes "recordChannelFailure env g c (Some err) w = (None, w')" and "\<not> err_is err ErrCollectionScope"
  shows "(pending (wDB w') (ledger_ref (channel_failure_ref g c) err) \<or>
      (unavailableReason err = ''unknown_channel'' \<and> lookup_denied env c \<and>
       sync_cursor (wDB w') (channelMessageUnavailableScope c) \<noteq> [])) \<and>
    (\<forall>j. j \<noteq> channel_failure_ref g c \<and> pending (wDB w) j \<longrightarrow> pending (wDB w') j)"
proof -
  let ?ref = "channel_failure_ref g c"
  from assms obtain w1 where r: "RecordFailure env ?ref (Some err) w = (None, w1)"
    and k: "(if unavailableReason err \<noteq> ''unknown_channel'' \<or> envCtx env (wTick w1) \<noteq> None then (None, w1)
             else settleUnknownChannelFailure env g c (ResolveFailureWithReason env ?ref) w1) = (None, w')"
    by (auto simp: recordChannelFailure_def Let_def dest!: andThen_None)
  note P = RecordFailure_pending [OF r]
  show ?thesis
  proof (cases "unavailableReason err \<noteq> ''unknown_channel'' \<or> envCtx env (wTick w1) \<noteq> None")
    case True
    with k P show ?thesis by auto
  next
    case False
    with k have s: "settleUnknownChannelFailure env g c (ResolveFailureWithReason env ?ref) w1 = (None, w')" by auto
    from settle_success [OF s] show ?thesis
    proof (elim disjE exE conjE)
      assume "dbFailures (wDB w') = dbFailures (wDB w1)"
      then have "pending (wDB w') j = pending (wDB w1) j" for j by (simp add: pending_def)
      with P show ?thesis by simp
    next
      fix v
      assume v: "ResolveFailureWithReason env ?ref providerUnavailableResolution v = (None, w')"
        "dbFailures (wDB v) = dbFailures (wDB w1)" "lookup_denied env c"
        "sync_cursor (wDB v) (channelMessageUnavailableScope c) \<noteq> []"
      have "pending (wDB v) j = pending (wDB w1) j" for j using v(2) by (simp add: pending_def)
      with P v ResolveFailureWithReason_success [OF v(1)] False show ?thesis by simp
    qed
  qed
qed

section \<open>Durability of gateway failures\<close>

lemma record_message_scoped_success:
  assumes "record_message_scoped env ref err w = (None, w')"
  shows "\<exists>stored ref1. message_failure_scope ref stored = Inr ref1 \<and> rGuildID ref1 \<noteq> [] \<and> rChannelID ref1 \<noteq> [] \<and>
    pending (wDB w') (ledger_ref ref1 err)"
proof -
  from assms obtain stored ref1 w1 where s: "message_failure_scope ref stored = Inr ref1"
    "rGuildID ref1 \<noteq> []" "rChannelID ref1 \<noteq> []"
    and r: "andThen (recordFailure env ref1 err (envNow env (wTick w1))) (pruneResolvedFailures env (envNow env (wTick w1))) w1 = (None, w')"
    by (auto simp: record_message_scoped_def fail_with_def Let_def split: sum.splits if_splits dest!: withResult_None)
  from r have "RecordFailure env ref1 (Some err) w1 = (None, w')" by (simp add: RecordFailure_def Let_def)
  with RecordFailure_pending s show ?thesis by blast
qed

lemma scope_keeps_identity:
  "message_failure_scope ref stored = Inr ref1 \<Longrightarrow>
     rOperation ref1 = rOperation ref \<and> rSource ref1 = rSource ref \<and> rMessageID ref1 = rMessageID ref \<and>
     rRelatedKind ref1 = rRelatedKind ref \<and> rRelatedID ref1 = rRelatedID ref"
  by (auto simp: message_failure_scope_def Let_def split: option.splits if_splits)

lemma trim_identity_texts:
  "trim_space ''tail_message'' = ''tail_message''" "trim_space ''message_event'' = ''message_event''"
  "trim_space ''create'' = ''create''" "trim_space ''update'' = ''update''" "trim_space ''delete'' = ''delete''"
  by code_simp+

lemma plain_ledger_ref:
  assumes "err_row err = None"
  shows "rOperation (ledger_ref ref err) = trim_space (rOperation ref)" "rMessageID (ledger_ref ref err) = trim_space (rMessageID ref)"
    "rRelatedKind (ledger_ref ref err) = trim_space (rRelatedKind ref)" "rRelatedID (ledger_ref ref err) = trim_space (rRelatedID ref)"
  using assms by (simp_all add: ledger_ref_def normalizeFailureRef_def mergeFailureRef_def FailureRefFromError_def empty_ref_def)

lemma tail_failure_paths:
  assumes "RecordTailFailure env persist failure (w, j) = (None, w', j')"
    and "normalizeTailMessageEventKind (tfEventType failure) = Some kind"
    and "trim_space (tfMessageID failure) = tfMessageID failure"
  shows "(\<exists>ref. pending (wDB w') ref \<and> rOperation ref = ''tail_message'' \<and> rMessageID ref = tfMessageID failure \<and>
      rRelatedKind ref = ''message_event'' \<and> rRelatedID ref = kind) \<or>
    (\<exists>failureKind sentinel. tailMessageFailureSentinel (tfKind failure) = Some (failureKind, sentinel) \<and>
      persist \<lparr>fbEventKind = kind, fbFailureKind = failureKind, fbGuildID = tfGuildID failure,
        fbChannelID = tfChannelID failure, fbMessageID = tfMessageID failure\<rparr> j = (None, j'))"
proof -
  let ?ref = "tailMessageFailureIdentity (tfGuildID failure) (tfChannelID failure) (tfMessageID failure) kind"
  from assms(1,2) obtain fk sentinel where sen: "tailMessageFailureSentinel (tfKind failure) = Some (fk, sentinel)"
    by (auto simp: RecordTailFailure_def split: option.splits)
  let ?e = "if tfCode failure \<noteq> [] then ErrWrap [] sentinel ('' ('' @ tfCode failure @ '')'') else sentinel"
  let ?fb = "\<lparr>fbEventKind = kind, fbFailureKind = fk, fbGuildID = tfGuildID failure,
      fbChannelID = tfChannelID failure, fbMessageID = tfMessageID failure\<rparr>"
  have row: "err_row ?e = None"
    using sen by (auto simp: tailMessageFailureSentinel_def Let_def split: if_splits)
  have kind: "kind \<in> {''create'', ''update'', ''delete''}"
    using assms(2) by (auto simp: normalizeTailMessageEventKind_def Let_def split: if_splits)
  show ?thesis
  proof (cases "persist ?fb j = (None, j')")
    case False
    with assms(1,2) sen have "RecordFailureWithMessageScopeTimed env ?ref (Some ?e) w = (None, w')"
      by (auto simp: RecordTailFailure_def Let_def split: if_splits prod.splits option.splits)
    then obtain w1 where "with_tx env (record_message_scoped env (ledger_ref ?ref ?e) ?e) w1 = (None, w')"
      by (auto simp: RecordFailureWithMessageScopeTimed_def Let_def fail_with_def split: if_split_asm dest!: andThen_None)
    then obtain v v' where "record_message_scoped env (ledger_ref ?ref ?e) ?e v = (None, v')" "wDB w' = wDB v'"
      by (auto dest!: with_tx_None)
    with record_message_scoped_success [OF this(1)] obtain stored ref1 where
      s: "message_failure_scope (ledger_ref ?ref ?e) stored = Inr ref1" and p: "pending (wDB w') (ledger_ref ref1 ?e)" by auto
    have "rOperation (ledger_ref ref1 ?e) = ''tail_message'' \<and> rMessageID (ledger_ref ref1 ?e) = tfMessageID failure \<and>
      rRelatedKind (ledger_ref ref1 ?e) = ''message_event'' \<and> rRelatedID (ledger_ref ref1 ?e) = kind"
      using scope_keeps_identity [OF s] kind assms(3)
      by (auto simp only: plain_ledger_ref [OF row] tailMessageFailureIdentity_def failure_ref.simps trim_identity_texts)
    with p show ?thesis by blast
  qed (use sen in blast)
qed

text \<open>
  A gateway message failure is reported as recorded only when it is durable: when the recorder
  accepts the failure of a create, update or delete event, then either a failure with that message id
  and event kind is pending in the ledger, with a complete guild and channel, or the fallback journal
  has accepted exactly this failure.
\<close>
theorem tail_failure_is_durable:
  assumes "RecordTailFailure env persist failure (w, j) = (None, w', j')"
    and "normalizeTailMessageEventKind (tfEventType failure) = Some kind"
    and "trim_space (tfMessageID failure) = tfMessageID failure"
  shows "(\<exists>ref. pending (wDB w') ref \<and> rOperation ref = ''tail_message'' \<and> rMessageID ref = tfMessageID failure \<and>
      rRelatedKind ref = ''message_event'' \<and> rRelatedID ref = kind) \<or>
    (\<exists>failureKind. persist \<lparr>fbEventKind = kind, fbFailureKind = failureKind, fbGuildID = tfGuildID failure,
      fbChannelID = tfChannelID failure, fbMessageID = tfMessageID failure\<rparr> j = (None, j'))"
  using tail_failure_paths [OF assms] by blast

theorem channel_failure_needs_corroboration_witness:
  "\<exists>w'. recordChannelFailure calm_env ''1'' ''5'' (Some (ErrText ''x'')) \<lparr>wDB = empty_db, wTick = 0\<rparr> = (None, w') \<and>
     pending (wDB w') (ledger_ref (channel_failure_ref ''1'' ''5'') (ErrText ''x''))"
proof -
  let ?r = "recordChannelFailure calm_env ''1'' ''5'' (Some (ErrText ''x'')) \<lparr>wDB = empty_db, wTick = 0\<rparr>"
  have n: "\<not> err_is (ErrText ''x'') ErrCollectionScope" "unavailableReason (ErrText ''x'') \<noteq> ''unknown_channel''"
    by code_simp+
  have "fst (RecordFailure calm_env (channel_failure_ref ''1'' ''5'') (Some (ErrText ''x'')) \<lparr>wDB = empty_db, wTick = 0\<rparr>) = None"
    by code_simp
  then have "fst ?r = None"
    using n by (auto simp: recordChannelFailure_def Let_def andThen_def split: prod.split)
  then have r: "?r = (None, snd ?r)" by (simp add: prod_eq_iff)
  from channel_failure_needs_corroboration [OF this n(1)] n(2) r show ?thesis by (intro exI conjI) auto
qed

definition lost_create :: TailFailure where
  "lost_create = \<lparr>tfCode = [], tfEventType = ''MESSAGE_CREATE'', tfKind = ''panic'', tfGuildID = ''1'', tfChannelID = ''5'',
     tfMessageID = ''42'', tfUserID = [], tfReceivedAt = 0, tfForceFallback = False\<rparr>"

theorem tail_failure_is_durable_witness:
  "\<exists>w' ref. RecordTailFailure calm_env (\<lambda>_ j. (Some (ErrText ''disk full''), j)) lost_create (\<lparr>wDB = empty_db, wTick = 0\<rparr>, ()) = (None, w', ()) \<and>
     pending (wDB w') ref \<and> rMessageID ref = ''42'' \<and> rRelatedID ref = ''create''"
proof -
  let ?r = "RecordTailFailure calm_env (\<lambda>_ j. (Some (ErrText ''disk full''), j)) lost_create (\<lparr>wDB = empty_db, wTick = 0\<rparr>, ())"
  have "fst ?r = None" by code_simp
  then have r: "?r = (None, fst (snd ?r), ())" by (simp add: prod_eq_iff)
  have k: "normalizeTailMessageEventKind (tfEventType lost_create) = Some ''create''" by code_simp
  have t: "trim_space (tfMessageID lost_create) = tfMessageID lost_create" by code_simp
  from tail_failure_is_durable [OF r k t] obtain ref where "pending (wDB (fst (snd ?r))) ref" "rMessageID ref = ''42''" "rRelatedID ref = ''create''"
    by (auto simp: lost_create_def)
  with r show ?thesis by (intro exI conjI)
qed

end
