(* ===== verification/Paging.thy ===== *)
theory Paging
  imports Database
begin

text \<open>
  The shape of the page loops of the history crawl: a step either stops, with the error it stops
  with, or goes on with a new cursor. Such a loop need not end (a server can answer with pages for
  ever), so it runs with fuel, one unit per page; \<open>None\<close> means the fuel was too little. The locale
  \<open>page_walk\<close> is the contract a step fulfils under an invariant, and what a walk then achieves.
\<close>

datatype 's page_step = Stop "go_error option" 's | More 's

fun run_pages :: "nat \<Rightarrow> ('s \<Rightarrow> world \<Rightarrow> 's page_step \<times> world) \<Rightarrow> 's \<Rightarrow> world \<Rightarrow> ((go_error option \<times> 's) \<times> world) option" where
  "run_pages 0 step s w = None"
| "run_pages (Suc n) step s w =
     (case step s w of
        (Stop e s', w') \<Rightarrow> Some ((e, s'), w')
      | (More s', w') \<Rightarrow> run_pages n step s' w')"

text \<open>More fuel never changes a result.\<close>

lemma run_pages_mono: "run_pages n step s w = Some r \<Longrightarrow> n \<le> m \<Longrightarrow> run_pages m step s w = Some r"
proof (induction n arbitrary: m s w)
  case (Suc n)
  then obtain k where m: "m = Suc k" "n \<le> k" by (cases m) auto
  obtain p w' where st: "step s w = (p, w')" by force
  show ?case
  proof (cases p)
    case (Stop e s')
    with Suc.prems(1) m st show ?thesis by simp
  next
    case (More s')
    with Suc.prems(1) st have "run_pages n step s' w' = Some r" by simp
    from Suc.IH [OF this m(2)] show ?thesis using m st More by simp
  qed
qed simp

text \<open>
  A step keeps the invariant while it goes on, and establishes the outcome when it stops, with or
  without an error.
\<close>

locale page_walk =
  fixes step :: "'s \<Rightarrow> world \<Rightarrow> 's page_step \<times> world"
    and inv :: "'s \<Rightarrow> world \<Rightarrow> bool"
    and out :: "go_error option \<Rightarrow> 's \<Rightarrow> world \<Rightarrow> bool"
  assumes step_more: "inv s w \<Longrightarrow> step s w = (More s', w') \<Longrightarrow> inv s' w'"
    and step_stop: "inv s w \<Longrightarrow> step s w = (Stop e s', w') \<Longrightarrow> out e s' w'"
begin

lemma walk_outcome: "run_pages n step s w = Some ((e, s'), w') \<Longrightarrow> inv s w \<Longrightarrow> out e s' w'"
proof (induction n arbitrary: s w)
  case (Suc n)
  obtain p w1 where st: "step s w = (p, w1)" by force
  show ?case
  proof (cases p)
    case (Stop e1 s1)
    with Suc.prems st step_stop show ?thesis by auto
  next
    case (More s1)
    with Suc.prems st step_more have "inv s1 w1" "run_pages n step s1 w1 = Some ((e, s'), w')" by auto
    with Suc.IH show ?thesis by blast
  qed
qed simp

end

text \<open>A walk whose rank falls with every further page ends, within its rank.\<close>

locale bounded_page_walk = page_walk +
  fixes rank :: "'a \<Rightarrow> world \<Rightarrow> nat"
  assumes rank_falls: "inv s w \<Longrightarrow> step s w = (More s', w') \<Longrightarrow> rank s' w' < rank s w"
begin

lemma walk_ends: "inv s w \<Longrightarrow> rank s w < n \<Longrightarrow> \<exists>r. run_pages n step s w = Some r"
proof (induction n arbitrary: s w)
  case (Suc n)
  obtain p w1 where st: "step s w = (p, w1)" by force
  show ?case
  proof (cases p)
    case (More s1)
    with Suc.prems st step_more rank_falls have "inv s1 w1" "rank s1 w1 < rank s w" by auto
    with Suc.IH [of s1 w1] Suc.prems(2) st More show ?thesis by simp
  qed (simp add: st)
qed simp

end

end
