(* ===== verification/HistorySync.thy ===== *)
theory HistorySync
  imports MessageStore Availability Channels Paging "HOL-Library.Monad_Syntax"
begin

text \<open>
  The history crawl of one channel (internal/syncer/message_sync.go, history_window.go, and the
  record building of enrichment.go and records.go): the page loops in both directions, the
  checkpoints they leave in \<open>sync_state\<close>, the verification of a channel that claims a complete
  history, the certified window, and the serial run over channels. A page is a list of messages
  (the client returns no nil entries); the client offers the history permission check. Loops run
  with fuel, one unit per page. The progress log has no effect on the archive; its counters are in
  the theory of the worker pool.
\<close>

section \<open>Records\<close>

record historyVerificationCheckpoint =
  hvLatest :: string
  hvBefore :: string

record channelSyncState =
  csLatest :: string
  csStoredLatest :: string
  csBackfillCursor :: string
  csBackfillComplete :: bool
  csVerification :: "historyVerificationCheckpoint option"
  csHasMessages :: bool
  csVerifiedEmpty :: bool

record HistoryWindow =
  hwGuildID :: string
  hwChannelID :: string
  hwChannelType :: int
  hwSince :: instant
  hwUntil :: instant
  hwCompletedAt :: instant
  hwBoundary :: string
  hwBoundaryMessageID :: string

record SyncOptions =
  soFull :: bool
  soEmbeddings :: bool
  soSince :: instant
  soLatestOnly :: bool
  soConcurrency :: int
  soChannelIDs :: "string list"

section \<open>Building mutations\<close>

definition effectiveMessageGuildID :: "dmessage \<Rightarrow> string \<Rightarrow> string" where
  "effectiveMessageGuildID message fallbackGuildID =
     (if trim_space (gGuildID message) \<noteq> [] then gGuildID message else trim_space fallbackGuildID)"

definition toMessageRecord :: "dmessage \<Rightarrow> string \<Rightarrow> string \<Rightarrow> string \<Rightarrow> MessageRecord" where
  "toMessageRecord message channelName guildID normalizedContent =
     \<lparr>msID = gID message, msGuildID = guildID, msChannelID = gChannelID message, msChannelName = channelName,
      msAuthorID = (case gAuthor message of None \<Rightarrow> [] | Some a \<Rightarrow> aID a),
      msAuthorName = (case gAuthor message of None \<Rightarrow> []
        | Some a \<Rightarrow> if trim_space (aGlobalName a) \<noteq> [] then trim_space (aGlobalName a) else aUsername a),
      msMessageType = gType message, msCreatedAt = gTimestamp message, msEditedAt = gEdited message,
      msDeletedAt = 0, msContent = gContent message, msNormalized = normalizedContent,
      msReplyTo = gReference message, msPinned = gPinned message, msHasAttachments = (gAttachments message > 0),
      msRawJSON = gRaw message, msTextParts = [], msTextVersion = 0\<rparr>"

definition buildMessageMutation :: "env \<Rightarrow> string \<Rightarrow> string \<Rightarrow> bool \<Rightarrow> dmessage \<Rightarrow> MessageMutation call" where
  "buildMessageMutation env channelName fallbackGuildID embeddings message w =
     (case envExtract env (wTick w) message of
        Inl e \<Rightarrow> (Inl e, tick w)
      | Inr (normalized, parts) \<Rightarrow>
          let record = (toMessageRecord message channelName (effectiveMessageGuildID message fallbackGuildID) normalized)
                         \<lparr>msTextParts := parts, msTextVersion := text_projection_version\<rparr> in
          (Inr \<lparr>mmRecord = record, mmEventType = ''upsert'', mmPayload = msRawJSON record,
                mmOptions = \<lparr>woObservationStartedAt = 0, woScopePolicy = [], woAppendEvent = False,
                  woEnqueueEmbedding = embeddings, woEmbeddingCatchUp = False, woPreserveNewer = True,
                  woDeduplicateEvent = False\<rparr>\<rparr>, tick w))"

fun build_mutations :: "env \<Rightarrow> string \<Rightarrow> string \<Rightarrow> bool \<Rightarrow> dmessage list \<Rightarrow> MessageMutation list \<Rightarrow> string \<Rightarrow> (MessageMutation list \<times> string) call" where
  "build_mutations env channelName fallbackGuildID embeddings [] acc newest w = (Inr (acc, newest), w)"
| "build_mutations env channelName fallbackGuildID embeddings (m # ms) acc newest w =
     (case buildMessageMutation env channelName fallbackGuildID embeddings m w of
        (Inl e, w1) \<Rightarrow> (Inl e, w1)
      | (Inr mu, w1) \<Rightarrow>
          build_mutations env channelName fallbackGuildID embeddings ms
            (acc @ [mu\<lparr>mmOptions := (mmOptions mu)\<lparr>woEmbeddingCatchUp := True\<rparr>\<rparr>]) (maxSnowflake newest (gID m)) w1)"

definition buildMessageMutations :: "env \<Rightarrow> dmessage list \<Rightarrow> string \<Rightarrow> string \<Rightarrow> bool \<Rightarrow> (MessageMutation list \<times> string) call" where
  "buildMessageMutations env messages channelName fallbackGuildID embeddings =
     build_mutations env channelName fallbackGuildID embeddings messages [] []"

definition crawl_options :: "syncer_cfg \<Rightarrow> instant \<Rightarrow> MessageMutation \<Rightarrow> MessageMutation" where
  "crawl_options cfg observedAt mu =
     (let opts = (mmOptions mu)\<lparr>woPreserveNewer := True, woObservationStartedAt := observedAt\<rparr> in
      mu\<lparr>mmOptions := (if configured (cfExclusions cfg) then opts\<lparr>woScopePolicy := cfPolicyID cfg (cfExclusions cfg)\<rparr> else opts)\<rparr>)"

definition persistMessagePage :: "env \<Rightarrow> syncer_cfg \<Rightarrow> dmessage list \<Rightarrow> string \<Rightarrow> string \<Rightarrow> bool \<Rightarrow> instant \<Rightarrow> string call" where
  "persistMessagePage env cfg messages channelName fallbackGuildID embeddings observedAt =
     (if messages = [] then value_call []
      else doThen (requirePersistedScope env cfg (gChannelID (hd messages)))
        (bindCall (buildMessageMutations env messages channelName fallbackGuildID embeddings)
          (\<lambda>(mutations, newest).
             doThen (UpsertMessages env (map (crawl_options cfg observedAt) mutations))
            (doThen (resolveTailMessageCreateFailuresForMessages env messages fallbackGuildID)
              (value_call newest)))))"

definition filterMessagesSince :: "dmessage list \<Rightarrow> instant \<Rightarrow> dmessage list \<times> bool" where
  "filterMessagesSince messages since =
     (if is_zero_time since \<or> messages = [] then (messages, False)
      else (takeWhile (\<lambda>m. \<not> gTimestamp m < since) messages, \<exists>m \<in> set messages. gTimestamp m < since))"

section \<open>Reading a page\<close>

definition ChannelMessages :: "env \<Rightarrow> string \<Rightarrow> string \<Rightarrow> string \<Rightarrow> dmessage list call" where
  "ChannelMessages env channelID before after w = (envMessages env (wTick w) channelID before after, tick w)"

definition read_page :: "env \<Rightarrow> syncer_cfg \<Rightarrow> dchannel \<Rightarrow> string \<Rightarrow> string \<Rightarrow> dmessage list call" where
  "read_page env cfg channel before after =
     doThen (requirePersistedScope env cfg (cID channel)) (ChannelMessages env (cID channel) before after)"

definition advanceChannelLatest :: "env \<Rightarrow> string \<Rightarrow> string \<Rightarrow> action" where
  "advanceChannelLatest env channelID cursor = AdvanceChannelLatestMessageID env channelID cursor"

definition missing_id_error :: "dchannel \<Rightarrow> go_error" where
  "missing_id_error channel = ErrText (''channel '' @ cID channel @ '' message page missing id'')"

definition stuck_cursor_error :: "dchannel \<Rightarrow> go_error" where
  "stuck_cursor_error channel = ErrText (''channel '' @ cID channel @ '' message page cursor did not advance'')"

section \<open>The verification checkpoint\<close>

definition checkpoint_json :: "historyVerificationCheckpoint \<Rightarrow> string" where
  "checkpoint_json c =
     json_object (filter (\<lambda>(k, v). v \<noteq> []) [(''latest'', hvLatest c), (''before'', hvBefore c)])"

definition saveHistoryVerificationCheckpoint :: "env \<Rightarrow> string \<Rightarrow> historyVerificationCheckpoint \<Rightarrow> action" where
  "saveHistoryVerificationCheckpoint env channelID checkpoint =
     SetSyncState env (channelHistoryVerificationScope channelID) (checkpoint_json checkpoint)"

definition dec_checkpoint :: "env \<Rightarrow> string \<Rightarrow> historyVerificationCheckpoint option" where
  "dec_checkpoint env text =
     do { v \<leftarrow> envJSON env text;
          obj \<leftarrow> dec_fields v;
          latest \<leftarrow> dec_string (key_values ''latest'' obj) [];
          before \<leftarrow> dec_string (key_values ''before'' obj) [];
          Some \<lparr>hvLatest = latest, hvBefore = before\<rparr> }"

section \<open>Backfill\<close>

text \<open>
  The variables of the loop of \<open>syncBackfillPages\<close>; \<open>bsWindow\<close> is the window behind the pointer
  argument, \<open>None\<close> a nil pointer.
\<close>

record backfill =
  bsBefore :: string
  bsCount :: nat
  bsNewest :: string
  bsPages :: nat
  bsWindow :: "HistoryWindow option"

definition stop_with :: "go_error option \<times> world \<Rightarrow> 's \<Rightarrow> 's page_step \<times> world" where
  "stop_with r s = (Stop (fst r) s, snd r)"

text \<open>The history ends: the window takes its boundary, or the channel is marked complete.\<close>

definition end_of_history :: "env \<Rightarrow> dchannel \<Rightarrow> backfill \<Rightarrow> world \<Rightarrow> backfill page_step \<times> world" where
  "end_of_history env channel s w =
     (case bsWindow s of
        Some wd \<Rightarrow> (Stop None (s\<lparr>bsWindow := Some (wd\<lparr>hwBoundary := ''end''\<rparr>)\<rparr>), w)
      | None \<Rightarrow> stop_with (SetSyncState env (channelHistoryCompleteScope (cID channel)) ''1'' w) s)"

definition reach_since :: "env \<Rightarrow> dchannel \<Rightarrow> dmessage list \<Rightarrow> dmessage list \<Rightarrow> backfill \<Rightarrow> world \<Rightarrow> backfill page_step \<times> world" where
  "reach_since env channel page eligible s w =
     (case bsWindow s of
        Some wd \<Rightarrow>
          (Stop None (s\<lparr>bsWindow := Some (wd\<lparr>hwBoundary := ''since'', hwBoundaryMessageID := gID (last page)\<rparr>)\<rparr>), w)
      | None \<Rightarrow>
          if eligible = [] then (Stop None s, w)
          else stop_with (SetSyncState env (channelBackfillScope (cID channel)) (gID (last eligible)) w) s)"

definition short_page :: "env \<Rightarrow> dchannel \<Rightarrow> string \<Rightarrow> backfill \<Rightarrow> world \<Rightarrow> backfill page_step \<times> world" where
  "short_page env channel nextBefore s w =
     (case bsWindow s of
        Some wd \<Rightarrow>
          if nextBefore = [] then (Stop (Some (ErrText ''history boundary message is missing'')) s, w)
          else (Stop None (s\<lparr>bsWindow := Some (wd\<lparr>hwBoundary := ''end'', hwBoundaryMessageID := nextBefore\<rparr>)\<rparr>), w)
      | None \<Rightarrow> stop_with (SetSyncState env (channelHistoryCompleteScope (cID channel)) ''1'' w) s)"

definition leave_checkpoint ::
    "env \<Rightarrow> dchannel \<Rightarrow> string \<Rightarrow> int \<Rightarrow> historyVerificationCheckpoint option \<Rightarrow> dmessage list \<Rightarrow> backfill \<Rightarrow> world \<Rightarrow> backfill page_step \<times> world" where
  "leave_checkpoint env channel latestFloor pageLimit verification page s w =
     (let nextBefore = gID (last page) in
      if length page = 100 \<and> nextBefore = [] then (Stop (Some (missing_id_error channel)) s, w)
      else if length page = 100 \<and> nextBefore = bsBefore s then (Stop (Some (stuck_cursor_error channel)) s, w)
      else case andThen
             (if bsWindow s = None then SetSyncState env (channelBackfillScope (cID channel)) nextBefore else ok)
             (if verification = None then ok
              else saveHistoryVerificationCheckpoint env (cID channel)
                     \<lparr>hvLatest = maxSnowflake latestFloor (bsNewest s), hvBefore = nextBefore\<rparr>) w of
        (Some e, w1) \<Rightarrow> (Stop (Some e) s, w1)
      | (None, w1) \<Rightarrow>
          if length page < 100 then short_page env channel nextBefore s w1
          else if pageLimit > 0 \<and> int (bsPages s) \<ge> pageLimit then (Stop None s, w1)
          else (More (s\<lparr>bsBefore := nextBefore\<rparr>), w1))"

definition backfill_page ::
    "env \<Rightarrow> syncer_cfg \<Rightarrow> dchannel \<Rightarrow> string \<Rightarrow> string \<Rightarrow> bool \<Rightarrow> instant \<Rightarrow> int \<Rightarrow> historyVerificationCheckpoint option \<Rightarrow>
     backfill \<Rightarrow> world \<Rightarrow> backfill page_step \<times> world" where
  "backfill_page env cfg channel latestFloor channelName embeddings since pageLimit verification s w =
     (case read_page env cfg channel (bsBefore s) [] w of
        (Inl e, w1) \<Rightarrow> (Stop (Some e) s, w1)
      | (Inr page, w1) \<Rightarrow>
          if page = [] then end_of_history env channel s w1
          else
            let (eligible, reachedSince) = filterMessagesSince page since in
            case persistMessagePage env cfg eligible channelName (cGuildID channel) embeddings (envNow env (wTick w)) w1 of
              (Inl e, w2) \<Rightarrow> (Stop (Some e) s, w2)
            | (Inr pageNewest, w2) \<Rightarrow>
                let s1 = s\<lparr>bsPages := bsPages s + 1, bsNewest := maxSnowflake (bsNewest s) pageNewest,
                           bsCount := bsCount s + length eligible\<rparr> in
                case (if bsNewest s1 \<noteq> [] \<and> maxSnowflake latestFloor (bsNewest s1) = bsNewest s1
                      then advanceChannelLatest env (cID channel) (bsNewest s1) else ok) w2 of
                  (Some e, w3) \<Rightarrow> (Stop (Some e) s1, w3)
                | (None, w3) \<Rightarrow>
                    if reachedSince then reach_since env channel page eligible s1 w3
                    else leave_checkpoint env channel latestFloor pageLimit verification page s1 w3)"

definition syncBackfillPages ::
    "nat \<Rightarrow> env \<Rightarrow> syncer_cfg \<Rightarrow> dchannel \<Rightarrow> string \<Rightarrow> string \<Rightarrow> string \<Rightarrow> bool \<Rightarrow> instant \<Rightarrow> int \<Rightarrow>
     historyVerificationCheckpoint option \<Rightarrow> HistoryWindow option \<Rightarrow> world \<Rightarrow> ((go_error option \<times> backfill) \<times> world) option" where
  "syncBackfillPages fuel env cfg channel before latestFloor channelName embeddings since pageLimit verification window =
     run_pages fuel (backfill_page env cfg channel latestFloor channelName embeddings since pageLimit verification)
       \<lparr>bsBefore = before, bsCount = 0, bsNewest = [], bsPages = 0, bsWindow = window\<rparr>"

section \<open>Forward pages\<close>

record forward =
  fsAfter :: string
  fsCount :: nat
  fsNewest :: string

definition forward_page :: "env \<Rightarrow> syncer_cfg \<Rightarrow> dchannel \<Rightarrow> bool \<Rightarrow> forward \<Rightarrow> world \<Rightarrow> forward page_step \<times> world" where
  "forward_page env cfg channel embeddings s w =
     (case read_page env cfg channel [] (fsAfter s) w of
        (Inl e, w1) \<Rightarrow> (Stop (Some e) s, w1)
      | (Inr page, w1) \<Rightarrow>
          if page = [] then (Stop None s, w1)
          else case persistMessagePage env cfg page (cName channel) (cGuildID channel) embeddings (envNow env (wTick w)) w1 of
              (Inl e, w2) \<Rightarrow> (Stop (Some e) s, w2)
            | (Inr pageNewest, w2) \<Rightarrow>
                let s1 = s\<lparr>fsNewest := maxSnowflake (fsNewest s) pageNewest, fsCount := fsCount s + length page\<rparr> in
                case advanceChannelLatest env (cID channel) (fsNewest s1) w2 of
                  (Some e, w3) \<Rightarrow> (Stop (Some e) s1, w3)
                | (None, w3) \<Rightarrow>
                    if length page < 100 then (Stop None s1, w3)
                    else
                      let nextAfter = maxSnowflake (fsAfter s) pageNewest in
                      if nextAfter = [] then (Stop (Some (missing_id_error channel)) s1, w3)
                      else if nextAfter = fsAfter s then (Stop (Some (stuck_cursor_error channel)) s1, w3)
                      else (More (s1\<lparr>fsAfter := nextAfter\<rparr>), w3))"

definition syncForwardPages :: "nat \<Rightarrow> env \<Rightarrow> syncer_cfg \<Rightarrow> dchannel \<Rightarrow> string \<Rightarrow> bool \<Rightarrow> world \<Rightarrow> ((go_error option \<times> forward) \<times> world) option" where
  "syncForwardPages fuel env cfg channel after embeddings =
     run_pages fuel (forward_page env cfg channel embeddings) \<lparr>fsAfter = after, fsCount = 0, fsNewest = after\<rparr>"

section \<open>Bootstrap\<close>

definition bootstrap_page :: "env \<Rightarrow> syncer_cfg \<Rightarrow> dchannel \<Rightarrow> bool \<Rightarrow> instant \<Rightarrow> backfill \<Rightarrow> world \<Rightarrow> backfill page_step \<times> world" where
  "bootstrap_page env cfg channel embeddings since s w =
     (case read_page env cfg channel (bsBefore s) [] w of
        (Inl e, w1) \<Rightarrow> (Stop (Some e) s, w1)
      | (Inr page, w1) \<Rightarrow>
          if page = [] then (Stop None s, w1)
          else
            let (eligible, reachedSince) = filterMessagesSince page since in
            case persistMessagePage env cfg eligible (cName channel) (cGuildID channel) embeddings (envNow env (wTick w)) w1 of
              (Inl e, w2) \<Rightarrow> (Stop (Some e) s, w2)
            | (Inr pageNewest, w2) \<Rightarrow>
                let s1 = s\<lparr>bsNewest := maxSnowflake (bsNewest s) pageNewest, bsCount := bsCount s + length eligible\<rparr>;
                    nextBefore = gID (last page) in
                if reachedSince then
                  (if eligible = [] then (Stop None s1, w2)
                   else stop_with (SetSyncState env (channelBackfillScope (cID channel)) (gID (last eligible)) w2) s1)
                else if length page < 100 then
                  (if bsNewest s1 = [] then (Stop None s1, w2)
                   else stop_with (SetSyncState env (channelHistoryCompleteScope (cID channel)) ''1'' w2) s1)
                else if nextBefore = [] then (Stop (Some (missing_id_error channel)) s1, w2)
                else if nextBefore = bsBefore s then (Stop (Some (stuck_cursor_error channel)) s1, w2)
                else (More (s1\<lparr>bsBefore := nextBefore\<rparr>), w2))"

definition bootstrapChannelHistory :: "nat \<Rightarrow> env \<Rightarrow> syncer_cfg \<Rightarrow> dchannel \<Rightarrow> bool \<Rightarrow> instant \<Rightarrow> world \<Rightarrow> ((nat \<times> go_error option) \<times> world) option" where
  "bootstrapChannelHistory fuel env cfg channel embeddings since w =
     do { ((err, s), w1) \<leftarrow> run_pages fuel (bootstrap_page env cfg channel embeddings since)
            \<lparr>bsBefore = [], bsCount = 0, bsNewest = [], bsPages = 0, bsWindow = None\<rparr> w;
          Some (if err \<noteq> None \<or> bsNewest s = [] then ((bsCount s, err), w1)
                else case advanceChannelLatest env (cID channel) (bsNewest s) w1 of (r, w2) \<Rightarrow> ((bsCount s, r), w2)) }"

section \<open>The paths of a channel\<close>

type_synonym channel_result = "((nat \<times> go_error option) \<times> world) option"

text \<open>The end of \<open>syncFullChannelHistory\<close>: the head pointer, or its empty row.\<close>

definition settle_latest :: "env \<Rightarrow> string \<Rightarrow> channelSyncState \<Rightarrow> string \<Rightarrow> action" where
  "settle_latest env channelID state newest =
     (if newest \<noteq> [] \<or> csLatest state \<noteq> [] \<or> \<not> csBackfillComplete state then
        (if newest = [] then EnsureChannelLatestMessageState env channelID
         else advanceChannelLatest env channelID newest)
      else ok)"

definition full_forward :: "nat \<Rightarrow> env \<Rightarrow> syncer_cfg \<Rightarrow> dchannel \<Rightarrow> channelSyncState \<Rightarrow> bool \<Rightarrow> world \<Rightarrow> ((nat \<times> string \<times> go_error option) \<times> world) option" where
  "full_forward fuel env cfg channel state embeddings w =
     (if csLatest state = [] then Some ((0, [], None), w)
      else do { ((err, f), w1) \<leftarrow> syncForwardPages fuel env cfg channel (csLatest state) embeddings w;
                Some (case err of
                        Some e \<Rightarrow> ((fsCount f, csLatest state, Some e), w1)
                      | None \<Rightarrow>
                          let newest = maxSnowflake (csLatest state) (fsNewest f) in
                          case advanceChannelLatest env (cID channel) newest w1 of (r, w2) \<Rightarrow> ((fsCount f, newest, r), w2)) })"

definition full_backfill ::
    "nat \<Rightarrow> env \<Rightarrow> syncer_cfg \<Rightarrow> dchannel \<Rightarrow> channelSyncState \<Rightarrow> bool \<Rightarrow> instant \<Rightarrow> historyVerificationCheckpoint option \<Rightarrow> string \<Rightarrow> world \<Rightarrow>
     ((nat \<times> string \<times> go_error option) \<times> world) option" where
  "full_backfill fuel env cfg channel state embeddings since verification newest w =
     (if csBackfillComplete state then Some ((0, newest, None), w)
      else
        let before = (if csBackfillCursor state = [] \<and> csLatest state \<noteq> [] then csLatest state else csBackfillCursor state) in
        do { ((err, s), w1) \<leftarrow> syncBackfillPages fuel env cfg channel before newest (cName channel) embeddings since 0 verification None w;
             Some ((bsCount s, maxSnowflake newest (bsNewest s), err), w1) })"

definition syncFullChannelHistory ::
    "nat \<Rightarrow> env \<Rightarrow> syncer_cfg \<Rightarrow> dchannel \<Rightarrow> channelSyncState \<Rightarrow> bool \<Rightarrow> instant \<Rightarrow> historyVerificationCheckpoint option \<Rightarrow> world \<Rightarrow> channel_result" where
  "syncFullChannelHistory fuel env cfg channel state embeddings since verification w =
     do { ((count1, newest1, err1), w1) \<leftarrow> full_forward fuel env cfg channel state embeddings w;
          if err1 \<noteq> None then Some ((count1, err1), w1)
          else do {
            ((count2, newest2, err2), w2) \<leftarrow> full_backfill fuel env cfg channel state embeddings since verification newest1 w1;
            if err2 \<noteq> None then Some ((count1 + count2, err2), w2)
            else Some (case settle_latest env (cID channel) state newest2 w2 of (r, w3) \<Rightarrow> ((count1 + count2, r), w3)) } }"

definition syncLatestChannelHistory :: "nat \<Rightarrow> env \<Rightarrow> syncer_cfg \<Rightarrow> dchannel \<Rightarrow> bool \<Rightarrow> instant \<Rightarrow> world \<Rightarrow> channel_result" where
  "syncLatestChannelHistory fuel env cfg channel embeddings since w =
     do { ((err, s), w1) \<leftarrow> syncBackfillPages fuel env cfg channel [] [] (cName channel) embeddings since 1 None None w;
          Some (if err \<noteq> None \<or> bsNewest s = [] then ((bsCount s, err), w1)
                else case advanceChannelLatest env (cID channel) (bsNewest s) w1 of (r, w2) \<Rightarrow> ((bsCount s, r), w2)) }"

definition syncIncrementalChannelHistory :: "nat \<Rightarrow> env \<Rightarrow> syncer_cfg \<Rightarrow> dchannel \<Rightarrow> channelSyncState \<Rightarrow> bool \<Rightarrow> instant \<Rightarrow> world \<Rightarrow> channel_result" where
  "syncIncrementalChannelHistory fuel env cfg channel state embeddings since w =
     (if csLatest state = [] then bootstrapChannelHistory fuel env cfg channel embeddings since w
      else do { ((err, f), w1) \<leftarrow> syncForwardPages fuel env cfg channel (csLatest state) embeddings w;
                Some (if err \<noteq> None then ((fsCount f, err), w1)
                      else case advanceChannelLatest env (cID channel) (maxSnowflake (csLatest state) (fsNewest f)) w1 of
                             (r, w2) \<Rightarrow> ((fsCount f, r), w2)) })"

section \<open>The state of a channel\<close>

definition needsHistoryVerification :: "dchannel \<Rightarrow> channelSyncState \<Rightarrow> instant \<Rightarrow> bool" where
  "needsHistoryVerification channel state since \<longleftrightarrow>
     (csBackfillComplete state \<or> csVerification state \<noteq> None) \<and> is_zero_time since \<and>
     (csVerification state \<noteq> None \<or>
      \<not> csHasMessages state \<and> \<not> csVerifiedEmpty state \<and> cLastMessageID channel \<noteq> [])"

definition shouldSkipChannelSync :: "dchannel \<Rightarrow> channelSyncState \<Rightarrow> instant \<Rightarrow> bool" where
  "shouldSkipChannelSync channel state since \<longleftrightarrow>
     csBackfillComplete state \<and> \<not> needsHistoryVerification channel state since \<and>
     (if cLastMessageID channel = [] then csLatest state = []
      else csLatest state \<noteq> [] \<and> maxSnowflake (csLatest state) (cLastMessageID channel) = csLatest state)"

definition shouldSkipLatestOnlyChannelSync :: "dchannel \<Rightarrow> channelSyncState \<Rightarrow> bool" where
  "shouldSkipLatestOnlyChannelSync channel state \<longleftrightarrow>
     csLatest state \<noteq> [] \<and> cLastMessageID channel \<noteq> [] \<and>
     maxSnowflake (csLatest state) (cLastMessageID channel) = csLatest state"

text \<open>The decoding error carries the reader's text, which is not modelled.\<close>

definition decode_checkpoint :: "env \<Rightarrow> string \<Rightarrow> historyVerificationCheckpoint option call" where
  "decode_checkpoint env text w =
     (if text = [] then (Inr None, w)
      else case dec_checkpoint env text of
        None \<Rightarrow> (Inl (ErrWrap ''decode history verification checkpoint: '' (ErrText ''json'') []), w)
      | Some c \<Rightarrow> (Inr (Some c), w))"

definition loadChannelSyncState :: "env \<Rightarrow> string \<Rightarrow> channelSyncState call" where
  "loadChannelSyncState env channelID =
     bindCall (GetSyncState env (channelLatestScope channelID)) (\<lambda>latest.
     bindCall (GetSyncState env (channelBackfillScope channelID)) (\<lambda>backfillCursor.
     bindCall (GetSyncState env (channelHistoryCompleteScope channelID)) (\<lambda>backfillComplete.
     bindCall (GetSyncState env (channelHistoryVerificationScope channelID)) (\<lambda>verificationPending.
     bindCall (decode_checkpoint env verificationPending) (\<lambda>verification.
       let state = \<lparr>csLatest = latest, csStoredLatest = latest, csBackfillCursor = backfillCursor,
                    csBackfillComplete = (backfillComplete \<noteq> []), csVerification = verification,
                    csHasMessages = False, csVerifiedEmpty = False\<rparr> in
       if \<not> csBackfillComplete state \<and> verification = None then value_call state
       else bindCall (ChannelHasMessages env channelID) (\<lambda>hasMessages.
            bindCall (GetSyncState env (channelVerifiedEmptyScope channelID)) (\<lambda>verifiedEmpty.
              value_call (state\<lparr>csHasMessages := hasMessages, csVerifiedEmpty := (verifiedEmpty \<noteq> [])\<rparr>))))))))"

definition seedChannelSyncState :: "env \<Rightarrow> string \<Rightarrow> channelSyncState \<Rightarrow> channelSyncState call" where
  "seedChannelSyncState env channelID state =
     bindCall
       (if csLatest state = [] \<or> csBackfillCursor state = [] then
          bindCall (ChannelMessageBounds env channelID)
            (\<lambda>(oldestStored, newestStored). value_call
               (state\<lparr>csLatest := (if csLatest state = [] then newestStored else csLatest state),
                      csBackfillCursor := (if csBackfillCursor state = [] then oldestStored else csBackfillCursor state)\<rparr>))
        else value_call state)
       (\<lambda>state. if csStoredLatest state \<noteq> [] \<and> csBackfillCursor state = [] \<and> \<not> csBackfillComplete state
          then doThen (SetSyncState env (channelHistoryCompleteScope channelID) ''1'')
                 (value_call (state\<lparr>csBackfillComplete := True\<rparr>))
          else value_call state)"

section \<open>Verification\<close>

definition restoreHistoryCompleteAfterFailedVerification :: "env \<Rightarrow> string \<Rightarrow> action" where
  "restoreHistoryCompleteAfterFailedVerification env channelID =
     (if channelID = [] then ok
      else withResult (ChannelHasMessages env channelID)
        (\<lambda>hasMessages. if hasMessages then ok else SetSyncState env (channelHistoryCompleteScope channelID) ''1''))"

definition restoreAfterFailedVerification :: "env \<Rightarrow> string \<Rightarrow> go_error \<Rightarrow> action" where
  "restoreAfterFailedVerification env channelID failure w =
     (case restoreHistoryCompleteAfterFailedVerification env channelID w of
        (r, w1) \<Rightarrow> (err_join [Some failure, r], w1))"

definition recordVerifiedEmptyChannel :: "env \<Rightarrow> string \<Rightarrow> action" where
  "recordVerifiedEmptyChannel env channelID =
     (if channelID = [] then ok
      else withResult (ChannelHasMessages env channelID)
        (\<lambda>hasMessages.
           andThen (if hasMessages then DeleteSyncState env (channelVerifiedEmptyScope channelID)
                    else SetSyncState env (channelVerifiedEmptyScope channelID) ''1'')
             (DeleteSyncState env (channelHistoryVerificationScope channelID))))"

definition checkpoint_state :: "historyVerificationCheckpoint \<Rightarrow> channelSyncState" where
  "checkpoint_state checkpoint =
     \<lparr>csLatest = hvLatest checkpoint, csStoredLatest = [], csBackfillCursor = hvBefore checkpoint,
      csBackfillComplete = False, csVerification = None, csHasMessages = False, csVerifiedEmpty = False\<rparr>"

definition verification_crawl :: "nat \<Rightarrow> env \<Rightarrow> syncer_cfg \<Rightarrow> dchannel \<Rightarrow> historyVerificationCheckpoint \<Rightarrow> bool \<Rightarrow> world \<Rightarrow> channel_result" where
  "verification_crawl fuel env cfg channel checkpoint embeddings w =
     do { ((count, err), w1) \<leftarrow> syncFullChannelHistory fuel env cfg channel (checkpoint_state checkpoint) embeddings 0 (Some checkpoint) w;
          Some (case (case err of
                        Some e \<Rightarrow> restoreAfterFailedVerification env (cID channel) e
                      | None \<Rightarrow> recordVerifiedEmptyChannel env (cID channel)) w1 of
                  (r, w2) \<Rightarrow> ((count, r), w2)) }"

definition verifyChannelHistory ::
    "nat \<Rightarrow> env \<Rightarrow> syncer_cfg \<Rightarrow> dchannel \<Rightarrow> historyVerificationCheckpoint option \<Rightarrow> bool \<Rightarrow> world \<Rightarrow> channel_result" where
  "verifyChannelHistory fuel env cfg channel checkpoint0 embeddings w =
     (let checkpoint = (case checkpoint0 of None \<Rightarrow> \<lparr>hvLatest = [], hvBefore = []\<rparr> | Some c \<Rightarrow> c) in
      case saveHistoryVerificationCheckpoint env (cID channel) checkpoint w of
        (Some e, w1) \<Rightarrow> Some ((0, Some e), w1)
      | (None, w1) \<Rightarrow>
          (case DeleteSyncState env (channelHistoryCompleteScope (cID channel)) w1 of
             (Some e, w2) \<Rightarrow>
               (case restoreAfterFailedVerification env (cID channel) e w2 of (r, w3) \<Rightarrow> Some ((0, r), w3))
           | (None, w2) \<Rightarrow> verification_crawl fuel env cfg channel checkpoint embeddings w2))"

section \<open>The certified window\<close>

text \<open>
  The members of the window's JSON text, each value already encoded; \<open>boundary_message_id\<close> is
  omitted when it is empty. Instants are those \<open>json.Marshal\<close> accepts.
\<close>

definition window_members :: "env \<Rightarrow> HistoryWindow \<Rightarrow> (string \<times> string) list" where
  "window_members env hw =
     [(''guild_id'', json_quote (hwGuildID hw)), (''channel_id'', json_quote (hwChannelID hw)),
      (''channel_type'', show_int (hwChannelType hw)), (''since'', json_quote (envTimeText env (hwSince hw))),
      (''until'', json_quote (envTimeText env (hwUntil hw))),
      (''completed_at'', json_quote (envTimeText env (hwCompletedAt hw))), (''boundary'', json_quote (hwBoundary hw))] @
     (if hwBoundaryMessageID hw = [] then [] else [(''boundary_message_id'', json_quote (hwBoundaryMessageID hw))])"

fun json_encoded :: "(string \<times> string) list \<Rightarrow> string" where
  "json_encoded [] = []"
| "json_encoded [(k, v)] = json_quote k @ CHR '':'' # v"
| "json_encoded ((k, v) # m # ms) = json_quote k @ CHR '':'' # v @ CHR '','' # json_encoded (m # ms)"

definition window_json :: "env \<Rightarrow> HistoryWindow \<Rightarrow> string" where
  "window_json env hw = CHR 0x7B # json_encoded (window_members env hw) @ [CHR 0x7D]"

fun dec_int :: "json list \<Rightarrow> int \<Rightarrow> int option" where
  "dec_int [] acc = Some acc"
| "dec_int (JNum s # vs) acc = (case go_atoi s of None \<Rightarrow> None | Some n \<Rightarrow> dec_int vs n)"
| "dec_int (JNull # vs) acc = dec_int vs acc"
| "dec_int (v # vs) acc = None"

fun dec_time :: "env \<Rightarrow> json list \<Rightarrow> instant \<Rightarrow> instant option" where
  "dec_time env [] acc = Some acc"
| "dec_time env (JStr s # vs) acc = (case envParseTime env s of None \<Rightarrow> None | Some t \<Rightarrow> dec_time env vs t)"
| "dec_time env (JNull # vs) acc = dec_time env vs acc"
| "dec_time env (v # vs) acc = None"

definition dec_window :: "env \<Rightarrow> string \<Rightarrow> HistoryWindow option" where
  "dec_window env text =
     do { v \<leftarrow> envJSON env text;
          obj \<leftarrow> dec_fields v;
          guildID \<leftarrow> dec_string (key_values ''guild_id'' obj) [];
          channelID \<leftarrow> dec_string (key_values ''channel_id'' obj) [];
          channelType \<leftarrow> dec_int (key_values ''channel_type'' obj) 0;
          since \<leftarrow> dec_time env (key_values ''since'' obj) 0;
          until \<leftarrow> dec_time env (key_values ''until'' obj) 0;
          completedAt \<leftarrow> dec_time env (key_values ''completed_at'' obj) 0;
          boundary \<leftarrow> dec_string (key_values ''boundary'' obj) [];
          boundaryMessageID \<leftarrow> dec_string (key_values ''boundary_message_id'' obj) [];
          Some \<lparr>hwGuildID = guildID, hwChannelID = channelID, hwChannelType = channelType, hwSince = since,
                hwUntil = until, hwCompletedAt = completedAt, hwBoundary = boundary,
                hwBoundaryMessageID = boundaryMessageID\<rparr> }"

definition window_supersedes :: "HistoryWindow \<Rightarrow> HistoryWindow \<Rightarrow> bool" where
  "window_supersedes retained window \<longleftrightarrow>
     hwGuildID retained = hwGuildID window \<and> hwChannelID retained = hwChannelID window \<and>
     hwChannelType retained = hwChannelType window \<and> hwSince retained = hwSince window \<and>
     hwSince retained < hwUntil retained \<and> \<not> hwCompletedAt retained < hwUntil retained \<and>
     (hwBoundary retained = ''end'' \<or> hwBoundary retained = ''since'' \<and> hwBoundaryMessageID retained \<noteq> []) \<and>
     \<not> hwUntil retained < hwUntil window"

definition channelHistoryWindowScope :: "env \<Rightarrow> string \<Rightarrow> instant \<Rightarrow> string" where
  "channelHistoryWindowScope env channelID since =
     ''channel:'' @ channelID @ '':history_window:v1:'' @ envTimeText env since"

definition CanReadHistory :: "env \<Rightarrow> dchannel \<Rightarrow> bool call" where
  "CanReadHistory env channel w = (envCanRead env (wTick w) (cID channel), tick w)"

definition store_window :: "env \<Rightarrow> instant \<Rightarrow> HistoryWindow \<Rightarrow> action" where
  "store_window env since window w =
     (let window = window\<lparr>hwCompletedAt := envNow env (wTick w)\<rparr>; scope = channelHistoryWindowScope env (hwChannelID window) since in
      withResult (GetSyncState env scope)
        (\<lambda>previous. case dec_window env previous of
           Some retained \<Rightarrow> if window_supersedes retained window then ok else SetSyncState env scope (window_json env window)
         | None \<Rightarrow> SetSyncState env scope (window_json env window)) w)"

definition certify_window :: "env \<Rightarrow> dchannel \<Rightarrow> instant \<Rightarrow> string \<Rightarrow> HistoryWindow \<Rightarrow> action" where
  "certify_window env channel since newest window w =
     (case CanReadHistory env channel w of
        (Inl e, w1) \<Rightarrow> (Some (ErrJoin [ErrText ''history permission changed during traversal'', e]), w1)
      | (Inr allowed, w1) \<Rightarrow>
          if \<not> allowed then (Some ErrHistoryPermissionDenied, w1)
          else if envCtx env (wTick w1) \<noteq> None then (envCtx env (wTick w1), w1)
          else if hwBoundary window \<noteq> ''since'' \<and> hwBoundary window \<noteq> ''end''
          then (Some (ErrText ''history traversal did not reach its boundary''), w1)
          else if hwBoundary window = ''since'' \<and> hwBoundaryMessageID window = []
          then (Some (ErrText ''history boundary message is missing''), w1)
          else andThen (if newest = [] then EnsureChannelLatestMessageState env (cID channel) else ok)
                 (store_window env since window) w1)"

definition syncWindowChannelHistory :: "nat \<Rightarrow> env \<Rightarrow> syncer_cfg \<Rightarrow> dchannel \<Rightarrow> channelSyncState \<Rightarrow> bool \<Rightarrow> instant \<Rightarrow> world \<Rightarrow> channel_result" where
  "syncWindowChannelHistory fuel env cfg channel state embeddings since w =
     (case CanReadHistory env channel w of
        (Inl e, w1) \<Rightarrow> Some ((0, Some (ErrJoin [ErrText ''history permission not proven'', e])), w1)
      | (Inr allowed, w1) \<Rightarrow>
          let window = \<lparr>hwGuildID = cGuildID channel, hwChannelID = cID channel, hwChannelType = cType channel,
                        hwSince = since, hwUntil = envNow env (wTick w1), hwCompletedAt = 0, hwBoundary = [],
                        hwBoundaryMessageID = []\<rparr> in
          if \<not> allowed then Some ((0, Some ErrHistoryPermissionDenied), w1)
          else if hwSince window > hwUntil window
          then Some ((0, Some (ErrText ''history window begins in the future'')), w1)
          else do {
            ((err, s), w2) \<leftarrow> syncBackfillPages fuel env cfg channel [] (csLatest state) (cName channel) embeddings since 0 None (Some window) w1;
            Some (case err of
                    Some e \<Rightarrow> ((bsCount s, Some e), w2)
                  | None \<Rightarrow>
                      (case certify_window env channel since (bsNewest s) (case bsWindow s of Some wd \<Rightarrow> wd | None \<Rightarrow> window) w2 of
                         (r, w3) \<Rightarrow> ((bsCount s, r), w3))) })"

section \<open>One channel\<close>

definition syncChannelHistory :: "nat \<Rightarrow> env \<Rightarrow> syncer_cfg \<Rightarrow> dchannel \<Rightarrow> channelSyncState \<Rightarrow> bool \<Rightarrow> bool \<Rightarrow> instant \<Rightarrow> bool \<Rightarrow> world \<Rightarrow> channel_result" where
  "syncChannelHistory fuel env cfg channel state full embeddings since latestOnly w =
     (if full then
        (case seedChannelSyncState env (cID channel) state w of
           (Inl e, w1) \<Rightarrow> Some ((0, Some e), w1)
         | (Inr state, w1) \<Rightarrow>
             if shouldSkipChannelSync channel state since then Some ((0, None), w1)
             else syncFullChannelHistory fuel env cfg channel state embeddings since None w1)
      else if shouldSkipChannelSync channel state since then Some ((0, None), w)
      else if latestOnly \<and> isThreadChannel (Some channel) \<and> \<not> csBackfillComplete state
      then syncFullChannelHistory fuel env cfg channel state embeddings since None w
      else if latestOnly \<and> csLatest state = [] then syncLatestChannelHistory fuel env cfg channel embeddings since w
      else if latestOnly \<and> shouldSkipLatestOnlyChannelSync channel state then Some ((0, None), w)
      else syncIncrementalChannelHistory fuel env cfg channel state embeddings since w)"

definition syncChannelMessages :: "nat \<Rightarrow> env \<Rightarrow> syncer_cfg \<Rightarrow> dchannel \<Rightarrow> bool \<Rightarrow> bool \<Rightarrow> instant \<Rightarrow> bool \<Rightarrow> world \<Rightarrow> channel_result" where
  "syncChannelMessages fuel env cfg channel full embeddings since latestOnly w =
     (case loadChannelSyncState env (cID channel) w of
        (Inl e, w1) \<Rightarrow> Some ((0, Some e), w1)
      | (Inr state, w1) \<Rightarrow>
          if full \<and> \<not> is_zero_time since then syncWindowChannelHistory fuel env cfg channel state embeddings since w1
          else case (if csHasMessages state \<and> csVerifiedEmpty state
                     then DeleteSyncState env (channelVerifiedEmptyScope (cID channel)) else ok) w1 of
            (Some e, w2) \<Rightarrow> Some ((0, Some e), w2)
          | (None, w2) \<Rightarrow>
              let state = (if csHasMessages state \<or> full then state\<lparr>csVerifiedEmpty := False\<rparr> else state) in
              if needsHistoryVerification channel state since
              then verifyChannelHistory fuel env cfg channel (csVerification state) embeddings w2
              else syncChannelHistory fuel env cfg channel state full embeddings since latestOnly w2)"

section \<open>The run over channels\<close>

definition filterFreshUnavailableChannels :: "env \<Rightarrow> dchannel list \<Rightarrow> SyncOptions \<Rightarrow> dchannel list call" where
  "filterFreshUnavailableChannels env channels opts =
     (if channels = [] \<or> soChannelIDs opts \<noteq> [] \<or> soFull opts then value_call channels
      else bindCall (FreshUnavailableChannelIDs env)
        (\<lambda>unavailable. value_call (filter (\<lambda>c. cID c \<notin> set (makeGuildSet unavailable)) channels)))"

definition channel_outcome :: "env \<Rightarrow> string \<Rightarrow> dchannel \<Rightarrow> go_error option \<Rightarrow> action" where
  "channel_outcome env guildID channel err w =
     (case err of
        Some e \<Rightarrow>
          (case skipSyncError env (Some channel) e w of
             (True, w1) \<Rightarrow> (None, snd (recordChannelFailure env guildID (cID channel) (Some e) w1))
           | (False, w1) \<Rightarrow>
               (case recordChannelFailure env guildID (cID channel) (Some e) w1 of
                  (r, w2) \<Rightarrow> (Some (ErrWrap (''sync channel '' @ cID channel @ '': '') (withFailureRecordError e r) []), w2)))
      | None \<Rightarrow>
          (case clearUnavailableChannel env (cID channel) w of
             (Some e, w1) \<Rightarrow>
               (case recordChannelFailure env guildID (cID channel) (Some e) w1 of
                  (r, w2) \<Rightarrow> (Some (withFailureRecordError e r), w2))
           | (None, w1) \<Rightarrow> resolveChannelFailures env guildID (cID channel) w1))"

fun syncMessageChannelsSerial :: "nat \<Rightarrow> env \<Rightarrow> syncer_cfg \<Rightarrow> string \<Rightarrow> SyncOptions \<Rightarrow> dchannel list \<Rightarrow> nat \<Rightarrow> world \<Rightarrow> channel_result" where
  "syncMessageChannelsSerial fuel env cfg guildID opts [] acc w = Some ((acc, None), w)"
| "syncMessageChannelsSerial fuel env cfg guildID opts (channel # channels) acc w =
     do { ((count, err), w1) \<leftarrow> syncChannelMessages fuel env cfg channel (soFull opts) (soEmbeddings opts) (soSince opts) (soLatestOnly opts) w;
          case channel_outcome env guildID channel err w1 of
            (Some e, w2) \<Rightarrow> Some ((acc + count, Some e), w2)
          | (None, w2) \<Rightarrow> syncMessageChannelsSerial fuel env cfg guildID opts channels (acc + count) w2 }"

end
