(* ===== verification/MessageEffects.thy ===== *)
theory MessageEffects
  imports MessageStore
begin

text \<open>
  What the message writer does to the archive: the effect of a successful write or deletion on the
  message rows and the search index, the contract of the writer as a sink for pages, and the
  properties of the component: pages are all or nothing, newer state survives, the search index
  mirrors the archive, deletions keep content.
\<close>

section \<open>The effect of a successful write\<close>

text \<open>Actions that leave message and search rows alone.\<close>

definition rows_are :: "db \<Rightarrow> db \<Rightarrow> bool" where
  "rows_are d0 d \<longleftrightarrow> dbMessages d = dbMessages d0 \<and> dbFTS d = dbFTS d0"

lemma rows_are_keeps:
  assumes "keeps (rows_are (wDB w)) a" and "a w = (r, w')"
  shows "rows_are (wDB w) (wDB w')"
  using keepsD [OF assms(1), of w] assms(2) by (simp add: rows_are_def)

lemma rows_are_embeddings:
  "rows_are d0 d \<Longrightarrow> rows_are d0 (archive_embeddings i t d)" "rows_are d0 d \<Longrightarrow> rows_are d0 (delete_embeddings i d)"
  "rows_are d0 d \<Longrightarrow> rows_are d0 (delete_job i d)" "rows_are d0 d \<Longrightarrow> rows_are d0 (bump_job i f d)"
  "rows_are d0 d \<Longrightarrow> rows_are d0 (pending_job i now d)"
  "rows_are d0 d \<Longrightarrow> rows_are d0 (d\<lparr>dbChecks := c\<rparr>)" "rows_are d0 d \<Longrightarrow> rows_are d0 (d\<lparr>dbEvents := ev\<rparr>)"
  by (simp_all add: rows_are_def statement_defs)

lemma rows_are_queue: "keeps (rows_are d) (queue_embedding env i t opts)"
  unfolding queue_embedding_def archiveMessageEmbeddings_def by (intro keeps_intros) (erule rows_are_embeddings)+

lemma rows_are_purge: "keeps (rows_are d) (purge_embeddings env i t)"
  unfolding purge_embeddings_def archiveMessageEmbeddings_def by (intro keeps_intros) (erule rows_are_embeddings)+

lemma rows_are_supersede: "keeps (rows_are d) (supersede_embeddings env m opts p)"
  unfolding supersede_embeddings_def archiveMessageEmbeddings_def
  by (cases p) (auto intro!: keeps_intros rows_are_embeddings)

lemma rows_are_observed: "keeps (rows_are d) (recordObservedTx env i)"
  unfolding recordObservedTx_def by (intro keeps_intros) (erule rows_are_embeddings)

lemma rows_are_event: "keeps (rows_are d) (appendMutationEventTx env mu)"
  unfolding appendMutationEventTx_def appendEventTx_def append_event_def Let_def
  by (intro keeps_intros) (erule rows_are_embeddings)+

lemma rows_are_stored: "rows_are d0 d \<Longrightarrow> stored_row d i = stored_row d0 i"
  by (simp add: rows_are_def stored_row_def)

definition fts_after :: "MessageRecord \<Rightarrow> (int \<times> fts_row) list \<Rightarrow> (int \<times> fts_row) list" where
  "fts_after m fts =
     (case MessageFTSRowID (msID m) of None \<Rightarrow> fts
      | Some rid \<Rightarrow> if msDeletedAt m \<noteq> 0 then AList.delete rid fts
                    else AList.update rid (fts_of m) (AList.delete rid fts))"

lemma db_side_None: "db_side env w = (r, w') \<Longrightarrow> wDB w' = wDB w"
  using db_side_db [of env w] by simp

lemma write_fts_effect:
  assumes "write_fts env m p w = (None, w')"
  shows "dbMessages (wDB w') = dbMessages (wDB w) \<and> dbFTS (wDB w') = fts_after m (dbFTS (wDB w))"
proof (cases "MessageFTSRowID (msID m)")
  case None
  with assms show ?thesis by (simp add: write_fts_def ok_def fts_after_def)
next
  case (Some rid)
  with assms obtain w1 where w1: "wDB w1 = delete_fts rid (wDB w)"
    and rest: "(if msDeletedAt m \<noteq> 0 then purge_embeddings env (msID m) p
      else db_exec env (\<lambda>_. insert_fts rid (fts_of m))) w1 = (None, w')"
    by (auto simp: write_fts_def dest!: andThen_None db_exec_None db_side_None)
  show ?thesis
  proof (cases "msDeletedAt m = 0")
    case True
    with rest w1 Some show ?thesis
      by (auto simp: fts_after_def delete_fts_def insert_fts_def dest!: db_exec_None)
  next
    case False
    from rows_are_keeps [OF rows_are_purge] rest False w1 Some show ?thesis
      by (simp add: rows_are_def fts_after_def delete_fts_def)
  qed
qed

lemma exec_row_effect: "exec_row env m now w = (None, w') \<Longrightarrow> wDB w' = upsert_row m now (wDB w)"
  by (auto simp: exec_row_def split: prod.splits option.splits dest!: db_exec_None)

definition written_row :: "MessageRecord \<Rightarrow> instant \<Rightarrow> message_row option \<Rightarrow> message_row" where
  "written_row m now old = text_columns m (upsertMessageParams m now old)"

lemma write_changed_effect:
  assumes "write_changed_message env m opts now w = (None, w')"
  shows "stored_row (wDB w') i =
      (if i = msID m then Some (written_row m now (stored_row (wDB w) i)) else stored_row (wDB w) i)"
    and "dbFTS (wDB w') = fts_after m (dbFTS (wDB w))"
proof -
  from assms obtain p jobs w2 w3 w4 w5 w6 a where db2: "wDB w2 = wDB w"
    and s: "supersede_embeddings env m opts p w2 = (None, w3)" and x: "exec_row env m now w3 = (None, w4)"
    and t: "db_exec env (\<lambda>_. update_row (msID m) (text_columns m)) w4 = (None, w5)"
    and f: "write_fts env m (previous_text p) w5 = (None, w6)"
    and a: "a = ok \<or> a = queue_embedding env (msID m) (previous_text p) opts" "a w6 = (None, w')"
    unfolding write_changed_message_def
    by (auto dest!: withResult_None andThen_None db_query_Inr split: if_splits) metis+
  have r3: "rows_are (wDB w) (wDB w3)" using rows_are_keeps [OF rows_are_supersede s] db2 by simp
  have "keeps (rows_are (wDB w6)) a" using a(1) rows_are_queue keeps_ok by auto
  from rows_are_keeps [OF this a(2)] have r6: "rows_are (wDB w6) (wDB w')" .
  note e4 = exec_row_effect [OF x] and e5 = db_exec_None [OF t] and e6 = write_fts_effect [OF f]
  have s6: "stored_row (wDB w6) i = stored_row (wDB w5) i" using e6 by (simp add: stored_row_def)
  show "stored_row (wDB w') i =
      (if i = msID m then Some (written_row m now (stored_row (wDB w) i)) else stored_row (wDB w) i)"
    using s6 rows_are_stored [OF r6, of i] rows_are_stored [OF r3]
    by (simp add: e4 e5 stored_update_row stored_upsert_row written_row_def)
  show "dbFTS (wDB w') = fts_after m (dbFTS (wDB w))"
    using e4 e5 e6 r6 r3 by (simp add: rows_are_def upsert_row_def update_row_def)
qed


text \<open>What one admitted observation leaves in the row and in the index.\<close>

definition fts_refreshed :: "MessageRecord \<Rightarrow> (int \<times> fts_row) list \<Rightarrow> (int \<times> fts_row) list \<Rightarrow> bool" where
  "fts_refreshed m fts fts' \<longleftrightarrow>
     (case MessageFTSRowID (msID m) of
        None \<Rightarrow> fts' = fts
      | Some rid \<Rightarrow> (fts' = fts \<and> map_of fts rid \<noteq> None) \<or>
          (\<exists>a c. fts' = AList.update rid (fts_of (m\<lparr>msAuthorName := a, msChannelName := c\<rparr>)) (AList.delete rid fts)))"

lemma replace_fts:
  assumes "andThen (db_exec env (\<lambda>_. delete_fts rid)) (andThen a (db_exec env (\<lambda>_. insert_fts rid f))) w = (None, w')"
    and "\<And>v. wDB (snd (a v)) = wDB v"
  shows "dbMessages (wDB w') = dbMessages (wDB w) \<and> dbFTS (wDB w') = AList.update rid f (AList.delete rid (dbFTS (wDB w)))"
proof -
  from assms(1) obtain w1 w2 where "wDB w1 = delete_fts rid (wDB w)" "a w1 = (None, w2)" "wDB w' = insert_fts rid f (wDB w2)"
    by (auto dest!: andThen_None db_exec_None)
  with assms(2) [of w1] show ?thesis by (simp add: delete_fts_def insert_fts_def)
qed

lemma refresh_fts_effect:
  assumes "refresh_fts env m w = (None, w')"
  shows "dbMessages (wDB w') = dbMessages (wDB w) \<and> fts_refreshed m (dbFTS (wDB w)) (dbFTS (wDB w'))"
proof (cases "MessageFTSRowID (msID m)")
  case None
  with assms show ?thesis by (simp add: refresh_fts_def ok_def fts_refreshed_def)
next
  case (Some rid)
  have self: "fts_of m = fts_of (m\<lparr>msAuthorName := msAuthorName m, msChannelName := msChannelName m\<rparr>)" by simp
  have sides: "wDB (snd (andThen (db_side env) (db_side env) v)) = wDB v" for v
    using keepsD [OF keeps_andThen [OF keeps_side keeps_side], of "\<lambda>d. d = wDB v" v] by simp
  let ?f = "map_of (dbFTS (wDB w)) rid"
  show ?thesis
  proof (cases ?f)
    case None
    with assms Some obtain w2 where "wDB w2 = wDB w" and
      "andThen (db_exec env (\<lambda>_. delete_fts rid)) (andThen (db_side env) (andThen (db_side env)
         (db_exec env (\<lambda>_. insert_fts rid (fts_of m))))) w2 = (None, w')"
      by (auto simp: refresh_fts_def dest!: withResult_None db_query_Inr)
    then have "wDB w2 = wDB w" and "andThen (db_exec env (\<lambda>_. delete_fts rid)) (andThen (andThen (db_side env) (db_side env))
         (db_exec env (\<lambda>_. insert_fts rid (fts_of m)))) w2 = (None, w')"
      by (auto simp: andThen_def split: prod.splits option.splits)
    from this(1) replace_fts [OF this(2) sides] Some show ?thesis
      by (simp add: fts_refreshed_def) (metis self)
  next
    case (Some g)
    let ?m = "m\<lparr>msAuthorName := (if msAuthorName m = [] then ftAuthorName g else msAuthorName m),
                msChannelName := (if msChannelName m = [] then ftChannelName g else msChannelName m)\<rparr>"
    let ?c = "(msAuthorName m \<noteq> [] \<and> msAuthorName m \<noteq> ftAuthorName g) \<or>
              (msChannelName m \<noteq> [] \<and> msChannelName m \<noteq> ftChannelName g)"
    let ?a = "andThen (db_exec env (\<lambda>_. delete_fts rid)) (andThen (db_side env) (db_exec env (\<lambda>_. insert_fts rid (fts_of ?m))))"
    from assms Some \<open>MessageFTSRowID (msID m) = Some rid\<close> obtain w2 where w2: "wDB w2 = wDB w"
      and k: "(if ?c then ?a else ok) w2 = (None, w')"
      unfolding refresh_fts_def Let_def by (fastforce dest!: withResult_None db_query_Inr)
    show ?thesis
    proof (cases ?c)
      case True
      then have "?a w2 = (None, w')" using k by (simp only: if_True)
      note r = replace_fts [OF this db_side_db]
      have "\<exists>a c. dbFTS (wDB w') = AList.update rid (fts_of (m\<lparr>msAuthorName := a, msChannelName := c\<rparr>))
          (AList.delete rid (dbFTS (wDB w)))"
        using r [THEN conjunct2] unfolding w2 by blast
      with r w2 \<open>MessageFTSRowID (msID m) = Some rid\<close> show ?thesis by (simp add: fts_refreshed_def)
    next
      case False
      then have "w' = w2" using k by (simp only: if_False ok_def) simp
      then show ?thesis using w2 Some \<open>MessageFTSRowID (msID m) = Some rid\<close> by (simp add: fts_refreshed_def)
    qed
  qed
qed

lemma refresh_effect:
  assumes "refreshUnchangedMessageTx env r m opts w = (None, w')"
  shows "dbMessages (wDB w') = dbMessages (wDB w) \<and>
    (if mrDeletedAt r \<noteq> 0 then dbFTS (wDB w') = dbFTS (wDB w) else fts_refreshed m (dbFTS (wDB w)) (dbFTS (wDB w')))"
proof (cases "mrDeletedAt r = 0")
  case False
  with assms show ?thesis by (simp add: refreshUnchangedMessageTx_def ok_def)
next
  case True
  let ?jobs = "if \<not> woEnqueueEmbedding opts \<or> msGuildID m = ''@me'' then ok
        else withResult (db_query env (\<lambda>d. map_of (dbJobs d) (msID m) \<noteq> None))
          (\<lambda>jobs. if jobs then ok else queue_embedding env (msID m) (mrNormalized r) opts)"
  have j: "keeps (rows_are d) ?jobs" for d by (intro keeps_intros rows_are_queue)
  from assms True obtain w1 where "refresh_fts env m w = (None, w1)" "?jobs w1 = (None, w')"
    by (auto simp: refreshUnchangedMessageTx_def dest!: andThen_None)
  with rows_are_keeps [OF j this(2)] refresh_fts_effect [OF this(1)] True show ?thesis by (simp add: rows_are_def)
qed

section \<open>What one mutation does\<close>

text \<open>The three outcomes of an admitted observation of a message \<open>m\<close> on the database \<open>d\<close>.\<close>

definition row_kept :: "db \<Rightarrow> db \<Rightarrow> bool" where
  "row_kept d d' \<longleftrightarrow> (\<forall>j. map_option (\<lambda>r. r\<lparr>mrUpdatedAt := 0\<rparr>) (stored_row d' j) =
                           map_option (\<lambda>r. r\<lparr>mrUpdatedAt := 0\<rparr>) (stored_row d j))"

definition row_refreshed :: "env \<Rightarrow> MessageRecord \<Rightarrow> db \<Rightarrow> db \<Rightarrow> bool" where
  "row_refreshed env m d d' \<longleftrightarrow> (\<exists>r. stored_row d (msID m) = Some r \<and> \<not> messageContentChanged env r m \<and>
     row_kept d d' \<and>
     (if mrDeletedAt r \<noteq> 0 then dbFTS d' = dbFTS d else fts_refreshed m (dbFTS d) (dbFTS d')))"

definition row_written :: "MessageRecord \<Rightarrow> db \<Rightarrow> db \<Rightarrow> bool" where
  "row_written m d d' \<longleftrightarrow> (\<exists>now. \<forall>i. stored_row d' i =
       (if i = msID m then Some (written_row m now (stored_row d i)) else stored_row d i)) \<and>
     dbFTS d' = fts_after m (dbFTS d)"

lemma upsertMessageTx_effect:
  assumes "upsertMessageTx env m0 opts w = (Inr changed, w')"
  shows "\<exists>raw. if changed then row_written (m0\<lparr>msRawJSON := raw\<rparr>) (wDB w) (wDB w')
     else dbMessages (wDB w') = dbMessages (wDB w) \<and> row_refreshed env (m0\<lparr>msRawJSON := raw\<rparr>) (wDB w) (wDB w')"
proof -
  from assms obtain stored w1 where l: "loadStoredMessageTx env (msID m0) w = (Inr stored, w1)"
    by (auto simp: upsertMessageTx_def split: prod.splits sum.splits)
  then have st: "stored = stored_row (wDB w) (msID m0)" and w1: "wDB w1 = wDB w"
    by (auto simp: loadStoredMessageTx_def dest!: db_query_Inr)
  let ?raw = "envCanonicalRaw env (case stored of None \<Rightarrow> [] | Some r \<Rightarrow> mrRawJSON r) (msRawJSON m0)"
  let ?m = "m0\<lparr>msRawJSON := ?raw\<rparr>"
  have written: "row_written ?m (wDB w) (wDB w')"
    if "andThen a (\<lambda>v. write_changed_message env ?m opts (envNow env (wTick v)) v) v1 = (None, w')"
      "\<And>v. wDB (snd (a v)) = wDB v" "wDB v1 = wDB w" for a v1
  proof -
    from that(1) obtain v where v: "a v1 = (None, v)" "write_changed_message env ?m opts (envNow env (wTick v)) v = (None, w')"
      by (auto dest!: andThen_None)
    with that(2) [of v1] that(3) have "wDB v = wDB w" by simp
    with write_changed_effect [OF v(2)] show ?thesis by (auto simp: row_written_def)
  qed
  have c_db: "wDB (snd ((if b then db_side env else ok) v)) = wDB v" for b v by (simp add: ok_def)
  show ?thesis
  proof (cases stored)
    case None
    with assms l have c: "changed" and "andThen (if msDeletedAt ?m = 0 then db_side env else ok)
        (\<lambda>v. write_changed_message env ?m opts (envNow env (wTick v)) v) w1 = (None, w')"
      by (auto simp: upsertMessageTx_def Let_def split: prod.splits option.splits)
    from c written [OF this(2) c_db w1] show ?thesis by auto
  next
    case (Some r)
    show ?thesis
    proof (cases "messageContentChanged env r ?m")
      case False
      with assms l Some have "\<not> changed" and f: "refreshUnchangedMessageTx env r ?m opts w1 = (None, w')"
        by (auto simp: upsertMessageTx_def Let_def split: prod.splits option.splits)
      with refresh_effect [OF f] w1 False Some st show ?thesis
        by (auto simp: row_refreshed_def row_kept_def stored_row_def intro!: exI [of _ ?raw])
    next
      case True
      with assms l Some have c: "changed" and "andThen (db_side env) (andThen (if msDeletedAt ?m = 0 then db_side env else ok)
          (\<lambda>v. write_changed_message env ?m opts (envNow env (wTick v)) v)) w1 = (None, w')"
        by (auto simp: upsertMessageTx_def Let_def split: prod.splits option.splits)
      from andThen_None [OF this(2)] obtain v where v: "db_side env w1 = (None, v)"
        "andThen (if msDeletedAt ?m = 0 then db_side env else ok)
          (\<lambda>v. write_changed_message env ?m opts (envNow env (wTick v)) v) v = (None, w')" by blast
      have "wDB v = wDB w" using db_side_None [OF v(1)] w1 by simp
      from c written [OF v(2) c_db this] show ?thesis by auto
    qed
  qed
qed


lemma row_kept_refl: "dbMessages d' = dbMessages d \<Longrightarrow> row_kept d d'"
  by (simp add: row_kept_def stored_row_def)

lemma row_kept_touch: "row_kept d d' \<Longrightarrow> row_kept d (update_row i (\<lambda>r. r\<lparr>mrUpdatedAt := now\<rparr>) d')"
  by (simp add: row_kept_def stored_update_row option.map_comp comp_def)

lemma row_keptD:
  assumes "row_kept d d'"
  shows "stored_row d' i = None \<longleftrightarrow> stored_row d i = None"
    and "stored_row d i = Some r \<Longrightarrow> \<exists>t. stored_row d' i = Some (r\<lparr>mrUpdatedAt := t\<rparr>)"
    and "stored_row d' i = Some r \<Longrightarrow> \<exists>t. stored_row d i = Some (r\<lparr>mrUpdatedAt := t\<rparr>)"
proof -
  have eq: "map_option (\<lambda>r. r\<lparr>mrUpdatedAt := 0\<rparr>) (stored_row d' i) = map_option (\<lambda>r. r\<lparr>mrUpdatedAt := 0\<rparr>) (stored_row d i)"
    using assms by (simp add: row_kept_def)
  have up: "x = y\<lparr>mrUpdatedAt := mrUpdatedAt x\<rparr>" if "x\<lparr>mrUpdatedAt := 0\<rparr> = y\<lparr>mrUpdatedAt := 0\<rparr>" for x y :: message_row
    using arg_cong [OF that, of "\<lambda>r. r\<lparr>mrUpdatedAt := mrUpdatedAt x\<rparr>"] by simp
  show "stored_row d' i = None \<longleftrightarrow> stored_row d i = None"
    using eq by (metis option.map_disc_iff)
  show "stored_row d i = Some r \<Longrightarrow> \<exists>t. stored_row d' i = Some (r\<lparr>mrUpdatedAt := t\<rparr>)"
    using eq up by (auto simp: map_option_case split: option.splits)
  show "stored_row d' i = Some r \<Longrightarrow> \<exists>t. stored_row d i = Some (r\<lparr>mrUpdatedAt := t\<rparr>)"
    using eq up by (auto simp: map_option_case split: option.splits) metis
qed

lemma keepStoredMessage_admits:
  assumes "keepStoredMessage env m started w = (Inr False, w')" and "stored_row (wDB w) (msID m) = Some r"
  shows "mrDeletedAt r = 0 \<and> mrEditedAt r \<le> msEditedAt m"
proof -
  from assms(1) obtain s w1 where q: "db_query env (\<lambda>d. stored_row d (msID m)) w = (Inr s, w1)"
    by (auto simp: keepStoredMessage_def split: prod.splits sum.splits)
  with db_query_Inr [OF q] assms(2) have "s = Some r" by simp
  with q assms(1) show ?thesis
    by (auto simp: keepStoredMessage_def split: if_splits)
qed

lemma keepStoredMessage_stored:
  assumes "keepStoredMessage env m started w = (Inr True, w')"
  shows "stored_row (wDB w) (msID m) \<noteq> None"
proof
  assume n: "stored_row (wDB w) (msID m) = None"
  from assms obtain s w1 where q: "db_query env (\<lambda>d. stored_row d (msID m)) w = (Inr s, w1)"
    by (auto simp: keepStoredMessage_def split: prod.splits sum.splits)
  with db_query_Inr [OF q] n assms show False by (simp add: keepStoredMessage_def)
qed

lemma rows_are_relations:
  "write_relations env i True w = (None, w') \<Longrightarrow> rows_are (wDB w) (wDB w')"
  by (auto simp: write_relations_def ok_def rows_are_def dest!: andThen_None db_side_None)

lemma row_refreshed_cong:
  "row_refreshed env m d d' \<Longrightarrow> row_kept d d'' \<Longrightarrow> dbFTS d'' = dbFTS d' \<Longrightarrow> row_refreshed env m d d''"
  by (auto simp: row_refreshed_def)

lemma row_refreshed_relations:
  assumes "row_refreshed env m d (wDB w)" "write_relations env i c w = (None, w')"
  shows "row_refreshed env m d (wDB w')"
proof -
  have k: "row_kept d (wDB w)" using assms(1) by (auto simp: row_refreshed_def)
  have "row_kept d (wDB w') \<and> dbFTS (wDB w') = dbFTS (wDB w)"
    using assms(2) row_kept_touch [OF k] k
    by (auto simp: write_relations_def touch_row_def ok_def update_row_def split: if_splits
        dest!: andThen_None db_side_None db_exec_None)
  with assms(1) show ?thesis by (blast intro: row_refreshed_cong)
qed

lemma row_written_cong: "row_written m d d' \<Longrightarrow> rows_are d' d'' \<Longrightarrow> row_written m d d''"
  by (auto simp: row_written_def rows_are_def stored_row_def)

lemma row_refreshed_rows: "row_refreshed env m d d' \<Longrightarrow> rows_are d' d'' \<Longrightarrow> row_refreshed env m d d''"
  unfolding row_refreshed_def by (auto simp: row_kept_def rows_are_def stored_row_def)

text \<open>
  A mutation that succeeds keeps the rows (an observation that is not newer), refreshes derived
  state, or writes the row; a write that preserves newer state replaces neither a tombstone nor a
  later edit.
\<close>

lemma apply_mutation_effect:
  assumes "apply_mutation env mu w = (None, w')"
  shows "(woPreserveNewer (mmOptions mu) \<and> stored_row (wDB w) (msID (mmRecord mu)) \<noteq> None \<and> rows_are (wDB w) (wDB w')) \<or>
    (\<exists>raw. row_refreshed env ((mmRecord mu)\<lparr>msRawJSON := raw\<rparr>) (wDB w) (wDB w') \<or>
       (row_written ((mmRecord mu)\<lparr>msRawJSON := raw\<rparr>) (wDB w) (wDB w') \<and>
        (woPreserveNewer (mmOptions mu) \<longrightarrow> (\<forall>r. stored_row (wDB w) (msID (mmRecord mu)) = Some r \<longrightarrow>
           mrDeletedAt r = 0 \<and> mrEditedAt r \<le> msEditedAt (mmRecord mu)))))"
proof -
  let ?m = "mmRecord mu" and ?o = "mmOptions mu"
  let ?guard = "\<lambda>w. if woPreserveNewer ?o then keepStoredMessage env ?m (woObservationStartedAt ?o) w else (Inr False, w)"
  from assms obtain keep w1 where g: "?guard w = (Inr keep, w1)"
    and k: "(if keep then appendMutationEventTx env mu
          else (\<lambda>w. case upsertMessageTx env ?m ?o w of
                  (Inl e, w1) \<Rightarrow> (Some e, w1)
                | (Inr changed, w1) \<Rightarrow>
                    andThen (write_relations env (msID ?m) changed)
                   (andThen (recordObservedTx env (msID ?m)) (appendMutationEventTx env mu)) w1)) w1 = (None, w')"
    unfolding apply_mutation_def Let_def by (auto dest!: withResult_None)
  have "keeps (\<lambda>d. d = wDB w) ?guard" by (intro keeps_calls keeps_keepStoredMessage)
  with g have w1: "wDB w1 = wDB w" by (auto dest: keepsD)
  show ?thesis
  proof (cases keep)
    case True
    with k have "rows_are (wDB w1) (wDB w')" by (auto intro: rows_are_keeps [OF rows_are_event])
    moreover have "woPreserveNewer ?o" and "stored_row (wDB w) (msID ?m) \<noteq> None"
      using g True keepStoredMessage_stored [of env ?m] by (auto split: if_splits)
    ultimately show ?thesis using w1 by simp
  next
    case False
    with k obtain changed w2 w3 w4 where u: "upsertMessageTx env ?m ?o w1 = (Inr changed, w2)"
      and r: "write_relations env (msID ?m) changed w2 = (None, w3)" "recordObservedTx env (msID ?m) w3 = (None, w4)"
        "appendMutationEventTx env mu w4 = (None, w')"
      by (auto split: prod.splits sum.splits dest!: andThen_None)
    have tail: "rows_are (wDB w3) (wDB w')"
      using rows_are_keeps [OF rows_are_observed r(2)] rows_are_keeps [OF rows_are_event r(3)] by (simp add: rows_are_def)
    have adm: "woPreserveNewer ?o \<Longrightarrow> stored_row (wDB w) (msID ?m) = Some r \<Longrightarrow>
        mrDeletedAt r = 0 \<and> mrEditedAt r \<le> msEditedAt ?m" for r
      using g False keepStoredMessage_admits by auto
    from upsertMessageTx_effect [OF u, unfolded w1] obtain raw where
      e: "if changed then row_written (?m\<lparr>msRawJSON := raw\<rparr>) (wDB w) (wDB w2)
          else row_refreshed env (?m\<lparr>msRawJSON := raw\<rparr>) (wDB w) (wDB w2)"
      by (cases changed) (simp, blast)+
    show ?thesis
    proof (cases changed)
      case True
      with e r(1) have "row_written (?m\<lparr>msRawJSON := raw\<rparr>) (wDB w) (wDB w')"
        using row_written_cong rows_are_relations tail by (metis (full_types))
      with adm show ?thesis by blast
    next
      case False
      with e r(1) have "row_refreshed env (?m\<lparr>msRawJSON := raw\<rparr>) (wDB w) (wDB w')"
        using row_refreshed_relations row_refreshed_rows tail by (metis (full_types))
      then show ?thesis by blast
    qed
  qed
qed

definition same_message :: "MessageRecord \<Rightarrow> MessageRecord \<Rightarrow> bool" where
  "same_message m m' \<longleftrightarrow> msID m' = msID m \<and> msEditedAt m' = msEditedAt m \<and> msDeletedAt m' = msDeletedAt m"

lemma prepareTextMutation_record:
  assumes "prepareTextMutation env mu w = (Inr mu', w')"
  shows "wDB w' = wDB w" "mmOptions mu' = mmOptions mu" "same_message (mmRecord mu) (mmRecord mu')"
  using assms by (auto simp: prepareTextMutation_def same_message_def
      split: if_splits prod.splits sum.splits option.splits dest!: db_side_None)

lemma requireMessageScope_db: "requireMessageScope env c g p w = (r, w') \<Longrightarrow> wDB w' = wDB w"
  using keepsD [OF keeps_requireMessageScope, of "\<lambda>d. d = wDB w" w env c g p] by simp

lemma upsert_mutation_applies:
  assumes "upsert_mutation env mu w = (None, w')"
  shows "\<exists>mu' v. wDB v = wDB w \<and> apply_mutation env mu' v = (None, w') \<and> mmOptions mu' = mmOptions mu \<and>
    same_message (mmRecord mu) (mmRecord mu')"
proof -
  from assms obtain w1 w2 mu' w3 where "requireMessageScope env (msChannelID (mmRecord mu)) (msGuildID (mmRecord mu))
        (woScopePolicy (mmOptions mu)) w = (None, w1)"
    "db_side env w1 = (None, w2)" "prepareTextMutation env mu w2 = (Inr mu', w3)" "apply_mutation env mu' w3 = (None, w')"
    by (auto simp: upsert_mutation_def split: option.splits sum.splits prod.splits dest!: andThen_None)
  with requireMessageScope_db [OF this(1)] db_side_None [OF this(2)] prepareTextMutation_record [OF this(3)]
  show ?thesis by metis
qed

definition newest_preserved :: "MessageMutation \<Rightarrow> MessageRecord \<Rightarrow> db \<Rightarrow> bool" where
  "newest_preserved mu m d \<longleftrightarrow> (woPreserveNewer (mmOptions mu) \<longrightarrow>
     (\<forall>r. stored_row d (msID m) = Some r \<longrightarrow> mrDeletedAt r = 0 \<and> mrEditedAt r \<le> msEditedAt m))"

lemma upsert_mutation_effect:
  assumes "upsert_mutation env mu w = (None, w')"
  obtains (kept) "woPreserveNewer (mmOptions mu)" "stored_row (wDB w) (msID (mmRecord mu)) \<noteq> None" "rows_are (wDB w) (wDB w')"
  | (refreshed) m where "same_message (mmRecord mu) m" "row_refreshed env m (wDB w) (wDB w')"
  | (written) m where "same_message (mmRecord mu) m" "row_written m (wDB w) (wDB w')" "newest_preserved mu m (wDB w)"
proof -
  from upsert_mutation_applies [OF assms] obtain mu' v where v: "wDB v = wDB w"
    and a: "apply_mutation env mu' v = (None, w')" and o: "mmOptions mu' = mmOptions mu"
    and m: "same_message (mmRecord mu) (mmRecord mu')" by blast
  have m': "same_message (mmRecord mu) ((mmRecord mu')\<lparr>msRawJSON := raw\<rparr>)" for raw
    using m by (simp add: same_message_def)
  from apply_mutation_effect [OF a] show ?thesis
  proof (elim disjE exE conjE)
    assume "woPreserveNewer (mmOptions mu')" "stored_row (wDB v) (msID (mmRecord mu')) \<noteq> None" "rows_are (wDB v) (wDB w')"
    with m v o show ?thesis by (intro kept) (simp_all add: same_message_def)
  next
    fix raw
    assume "row_refreshed env ((mmRecord mu')\<lparr>msRawJSON := raw\<rparr>) (wDB v) (wDB w')"
    with m' v show ?thesis by (intro refreshed [of "(mmRecord mu')\<lparr>msRawJSON := raw\<rparr>"]) simp_all
  next
    fix raw
    assume "row_written ((mmRecord mu')\<lparr>msRawJSON := raw\<rparr>) (wDB v) (wDB w')"
      "woPreserveNewer (mmOptions mu') \<longrightarrow> (\<forall>r. stored_row (wDB v) (msID (mmRecord mu')) = Some r \<longrightarrow>
           mrDeletedAt r = 0 \<and> mrEditedAt r \<le> msEditedAt (mmRecord mu'))"
    with m' [of raw] v o show ?thesis
      by (intro written [of "(mmRecord mu')\<lparr>msRawJSON := raw\<rparr>"]) (simp_all add: newest_preserved_def)
  qed
qed

section \<open>The sink a page is written to\<close>

text \<open>
  What a writer of pages relies on: storing one message makes its key present, and no step makes a
  present key absent. A page, and a page in a transaction, then store every message.
\<close>

locale message_sink =
  fixes put :: "'m \<Rightarrow> action" and key :: "'m \<Rightarrow> string" and holds :: "string \<Rightarrow> db \<Rightarrow> bool"
  assumes put_stores: "put m w = (None, w') \<Longrightarrow> holds (key m) (wDB w')"
    and put_keeps: "keeps (holds i) (put m)"
begin

lemma page_stored:
  assumes "sequence_actions put ms w = (None, w')" and "m \<in> set ms"
  shows "holds (key m) (wDB w')"
  using assms
proof (induction ms arbitrary: w)
  case (Cons x xs)
  then obtain w1 where x: "put x w = (None, w1)" and xs: "sequence_actions put xs w1 = (None, w')"
    by (auto split: prod.splits option.splits)
  show ?case
  proof (cases "m \<in> set xs")
    case True
    with Cons.IH [OF xs] show ?thesis .
  next
    case False
    with Cons.prems(2) put_stores [OF x] have "holds (key m) (wDB w1)" by simp
    moreover have "keeps (holds (key m)) (sequence_actions put xs)" by (rule keeps_sequence [OF put_keeps])
    ultimately show ?thesis using xs by (auto dest: keepsD)
  qed
qed simp

lemma tx_stored:
  "wDB (snd (with_tx env (sequence_actions put ms) w)) = wDB w \<or>
   (\<forall>m \<in> set ms. holds (key m) (wDB (snd (with_tx env (sequence_actions put ms) w))))"
  using with_tx_db [of env "sequence_actions put ms" w] page_stored by metis

lemma tx_success:
  "with_tx env (sequence_actions put ms) w = (None, w') \<Longrightarrow> m \<in> set ms \<Longrightarrow> holds (key m) (wDB w')"
  using with_tx_None page_stored by metis

end

lemma upsert_mutation_stores:
  assumes "upsert_mutation env mu w = (None, w')"
  shows "has_row (msID (mmRecord mu)) (wDB w')"
  using assms
proof (cases rule: upsert_mutation_effect)
  case kept
  then show ?thesis by (simp add: has_row_def rows_are_stored)
next
  case (refreshed m)
  then show ?thesis by (auto simp: has_row_def row_refreshed_def same_message_def dest: row_keptD(2))
next
  case (written m)
  then show ?thesis by (auto simp: has_row_def row_written_def same_message_def)
qed

interpretation sink: message_sink "upsert_mutation env" "\<lambda>mu. msID (mmRecord mu)" has_row for env
  by unfold_locales (auto intro: upsert_mutation_stores keeps_upsert_mutation [OF store_stable_has_row])

text \<open>
  C22. A page is written completely or not at all: after a call, successful or failed, the archive
  is as it was or holds a row for every message of the page; a successful call leaves a row for
  every message; and no row ever disappears.
\<close>
theorem message_page_all_or_nothing:
  "(wDB (snd (UpsertMessages env ms w)) = wDB w \<or>
      (\<forall>mu \<in> set ms. has_row (msID (mmRecord mu)) (wDB (snd (UpsertMessages env ms w))))) \<and>
   (fst (UpsertMessages env ms w) = None \<longrightarrow>
      (\<forall>mu \<in> set ms. has_row (msID (mmRecord mu)) (wDB (snd (UpsertMessages env ms w))))) \<and>
   (has_row i (wDB w) \<longrightarrow> has_row i (wDB (snd (UpsertMessages env ms w))))"
proof (intro conjI impI)
  show "wDB (snd (UpsertMessages env ms w)) = wDB w \<or>
      (\<forall>mu \<in> set ms. has_row (msID (mmRecord mu)) (wDB (snd (UpsertMessages env ms w))))"
    using sink.tx_stored [of env env ms w] by (simp add: UpsertMessages_def ok_def)
  show "\<forall>mu \<in> set ms. has_row (msID (mmRecord mu)) (wDB (snd (UpsertMessages env ms w)))"
    if "fst (UpsertMessages env ms w) = None"
    using that sink.tx_success [of env env ms w "snd (UpsertMessages env ms w)"]
    by (auto simp: UpsertMessages_def prod_eq_iff)
  show "has_row i (wDB w) \<Longrightarrow> has_row i (wDB (snd (UpsertMessages env ms w)))"
    by (rule keepsD [OF keeps_UpsertMessages [OF store_stable_has_row]])
qed

section \<open>Newer state is preserved\<close>

text \<open>
  C3. An observation never moves a message backwards: when every mutation of a page asks to
  preserve newer state (as the crawl and the gateway do), then after the call, successful or not, a
  stored message is still stored with an edit time at least as late, and a tombstoned message has
  exactly its old columns, up to the local update time.
\<close>
theorem newer_state_survives:
  assumes "\<forall>mu \<in> set ms. woPreserveNewer (mmOptions mu)" and "stored_row (wDB w) i = Some r"
  shows "(\<exists>r'. stored_row (wDB (snd (UpsertMessages env ms w))) i = Some r' \<and> mrEditedAt r \<le> mrEditedAt r') \<and>
    (mrDeletedAt r \<noteq> 0 \<longrightarrow> (\<exists>t. stored_row (wDB (snd (UpsertMessages env ms w))) i = Some (r\<lparr>mrUpdatedAt := t\<rparr>)))"
proof -
  let ?E = "\<lambda>d. \<exists>r'. stored_row d i = Some r' \<and> mrEditedAt r \<le> mrEditedAt r'"
  let ?T = "\<lambda>d. \<exists>t. stored_row d i = Some (r\<lparr>mrUpdatedAt := t\<rparr>)"
  have step: "settles ?E (upsert_mutation env mu) \<and> (mrDeletedAt r \<noteq> 0 \<longrightarrow> settles ?T (upsert_mutation env mu))"
    if pn: "woPreserveNewer (mmOptions mu)" for mu
  proof -
    have both: "(?E (wDB v) \<longrightarrow> ?E (wDB v')) \<and> (mrDeletedAt r \<noteq> 0 \<longrightarrow> ?T (wDB v) \<longrightarrow> ?T (wDB v'))"
      if "upsert_mutation env mu v = (None, v')" for v v'
      using that
    proof (cases rule: upsert_mutation_effect)
      case kept
      then show ?thesis by (simp add: rows_are_stored)
    next
      case (refreshed m)
      then have k: "row_kept (wDB v) (wDB v')" by (auto simp: row_refreshed_def)
      show ?thesis using row_keptD(2) [OF k, of i] by fastforce
    next
      case (written m)
      then obtain now where w: "stored_row (wDB v') j =
          (if j = msID m then Some (written_row m now (stored_row (wDB v) j)) else stored_row (wDB v) j)" for j
        by (auto simp: row_written_def)
      show ?thesis
        using w [of i] written(3) pn by (auto simp: newest_preserved_def written_row_def upsertMessageParams_def)
    qed
    then show ?thesis by (auto intro!: settlesI)
  qed
  have "keeps ?E (UpsertMessages env ms)" and "mrDeletedAt r \<noteq> 0 \<Longrightarrow> keeps ?T (UpsertMessages env ms)"
    unfolding UpsertMessages_def
    using assms(1) step by (auto intro!: keeps_ok keeps_if settles_with_tx settles_sequence)
  moreover have "?E (wDB w)" "?T (wDB w)" using assms(2) by (auto intro!: exI [of _ "mrUpdatedAt r"])
  ultimately show ?thesis by (auto dest: keepsD)
qed

section \<open>The search index\<close>

definition indexable :: "string \<Rightarrow> bool" where
  "indexable i \<longleftrightarrow> isCanonicalDecimalSnowflake i \<and> 0 < dec_val i \<and> dec_val i < 2 ^ 63"

lemma rowid_indexable:
  assumes "indexable i" shows "MessageFTSRowID i = Some (int (dec_val i))"
proof -
  have d: "i \<noteq> []" "list_all is_digit i" using assms by (auto simp: indexable_def isCanonicalDecimalSnowflake_def)
  then have "hd i \<noteq> CHR ''-'' \<and> hd i \<noteq> CHR ''+''" by (cases i) (auto simp: is_digit_def)
  then have "\<not> has_prefix i ''-''" "\<not> has_prefix i ''+''" using d by (cases i; simp add: has_prefix_def)+
  then have "go_atoi i = Some (int (dec_val i))"
    using assms d by (simp add: go_atoi_def Let_def indexable_def)
  then show ?thesis using assms d by (simp add: MessageFTSRowID_def indexable_def)
qed

lemma rowid_inject: "indexable i \<Longrightarrow> indexable j \<Longrightarrow> MessageFTSRowID i = MessageFTSRowID j \<Longrightarrow> i = j"
  using rowid_indexable canonical_inject by (auto simp: indexable_def)


text \<open>
  The index mirrors the live messages: every indexed row is a stored message without a tombstone
  under its own row id and with its normalised text, and every such message is indexed.
\<close>

definition search_exact :: "db \<Rightarrow> bool" where
  "search_exact d \<longleftrightarrow>
     (\<forall>i. stored_row d i \<noteq> None \<longrightarrow> indexable i) \<and>
     (\<forall>rid f. map_of (dbFTS d) rid = Some f \<longrightarrow> (\<exists>r. stored_row d (ftMessageID f) = Some r \<and> mrDeletedAt r = 0 \<and>
        ftContent f = mrNormalized r \<and> MessageFTSRowID (ftMessageID f) = Some rid)) \<and>
     (\<forall>i r. stored_row d i = Some r \<and> mrDeletedAt r = 0 \<longrightarrow>
        (\<exists>rid f. MessageFTSRowID i = Some rid \<and> map_of (dbFTS d) rid = Some f))"

lemma search_exactD:
  assumes "search_exact d"
  shows "stored_row d i = Some r \<Longrightarrow> indexable i"
    and "map_of (dbFTS d) rid = Some f \<Longrightarrow> \<exists>r. stored_row d (ftMessageID f) = Some r \<and> mrDeletedAt r = 0 \<and>
        ftContent f = mrNormalized r \<and> MessageFTSRowID (ftMessageID f) = Some rid"
    and "stored_row d i = Some r \<Longrightarrow> mrDeletedAt r = 0 \<Longrightarrow>
        \<exists>rid f. MessageFTSRowID i = Some rid \<and> map_of (dbFTS d) rid = Some f"
  using assms unfolding search_exact_def by blast+

lemma search_exact_rows: "search_exact d \<Longrightarrow> rows_are d d' \<Longrightarrow> search_exact d'"
  by (simp add: search_exact_def rows_are_def stored_row_def)

lemma search_exact_kept:
  assumes "search_exact d" and k: "row_kept d d'" and "dbFTS d' = dbFTS d"
  shows "search_exact d'"
  unfolding search_exact_def
proof (intro conjI allI impI)
  fix i
  assume "stored_row d' i \<noteq> None"
  then show "indexable i" using search_exactD(1) [OF assms(1)] row_keptD(1) [OF k, of i] by (metis option.exhaust)
next
  fix rid f
  assume "map_of (dbFTS d') rid = Some f"
  then obtain r where "stored_row d (ftMessageID f) = Some r" "mrDeletedAt r = 0" "ftContent f = mrNormalized r"
    "MessageFTSRowID (ftMessageID f) = Some rid" using search_exactD(2) [OF assms(1)] assms(3) by metis
  then show "\<exists>r. stored_row d' (ftMessageID f) = Some r \<and> mrDeletedAt r = 0 \<and>
      ftContent f = mrNormalized r \<and> MessageFTSRowID (ftMessageID f) = Some rid"
    using row_keptD(2) [OF k, of "ftMessageID f"] by fastforce
next
  fix i r
  assume "stored_row d' i = Some r \<and> mrDeletedAt r = 0"
  then obtain t where "stored_row d i = Some (r\<lparr>mrUpdatedAt := t\<rparr>)" "mrDeletedAt (r\<lparr>mrUpdatedAt := t\<rparr>) = 0"
    using row_keptD(3) [OF k, of i r] by auto
  then show "\<exists>rid f. MessageFTSRowID i = Some rid \<and> map_of (dbFTS d') rid = Some f"
    using search_exactD(3) [OF assms(1)] assms(3) by metis
qed

text \<open>Replacing the index row of one live message, and dropping the row of a dead one.\<close>

lemma search_exact_replace:
  assumes s: "search_exact d" and m: "indexable (ftMessageID f)" "MessageFTSRowID (ftMessageID f) = Some rid"
    and r: "stored_row d' (ftMessageID f) = Some r" "mrDeletedAt r = 0" "ftContent f = mrNormalized r"
    and o: "\<And>j. j \<noteq> ftMessageID f \<Longrightarrow> stored_row d' j = stored_row d j"
    and fts: "map_of (dbFTS d') = (map_of (dbFTS d))(rid \<mapsto> f)"
  shows "search_exact d'"
  unfolding search_exact_def
proof (intro conjI allI impI)
  fix i
  assume "stored_row d' i \<noteq> None"
  then show "indexable i" using search_exactD(1) [OF s, of i] m(1) o [of i] by (cases "i = ftMessageID f") auto
next
  fix x g
  assume x: "map_of (dbFTS d') x = Some g"
  show "\<exists>r. stored_row d' (ftMessageID g) = Some r \<and> mrDeletedAt r = 0 \<and>
      ftContent g = mrNormalized r \<and> MessageFTSRowID (ftMessageID g) = Some x"
  proof (cases "x = rid")
    case True
    then show ?thesis using x fts m r by auto
  next
    case False
    then have "map_of (dbFTS d) x = Some g" using x fts by simp
    then obtain q where q: "stored_row d (ftMessageID g) = Some q" "mrDeletedAt q = 0" "ftContent g = mrNormalized q"
      "MessageFTSRowID (ftMessageID g) = Some x" using search_exactD(2) [OF s] by blast
    with False m have "ftMessageID g \<noteq> ftMessageID f" by auto
    with q o show ?thesis by simp
  qed
next
  fix i q
  assume "stored_row d' i = Some q \<and> mrDeletedAt q = 0"
  then show "\<exists>x g. MessageFTSRowID i = Some x \<and> map_of (dbFTS d') x = Some g"
    using search_exactD(3) [OF s, of i q] m fts o [of i] by (cases "i = ftMessageID f") auto
qed

lemma search_exact_drop:
  assumes s: "search_exact d" and m: "indexable k" "MessageFTSRowID k = Some rid"
    and r: "\<And>r. stored_row d' k = Some r \<Longrightarrow> mrDeletedAt r \<noteq> 0"
    and o: "\<And>j. j \<noteq> k \<Longrightarrow> stored_row d' j = stored_row d j"
    and fts: "map_of (dbFTS d') = (map_of (dbFTS d))(rid := None)"
  shows "search_exact d'"
  unfolding search_exact_def
proof (intro conjI allI impI)
  fix i
  assume "stored_row d' i \<noteq> None"
  then show "indexable i" using search_exactD(1) [OF s, of i] m(1) o [of i] by (cases "i = k") auto
next
  fix x g
  assume "map_of (dbFTS d') x = Some g"
  then have x: "x \<noteq> rid" "map_of (dbFTS d) x = Some g" using fts by (auto split: if_splits)
  then obtain q where q: "stored_row d (ftMessageID g) = Some q" "mrDeletedAt q = 0" "ftContent g = mrNormalized q"
    "MessageFTSRowID (ftMessageID g) = Some x" using search_exactD(2) [OF s] by blast
  with x m have "ftMessageID g \<noteq> k" by auto
  with q o show "\<exists>r. stored_row d' (ftMessageID g) = Some r \<and> mrDeletedAt r = 0 \<and>
      ftContent g = mrNormalized r \<and> MessageFTSRowID (ftMessageID g) = Some x" by simp
next
  fix i q
  assume a: "stored_row d' i = Some q \<and> mrDeletedAt q = 0"
  then have i: "i \<noteq> k" using r by auto
  with a o have "stored_row d i = Some q" by simp
  with a search_exactD(3) [OF s] obtain x g where x: "MessageFTSRowID i = Some x" "map_of (dbFTS d) x = Some g" by blast
  have "indexable i" using search_exactD(1) [OF s \<open>stored_row d i = Some q\<close>] .
  with i m x have "x \<noteq> rid" using rowid_inject by auto
  with x fts show "\<exists>x g. MessageFTSRowID i = Some x \<and> map_of (dbFTS d') x = Some g" by auto
qed


lemma map_of_replace: "map_of (AList.update k v (AList.delete k xs)) = (map_of xs)(k \<mapsto> v)"
  by (simp add: update_conv' AList.delete_conv')

lemma written_row_simps [simp]:
  "mrNormalized (written_row m now old) = msNormalized m" "mrEditedAt (written_row m now old) = msEditedAt m"
  "mrChannelID (written_row m now old) = msChannelID m"
  by (simp_all add: written_row_def upsertMessageParams_def text_columns_def)

lemma search_exact_mutation:
  assumes "woPreserveNewer (mmOptions mu)" and i: "indexable (msID (mmRecord mu))"
  shows "settles search_exact (upsert_mutation env mu)"
proof (rule settlesI)
  fix w w'
  assume s: "search_exact (wDB w)" and u: "upsert_mutation env mu w = (None, w')"
  from u show "search_exact (wDB w')"
  proof (cases rule: upsert_mutation_effect)
    case kept
    with s show ?thesis by (auto intro: search_exact_rows)
  next
    case (refreshed m)
    then obtain r where r: "stored_row (wDB w) (msID m) = Some r" "\<not> messageContentChanged env r m"
      and k: "row_kept (wDB w) (wDB w')"
      and f: "if mrDeletedAt r \<noteq> 0 then dbFTS (wDB w') = dbFTS (wDB w) else fts_refreshed m (dbFTS (wDB w)) (dbFTS (wDB w'))"
      by (auto simp: row_refreshed_def)
    have im: "indexable (msID m)" using refreshed(1) i by (simp add: same_message_def)
    show ?thesis
    proof (cases "dbFTS (wDB w') = dbFTS (wDB w)")
      case True
      then show ?thesis using search_exact_kept [OF s k] by simp
    next
      case False
      with f rowid_indexable [OF im] obtain a c where live: "mrDeletedAt r = 0" and
        n: "dbFTS (wDB w') = AList.update (int (dec_val (msID m))) (fts_of (m\<lparr>msAuthorName := a, msChannelName := c\<rparr>))
          (AList.delete (int (dec_val (msID m))) (dbFTS (wDB w)))"
        by (auto simp: fts_refreshed_def split: if_splits)
      let ?d = "(wDB w)\<lparr>dbFTS := dbFTS (wDB w')\<rparr>"
      have "search_exact ?d"
        using search_exact_replace [OF s, where f = "fts_of (m\<lparr>msAuthorName := a, msChannelName := c\<rparr>)" and r = r
            and d' = ?d and rid = "int (dec_val (msID m))"] r live im rowid_indexable [OF im] n
        by (simp add: fts_of_def map_of_replace stored_row_def messageContentChanged_def Let_def split: if_splits)
      moreover have "row_kept ?d (wDB w')" using k by (simp add: row_kept_def stored_row_def)
      ultimately show ?thesis by (rule search_exact_kept) simp
    qed
  next
    case (written m)
    then obtain now where st: "\<And>j. stored_row (wDB w') j =
        (if j = msID m then Some (written_row m now (stored_row (wDB w) j)) else stored_row (wDB w) j)"
      and f: "dbFTS (wDB w') = fts_after m (dbFTS (wDB w))" by (auto simp: row_written_def)
    have im: "indexable (msID m)" using written(1) i by (simp add: same_message_def)
    have live: "mrDeletedAt (written_row m now (stored_row (wDB w) (msID m))) = msDeletedAt m"
      using written(3) assms(1) by (auto simp: newest_preserved_def written_row_def upsertMessageParams_def split: option.split)
    show ?thesis
    proof (cases "msDeletedAt m = 0")
      case True
      show ?thesis
        by (rule search_exact_replace [OF s, where f = "fts_of m" and rid = "int (dec_val (msID m))"
              and r = "written_row m now (stored_row (wDB w) (msID m))"])
          (use True im live st f rowid_indexable [OF im] in \<open>simp_all add: fts_of_def fts_after_def map_of_replace\<close>)
    next
      case False
      show ?thesis
        by (rule search_exact_drop [OF s im rowid_indexable [OF im]])
          (use False live st f rowid_indexable [OF im] in \<open>auto simp: fts_after_def AList.delete_conv'\<close>)
    qed
  qed
qed

section \<open>Deletion\<close>

definition events_are :: "db \<Rightarrow> db \<Rightarrow> bool" where
  "events_are d0 d \<longleftrightarrow> rows_are d0 d \<and> dbEvents d = dbEvents d0"

lemma drop_fts_effect:
  assumes "drop_fts env i w = (None, w')"
  shows "dbMessages (wDB w') = dbMessages (wDB w) \<and> dbEvents (wDB w') = dbEvents (wDB w) \<and>
    dbFTS (wDB w') = (case MessageFTSRowID i of None \<Rightarrow> dbFTS (wDB w) | Some rid \<Rightarrow> AList.delete rid (dbFTS (wDB w)))"
  using assms
  by (auto simp: drop_fts_def ok_def delete_fts_def split: option.splits dest!: andThen_None db_exec_None db_side_None)

lemma verify_delete_scope_Inr:
  assumes "verify_delete_scope env g c i v w = (Inr preserve, w')"
  shows "wDB w' = wDB w" and "\<not> v \<Longrightarrow> \<not> preserve"
    and "v \<Longrightarrow> \<exists>r. stored_row (wDB w) i = Some r \<and> mrGuildID r = g \<and> mrChannelID r = c \<and> preserve = (mrDeletedAt r \<noteq> 0)"
proof -
  have r: "recover_scope g c i row = Inr preserve \<Longrightarrow>
      \<exists>r. row = Some r \<and> mrGuildID r = g \<and> mrChannelID r = c \<and> preserve = (mrDeletedAt r \<noteq> 0)" for row
    by (auto simp: recover_scope_def split: option.splits if_splits)
  have "wDB w' = wDB w \<and> (\<not> v \<longrightarrow> \<not> preserve) \<and>
    (v \<longrightarrow> (\<exists>r. stored_row (wDB w) i = Some r \<and> mrGuildID r = g \<and> mrChannelID r = c \<and> preserve = (mrDeletedAt r \<noteq> 0)))"
  proof (cases v)
    case False
    with assms show ?thesis by (simp add: verify_delete_scope_def)
  next
    case True
    with assms obtain row where "db_query env (\<lambda>d. stored_row d i) w = (Inr row, w')" "recover_scope g c i row = Inr preserve"
      by (auto simp: verify_delete_scope_def split: prod.splits sum.splits)
    with db_query_Inr [OF this(1)] r [OF this(2)] True show ?thesis by simp
  qed
  then show "wDB w' = wDB w" and "\<not> v \<Longrightarrow> \<not> preserve"
    and "v \<Longrightarrow> \<exists>r. stored_row (wDB w) i = Some r \<and> mrGuildID r = g \<and> mrChannelID r = c \<and> preserve = (mrDeletedAt r \<noteq> 0)"
    by blast+
qed

definition removed_row :: "bool \<Rightarrow> instant \<Rightarrow> message_row \<Rightarrow> message_row" where
  "removed_row preserve now r = (if preserve then r else r\<lparr>mrDeletedAt := now, mrUpdatedAt := now\<rparr>)"

lemma purge_effect:
  assumes "purge_embeddings env i t w = (None, w')"
  shows "events_are (wDB w) (wDB w')"
proof -
  have "keeps (events_are (wDB w)) (purge_embeddings env i t)"
    unfolding purge_embeddings_def archiveMessageEmbeddings_def
    by (intro keeps_intros) (auto simp: events_are_def rows_are_def statement_defs)
  from keepsD [OF this, of w] assms show ?thesis by (simp add: events_are_def rows_are_def)
qed

definition delete_events :: "bool \<Rightarrow> string \<Rightarrow> string \<Rightarrow> string \<Rightarrow> string \<Rightarrow> instant \<Rightarrow> message_event list" where
  "delete_events ev g c i payload now =
     (if ev then [\<lparr>meGuildID = g, meChannelID = c, meMessageID = i, meEventType = ''delete'', meEventAt = now,
        mePayload = payload\<rparr>] else [])"

lemma delete_message_effect:
  assumes "delete_message_tx env g c i payload ev v w = (None, w')"
  obtains preserve n now where "\<not> v \<Longrightarrow> \<not> preserve"
    and "v \<Longrightarrow> \<exists>r. stored_row (wDB w) i = Some r \<and> mrGuildID r = g \<and> mrChannelID r = c \<and> preserve = (mrDeletedAt r \<noteq> 0)"
    and "\<And>j. stored_row (wDB w') j = (if j = i then map_option (removed_row preserve (envNow env n)) (stored_row (wDB w) j)
                                  else stored_row (wDB w) j)"
    and "dbFTS (wDB w') = (case MessageFTSRowID i of None \<Rightarrow> dbFTS (wDB w) | Some rid \<Rightarrow> AList.delete rid (dbFTS (wDB w)))"
    and "dbEvents (wDB w') = dbEvents (wDB w) @ delete_events ev g c i payload now"
proof -
  let ?mark = "\<lambda>p. if p then ok else db_exec env (\<lambda>now. update_row i (\<lambda>r. r\<lparr>mrDeletedAt := now, mrUpdatedAt := now\<rparr>))"
  let ?event = "if ev then appendEventTx env g c i ''delete'' payload else ok"
  from assms [unfolded delete_message_tx_def] obtain p v1 v2 v3 v4 t v5 where
    ver: "verify_delete_scope env g c i v w = (Inr p, v1)" and m: "?mark p v1 = (None, v2)"
    and f: "drop_fts env i v2 = (None, v3)" and v4: "wDB v4 = wDB v3" and pu: "purge_embeddings env i t v4 = (None, v5)"
    and l: "?event v5 = (None, w')"
    by (fast dest: andThen_None withResult_None db_query_Inr)
  note V = verify_delete_scope_Inr [OF ver]
  have db2: "wDB v2 = (if p then wDB w else update_row i (\<lambda>r. r\<lparr>mrDeletedAt := envNow env (wTick v1), mrUpdatedAt := envNow env (wTick v1)\<rparr>) (wDB w))"
    using m V(1) by (auto simp: ok_def split: if_splits dest!: db_exec_None)
  have ev2: "dbMessages (wDB w') = dbMessages (wDB v5)" "dbFTS (wDB w') = dbFTS (wDB v5)"
    "dbEvents (wDB w') = dbEvents (wDB v5) @ delete_events ev g c i payload (envNow env (wTick v5))"
    using l by (auto simp: delete_events_def appendEventTx_def append_event_def ok_def split: if_splits dest!: db_exec_None)
  note E = drop_fts_effect [OF f] purge_effect [OF pu, unfolded v4 events_are_def rows_are_def]
  show ?thesis
  proof (rule that [of p "wTick v1" "envNow env (wTick v5)"])
    have "stored_row (wDB w') j = stored_row (wDB v2) j" for j using ev2(1) E by (simp add: stored_row_def)
    then show "\<And>j. stored_row (wDB w') j = (if j = i then map_option (removed_row p (envNow env (wTick v1))) (stored_row (wDB w) j)
        else stored_row (wDB w) j)"
      by (auto simp: db2 stored_update_row removed_row_def [abs_def] option.map_ident)
    show "dbFTS (wDB w') = (case MessageFTSRowID i of None \<Rightarrow> dbFTS (wDB w) | Some rid \<Rightarrow> AList.delete rid (dbFTS (wDB w)))"
      "dbEvents (wDB w') = dbEvents (wDB w) @ delete_events ev g c i payload (envNow env (wTick v5))"
      using ev2 E db2 by (simp_all add: update_row_def split: option.split if_split)
  qed (use V(2,3) in auto)
qed

text \<open>
  C18. The search index mirrors the archive: when message ids are snowflakes and pages preserve newer
  state, every call of the message writer and every deletion, successful or failed at any statement,
  keeps the index exact: a row for each message without a tombstone, with its current text, and no
  other row.
\<close>
theorem search_index_mirrors_messages:
  assumes "\<forall>mu \<in> set ms. woPreserveNewer (mmOptions mu) \<and> indexable (msID (mmRecord mu))"
    and "indexable i" and "\<forall>n. envNow env n \<noteq> 0"
  shows "keeps search_exact (UpsertMessages env ms) \<and> keeps search_exact (markMessageDeleted env g c i payload ev v)"
proof
  show "keeps search_exact (UpsertMessages env ms)"
    unfolding UpsertMessages_def
    using assms(1) by (intro keeps_if keeps_ok settles_with_tx settles_sequence search_exact_mutation) auto
  have "search_exact (wDB w')" if s: "search_exact (wDB w)" and "delete_message_tx env g c i payload ev v w = (None, w')" for w w'
    using that(2)
  proof (rule delete_message_effect)
    fix preserve n
    assume p: "\<not> v \<Longrightarrow> \<not> preserve"
      "v \<Longrightarrow> \<exists>r. stored_row (wDB w) i = Some r \<and> mrGuildID r = g \<and> mrChannelID r = c \<and> preserve = (mrDeletedAt r \<noteq> 0)"
      and st: "\<And>j. stored_row (wDB w') j = (if j = i then map_option (removed_row preserve (envNow env n)) (stored_row (wDB w) j)
          else stored_row (wDB w) j)"
      and f: "dbFTS (wDB w') = (case MessageFTSRowID i of None \<Rightarrow> dbFTS (wDB w) | Some rid \<Rightarrow> AList.delete rid (dbFTS (wDB w)))"
    have "mrDeletedAt r \<noteq> 0" if "stored_row (wDB w') i = Some r" for r
      using that st [of i] p assms(3) by (cases v) (auto simp: removed_row_def)
    then show ?thesis
      by (rule search_exact_drop [OF s assms(2) rowid_indexable [OF assms(2)]])
        (use st f rowid_indexable [OF assms(2)] in \<open>auto simp: AList.delete_conv'\<close>)
  qed
  then show "keeps search_exact (markMessageDeleted env g c i payload ev v)"
    unfolding markMessageDeleted_def by (intro settles_with_tx settlesI)
qed

text \<open>
  C23. A deletion is a tombstone, not an erasure: after a successful deletion the content columns of
  the stored row are unchanged and the row carries a deletion time; a gateway deletion appends
  exactly one delete event; a recovered deletion appends none, succeeds only when the stored row has
  the given guild and channel, and leaves an existing tombstone exactly as it is.
\<close>
theorem deletion_keeps_content:
  assumes "\<forall>n. envNow env n \<noteq> 0"
  shows "(MarkMessageDeleted env g c i payload w = (None, w') \<longrightarrow>
      (\<forall>r. stored_row (wDB w) i = Some r \<longrightarrow>
        (\<exists>t. t \<noteq> 0 \<and> stored_row (wDB w') i = Some (r\<lparr>mrDeletedAt := t, mrUpdatedAt := t\<rparr>))) \<and>
      (\<exists>now. dbEvents (wDB w') = dbEvents (wDB w) @ [\<lparr>meGuildID = g, meChannelID = c, meMessageID = i,
         meEventType = ''delete'', meEventAt = now, mePayload = payload\<rparr>])) \<and>
    (MarkMessageDeletedWithoutEvent env g c i w = (None, w') \<longrightarrow>
      dbEvents (wDB w') = dbEvents (wDB w) \<and>
      (\<exists>r. stored_row (wDB w) i = Some r \<and> mrGuildID r = g \<and> mrChannelID r = c \<and>
         (\<exists>t. t \<noteq> 0 \<and> stored_row (wDB w') i =
            Some (if mrDeletedAt r \<noteq> 0 then r else r\<lparr>mrDeletedAt := t, mrUpdatedAt := t\<rparr>))))"
proof (intro conjI impI)
  assume "MarkMessageDeleted env g c i payload w = (None, w')"
  then obtain w1 w2 where db: "wDB w1 = wDB w" "wDB w' = wDB w2"
    and b: "delete_message_tx env g c i payload True False w1 = (None, w2)"
    by (auto simp: MarkMessageDeleted_def markMessageDeleted_def dest!: with_tx_None)
  from b show "\<forall>r. stored_row (wDB w) i = Some r \<longrightarrow>
      (\<exists>t. t \<noteq> 0 \<and> stored_row (wDB w') i = Some (r\<lparr>mrDeletedAt := t, mrUpdatedAt := t\<rparr>))"
    by (rule delete_message_effect) (use assms db in \<open>auto simp: removed_row_def\<close>)
  from b show "\<exists>now. dbEvents (wDB w') = dbEvents (wDB w) @ [\<lparr>meGuildID = g, meChannelID = c, meMessageID = i,
         meEventType = ''delete'', meEventAt = now, mePayload = payload\<rparr>]"
    by (rule delete_message_effect) (use db in \<open>auto simp: delete_events_def\<close>)
next
  assume "MarkMessageDeletedWithoutEvent env g c i w = (None, w')"
  then obtain w1 w2 where db: "wDB w1 = wDB w" "wDB w' = wDB w2"
    and b: "delete_message_tx env g c i [] False True w1 = (None, w2)"
    by (auto simp: MarkMessageDeletedWithoutEvent_def markMessageDeleted_def dest!: with_tx_None)
  from b show "dbEvents (wDB w') = dbEvents (wDB w)"
    by (rule delete_message_effect) (use db in \<open>auto simp: delete_events_def\<close>)
  from b show "\<exists>r. stored_row (wDB w) i = Some r \<and> mrGuildID r = g \<and> mrChannelID r = c \<and>
         (\<exists>t. t \<noteq> 0 \<and> stored_row (wDB w') i =
            Some (if mrDeletedAt r \<noteq> 0 then r else r\<lparr>mrDeletedAt := t, mrUpdatedAt := t\<rparr>))"
    by (rule delete_message_effect) (use assms db in \<open>auto simp: removed_row_def\<close>)
qed

section \<open>Samples\<close>

definition sample_record :: "string \<Rightarrow> string \<Rightarrow> MessageRecord" where
  "sample_record i text = \<lparr>msID = i, msGuildID = ''1'', msChannelID = ''5'', msChannelName = ''general'', msAuthorID = ''8'',
     msAuthorName = ''ada'', msMessageType = 0, msCreatedAt = 10, msEditedAt = 0, msDeletedAt = 0, msContent = text,
     msNormalized = text, msReplyTo = [], msPinned = False, msHasAttachments = False, msRawJSON = text,
     msTextParts = ''[]'', msTextVersion = 0\<rparr>"

definition sample_mutation :: "string \<Rightarrow> string \<Rightarrow> MessageMutation" where
  "sample_mutation i text = \<lparr>mmRecord = sample_record i text, mmEventType = ''upsert'', mmPayload = text,
     mmOptions = \<lparr>woObservationStartedAt = 0, woScopePolicy = [], woAppendEvent = True, woEnqueueEmbedding = True,
       woEmbeddingCatchUp = False, woPreserveNewer = True, woDeduplicateEvent = False\<rparr>\<rparr>"

definition empty_world :: world where
  "empty_world = \<lparr>wDB = empty_db, wTick = 0\<rparr>"

lemmas run_simps =
  UpsertMessages_def with_tx_def db_side_def db_exec_def db_query_def tick_def calm_env_def empty_world_def empty_db_def
  upsert_mutation_def requireMessageScope_def andThen_def withResult_def ok_def fail_with_def prepareTextMutation_def
  text_projection_version_def apply_mutation_def keepStoredMessage_def stored_row_def upsertMessageTx_def
  loadStoredMessageTx_def write_changed_message_def supersede_embeddings_def previous_text_def exec_row_def upsert_row_def
  upsertMessageParams_def update_row_def text_columns_def write_fts_def MessageFTSRowID_def delete_fts_def insert_fts_def
  fts_of_def write_relations_def touch_row_def recordObservedTx_def appendMutationEventTx_def appendEventTx_def
  append_event_def queue_embedding_def archiveMessageEmbeddings_def archive_embeddings_def pending_job_def new_job_def bump_job_def
  delete_embeddings_def tombstoned_def tombstone_walk.simps find_channel_def go_atoi_def has_prefix_def dec_val_def digit_val_def
  is_digit_def Let_def

theorem message_page_all_or_nothing_witness:
  "has_row ''42'' (wDB (snd (UpsertMessages calm_env [sample_mutation ''42'' ''hi''] empty_world)))"
proof -
  have "fst (UpsertMessages calm_env [sample_mutation ''42'' ''hi''] empty_world) = None"
    by (simp add: run_simps sample_mutation_def sample_record_def)
  with message_page_all_or_nothing [of calm_env "[sample_mutation ''42'' ''hi'']" empty_world] show ?thesis
    by (simp add: sample_mutation_def sample_record_def)
qed

text \<open>An archive with one message that was edited at instant 5.\<close>

definition edited_row :: message_row where
  "edited_row = \<lparr>mrGuildID = ''1'', mrChannelID = ''5'', mrAuthorID = ''8'', mrMessageType = 0, mrCreatedAt = 1,
     mrEditedAt = 5, mrDeletedAt = 0, mrContent = ''new'', mrNormalized = ''new'', mrReplyTo = [], mrPinned = False,
     mrHasAttachments = False, mrRawJSON = ''new'', mrTextParts = ''[]'', mrTextVersion = 0, mrUpdatedAt = 6\<rparr>"

definition edited_world :: world where
  "edited_world = \<lparr>wDB = empty_db\<lparr>dbMessages := [(''42'', edited_row)]\<rparr>, wTick = 0\<rparr>"

theorem newer_state_survives_witness:
  "\<exists>r. stored_row (wDB (snd (UpsertMessages calm_env [sample_mutation ''42'' ''old''] edited_world))) ''42'' = Some r \<and>
     5 \<le> mrEditedAt r"
proof -
  have "stored_row (wDB edited_world) ''42'' = Some edited_row" by (simp add: stored_row_def edited_world_def)
  from newer_state_survives [OF _ this, of "[sample_mutation ''42'' ''old'']" calm_env] show ?thesis
    by (simp add: sample_mutation_def edited_row_def)
qed


theorem search_index_mirrors_messages_witness:
  "search_exact (wDB (snd (MarkMessageDeleted calm_env ''1'' ''5'' ''42'' ''x''
     (snd (UpsertMessages calm_env [sample_mutation ''42'' ''hi''] empty_world)))))"
proof -
  have i: "indexable ''42''"
    by (simp add: indexable_def isCanonicalDecimalSnowflake_def dec_val_def digit_val_def is_digit_def)
  have "\<forall>mu \<in> set [sample_mutation ''42'' ''hi'']. woPreserveNewer (mmOptions mu) \<and> indexable (msID (mmRecord mu))"
    using i by (simp add: sample_mutation_def sample_record_def)
  from search_index_mirrors_messages [OF this i, of calm_env]
  have "keeps search_exact (UpsertMessages calm_env [sample_mutation ''42'' ''hi''])"
    and "keeps search_exact (markMessageDeleted calm_env ''1'' ''5'' ''42'' ''x'' True False)"
    by (simp_all add: calm_env_def)
  moreover have "search_exact (wDB empty_world)" by (simp add: search_exact_def empty_world_def empty_db_def stored_row_def)
  ultimately show ?thesis unfolding MarkMessageDeleted_def by (metis keepsD)
qed

theorem deletion_keeps_content_witness:
  "\<exists>t. t \<noteq> 0 \<and> stored_row (wDB (snd (MarkMessageDeletedWithoutEvent calm_env ''1'' ''5'' ''42'' edited_world))) ''42'' =
     Some (edited_row\<lparr>mrDeletedAt := t, mrUpdatedAt := t\<rparr>)"
proof -
  let ?r = "MarkMessageDeletedWithoutEvent calm_env ''1'' ''5'' ''42'' edited_world"
  have "fst ?r = None"
    by (simp add: MarkMessageDeletedWithoutEvent_def markMessageDeleted_def delete_message_tx_def verify_delete_scope_def
        recover_scope_def drop_fts_def purge_embeddings_def edited_world_def edited_row_def run_simps)
  then have r: "?r = (None, snd ?r)" by (simp add: prod_eq_iff)
  have clock: "\<forall>n. envNow calm_env n \<noteq> 0" by (simp add: calm_env_def)
  have s: "stored_row (wDB edited_world) ''42'' = Some edited_row" by (simp add: stored_row_def edited_world_def)
  from deletion_keeps_content [OF clock, THEN conjunct2, THEN mp, OF r] s show ?thesis
    by (auto simp: edited_row_def)
qed

end
