(* ===== verification/HistoryCoverage.thy ===== *)
theory HistoryCoverage
  imports HistorySync MessageEffects
begin

text \<open>
  What a crawl of a channel achieves, page by page: the laws of the server's pagination, the notion
  of coverage, and the outcome of the backfill walk, the forward walk and the full crawl built from
  them, for every failure of the database and every interruption.
\<close>

section \<open>Pages that are persisted\<close>

lemma keeps_requirePersistedScope: "keeps P (requirePersistedScope env cfg c)"
  unfolding requirePersistedScope_def ChannelCollectionAdmitted_def ChannelCollectionAllowed_def
  by (auto intro!: keeps_intros)

lemma keeps_buildMessageMutation: "keeps P (buildMessageMutation env name g emb m)"
  by (auto simp: keeps_def buildMessageMutation_def Let_def split: sum.split)

lemma keeps_build_mutations: "keeps P (build_mutations env name g emb ms acc newest)"
proof (induction ms arbitrary: acc newest)
  case (Cons m ms)
  have "keeps P (\<lambda>w. case buildMessageMutation env name g emb m w of (r, w1) \<Rightarrow>
      (case r of Inl e \<Rightarrow> (Inl e, w1) | Inr mu \<Rightarrow> build_mutations env name g emb ms
            (acc @ [mu\<lparr>mmOptions := (mmOptions mu)\<lparr>woEmbeddingCatchUp := True\<rparr>\<rparr>]) (maxSnowflake newest (gID m)) w1))"
    by (intro keeps_calls keeps_buildMessageMutation Cons.IH)
  then show ?case by (simp add: keeps_def)
qed (simp add: keeps_def)

text \<open>A predicate that does not read the failure ledger.\<close>

definition ledger_free :: "(db \<Rightarrow> bool) \<Rightarrow> bool" where
  "ledger_free P \<longleftrightarrow> (\<forall>d fs. P d \<longrightarrow> P (d\<lparr>dbFailures := fs\<rparr>))"

lemma keeps_ResolveMessageFailures:
  assumes "ledger_free P" shows "keeps P (ResolveMessageFailures env ref0 ids)"
proof (unfold keeps_def, intro allI impI)
  fix w :: world
  assume P: "P (wDB w)"
  let ?now = "envNow env (wTick w)"
  have F: "P d \<Longrightarrow> P (update_failures Q g d)" "P d \<Longrightarrow> P (prune_failures now d)" for d Q g now
    using assms by (auto simp: ledger_free_def update_failures_def prune_failures_def)
  have "keeps P (annotate f (db_exec env (\<lambda>_. update_failures Q g)))" for f Q g
    by (intro keeps_annotate keeps_exec F)
  then have "keeps P (andThen (sequence_actions (\<lambda>b. annotate f (db_exec env (\<lambda>_. update_failures (Q b) g))) bs)
      (pruneResolvedFailures env ?now))" for f Q g bs
    by (intro keeps_andThen keeps_sequence keeps_prune F)
  note run = keepsD [OF this P]
  show "P (wDB (snd (ResolveMessageFailures env ref0 ids w)))"
    unfolding ResolveMessageFailures_def Let_def using P by (auto intro: run)
qed

lemma keeps_resolveTail:
  assumes "ledger_free P" shows "keeps P (resolveTailMessageCreateFailuresForMessages env ms g)"
  unfolding resolveTailMessageCreateFailuresForMessages_def
  by (intro keeps_sequence) (auto intro: keeps_ResolveMessageFailures [OF assms])

lemma keeps_persistMessagePage:
  assumes "store_stable P" and "ledger_free P"
  shows "keeps P (persistMessagePage env cfg ms name g emb t)"
  unfolding persistMessagePage_def buildMessageMutations_def
  by (intro keeps_intros keeps_requirePersistedScope keeps_build_mutations keeps_resolveTail [OF assms(2)])
    (auto intro!: keeps_intros keeps_UpsertMessages [OF assms(1)] keeps_resolveTail [OF assms(2)] split: prod.split)

text \<open>What the crawl's own bookkeeping looks at: the cursors, and which messages have a row.\<close>

lemma persist_cursors: "sync_cursor (wDB (snd (persistMessagePage env cfg ms name g emb t w))) s = sync_cursor (wDB w) s"
proof -
  let ?P = "\<lambda>d. dbSyncState d = dbSyncState (wDB w)"
  have "store_stable ?P" by (rule store_stable_frame) simp
  moreover have "ledger_free ?P" by (simp add: ledger_free_def)
  ultimately have "keeps ?P (persistMessagePage env cfg ms name g emb t)" by (rule keeps_persistMessagePage)
  then have "?P (wDB (snd (persistMessagePage env cfg ms name g emb t w)))" by (simp add: keeps_def)
  then show ?thesis by (simp add: sync_cursor_def)
qed

lemma persist_rows:
  "has_row i (wDB w) \<Longrightarrow> has_row i (wDB (snd (persistMessagePage env cfg ms name g emb t w)))"
  using keepsD [OF keeps_persistMessagePage [OF store_stable_has_row [of i]], of w env cfg ms name g emb t]
  by (simp add: ledger_free_def has_row_def)

lemma buildMessageMutation_Inr:
  "buildMessageMutation env name g emb m w = (Inr mu, w') \<Longrightarrow> msID (mmRecord mu) = gID m"
  by (auto simp: buildMessageMutation_def toMessageRecord_def Let_def split: sum.splits)

lemma build_mutations_Inr:
  "build_mutations env name g emb ms acc newest w = (Inr (mus, top0), w') \<Longrightarrow>
     map (\<lambda>mu. msID (mmRecord mu)) mus = map (\<lambda>mu. msID (mmRecord mu)) acc @ map gID ms \<and>
     top0 = fold (\<lambda>m t. maxSnowflake t (gID m)) ms newest"
  by (induction ms arbitrary: acc newest w)
    (auto split: prod.splits sum.splits dest: buildMessageMutation_Inr)

lemma crawl_options_record [simp]: "mmRecord (crawl_options cfg t mu) = mmRecord mu"
  by (simp add: crawl_options_def Let_def)

lemma persist_success:
  assumes "persistMessagePage env cfg ms name g emb t w = (Inr top0, w')"
  shows "\<forall>m \<in> set ms. has_row (gID m) (wDB w')" and "top0 = fold (\<lambda>m t. maxSnowflake t (gID m)) ms []"
proof -
  have "(\<forall>m \<in> set ms. has_row (gID m) (wDB w')) \<and> top0 = fold (\<lambda>m t. maxSnowflake t (gID m)) ms []"
  proof (cases "ms = []")
    case False
    from assms False obtain mus w1 w2 w3 where b: "build_mutations env name g emb ms [] [] w1 = (Inr (mus, top0), w2)"
      and u: "UpsertMessages env (map (crawl_options cfg t) mus) w2 = (None, w3)"
      and r: "resolveTailMessageCreateFailuresForMessages env ms g w3 = (None, w')"
      by (auto simp: persistMessagePage_def buildMessageMutations_def value_call_def dest!: doThen_Inr bindCall_Inr)
    from build_mutations_Inr [OF b]
    have ids: "map (\<lambda>mu. msID (mmRecord mu)) mus = map gID ms" and top0: "top0 = fold (\<lambda>m t. maxSnowflake t (gID m)) ms []" by auto
    from u False ids have tx: "with_tx env (sequence_actions (upsert_mutation env) (map (crawl_options cfg t) mus)) w2 = (None, w3)"
      by (cases mus) (auto simp: UpsertMessages_def ok_def)
    have "has_row (gID m) (wDB w')" if "m \<in> set ms" for m
    proof -
      from that ids obtain mu where "mu \<in> set mus" "msID (mmRecord mu) = gID m"
        by (metis (no_types, lifting) image_iff image_set)
      then have "has_row (gID m) (wDB w3)"
        using sink.tx_success [OF tx, of "crawl_options cfg t mu"] by simp
      moreover have "keeps (has_row (gID m)) (resolveTailMessageCreateFailuresForMessages env ms g)"
        by (rule keeps_resolveTail) (simp add: ledger_free_def has_row_def)
      ultimately show ?thesis using r by (auto dest: keepsD)
    qed
    with top0 show ?thesis by blast
  qed (use assms in \<open>simp add: persistMessagePage_def value_call_def\<close>)
  then show "\<forall>m \<in> set ms. has_row (gID m) (wDB w')" and "top0 = fold (\<lambda>m t. maxSnowflake t (gID m)) ms []" by auto
qed

section \<open>What the server promises\<close>

text \<open>
  Pagination as the Discord documentation describes it. \<open>H\<close> is the standing history: the ids of
  the messages that are in the channel throughout the crawl. New messages may appear and others may
  be deleted between two requests; a page before \<open>b\<close> (before nothing: from the head) is newest
  first, lies below \<open>b\<close>, and misses no standing message above its last one, nor any at all below
  \<open>b\<close> when it is short. A page after \<open>a\<close>, newest first too, lies above \<open>a\<close> and misses no standing message below its
  newest one, nor any at all above \<open>a\<close> when it is short.
\<close>

definition page_before :: "string set \<Rightarrow> string \<Rightarrow> dmessage list \<Rightarrow> bool" where
  "page_before H b page \<longleftrightarrow>
     (\<forall>m \<in> set page. snowflake (gID m) \<and> (b \<noteq> [] \<longrightarrow> dec_val (gID m) < dec_val b)) \<and>
     sorted_wrt (\<lambda>m m'. dec_val (gID m') < dec_val (gID m)) page \<and>
     (\<forall>h \<in> H. (b = [] \<or> dec_val h < dec_val b) \<longrightarrow>
        (length page < 100 \<or> dec_val (gID (last page)) \<le> dec_val h) \<longrightarrow> h \<in> gID ` set page)"

definition page_after :: "string set \<Rightarrow> string \<Rightarrow> dmessage list \<Rightarrow> bool" where
  "page_after H a page \<longleftrightarrow>
     (\<forall>m \<in> set page. snowflake (gID m) \<and> dec_val a < dec_val (gID m)) \<and>
     sorted_wrt (\<lambda>m m'. dec_val (gID m') < dec_val (gID m)) page \<and>
     (\<forall>h \<in> H. dec_val a < dec_val h \<longrightarrow>
        (length page < 100 \<or> (\<exists>m \<in> set page. dec_val h \<le> dec_val (gID m))) \<longrightarrow> h \<in> gID ` set page)"

definition serves_history :: "env \<Rightarrow> string \<Rightarrow> string set \<Rightarrow> bool" where
  "serves_history env c H \<longleftrightarrow>
     (\<forall>h \<in> H. snowflake h) \<and>
     (\<forall>n b page. (b = [] \<or> snowflake b) \<longrightarrow> envMessages env n c b [] = Inr page \<longrightarrow> page_before H b page) \<and>
     (\<forall>n a page. snowflake a \<longrightarrow> envMessages env n c [] a = Inr page \<longrightarrow> page_after H a page)"

text \<open>All pages of the channel come from a finite stock of messages.\<close>

definition serves_within :: "env \<Rightarrow> string \<Rightarrow> string set \<Rightarrow> bool" where
  "serves_within env c U \<longleftrightarrow>
     finite U \<and> (\<forall>n b a page. envMessages env n c b a = Inr page \<longrightarrow> gID ` set page \<subseteq> U)"

section \<open>Coverage\<close>

text \<open>Every standing message from \<open>lo\<close> upwards is stored; every one between \<open>lo\<close> and \<open>hi\<close>.\<close>

definition covered :: "string set \<Rightarrow> string \<Rightarrow> db \<Rightarrow> bool" where
  "covered H lo d \<longleftrightarrow> (\<forall>h \<in> H. dec_val lo \<le> dec_val h \<longrightarrow> has_row h d)"

definition banded :: "string set \<Rightarrow> string \<Rightarrow> string \<Rightarrow> db \<Rightarrow> bool" where
  "banded H lo hi d \<longleftrightarrow> (\<forall>h \<in> H. dec_val lo \<le> dec_val h \<and> dec_val h \<le> dec_val hi \<longrightarrow> has_row h d)"

lemma covered_all: "covered H [] d \<longleftrightarrow> (\<forall>h \<in> H. has_row h d)"
  by (simp add: covered_def)

lemma covered_mono: "covered H lo d \<Longrightarrow> dec_val lo \<le> dec_val lo' \<Longrightarrow> covered H lo' d"
  by (auto simp: covered_def)

lemma covered_rows: "covered H lo d \<Longrightarrow> (\<And>i. has_row i d \<Longrightarrow> has_row i d') \<Longrightarrow> covered H lo d'"
  by (auto simp: covered_def)

lemma covered_banded: "covered H lo d \<Longrightarrow> banded H lo hi d"
  by (auto simp: covered_def banded_def)

lemma banded_rows: "banded H lo hi d \<Longrightarrow> (\<And>i. has_row i d \<Longrightarrow> has_row i d') \<Longrightarrow> banded H lo hi d'"
  by (auto simp: banded_def)

lemma covered_page:
  assumes "page_before H b page" and "\<forall>m \<in> set page. has_row (gID m) d" and "b = [] \<or> covered H b d"
  shows "covered H (gID (last page)) d" and "length page < 100 \<Longrightarrow> covered H [] d"
proof -
  have "has_row h d" if h: "h \<in> H" and low: "length page < 100 \<or> dec_val (gID (last page)) \<le> dec_val h" for h
  proof (cases "b = [] \<or> dec_val h < dec_val b")
    case True
    with assms(1) h low have "h \<in> gID ` set page" unfolding page_before_def by blast
    with assms(2) show ?thesis by auto
  next
    case False
    with assms(3) h show ?thesis by (simp add: covered_def)
  qed
  then show "covered H (gID (last page)) d" and "length page < 100 \<Longrightarrow> covered H [] d"
    by (simp_all add: covered_def)
qed

section \<open>Marks that tell the truth\<close>

text \<open>
  Compared with the archive \<open>d0\<close> a crawl started from, no row is lost, and each of the three marks
  is as it was or true: the backfill cursor has everything above it stored, the complete mark has
  everything stored, the checkpoint has everything above its position stored.
\<close>

definition marks_true :: "string set \<Rightarrow> string \<Rightarrow> db \<Rightarrow> db \<Rightarrow> bool" where
  "marks_true H c d0 d \<longleftrightarrow>
     (\<forall>i. has_row i d0 \<longrightarrow> has_row i d) \<and>
     (sync_cursor d (channelBackfillScope c) = sync_cursor d0 (channelBackfillScope c) \<or>
      covered H (sync_cursor d (channelBackfillScope c)) d) \<and>
     (sync_cursor d (channelHistoryCompleteScope c) = sync_cursor d0 (channelHistoryCompleteScope c) \<or> covered H [] d) \<and>
     (sync_cursor d (channelHistoryVerificationScope c) = sync_cursor d0 (channelHistoryVerificationScope c) \<or>
      (\<exists>cp. sync_cursor d (channelHistoryVerificationScope c) = checkpoint_json cp \<and> covered H (hvBefore cp) d))"

lemma marks_true_refl: "marks_true H c d d"
  by (simp add: marks_true_def)

lemma has_row_put [simp]: "has_row i (put_cursor s x now d) = has_row i d"
  by (simp add: has_row_def put_cursor_def)

lemma covered_put [simp]: "covered H lo (put_cursor s x now d) = covered H lo d"
  by (simp add: covered_def)

lemma keeps_set_backfill:
  "keeps (\<lambda>d. marks_true H c d0 d \<and> covered H b d) (SetSyncState env (channelBackfillScope c) b)"
  unfolding SetSyncState_def by (rule keeps_exec) (auto simp: marks_true_def)

lemma keeps_set_complete:
  "keeps (\<lambda>d. marks_true H c d0 d \<and> covered H [] d) (SetSyncState env (channelHistoryCompleteScope c) x)"
  unfolding SetSyncState_def by (rule keeps_exec) (auto simp: marks_true_def)

lemma keeps_save_checkpoint:
  "keeps (\<lambda>d. marks_true H c d0 d \<and> covered H b d)
     (saveHistoryVerificationCheckpoint env c \<lparr>hvLatest = l, hvBefore = b\<rparr>)"
proof -
  have "\<exists>cp. checkpoint_json \<lparr>hvLatest = l, hvBefore = b\<rparr> = checkpoint_json cp \<and> covered H (hvBefore cp) d" if "covered H b d" for d
    by (rule exI [of _ "\<lparr>hvLatest = l, hvBefore = b\<rparr>"]) (simp add: that)
  then show ?thesis
    unfolding SetSyncState_def saveHistoryVerificationCheckpoint_def
    by (intro keeps_exec) (auto simp: marks_true_def)
qed

lemma keeps_marks_other:
  assumes "\<And>d. dbMessages (f d) = dbMessages d"
    and "\<And>d. sync_cursor (f d) (channelBackfillScope c) = sync_cursor d (channelBackfillScope c)"
    and "\<And>d. sync_cursor (f d) (channelHistoryCompleteScope c) = sync_cursor d (channelHistoryCompleteScope c)"
    and "\<And>d. sync_cursor (f d) (channelHistoryVerificationScope c) = sync_cursor d (channelHistoryVerificationScope c)"
  shows "marks_true H c d0 (f d) = marks_true H c d0 d" and "covered H b (f d) = covered H b d"
  using assms by (simp_all add: marks_true_def covered_def has_row_def stored_row_def)

lemma keeps_advance:
  "keeps (\<lambda>d. marks_true H c d0 d \<and> (q \<longrightarrow> covered H b d)) (advanceChannelLatest env c m)"
proof (unfold keeps_def, intro allI impI)
  fix w :: world
  assume P: "marks_true H c d0 (wDB w) \<and> (q \<longrightarrow> covered H b (wDB w))"
  have "marks_true H c d0 (advance_stmt (channelLatestScope c) m now d) = marks_true H c d0 d"
    "covered H b (advance_stmt (channelLatestScope c) m now d) = covered H b d" for now d
    by (rule keeps_marks_other; simp add: advance_stmt_other)+
  with P advance_db [of env c m w]
  show "marks_true H c d0 (wDB (snd (advanceChannelLatest env c m w))) \<and>
      (q \<longrightarrow> covered H b (wDB (snd (advanceChannelLatest env c m w))))"
    by (auto simp: advanceChannelLatest_def)
qed

lemma keeps_persist:
  "keeps (\<lambda>d. marks_true H c d0 d \<and> (q \<longrightarrow> covered H b d)) (persistMessagePage env cfg ms name g emb t)"
proof (unfold keeps_def, intro allI impI)
  fix w :: world
  let ?d = "wDB (snd (persistMessagePage env cfg ms name g emb t w))"
  assume P: "marks_true H c d0 (wDB w) \<and> (q \<longrightarrow> covered H b (wDB w))"
  have rows: "has_row i (wDB w) \<Longrightarrow> has_row i ?d" for i by (rule persist_rows)
  have up: "covered H lo (wDB w) \<Longrightarrow> covered H lo ?d" for lo by (erule covered_rows, rule rows)
  from P have "marks_true H c d0 ?d" unfolding marks_true_def persist_cursors using rows up by blast
  with P up show "marks_true H c d0 ?d \<and> (q \<longrightarrow> covered H b ?d)" by blast
qed

lemma read_page_db: "wDB (snd (read_page env cfg ch b a w)) = wDB w"
proof -
  have "keeps (\<lambda>d. d = wDB w) (read_page env cfg ch b a)"
    unfolding read_page_def
    by (intro keeps_doThen keeps_requirePersistedScope) (simp add: keeps_def ChannelMessages_def)
  then show ?thesis by (simp add: keeps_def)
qed

lemma read_page_Inr:
  "read_page env cfg ch b a w = (Inr page, w') \<Longrightarrow> wDB w' = wDB w \<and> (\<exists>n. envMessages env n (cID ch) b a = Inr page)"
  using read_page_db [of env cfg ch b a w]
  by (auto simp: read_page_def ChannelMessages_def dest!: doThen_Inr)

lemma filter_since_zero [simp]: "filterMessagesSince page 0 = (page, False)"
  by (simp add: filterMessagesSince_def)

section \<open>One page of backfill\<close>

lemma stop_with_simps [simp]: "stop_with r s = (Stop e s', w') \<longleftrightarrow> e = fst r \<and> s' = s \<and> w' = snd r"
  "stop_with r s \<noteq> (More s', w')"
  by (auto simp: stop_with_def)

lemma SetSyncState_None: "SetSyncState env s x w = (None, w') \<Longrightarrow> sync_cursor (wDB w') s = x"
  by (auto simp: SetSyncState_def dest: db_exec_None)

lemma set_complete_outcome:
  assumes "marks_true H c d0 (wDB w)" and "covered H [] (wDB w)"
    and "r = SetSyncState env (channelHistoryCompleteScope c) ''1'' w"
  shows "marks_true H c d0 (wDB (snd r))" and "covered H [] (wDB (snd r))"
    and "fst r = None \<Longrightarrow> sync_cursor (wDB (snd r)) (channelHistoryCompleteScope c) \<noteq> []"
  using keepsD [OF keeps_set_complete, of H c d0 w env "''1''"] assms
    SetSyncState_None [of env "channelHistoryCompleteScope c" "''1''" w "snd r"]
  by (auto simp: prod_eq_iff)

text \<open>The outcome of a page, with no window and no lower time bound.\<close>

definition backfill_ok :: "string set \<Rightarrow> string \<Rightarrow> db \<Rightarrow> int \<Rightarrow> backfill \<Rightarrow> backfill page_step \<times> world \<Rightarrow> bool" where
  "backfill_ok H c d0 pageLimit s r \<longleftrightarrow>
     marks_true H c d0 (wDB (snd r)) \<and>
     (case fst r of
        More s' \<Rightarrow> bsWindow s' = None \<and> snowflake (bsBefore s') \<and> covered H (bsBefore s') (wDB (snd r)) \<and>
          (bsBefore s \<noteq> [] \<longrightarrow> dec_val (bsBefore s') < dec_val (bsBefore s))
      | Stop e s' \<Rightarrow> e = None \<and> pageLimit \<le> 0 \<longrightarrow>
          covered H [] (wDB (snd r)) \<and> sync_cursor (wDB (snd r)) (channelHistoryCompleteScope c) \<noteq> [])"

lemma leave_checkpoint_ok:
  assumes page: "page_before H (bsBefore s) page" "page \<noteq> []"
    and cov: "covered H (gID (last page)) (wDB w)" "length page < 100 \<Longrightarrow> covered H [] (wDB w)"
    and marks: "marks_true H (cID ch) d0 (wDB w)" and nw: "bsWindow s1 = None" "bsBefore s1 = bsBefore s"
  shows "backfill_ok H (cID ch) d0 lim s (leave_checkpoint env ch flr lim ver page s1 w)"
proof -
  let ?nb = "gID (last page)" and ?c = "cID ch"
  let ?P = "\<lambda>d. marks_true H ?c d0 d \<and> covered H ?nb d"
  let ?a = "andThen (if bsWindow s1 = None then SetSyncState env (channelBackfillScope ?c) ?nb else ok)
      (if ver = None then ok else saveHistoryVerificationCheckpoint env ?c \<lparr>hvLatest = maxSnowflake flr (bsNewest s1), hvBefore = ?nb\<rparr>)"
  have "last page \<in> set page" using page(2) by simp
  with page(1) have nb: "snowflake ?nb" "bsBefore s \<noteq> [] \<longrightarrow> dec_val ?nb < dec_val (bsBefore s)"
    by (auto simp: page_before_def)
  have ka: "keeps ?P ?a"
    by (intro keeps_andThen keeps_if keeps_set_backfill keeps_save_checkpoint keeps_ok)
  obtain r w1 where a: "?a w = (r, w1)" by force
  with keepsD [OF ka, of w] cov(1) marks have P1: "marks_true H ?c d0 (wDB w1)" "covered H ?nb (wDB w1)" by auto
  have rows: "keeps (covered H [] :: db \<Rightarrow> bool) ?a"
    unfolding saveHistoryVerificationCheckpoint_def SetSyncState_def by (intro keeps_intros) simp_all
  from keepsD [OF rows, of w] a cov(2) have C1: "length page < 100 \<Longrightarrow> covered H [] (wDB w1)" by auto
  show ?thesis
  proof (cases "length page = 100 \<and> (?nb = [] \<or> ?nb = bsBefore s1)")
    case True
    then show ?thesis using marks by (auto simp: leave_checkpoint_def Let_def backfill_ok_def)
  next
    case go: False
    then have step: "leave_checkpoint env ch flr lim ver page s1 w =
        (case r of Some e \<Rightarrow> (Stop (Some e) s1, w1) | None \<Rightarrow>
          if length page < 100 then short_page env ch ?nb s1 w1
          else if lim > 0 \<and> int (bsPages s1) \<ge> lim then (Stop None s1, w1)
          else (More (s1\<lparr>bsBefore := ?nb\<rparr>), w1))"
      using a by (auto simp: leave_checkpoint_def Let_def split: option.split)
    show ?thesis
    proof (cases r)
      case (Some e)
      then show ?thesis using step P1 by (simp add: backfill_ok_def)
    next
      case None
      show ?thesis
      proof (cases "length page < 100")
        case True
        let ?r = "SetSyncState env (channelHistoryCompleteScope ?c) ''1'' w1"
        have "leave_checkpoint env ch flr lim ver page s1 w = stop_with ?r s1"
          using step None True nw by (simp add: short_page_def)
        then show ?thesis
          using set_complete_outcome [OF P1(1) C1 [OF True] refl, of env]
          by (simp add: backfill_ok_def stop_with_def)
      next
        case False
        then show ?thesis using step None P1 nb nw by (auto simp: backfill_ok_def)
      qed
    qed
  qed
qed

text \<open>The head pointer follows a stored page, then the checkpoint is left.\<close>

lemma stored_page_ok:
  assumes page: "page_before H (bsBefore s) page" "page \<noteq> []" "\<forall>m \<in> set page. has_row (gID m) (wDB w)"
    and below: "bsBefore s = [] \<or> covered H (bsBefore s) (wDB w)"
    and marks: "marks_true H (cID ch) d0 (wDB w)" and nw: "bsWindow s1 = None" "bsBefore s1 = bsBefore s"
    and adv: "(if b then advanceChannelLatest env (cID ch) m else ok) w = (a, w')"
  shows "backfill_ok H (cID ch) d0 lim s
     (case a of Some e \<Rightarrow> (Stop (Some e) s1, w') | None \<Rightarrow> leave_checkpoint env ch flr lim ver page s1 w')"
proof -
  note cov = covered_page [OF page(1,3) below]
  have keep: "keeps (\<lambda>d. marks_true H (cID ch) d0 d \<and> (q \<longrightarrow> covered H lo d)) (if b then advanceChannelLatest env (cID ch) m else ok)"
    for q lo by (intro keeps_if keeps_advance keeps_ok)
  have P: "marks_true H (cID ch) d0 (wDB w')" "covered H (gID (last page)) (wDB w')" "length page < 100 \<Longrightarrow> covered H [] (wDB w')"
    using keepsD [OF keep [of True "gID (last page)"], of w] keepsD [OF keep [of "length page < 100" "[]"], of w]
      marks cov adv by auto
  show ?thesis
  proof (cases a)
    case (Some e)
    then show ?thesis using P by (simp add: backfill_ok_def)
  next
    case None
    then show ?thesis using leave_checkpoint_ok [OF page(1,2) P(2,3,1) nw] by simp
  qed
qed

lemma end_of_history_ok:
  assumes "bsWindow s1 = None" and "covered H [] (wDB w)" and "marks_true H (cID ch) d0 (wDB w)"
  shows "backfill_ok H (cID ch) d0 lim s (end_of_history env ch s1 w)"
  using set_complete_outcome [OF assms(3,2) refl, of env] assms(1)
  by (simp add: end_of_history_def backfill_ok_def stop_with_def)

lemma backfill_page_ok:
  assumes serves: "serves_history env (cID ch) H"
    and s: "bsWindow s = None" "bsBefore s = [] \<or> snowflake (bsBefore s) \<and> covered H (bsBefore s) (wDB w)"
    and marks: "marks_true H (cID ch) d0 (wDB w)"
  shows "backfill_ok H (cID ch) d0 lim s (backfill_page env cfg ch flr name emb 0 lim ver s w)"
proof -
  obtain r w1 where rd: "read_page env cfg ch (bsBefore s) [] w = (r, w1)" by force
  have w1: "wDB w1 = wDB w" using read_page_db [of env cfg ch "bsBefore s" "[]" w] rd by simp
  show ?thesis
  proof (cases r)
    case (Inl e)
    then show ?thesis using rd marks w1 by (simp add: backfill_page_def backfill_ok_def)
  next
    case (Inr page)
    from read_page_Inr [of env cfg ch "bsBefore s" "[]" w page w1] rd Inr serves s(2)
    have page: "page_before H (bsBefore s) page" unfolding serves_history_def by auto
    obtain p w2 where ps: "persistMessagePage env cfg page name (cGuildID ch) emb (envNow env (wTick w)) w1 = (p, w2)" by force
    have keep: "keeps (\<lambda>d. marks_true H (cID ch) d0 d \<and> (q \<longrightarrow> covered H lo d))
        (persistMessagePage env cfg page name (cGuildID ch) emb (envNow env (wTick w)))" for q lo by (rule keeps_persist)
    have P2: "marks_true H (cID ch) d0 (wDB w2)" "bsBefore s = [] \<or> covered H (bsBefore s) (wDB w2)"
      using keepsD [OF keep [of "bsBefore s \<noteq> []" "bsBefore s"], of w1] marks s(2) w1 ps by auto
    consider (empty) "page = []" | (failed) e where "page \<noteq> []" "p = Inl e" | (stored) top0 where "page \<noteq> []" "p = Inr top0"
      by (cases p) auto
    then show ?thesis
    proof cases
      case empty
      have "covered H [] (wDB w1)" using covered_page(2) [OF page, of "wDB w1"] s(2) w1 empty by auto
      with end_of_history_ok [OF s(1), of H w1 ch d0 lim s env] marks w1 show ?thesis
        using rd Inr empty by (simp add: backfill_page_def)
    next
      case failed
      then show ?thesis using rd Inr ps P2 by (simp add: backfill_page_def backfill_ok_def)
    next
      case stored
      define s1 where "s1 = s\<lparr>bsPages := bsPages s + 1, bsNewest := maxSnowflake (bsNewest s) top0,
          bsCount := bsCount s + length page\<rparr>"
      let ?b = "bsNewest s1 \<noteq> [] \<and> maxSnowflake flr (bsNewest s1) = bsNewest s1"
      have rows: "\<forall>m \<in> set page. has_row (gID m) (wDB w2)" using persist_success(1) ps stored(2) by blast
      obtain a w3 where adv: "(if ?b then advanceChannelLatest env (cID ch) (bsNewest s1) else ok) w2 = (a, w3)" by force
      have "backfill_page env cfg ch flr name emb 0 lim ver s w =
          (case a of Some e \<Rightarrow> (Stop (Some e) s1, w3) | None \<Rightarrow> leave_checkpoint env ch flr lim ver page s1 w3)"
        by (cases a) (simp_all only: backfill_page_def rd Inr prod.case sum.case option.case if_False stored
            filter_since_zero Let_def ps s1_def [symmetric] adv)
      then show ?thesis
        using stored_page_ok [where s = s and ?s1.0 = s1, OF page stored(1) rows P2(2,1) _ _ adv]
        by (simp add: s1_def s(1))
    qed
  qed
qed

section \<open>The backfill walk\<close>

definition backfill_inv :: "env \<Rightarrow> dchannel \<Rightarrow> string set \<Rightarrow> db \<Rightarrow> backfill \<Rightarrow> world \<Rightarrow> bool" where
  "backfill_inv env ch H d0 s w \<longleftrightarrow>
     serves_history env (cID ch) H \<and> bsWindow s = None \<and>
     (bsBefore s = [] \<or> snowflake (bsBefore s) \<and> covered H (bsBefore s) (wDB w)) \<and> marks_true H (cID ch) d0 (wDB w)"

definition backfill_out :: "string set \<Rightarrow> string \<Rightarrow> db \<Rightarrow> int \<Rightarrow> go_error option \<Rightarrow> backfill \<Rightarrow> world \<Rightarrow> bool" where
  "backfill_out H c d0 lim e s w \<longleftrightarrow> marks_true H c d0 (wDB w) \<and>
     (e = None \<and> lim \<le> 0 \<longrightarrow> covered H [] (wDB w) \<and> sync_cursor (wDB w) (channelHistoryCompleteScope c) \<noteq> [])"

interpretation backward: page_walk "backfill_page env cfg ch flr name emb 0 lim ver" "backfill_inv env ch H d0" "backfill_out H (cID ch) d0 lim"
  for env cfg ch flr name emb lim ver H d0
proof
  fix s w s' w'
  assume "backfill_inv env ch H d0 s w" and "backfill_page env cfg ch flr name emb 0 lim ver s w = (More s', w')"
  then show "backfill_inv env ch H d0 s' w'"
    using backfill_page_ok [of env ch H s w d0 lim cfg flr name emb ver] by (simp add: backfill_inv_def backfill_ok_def)
next
  fix s w e s' w'
  assume "backfill_inv env ch H d0 s w" and "backfill_page env cfg ch flr name emb 0 lim ver s w = (Stop e s', w')"
  then show "backfill_out H (cID ch) d0 lim e s' w'"
    using backfill_page_ok [of env ch H s w d0 lim cfg flr name emb ver]
    by (simp add: backfill_inv_def backfill_ok_def backfill_out_def)
qed

section \<open>The newest id of a page\<close>

lemma fold_maxSnowflake:
  assumes "\<forall>m \<in> set ms. snowflake (gID m)" and "t = [] \<or> snowflake t" and "t \<noteq> [] \<or> ms \<noteq> []"
  defines "r \<equiv> fold (\<lambda>m t. maxSnowflake t (gID m)) ms t"
  shows "snowflake r \<and> (r = t \<or> r \<in> gID ` set ms) \<and> dec_val t \<le> dec_val r \<and> (\<forall>m \<in> set ms. dec_val (gID m) \<le> dec_val r)"
  unfolding r_def using assms(1,2,3)
proof (induction ms arbitrary: t)
  case (Cons m ms)
  let ?u = "maxSnowflake t (gID m)"
  have u: "snowflake ?u" "?u = t \<or> ?u = gID m" "dec_val t \<le> dec_val ?u" "dec_val (gID m) \<le> dec_val ?u"
    using Cons.prems by (auto simp: maxSnowflake_snowflakes)
  have "snowflake (fold (\<lambda>m t. maxSnowflake t (gID m)) ms ?u) \<and>
      (fold (\<lambda>m t. maxSnowflake t (gID m)) ms ?u = ?u \<or> fold (\<lambda>m t. maxSnowflake t (gID m)) ms ?u \<in> gID ` set ms) \<and>
      dec_val ?u \<le> dec_val (fold (\<lambda>m t. maxSnowflake t (gID m)) ms ?u) \<and>
      (\<forall>m \<in> set ms. dec_val (gID m) \<le> dec_val (fold (\<lambda>m t. maxSnowflake t (gID m)) ms ?u))"
    by (rule Cons.IH) (use Cons.prems u snowflake_nonempty in auto)
  with u show ?case by auto
qed simp

lemma newest_of_page:
  assumes "\<forall>m \<in> set ms. snowflake (gID m)" and "ms \<noteq> []" and "t = fold (\<lambda>m t. maxSnowflake t (gID m)) ms []"
  shows "snowflake t" and "t \<in> gID ` set ms" and "\<forall>m \<in> set ms. dec_val (gID m) \<le> dec_val t"
proof -
  have "snowflake t \<and> (t = [] \<or> t \<in> gID ` set ms) \<and> (\<forall>m \<in> set ms. dec_val (gID m) \<le> dec_val t)"
    using fold_maxSnowflake [OF assms(1), of "[]"] assms(2,3) by blast
  moreover have "snowflake t \<Longrightarrow> t \<noteq> []" by (rule snowflake_nonempty)
  ultimately show "snowflake t" "t \<in> gID ` set ms" "\<forall>m \<in> set ms. dec_val (gID m) \<le> dec_val t" by blast+
qed

section \<open>The forward walk\<close>

definition span :: "string set \<Rightarrow> string \<Rightarrow> string \<Rightarrow> db \<Rightarrow> bool" where
  "span H a b d \<longleftrightarrow> (\<forall>h \<in> H. dec_val a < dec_val h \<and> dec_val h \<le> dec_val b \<longrightarrow> has_row h d)"

definition beyond :: "string set \<Rightarrow> string \<Rightarrow> db \<Rightarrow> bool" where
  "beyond H a d \<longleftrightarrow> (\<forall>h \<in> H. dec_val a < dec_val h \<longrightarrow> has_row h d)"

text \<open>
  A forward crawl from \<open>a\<close> loses no row, touches no mark but the head pointer, and moves the head
  pointer only over messages it stored.
\<close>

definition forward_true :: "string set \<Rightarrow> string \<Rightarrow> string \<Rightarrow> db \<Rightarrow> db \<Rightarrow> bool" where
  "forward_true H c a d0 d \<longleftrightarrow>
     (\<forall>i. has_row i d0 \<longrightarrow> has_row i d) \<and>
     (\<forall>s. s \<noteq> channelLatestScope c \<longrightarrow> sync_cursor d s = sync_cursor d0 s) \<and>
     (sync_cursor d (channelLatestScope c) = sync_cursor d0 (channelLatestScope c) \<or>
      span H a (sync_cursor d (channelLatestScope c)) d)"

lemma span_rows: "span H a b d \<Longrightarrow> (\<And>i. has_row i d \<Longrightarrow> has_row i d') \<Longrightarrow> span H a b d'"
  by (auto simp: span_def)

lemma has_row_advance [simp]: "has_row i (advance_stmt s m now d) = has_row i d"
  by (simp add: has_row_def stored_row_def)

lemma keeps_forward_persist:
  "keeps (\<lambda>d. forward_true H c a d0 d \<and> span H a b d) (persistMessagePage env cfg ms name g emb t)"
proof (unfold keeps_def, intro allI impI)
  fix w :: world
  let ?d = "wDB (snd (persistMessagePage env cfg ms name g emb t w))"
  assume P: "forward_true H c a d0 (wDB w) \<and> span H a b (wDB w)"
  have rows: "has_row i (wDB w) \<Longrightarrow> has_row i ?d" for i by (rule persist_rows)
  have up: "span H a x (wDB w) \<Longrightarrow> span H a x ?d" for x by (erule span_rows, rule rows)
  from P have "forward_true H c a d0 ?d" unfolding forward_true_def persist_cursors using rows up by blast
  with P up show "forward_true H c a d0 ?d \<and> span H a b ?d" by blast
qed

lemma keeps_forward_advance:
  "keeps (\<lambda>d. forward_true H c a d0 d \<and> span H a m d \<and> Q d) (advanceChannelLatest env c m)"
  if Q: "\<And>d now. Q (advance_stmt (channelLatestScope c) m now d) = Q d"
proof (unfold keeps_def, intro allI impI)
  fix w :: world
  assume P: "forward_true H c a d0 (wDB w) \<and> span H a m (wDB w) \<and> Q (wDB w)"
  have sp: "span H a x (advance_stmt s m now d) = span H a x d" for x s now d by (simp add: span_def)
  have "forward_true H c a d0 (advance_stmt (channelLatestScope c) m now (wDB w))" for now
    using P by (auto simp: forward_true_def sp advance_stmt_other) (auto simp: advance_stmt_def)
  with P Q sp advance_db [of env c m w]
  show "forward_true H c a d0 (wDB (snd (advanceChannelLatest env c m w))) \<and>
      span H a m (wDB (snd (advanceChannelLatest env c m w))) \<and> Q (wDB (snd (advanceChannelLatest env c m w)))"
    by (auto simp: advanceChannelLatest_def)
qed

definition forward_inv :: "env \<Rightarrow> dchannel \<Rightarrow> string set \<Rightarrow> string \<Rightarrow> db \<Rightarrow> forward \<Rightarrow> world \<Rightarrow> bool" where
  "forward_inv env ch H a d0 s w \<longleftrightarrow>
     serves_history env (cID ch) H \<and> snowflake (fsAfter s) \<and> fsNewest s = fsAfter s \<and> dec_val a \<le> dec_val (fsAfter s) \<and>
     forward_true H (cID ch) a d0 (wDB w) \<and> span H a (fsAfter s) (wDB w)"

definition forward_out :: "string set \<Rightarrow> string \<Rightarrow> string \<Rightarrow> db \<Rightarrow> go_error option \<Rightarrow> forward \<Rightarrow> world \<Rightarrow> bool" where
  "forward_out H c a d0 e s w \<longleftrightarrow>
     forward_true H c a d0 (wDB w) \<and> snowflake (fsNewest s) \<and> dec_val a \<le> dec_val (fsNewest s) \<and>
     (e = None \<longrightarrow> beyond H a (wDB w) \<and> span H a (fsNewest s) (wDB w))"

lemma span_page:
  assumes page: "page_after H x page" and rows: "\<forall>m \<in> set page. has_row (gID m) d" and sp: "span H a x d"
  shows "\<forall>m \<in> set page. dec_val (gID m) \<le> dec_val t \<Longrightarrow> t \<in> gID ` set page \<Longrightarrow> span H a t d"
    and "length page < 100 \<Longrightarrow> beyond H a d"
proof -
  have "has_row h d" if "h \<in> H" "dec_val a < dec_val h"
    "length page < 100 \<or> (\<exists>m \<in> set page. dec_val h \<le> dec_val (gID m))" for h
  proof (cases "dec_val x < dec_val h")
    case True
    with page that have "h \<in> gID ` set page" unfolding page_after_def by blast
    with rows show ?thesis by auto
  next
    case False
    with sp that show ?thesis by (simp add: span_def)
  qed
  then show "\<forall>m \<in> set page. dec_val (gID m) \<le> dec_val t \<Longrightarrow> t \<in> gID ` set page \<Longrightarrow> span H a t d"
    and "length page < 100 \<Longrightarrow> beyond H a d"
    by (auto simp: span_def beyond_def)
qed

lemma beyond_span: "beyond H a d \<Longrightarrow> span H a b d"
  by (auto simp: beyond_def span_def)

text \<open>The outcome of one forward page.\<close>

definition forward_ok :: "string set \<Rightarrow> string \<Rightarrow> string \<Rightarrow> db \<Rightarrow> forward page_step \<times> world \<Rightarrow> bool" where
  "forward_ok H c a d0 r \<longleftrightarrow>
     forward_true H c a d0 (wDB (snd r)) \<and>
     (case fst r of
        More s' \<Rightarrow> snowflake (fsAfter s') \<and> fsNewest s' = fsAfter s' \<and> dec_val a \<le> dec_val (fsAfter s') \<and>
          span H a (fsAfter s') (wDB (snd r))
      | Stop e s' \<Rightarrow> snowflake (fsNewest s') \<and> dec_val a \<le> dec_val (fsNewest s') \<and>
          (e = None \<longrightarrow> beyond H a (wDB (snd r)) \<and> span H a (fsNewest s') (wDB (snd r))))"

lemma forward_stored_ok:
  assumes inv: "forward_inv env ch H a d0 s w0"
    and page: "page_after H (fsAfter s) page" "page \<noteq> []" "\<forall>m \<in> set page. has_row (gID m) (wDB w)"
    and P: "forward_true H (cID ch) a d0 (wDB w)" "span H a (fsAfter s) (wDB w)"
    and t: "t = fold (\<lambda>m t. maxSnowflake t (gID m)) page []"
    and s1: "fsNewest s1 = maxSnowflake (fsNewest s) t" "fsAfter s1 = fsAfter s"
    and adv: "advanceChannelLatest env (cID ch) (fsNewest s1) w = (r, w')"
  shows "forward_ok H (cID ch) a d0
    (case r of Some e \<Rightarrow> (Stop (Some e) s1, w') | None \<Rightarrow>
       if length page < 100 then (Stop None s1, w')
       else let nextAfter = maxSnowflake (fsAfter s) t in
            if nextAfter = [] then (Stop (Some (missing_id_error ch)) s1, w')
            else if nextAfter = fsAfter s then (Stop (Some (stuck_cursor_error ch)) s1, w')
            else (More (s1\<lparr>fsAfter := nextAfter\<rparr>), w'))"
proof -
  have ids: "\<forall>m \<in> set page. snowflake (gID m)" using page(1) by (simp add: page_after_def)
  note T = newest_of_page [OF ids page(2) t]
  with page(1) have above: "dec_val (fsAfter s) < dec_val t" unfolding page_after_def by blast
  from inv have I: "snowflake (fsAfter s)" "fsNewest s = fsAfter s" "dec_val a \<le> dec_val (fsAfter s)"
    by (auto simp: forward_inv_def)
  with T above have mx: "maxSnowflake (fsAfter s) t = t" by (simp add: maxSnowflake_snowflakes)
  then have new: "fsNewest s1 = t" using s1 I(2) by simp
  have sp: "span H a t (wDB w)" and full: "length page < 100 \<Longrightarrow> beyond H a (wDB w)"
    using span_page [OF page(1,3) P(2)] T by blast+
  let ?Q = "\<lambda>d. length page < 100 \<longrightarrow> beyond H a d"
  have "keeps (\<lambda>d. forward_true H (cID ch) a d0 d \<and> span H a t d \<and> ?Q d) (advanceChannelLatest env (cID ch) t)"
    by (rule keeps_forward_advance) (simp add: beyond_def)
  from keepsD [OF this, of w] P sp full adv new
  have K: "forward_true H (cID ch) a d0 (wDB w')" "span H a t (wDB w')" "?Q (wDB w')" by auto
  have le: "dec_val a \<le> dec_val t" using I(3) above by simp
  show ?thesis using K T(1) le new mx s1 by (auto simp: forward_ok_def Let_def split: option.split)
qed

lemma forward_page_ok:
  assumes inv: "forward_inv env ch H a d0 s w"
  shows "forward_ok H (cID ch) a d0 (forward_page env cfg ch emb s w)"
proof -
  from inv have I: "serves_history env (cID ch) H" "snowflake (fsAfter s)" "fsNewest s = fsAfter s"
    "dec_val a \<le> dec_val (fsAfter s)" "forward_true H (cID ch) a d0 (wDB w)" "span H a (fsAfter s) (wDB w)"
    by (auto simp: forward_inv_def)
  obtain r w1 where rd: "read_page env cfg ch [] (fsAfter s) w = (r, w1)" by force
  have w1: "wDB w1 = wDB w" using read_page_db [of env cfg ch "[]" "fsAfter s" w] rd by simp
  show ?thesis
  proof (cases r)
    case (Inl e)
    then show ?thesis using rd I w1 by (simp add: forward_page_def forward_ok_def)
  next
    case (Inr page)
    from read_page_Inr [of env cfg ch "[]" "fsAfter s" w page w1] rd Inr I(1,2)
    have page: "page_after H (fsAfter s) page" unfolding serves_history_def by auto
    obtain p w2 where ps: "persistMessagePage env cfg page (cName ch) (cGuildID ch) emb (envNow env (wTick w)) w1 = (p, w2)" by force
    have P2: "forward_true H (cID ch) a d0 (wDB w2)" "span H a (fsAfter s) (wDB w2)"
      using keeps_forward_persist [of H "cID ch" a d0 "fsAfter s" env cfg page "cName ch" "cGuildID ch" emb "envNow env (wTick w)"]
        I w1 ps by (auto dest!: keepsD [where w = w1])
    consider (empty) "page = []" | (failed) e where "page \<noteq> []" "p = Inl e" | (stored) t where "page \<noteq> []" "p = Inr t"
      by (cases p) auto
    then show ?thesis
    proof cases
      case empty
      have "beyond H a (wDB w1)" using span_page(2) [OF page, of "wDB w1" a] I(6) w1 empty by simp
      then show ?thesis using rd Inr empty I w1 by (simp add: forward_page_def forward_ok_def)
    next
      case failed
      then show ?thesis using rd Inr ps P2 I by (simp add: forward_page_def forward_ok_def)
    next
      case stored
      note ps' = ps [unfolded stored(2)]
      define s1 where "s1 = s\<lparr>fsNewest := maxSnowflake (fsNewest s) t, fsCount := fsCount s + length page\<rparr>"
      obtain x w3 where adv: "advanceChannelLatest env (cID ch) (fsNewest s1) w2 = (x, w3)" by force
      have "forward_page env cfg ch emb s w = (case x of Some e \<Rightarrow> (Stop (Some e) s1, w3) | None \<Rightarrow>
         if length page < 100 then (Stop None s1, w3)
         else let nextAfter = maxSnowflake (fsAfter s) t in
            if nextAfter = [] then (Stop (Some (missing_id_error ch)) s1, w3)
            else if nextAfter = fsAfter s then (Stop (Some (stuck_cursor_error ch)) s1, w3)
            else (More (s1\<lparr>fsAfter := nextAfter\<rparr>), w3))"
        by (cases x) (simp_all only: forward_page_def rd Inr prod.case sum.case option.case if_False stored
            Let_def ps s1_def [symmetric] adv)
      then show ?thesis
        using forward_stored_ok [OF inv page stored(1) persist_success(1) [OF ps'] P2 persist_success(2) [OF ps'] _ _ adv]
        by (simp add: s1_def)
    qed
  qed
qed

interpretation forwards: page_walk "forward_page env cfg ch emb" "forward_inv env ch H a d0" "forward_out H (cID ch) a d0"
  for env cfg ch emb H a d0
proof
  fix s w s' w'
  assume i: "forward_inv env ch H a d0 s w" and "forward_page env cfg ch emb s w = (More s', w')"
  with forward_page_ok [OF i, of cfg emb] show "forward_inv env ch H a d0 s' w'"
    by (simp add: forward_inv_def forward_ok_def)
next
  fix s w e s' w'
  assume i: "forward_inv env ch H a d0 s w" and "forward_page env cfg ch emb s w = (Stop e s', w')"
  with forward_page_ok [OF i, of cfg emb] show "forward_out H (cID ch) a d0 e s' w'"
    by (simp add: forward_out_def forward_ok_def)
qed

section \<open>The cursors of a channel\<close>

text \<open>
  The cursors of a channel tell the truth: every standing message between the backfill cursor and
  the head pointer is stored, and when the history is marked complete, every one up to the head
  pointer. They tell the whole truth (\<open>crawl_front\<close>) when this holds beyond the head pointer too.
\<close>

definition crawl_sound :: "string set \<Rightarrow> string \<Rightarrow> db \<Rightarrow> bool" where
  "crawl_sound H c d \<longleftrightarrow>
     (sync_cursor d (channelBackfillScope c) \<noteq> [] \<longrightarrow>
        banded H (sync_cursor d (channelBackfillScope c)) (sync_cursor d (channelLatestScope c)) d) \<and>
     (sync_cursor d (channelHistoryCompleteScope c) \<noteq> [] \<longrightarrow> banded H [] (sync_cursor d (channelLatestScope c)) d)"

definition crawl_front :: "string set \<Rightarrow> string \<Rightarrow> db \<Rightarrow> bool" where
  "crawl_front H c d \<longleftrightarrow>
     (sync_cursor d (channelBackfillScope c) \<noteq> [] \<longrightarrow> covered H (sync_cursor d (channelBackfillScope c)) d) \<and>
     (sync_cursor d (channelHistoryCompleteScope c) \<noteq> [] \<longrightarrow> covered H [] d)"

lemma front_sound: "crawl_front H c d \<Longrightarrow> crawl_sound H c d"
  by (auto simp: crawl_front_def crawl_sound_def intro: covered_banded)

lemma banded_span: "banded H lo a d \<Longrightarrow> span H a b d \<Longrightarrow> banded H lo b d"
  unfolding banded_def span_def by (meson not_le)

lemma banded_beyond: "banded H lo a d \<Longrightarrow> beyond H a d \<Longrightarrow> covered H lo d"
  unfolding banded_def beyond_def covered_def by (meson not_le)

text \<open>A forward crawl from the head pointer, interrupted anywhere, leaves truthful cursors.\<close>

lemma forward_sound:
  assumes "crawl_sound H c d0" and "forward_true H c (sync_cursor d0 (channelLatestScope c)) d0 d"
  shows "crawl_sound H c d"
proof -
  let ?L = "channelLatestScope c" and ?a = "sync_cursor d0 (channelLatestScope c)"
  from assms(2) have rows: "\<And>i. has_row i d0 \<Longrightarrow> has_row i d" and same: "\<And>s. s \<noteq> ?L \<Longrightarrow> sync_cursor d s = sync_cursor d0 s"
    and L: "sync_cursor d ?L = ?a \<or> span H ?a (sync_cursor d ?L) d" by (auto simp: forward_true_def)
  have up: "banded H lo ?a d0 \<Longrightarrow> banded H lo (sync_cursor d ?L) d" for lo
    using L banded_rows [of H lo ?a d0 d] rows banded_span by metis
  show ?thesis using assms(1) up by (simp add: crawl_sound_def same)
qed

text \<open>One that reached the end leaves the whole truth, wherever the head pointer stands.\<close>

lemma forward_front:
  assumes "crawl_sound H c d0" and "forward_true H c (sync_cursor d0 (channelLatestScope c)) d0 d"
    and "beyond H (sync_cursor d0 (channelLatestScope c)) d"
  shows "crawl_front H c d"
proof -
  let ?a = "sync_cursor d0 (channelLatestScope c)"
  from assms(2) have rows: "\<And>i. has_row i d0 \<Longrightarrow> has_row i d"
    and same: "\<And>s. s \<noteq> channelLatestScope c \<Longrightarrow> sync_cursor d s = sync_cursor d0 s" by (auto simp: forward_true_def)
  have "banded H lo ?a d0 \<Longrightarrow> covered H lo d" for lo using banded_rows [of H lo ?a d0 d] rows banded_beyond assms(3) by metis
  then show ?thesis using assms(1) by (simp add: crawl_sound_def crawl_front_def same)
qed

lemma marks_front:
  assumes "crawl_front H c d0" and "marks_true H c d0 d"
  shows "crawl_front H c d"
proof -
  from assms(2) have rows: "\<And>i. has_row i d0 \<Longrightarrow> has_row i d" by (simp add: marks_true_def)
  have up: "covered H lo d0 \<Longrightarrow> covered H lo d" for lo by (erule covered_rows) (rule rows)
  from assms up show ?thesis unfolding crawl_front_def marks_true_def by metis
qed

text \<open>Statements on the head pointer alone.\<close>

definition head_only :: "string \<Rightarrow> (db \<Rightarrow> bool) \<Rightarrow> bool" where
  "head_only c P \<longleftrightarrow> (\<forall>d x now. P d \<longrightarrow> P (put_cursor (channelLatestScope c) x now d))"

lemma keeps_head:
  assumes "head_only c P"
  shows "keeps P (advanceChannelLatest env c m)" and "keeps P (EnsureChannelLatestMessageState env c)"
    and "keeps P (settle_latest env c st newest)"
proof -
  have p: "P d \<Longrightarrow> P (put_cursor (channelLatestScope c) x now d)" for d x now using assms by (simp add: head_only_def)
  show a: "keeps P (advanceChannelLatest env c m)" for m
  proof (unfold keeps_def, intro allI impI)
    fix w :: world assume "P (wDB w)"
    with advance_db [of env c m w] p show "P (wDB (snd (advanceChannelLatest env c m w)))"
      by (auto simp: advanceChannelLatest_def advance_stmt_def)
  qed
  have "keeps P (db_exec env (\<lambda>now d. if map_of (dbSyncState d) (channelLatestScope c) = None
      then put_cursor (channelLatestScope c) [] now d else d))"
    by (rule keeps_exec) (simp add: p)
  then show e: "keeps P (EnsureChannelLatestMessageState env c)"
    unfolding keeps_def EnsureChannelLatestMessageState_def Let_def channelLatestScope_def [symmetric] by simp
  show "keeps P (settle_latest env c st newest)"
    unfolding settle_latest_def by (intro keeps_intros a e)
qed

lemma head_only_front: "head_only c (crawl_front H c)" "head_only c (covered H lo)" "head_only c (has_row i)"
  "head_only c (marks_true H c d0)" "s \<noteq> channelLatestScope c \<Longrightarrow> head_only c (\<lambda>d. sync_cursor d s = x)"
  by (auto simp: head_only_def crawl_front_def marks_true_def)

lemma head_only_conj: "head_only c P \<Longrightarrow> head_only c Q \<Longrightarrow> head_only c (\<lambda>d. P d \<and> Q d)"
  by (auto simp: head_only_def)

section \<open>A full crawl\<close>

lemma syncForwardPages_outcome:
  assumes "syncForwardPages fuel env cfg ch a emb w = Some ((e, f), w')" and "serves_history env (cID ch) H" and "snowflake a"
  shows "forward_out H (cID ch) a (wDB w) e f w'"
proof -
  have "span H a a (wDB w)" by (auto simp: span_def)
  with forwards.walk_outcome [OF assms(1) [unfolded syncForwardPages_def], of H a "wDB w"] assms(2,3) show ?thesis
    by (simp add: forward_inv_def forward_true_def)
qed

lemma syncBackfillPages_outcome:
  assumes "syncBackfillPages fuel env cfg ch before flr name emb 0 lim ver None w = Some ((e, s), w')"
    and "serves_history env (cID ch) H" and "before = [] \<or> snowflake before \<and> covered H before (wDB w)"
  shows "backfill_out H (cID ch) (wDB w) lim e s w'"
  using backward.walk_outcome [OF assms(1) [unfolded syncBackfillPages_def], of H "wDB w"] assms(2,3)
  by (simp add: backfill_inv_def marks_true_refl)

lemma full_forward_outcome:
  assumes run: "full_forward fuel env cfg ch st emb w = Some ((n, newest, e), w')"
    and serves: "serves_history env (cID ch) H" and a: "snowflake (csLatest st)"
  shows "forward_true H (cID ch) (csLatest st) (wDB w) (wDB w')"
    and "e = None \<Longrightarrow> beyond H (csLatest st) (wDB w')"
proof -
  let ?a = "csLatest st"
  from run snowflake_nonempty [OF a] obtain err f w1 where s: "syncForwardPages fuel env cfg ch ?a emb w = Some ((err, f), w1)"
    and r: "(case err of Some e \<Rightarrow> ((fsCount f, ?a, Some e), w1)
         | None \<Rightarrow> let newest = maxSnowflake ?a (fsNewest f) in
             case advanceChannelLatest env (cID ch) newest w1 of (r, w2) \<Rightarrow> ((fsCount f, newest, r), w2)) = ((n, newest, e), w')"
    by (auto simp: full_forward_def split: bind_splits)
  from syncForwardPages_outcome [OF s serves a]
  have O: "forward_true H (cID ch) ?a (wDB w) (wDB w1)" "snowflake (fsNewest f)" "dec_val ?a \<le> dec_val (fsNewest f)"
    "err = None \<Longrightarrow> beyond H ?a (wDB w1)" by (auto simp: forward_out_def)
  have "forward_true H (cID ch) ?a (wDB w) (wDB w') \<and> (e = None \<longrightarrow> beyond H ?a (wDB w'))"
  proof (cases err)
    case (Some x)
    with r O show ?thesis by auto
  next
    case None
    obtain x w2 where adv: "advanceChannelLatest env (cID ch) (maxSnowflake ?a (fsNewest f)) w1 = (x, w2)" by force
    have "keeps (\<lambda>d. forward_true H (cID ch) ?a (wDB w) d \<and> span H ?a (maxSnowflake ?a (fsNewest f)) d \<and> beyond H ?a d)
        (advanceChannelLatest env (cID ch) (maxSnowflake ?a (fsNewest f)))"
      by (rule keeps_forward_advance) (simp add: beyond_def)
    from keepsD [OF this, of w1] O None beyond_span adv
    have "forward_true H (cID ch) ?a (wDB w) (wDB w2)" "beyond H ?a (wDB w2)" by auto
    with r None adv show ?thesis by (auto simp: Let_def)
  qed
  then show "forward_true H (cID ch) ?a (wDB w) (wDB w')" and "e = None \<Longrightarrow> beyond H ?a (wDB w')" by auto
qed

definition backfill_start :: "channelSyncState \<Rightarrow> string" where
  "backfill_start st = (if csBackfillCursor st = [] \<and> csLatest st \<noteq> [] then csLatest st else csBackfillCursor st)"

lemma full_backfill_outcome:
  assumes run: "full_backfill fuel env cfg ch st emb 0 ver newest w = Some ((n, top0, e), w')"
    and serves: "serves_history env (cID ch) H"
    and start: "backfill_start st = [] \<or> snowflake (backfill_start st) \<and> covered H (backfill_start st) (wDB w)"
    and open0: "\<not> csBackfillComplete st"
  shows "marks_true H (cID ch) (wDB w) (wDB w')"
    and "e = None \<Longrightarrow> covered H [] (wDB w') \<and> sync_cursor (wDB w') (channelHistoryCompleteScope (cID ch)) \<noteq> []"
proof -
  from run open0 obtain s where "syncBackfillPages fuel env cfg ch (backfill_start st) newest (cName ch) emb 0 0 ver None w = Some ((e, s), w')"
    by (auto simp: full_backfill_def backfill_start_def Let_def split: bind_splits)
  from syncBackfillPages_outcome [OF this serves start]
  show "marks_true H (cID ch) (wDB w) (wDB w')"
    and "e = None \<Longrightarrow> covered H [] (wDB w') \<and> sync_cursor (wDB w') (channelHistoryCompleteScope (cID ch)) \<noteq> []"
    by (auto simp: backfill_out_def)
qed

text \<open>
  The three ways a full crawl ends: in its forward phase, in its backfill phase, or at the head
  pointer. \<open>w1\<close> is the archive after the forward phase.
\<close>

lemma syncFull_cases:
  assumes "syncFullChannelHistory fuel env cfg ch st emb 0 ver w = Some ((n, e), w')"
  obtains (forward) n1 newest1 where "full_forward fuel env cfg ch st emb w = Some ((n1, newest1, e), w')" "e \<noteq> None"
  | (backfill) n1 newest1 w1 n2 newest2 where "full_forward fuel env cfg ch st emb w = Some ((n1, newest1, None), w1)"
      "full_backfill fuel env cfg ch st emb 0 ver newest1 w1 = Some ((n2, newest2, e), w')" "e \<noteq> None"
  | (settled) n1 newest1 w1 n2 newest2 w2 where "full_forward fuel env cfg ch st emb w = Some ((n1, newest1, None), w1)"
      "full_backfill fuel env cfg ch st emb 0 ver newest1 w1 = Some ((n2, newest2, None), w2)"
      "settle_latest env (cID ch) st newest2 w2 = (e, w')"
  using assms unfolding syncFullChannelHistory_def
  by (auto split: bind_splits if_splits prod.splits)

text \<open>What a crawl starts from: nothing, or a head pointer with everything stored down to its start.\<close>

definition start_true :: "string set \<Rightarrow> channelSyncState \<Rightarrow> db \<Rightarrow> bool" where
  "start_true H st d \<longleftrightarrow>
     (if csLatest st = [] then csBackfillCursor st = []
      else snowflake (csLatest st) \<and> snowflake (backfill_start st) \<and>
           (\<not> csBackfillComplete st \<longrightarrow> banded H (backfill_start st) (csLatest st) d))"

lemma start_covered:
  assumes start: "start_true H st (wDB w)" and fw: "full_forward fuel env cfg ch st emb w = Some ((n, newest, None), w1)"
    and serves: "serves_history env (cID ch) H" and open0: "\<not> csBackfillComplete st"
  shows "backfill_start st = [] \<or> snowflake (backfill_start st) \<and> covered H (backfill_start st) (wDB w1)"
proof (cases "csLatest st = []")
  case True
  with start show ?thesis by (simp add: start_true_def backfill_start_def)
next
  case False
  with start have a: "snowflake (csLatest st)" "snowflake (backfill_start st)" "banded H (backfill_start st) (csLatest st) (wDB w)"
    using open0 by (auto simp: start_true_def)
  note F = full_forward_outcome [OF fw serves a(1)]
  have "banded H (backfill_start st) (csLatest st) (wDB w1)"
    using banded_rows [OF a(3), of "wDB w1"] F(1) by (auto simp: forward_true_def)
  with a(2) F(2) banded_beyond show ?thesis by blast
qed

lemma full_forward_none: "csLatest st = [] \<Longrightarrow> full_forward fuel env cfg ch st emb w = Some ((n, newest, e), w') \<Longrightarrow> e = None \<and> w' = w"
  by (auto simp: full_forward_def)

end
