(* ===== verification/HistoryEffects.thy ===== *)
theory HistoryEffects
  imports HistoryCoverage
begin

text \<open>
  The properties of the history crawl: a full crawl is resumable, verification never marks a
  partial history complete and is retried after a failure, and every path of a channel returns. A
  reference server shows that the laws of the server can hold, for every stock of messages.
\<close>

section \<open>Resumption\<close>

definition state_of :: "string \<Rightarrow> db \<Rightarrow> channelSyncState \<Rightarrow> bool" where
  "state_of c d st \<longleftrightarrow>
     csLatest st = sync_cursor d (channelLatestScope c) \<and> csBackfillCursor st = sync_cursor d (channelBackfillScope c) \<and>
     csBackfillComplete st = (sync_cursor d (channelHistoryCompleteScope c) \<noteq> [])"

text \<open>The forward phase keeps the cursors true; when it succeeds they tell the whole truth.\<close>

lemma forward_phase:
  assumes ff: "full_forward fuel env cfg ch st emb w = Some ((k, t, e), v)" and serves: "serves_history env (cID ch) H"
    and st: "state_of (cID ch) (wDB w) st" "start_true H st (wDB w)" and sound: "crawl_sound H (cID ch) (wDB w)"
    and fresh: "csLatest st = [] \<longrightarrow> \<not> csBackfillComplete st"
  shows "crawl_sound H (cID ch) (wDB v)" and "e = None \<Longrightarrow> crawl_front H (cID ch) (wDB v)"
    and "has_row i (wDB w) \<Longrightarrow> has_row i (wDB v)"
    and "sync_cursor (wDB v) (channelHistoryCompleteScope (cID ch)) = sync_cursor (wDB w) (channelHistoryCompleteScope (cID ch))"
proof -
  let ?c = "cID ch"
  have "crawl_sound H ?c (wDB v) \<and> (e = None \<longrightarrow> crawl_front H ?c (wDB v)) \<and> (has_row i (wDB w) \<longrightarrow> has_row i (wDB v)) \<and>
      sync_cursor (wDB v) (channelHistoryCompleteScope ?c) = sync_cursor (wDB w) (channelHistoryCompleteScope ?c)"
  proof (cases "csLatest st = []")
    case True
    then show ?thesis using full_forward_none [OF True ff] fresh st sound
      by (auto simp: state_of_def start_true_def crawl_front_def)
  next
    case False
    then have "snowflake (csLatest st)" using st(2) by (simp add: start_true_def)
    note F = full_forward_outcome [OF ff serves this]
    have a: "csLatest st = sync_cursor (wDB w) (channelLatestScope ?c)" using st(1) by (simp add: state_of_def)
    show ?thesis using F forward_sound [OF sound] forward_front [OF sound] unfolding a by (auto simp: forward_true_def)
  qed
  then show "crawl_sound H ?c (wDB v)" and "e = None \<Longrightarrow> crawl_front H ?c (wDB v)" and "has_row i (wDB w) \<Longrightarrow> has_row i (wDB v)"
    and "sync_cursor (wDB v) (channelHistoryCompleteScope ?c) = sync_cursor (wDB w) (channelHistoryCompleteScope ?c)" by auto
qed

text \<open>The backfill phase starts from the whole truth and keeps it; when it succeeds nothing is missing.\<close>

lemma backfill_phase:
  assumes bf: "full_backfill fuel env cfg ch st emb 0 None newest w1 = Some ((k, t, e), v)"
    and ff: "full_forward fuel env cfg ch st emb w = Some ((k1, newest, None), w1)"
    and serves: "serves_history env (cID ch) H" and st: "start_true H st (wDB w)" and front: "crawl_front H (cID ch) (wDB w1)"
    and complete: "csBackfillComplete st = (sync_cursor (wDB w1) (channelHistoryCompleteScope (cID ch)) \<noteq> [])"
  shows "crawl_front H (cID ch) (wDB v) \<and> (e = None \<longrightarrow> covered H [] (wDB v)) \<and> (has_row i (wDB w1) \<longrightarrow> has_row i (wDB v))"
proof (cases "csBackfillComplete st")
  case True
  then show ?thesis using bf front complete by (auto simp: full_backfill_def crawl_front_def)
next
  case False
  note M = full_backfill_outcome [OF bf serves start_covered [OF st ff serves False] False]
  have "crawl_front H (cID ch) (wDB v)" using marks_front [OF front M(1)] .
  with M show ?thesis by (auto simp: marks_true_def)
qed


section \<open>Verification of a complete history\<close>

lemma forward_marks: "forward_true H c a d0 d \<Longrightarrow> marks_true H c d0 d"
  by (auto simp: forward_true_def marks_true_def)

lemma marks_true_trans:
  assumes "marks_true H c d0 d1" and "marks_true H c d1 d2"
  shows "marks_true H c d0 d2"
proof -
  from assms(2) have rows: "\<And>i. has_row i d1 \<Longrightarrow> has_row i d2" by (simp add: marks_true_def)
  have up: "covered H lo d1 \<Longrightarrow> covered H lo d2" for lo by (erule covered_rows) (rule rows)
  from assms up show ?thesis unfolding marks_true_def by metis
qed

lemma full_crawl_marks:
  assumes run: "syncFullChannelHistory fuel env cfg ch st emb 0 ver w = Some ((n, e), w')"
    and serves: "serves_history env (cID ch) H" and st: "start_true H st (wDB w)" and open0: "\<not> csBackfillComplete st"
  shows "marks_true H (cID ch) (wDB w) (wDB w') \<and>
    (e = None \<longrightarrow> covered H [] (wDB w') \<and> sync_cursor (wDB w') (channelHistoryCompleteScope (cID ch)) \<noteq> [])"
proof -
  let ?c = "cID ch"
  have fwd: "marks_true H ?c (wDB w) (wDB v)" if ff: "full_forward fuel env cfg ch st emb w = Some ((k, t, e1), v)" for k t e1 v
  proof (cases "csLatest st = []")
    case True
    then show ?thesis using full_forward_none [OF True ff] by (simp add: marks_true_refl)
  next
    case False
    then have "snowflake (csLatest st)" using st by (simp add: start_true_def)
    then show ?thesis using full_forward_outcome(1) [OF ff serves] forward_marks by blast
  qed
  note bk = full_backfill_outcome [OF _ serves start_covered [OF st _ serves open0] open0]
  show ?thesis
    using run
  proof (cases rule: syncFull_cases)
    case forward
    then show ?thesis using fwd by blast
  next
    case backfill
    from marks_true_trans [OF fwd [OF backfill(1)] bk(1) [OF backfill(2,1)]] backfill(3) show ?thesis by auto
  next
    case (settled n1 newest1 w1 n2 newest2 w2)
    let ?P = "\<lambda>d. (marks_true H ?c (wDB w) d \<and> covered H [] d) \<and> sync_cursor d (channelHistoryCompleteScope ?c) =
        sync_cursor (wDB w2) (channelHistoryCompleteScope ?c)"
    have "keeps ?P (settle_latest env ?c st newest2)"
      by (intro keeps_head head_only_conj head_only_front) simp
    moreover have "?P (wDB w2)"
      using marks_true_trans [OF fwd [OF settled(1)] bk(1) [OF settled(2,1)]] bk(2) [OF settled(2,1)] by simp
    ultimately have "?P (wDB w')" using settled(3) unfolding keeps_def by (metis snd_conv)
    then show ?thesis using bk(2) [OF settled(2,1)] by simp
  qed
qed

definition has_messages :: "string \<Rightarrow> db \<Rightarrow> bool" where
  "has_messages c d \<longleftrightarrow> (\<exists>(i, r) \<in> set (dbMessages d). mrChannelID r = c)"

lemma ChannelHasMessages_Inr: "ChannelHasMessages env c w = (Inr b, w') \<Longrightarrow> c \<noteq> [] \<Longrightarrow> b = has_messages c (wDB w) \<and> wDB w' = wDB w"
  by (auto simp: ChannelHasMessages_def has_messages_def dest!: db_query_Inr)

lemma ChannelHasMessages_db: "wDB (snd (ChannelHasMessages env c w)) = wDB w"
  by (simp add: ChannelHasMessages_def)

text \<open>Restoring the complete mark changes nothing else, and does it only for a channel without rows.\<close>

lemma restore_outcome:
  assumes "restoreAfterFailedVerification env c e w = (r, w')" and "c \<noteq> []"
  shows "r \<noteq> None" and "dbMessages (wDB w') = dbMessages (wDB w)"
    and "wDB w' = wDB w \<or> (\<not> has_messages c (wDB w) \<and> (\<exists>now. wDB w' = put_cursor (channelHistoryCompleteScope c) ''1'' now (wDB w)))"
proof -
  obtain q w1 where rs: "restoreHistoryCompleteAfterFailedVerification env c w = (q, w1)" by force
  with assms(1) have r: "r = err_join [Some e, q]" and w1: "w' = w1" by (auto simp: restoreAfterFailedVerification_def)
  from r err_join_head [of e "[q]"] show "r \<noteq> None" by auto
  obtain x w2 where h: "ChannelHasMessages env c w = (x, w2)" by force
  have w2: "wDB w2 = wDB w" using ChannelHasMessages_db [of env c w] h by simp
  show "wDB w' = wDB w \<or> (\<not> has_messages c (wDB w) \<and> (\<exists>now. wDB w' = put_cursor (channelHistoryCompleteScope c) ''1'' now (wDB w)))"
  proof (cases "x = Inr False")
    case True
    then have "\<not> has_messages c (wDB w)" using ChannelHasMessages_Inr [of env c w False w2] h assms(2) by simp
    moreover have "(q, w1) = SetSyncState env (channelHistoryCompleteScope c) ''1'' w2"
      using rs h True assms(2) by (simp add: restoreHistoryCompleteAfterFailedVerification_def withResult_def)
    ultimately show ?thesis using db_exec_db [of env "put_cursor (channelHistoryCompleteScope c) ''1''" w2] w1 w2
      by (auto simp: SetSyncState_def) (metis snd_conv)+
  next
    case False
    with rs h w1 w2 assms(2) show ?thesis
      by (auto simp: restoreHistoryCompleteAfterFailedVerification_def withResult_def ok_def split: sum.splits if_splits)
  qed
  then show "dbMessages (wDB w') = dbMessages (wDB w)" by auto
qed

lemma recordVerified_frame:
  "keeps (\<lambda>d. P (dbMessages d) (sync_cursor d (channelHistoryCompleteScope c))) (recordVerifiedEmptyChannel env c)"
proof -
  have h: "keeps Q (ChannelHasMessages env c)" for Q using ChannelHasMessages_db by (simp add: keeps_def)
  show ?thesis
    unfolding recordVerifiedEmptyChannel_def SetSyncState_def DeleteSyncState_def
    by (intro keeps_intros h) simp_all
qed

lemma recordVerified_None:
  assumes "recordVerifiedEmptyChannel env c w = (None, w')" and "c \<noteq> []"
  shows "sync_cursor (wDB w') (channelHistoryVerificationScope c) = []"
proof -
  from assms obtain v where "DeleteSyncState env (channelHistoryVerificationScope c) v = (None, w')"
    by (auto simp: recordVerifiedEmptyChannel_def dest!: withResult_None andThen_None)
  then show ?thesis by (auto simp: DeleteSyncState_def dest!: db_exec_None)
qed

definition checkpoint_true :: "string set \<Rightarrow> historyVerificationCheckpoint option \<Rightarrow> db \<Rightarrow> bool" where
  "checkpoint_true H cp d \<longleftrightarrow>
     (case cp of None \<Rightarrow> True
      | Some cp \<Rightarrow> (hvLatest cp = [] \<and> hvBefore cp = []) \<or>
          (snowflake (hvLatest cp) \<and> snowflake (hvBefore cp) \<and> banded H (hvBefore cp) (hvLatest cp) d))"

lemma checkpoint_start: "checkpoint_true H (Some cp) d \<Longrightarrow> start_true H (checkpoint_state cp) d"
  by (auto simp: checkpoint_true_def start_true_def checkpoint_state_def backfill_start_def dest: snowflake_nonempty)

text \<open>The outcome of the crawl and of the bookkeeping behind it.\<close>

lemma verification_crawl_outcome:
  assumes run: "verification_crawl fuel env cfg ch cp emb w = Some ((n, e), w')"
    and serves: "serves_history env (cID ch) H" and cp: "checkpoint_true H (Some cp) (wDB w)"
    and c: "cID ch \<noteq> []" and off: "sync_cursor (wDB w) (channelHistoryCompleteScope (cID ch)) = []"
  shows "e = None \<longrightarrow> (\<forall>h \<in> H. has_row h (wDB w')) \<and> sync_cursor (wDB w') (channelHistoryCompleteScope (cID ch)) \<noteq> [] \<and>
      sync_cursor (wDB w') (channelHistoryVerificationScope (cID ch)) = []"
    and "sync_cursor (wDB w') (channelHistoryCompleteScope (cID ch)) \<noteq> [] \<longrightarrow>
      (\<forall>h \<in> H. has_row h (wDB w')) \<or> \<not> has_messages (cID ch) (wDB w')"
proof -
  let ?c = "cID ch" and ?C = "channelHistoryCompleteScope (cID ch)"
  from run obtain e1 w1 where s: "syncFullChannelHistory fuel env cfg ch (checkpoint_state cp) emb 0 (Some cp) w = Some ((n, e1), w1)"
    and k: "(case e1 of Some e \<Rightarrow> restoreAfterFailedVerification env ?c e | None \<Rightarrow> recordVerifiedEmptyChannel env ?c) w1 = (e, w')"
    by (auto simp: verification_crawl_def split: bind_splits prod.splits)
  have M: "marks_true H ?c (wDB w) (wDB w1)" "e1 = None \<Longrightarrow> covered H [] (wDB w1) \<and> sync_cursor (wDB w1) ?C \<noteq> []"
    using full_crawl_marks [OF s serves checkpoint_start [OF cp]] by (auto simp: checkpoint_state_def)
  have row: "has_row h d' = has_row h d" if "dbMessages d' = dbMessages d" for h d d'
    using that by (simp add: has_row_def stored_row_def)
  have "(e = None \<longrightarrow> (\<forall>h \<in> H. has_row h (wDB w')) \<and> sync_cursor (wDB w') ?C \<noteq> [] \<and>
      sync_cursor (wDB w') (channelHistoryVerificationScope ?c) = []) \<and>
    (sync_cursor (wDB w') ?C \<noteq> [] \<longrightarrow> (\<forall>h \<in> H. has_row h (wDB w')) \<or> \<not> has_messages ?c (wDB w'))"
  proof (cases e1)
    case None
    have "keeps (\<lambda>d. dbMessages d = dbMessages (wDB w1) \<and> sync_cursor d ?C = sync_cursor (wDB w1) ?C) (recordVerifiedEmptyChannel env ?c)"
      using recordVerified_frame [of "\<lambda>m x. m = dbMessages (wDB w1) \<and> x = sync_cursor (wDB w1) ?C"] by simp
    from keepsD [OF this, of w1] k None
    have D: "dbMessages (wDB w') = dbMessages (wDB w1)" "sync_cursor (wDB w') ?C = sync_cursor (wDB w1) ?C" by simp_all
    have "\<forall>h \<in> H. has_row h (wDB w')" using M(2) [OF None] row [OF D(1)] by (simp add: covered_all)
    with M(2) [OF None] D(2) recordVerified_None [OF _ c] k None show ?thesis by auto
  next
    case (Some x)
    with k have r: "restoreAfterFailedVerification env ?c x w1 = (e, w')" by simp
    note R = restore_outcome [OF r c]
    from M(1) off have m: "sync_cursor (wDB w1) ?C \<noteq> [] \<longrightarrow> covered H [] (wDB w1)" by (auto simp: marks_true_def)
    from R(3) show ?thesis
    proof (elim disjE conjE exE)
      assume "wDB w' = wDB w1"
      then show ?thesis using m R(1) by (auto simp: covered_all)
    next
      fix now assume "\<not> has_messages ?c (wDB w1)" "wDB w' = put_cursor ?C ''1'' now (wDB w1)"
      then show ?thesis using R(1) by (auto simp: has_messages_def)
    qed
  qed
  then show "e = None \<longrightarrow> (\<forall>h \<in> H. has_row h (wDB w')) \<and> sync_cursor (wDB w') ?C \<noteq> [] \<and>
      sync_cursor (wDB w') (channelHistoryVerificationScope ?c) = []"
    and "sync_cursor (wDB w') ?C \<noteq> [] \<longrightarrow> (\<forall>h \<in> H. has_row h (wDB w')) \<or> \<not> has_messages ?c (wDB w')" by blast+
qed

lemma SetSyncState_db: "wDB (snd (SetSyncState env s x w)) = wDB w \<or> (\<exists>now. wDB (snd (SetSyncState env s x w)) = put_cursor s x now (wDB w))"
  using db_exec_db [of env "put_cursor s x" w] by (auto simp: SetSyncState_def)

lemma DeleteSyncState_db:
  "wDB (snd (DeleteSyncState env s w)) = wDB w \<or>
   wDB (snd (DeleteSyncState env s w)) = (wDB w)\<lparr>dbSyncState := AList.delete s (dbSyncState (wDB w))\<rparr>"
  using db_exec_db [of env "\<lambda>_ d. d\<lparr>dbSyncState := AList.delete s (dbSyncState d)\<rparr>" w] by (auto simp: DeleteSyncState_def)

lemma DeleteSyncState_None: "DeleteSyncState env s w = (None, w') \<Longrightarrow> sync_cursor (wDB w') s = []"
  by (auto simp: DeleteSyncState_def dest!: db_exec_None)

lemma checkpoint_true_rows: "checkpoint_true H cp d \<Longrightarrow> dbMessages d' = dbMessages d \<Longrightarrow> checkpoint_true H cp d'"
  by (auto simp: checkpoint_true_def banded_def has_row_def stored_row_def split: option.splits)

definition first_checkpoint :: "historyVerificationCheckpoint option \<Rightarrow> historyVerificationCheckpoint" where
  "first_checkpoint cp = (case cp of None \<Rightarrow> \<lparr>hvLatest = [], hvBefore = []\<rparr> | Some c \<Rightarrow> c)"

text \<open>
  The ways a verification ends: the retry intent could not be written, the complete mark could not
  be cleared, or the crawl ran, with the intent written and the mark cleared.
\<close>

lemma verify_cases:
  assumes "verifyChannelHistory fuel env cfg ch cp emb w = Some ((n, e), w')"
  obtains (unsaved) x where "saveHistoryVerificationCheckpoint env (cID ch) (first_checkpoint cp) w = (Some x, w')" "e = Some x"
  | (uncleared) x w1 w2 where "saveHistoryVerificationCheckpoint env (cID ch) (first_checkpoint cp) w = (None, w1)"
      "DeleteSyncState env (channelHistoryCompleteScope (cID ch)) w1 = (Some x, w2)"
      "restoreAfterFailedVerification env (cID ch) x w2 = (e, w')"
  | (crawled) w1 w2 where "saveHistoryVerificationCheckpoint env (cID ch) (first_checkpoint cp) w = (None, w1)"
      "DeleteSyncState env (channelHistoryCompleteScope (cID ch)) w1 = (None, w2)"
      "verification_crawl fuel env cfg ch (first_checkpoint cp) emb w2 = Some ((n, e), w')"
  using assms unfolding verifyChannelHistory_def Let_def first_checkpoint_def [symmetric]
  by (auto split: prod.splits option.splits)

lemma saved:
  assumes "saveHistoryVerificationCheckpoint env c cp w = (r, w1)"
  shows "dbMessages (wDB w1) = dbMessages (wDB w)"
    and "s \<noteq> channelHistoryVerificationScope c \<Longrightarrow> sync_cursor (wDB w1) s = sync_cursor (wDB w) s"
    and "r = None \<Longrightarrow> sync_cursor (wDB w1) (channelHistoryVerificationScope c) = checkpoint_json cp"
    and "wDB w1 = wDB w \<or> sync_cursor (wDB w1) (channelHistoryVerificationScope c) = checkpoint_json cp"
  using assms SetSyncState_db [of env "channelHistoryVerificationScope c" "checkpoint_json cp" w]
    SetSyncState_None [of env "channelHistoryVerificationScope c" "checkpoint_json cp" w w1]
  by (auto simp: saveHistoryVerificationCheckpoint_def)

lemma cleared:
  assumes "DeleteSyncState env s w = (r, w1)"
  shows "dbMessages (wDB w1) = dbMessages (wDB w)" and "t \<noteq> s \<Longrightarrow> sync_cursor (wDB w1) t = sync_cursor (wDB w) t"
    and "sync_cursor (wDB w1) s = sync_cursor (wDB w) s \<or> sync_cursor (wDB w1) s = []"
  using assms DeleteSyncState_db [of env s w] by auto

text \<open>
  C2. Verification never locks in a partial history. A verification crawl from a truthful
  checkpoint, under documented pagination and any failures: when it succeeds, every standing message
  is stored, the channel is marked complete and the retry intent is gone; and whenever the complete
  mark stands after it, every standing message is stored, or the channel has no rows at all (the
  state that triggers the next verification), or nothing but the bookkeeping was touched.
\<close>
theorem verification_never_locks_in:
  assumes run: "verifyChannelHistory fuel env cfg ch cp emb w = Some ((n, e), w')"
    and serves: "serves_history env (cID ch) H" and cp: "checkpoint_true H cp (wDB w)" and c: "cID ch \<noteq> []"
  shows "(e = None \<longrightarrow> (\<forall>h \<in> H. has_row h (wDB w')) \<and> sync_cursor (wDB w') (channelHistoryCompleteScope (cID ch)) \<noteq> [] \<and>
      sync_cursor (wDB w') (channelHistoryVerificationScope (cID ch)) = []) \<and>
    (sync_cursor (wDB w') (channelHistoryCompleteScope (cID ch)) \<noteq> [] \<longrightarrow>
      (\<forall>h \<in> H. has_row h (wDB w')) \<or> \<not> has_messages (cID ch) (wDB w') \<or>
      dbMessages (wDB w') = dbMessages (wDB w) \<and>
        sync_cursor (wDB w) (channelHistoryCompleteScope (cID ch)) = sync_cursor (wDB w') (channelHistoryCompleteScope (cID ch)))"
  using run
proof (cases rule: verify_cases)
  case unsaved
  then show ?thesis using saved(1,2) [OF unsaved(1)] by simp
next
  case (uncleared x w1 w2)
  note R = restore_outcome [OF uncleared(3) c] and S = saved [OF uncleared(1)] and D = cleared [OF uncleared(2)]
  from R(3) show ?thesis
  proof (elim disjE conjE exE)
    assume "wDB w' = wDB w2"
    then show ?thesis using R(1) S(1,2) D(1,3) by auto
  next
    fix now assume "\<not> has_messages (cID ch) (wDB w2)"
      "wDB w' = put_cursor (channelHistoryCompleteScope (cID ch)) ''1'' now (wDB w2)"
    then show ?thesis using R(1) by (auto simp: has_messages_def)
  qed
next
  case (crawled w1 w2)
  have "checkpoint_true H (Some (first_checkpoint cp)) (wDB w)"
    using cp by (auto simp: checkpoint_true_def first_checkpoint_def split: option.splits)
  then have "checkpoint_true H (Some (first_checkpoint cp)) (wDB w2)"
    by (rule checkpoint_true_rows) (simp add: saved(1) [OF crawled(1)] cleared(1) [OF crawled(2)])
  from verification_crawl_outcome [OF crawled(3) serves this c DeleteSyncState_None [OF crawled(2)]] show ?thesis by blast
qed

section \<open>A failed verification is retried\<close>

lemma verify_pending:
  assumes run: "verifyChannelHistory fuel env cfg ch cp emb w = Some ((n, Some e), w')"
    and serves: "serves_history env (cID ch) H" and cp: "checkpoint_true H cp (wDB w)" and c: "cID ch \<noteq> []"
  shows "wDB w' = wDB w \<or> (\<exists>cp'. sync_cursor (wDB w') (channelHistoryVerificationScope (cID ch)) = checkpoint_json cp') \<or>
    (\<forall>h \<in> H. has_row h (wDB w')) \<and> sync_cursor (wDB w') (channelHistoryCompleteScope (cID ch)) \<noteq> []"
  using run
proof (cases rule: verify_cases)
  case unsaved
  then show ?thesis using saved(4) [OF unsaved(1)] by blast
next
  case (uncleared x w1 w2)
  have "sync_cursor (wDB w2) (channelHistoryVerificationScope (cID ch)) = checkpoint_json (first_checkpoint cp)"
    using saved(3) [OF uncleared(1)] cleared(2) [OF uncleared(2)] by simp
  then show ?thesis using restore_outcome(3) [OF uncleared(3) c] by auto
next
  case (crawled w1 w2)
  let ?V = "channelHistoryVerificationScope (cID ch)"
  have V2: "sync_cursor (wDB w2) ?V = checkpoint_json (first_checkpoint cp)"
    using saved(3) [OF crawled(1)] cleared(2) [OF crawled(2)] by simp
  have "checkpoint_true H (Some (first_checkpoint cp)) (wDB w)"
    using cp by (auto simp: checkpoint_true_def first_checkpoint_def split: option.splits)
  then have cp2: "checkpoint_true H (Some (first_checkpoint cp)) (wDB w2)"
    by (rule checkpoint_true_rows) (simp add: saved(1) [OF crawled(1)] cleared(1) [OF crawled(2)])
  from crawled(3) obtain e1 w3 where s: "syncFullChannelHistory fuel env cfg ch (checkpoint_state (first_checkpoint cp)) emb 0 (Some (first_checkpoint cp)) w2 = Some ((n, e1), w3)"
    and k: "(case e1 of Some e \<Rightarrow> restoreAfterFailedVerification env (cID ch) e | None \<Rightarrow> recordVerifiedEmptyChannel env (cID ch)) w3 = (Some e, w')"
    by (auto simp: verification_crawl_def split: bind_splits prod.splits)
  have M: "marks_true H (cID ch) (wDB w2) (wDB w3)" "e1 = None \<Longrightarrow> covered H [] (wDB w3) \<and> sync_cursor (wDB w3) (channelHistoryCompleteScope (cID ch)) \<noteq> []"
    using full_crawl_marks [OF s serves checkpoint_start [OF cp2]] by (auto simp: checkpoint_state_def)
  show ?thesis
  proof (cases e1)
    case None
    let ?P = "\<lambda>m x. m = dbMessages (wDB w3) \<and> x = sync_cursor (wDB w3) (channelHistoryCompleteScope (cID ch))"
    have "?P (dbMessages (wDB w')) (sync_cursor (wDB w') (channelHistoryCompleteScope (cID ch)))"
      using keepsD [OF recordVerified_frame [of ?P "cID ch" env], of w3] k None by simp
    then show ?thesis using M(2) [OF None] by (simp add: covered_all has_row_def stored_row_def)
  next
    case (Some x)
    with k have "restoreAfterFailedVerification env (cID ch) x w3 = (Some e, w')" by simp
    from restore_outcome(3) [OF this c] have "sync_cursor (wDB w') ?V = sync_cursor (wDB w3) ?V" by auto
    then show ?thesis using M(1) V2 unfolding marks_true_def by metis
  qed
qed

text \<open>The state of a channel is a function of the archive.\<close>

definition loaded :: "env \<Rightarrow> string \<Rightarrow> db \<Rightarrow> channelSyncState \<Rightarrow> bool" where
  "loaded env c d st \<longleftrightarrow>
     csLatest st = sync_cursor d (channelLatestScope c) \<and> csStoredLatest st = sync_cursor d (channelLatestScope c) \<and>
     csBackfillCursor st = sync_cursor d (channelBackfillScope c) \<and>
     csBackfillComplete st = (sync_cursor d (channelHistoryCompleteScope c) \<noteq> []) \<and>
     csVerification st = (if sync_cursor d (channelHistoryVerificationScope c) = [] then None
        else dec_checkpoint env (sync_cursor d (channelHistoryVerificationScope c))) \<and>
     (sync_cursor d (channelHistoryVerificationScope c) \<noteq> [] \<longrightarrow> csVerification st \<noteq> None) \<and>
     csHasMessages st = ((csBackfillComplete st \<or> csVerification st \<noteq> None) \<and> has_messages c d) \<and>
     csVerifiedEmpty st = ((csBackfillComplete st \<or> csVerification st \<noteq> None) \<and> sync_cursor d (channelVerifiedEmptyScope c) \<noteq> [])"

lemma decode_checkpoint_Inr:
  "decode_checkpoint env t u = (Inr x, u') \<Longrightarrow> u' = u \<and> x = (if t = [] then None else dec_checkpoint env t) \<and> (t \<noteq> [] \<longrightarrow> x \<noteq> None)"
  by (auto simp: decode_checkpoint_def split: if_splits option.splits) (metis)

lemma GetSyncState_Inr: "GetSyncState env s u = (Inr x, u') \<Longrightarrow> x = sync_cursor (wDB u) s \<and> wDB u' = wDB u"
  by (auto simp: GetSyncState_def dest: db_query_Inr)

lemma load_Inr:
  assumes "loadChannelSyncState env c w = (Inr st, w')" and "c \<noteq> []"
  shows "loaded env c (wDB w) st \<and> wDB w' = wDB w"
proof -
  let ?c = "channelHistoryCompleteScope c" and ?v = "channelHistoryVerificationScope c"
  from assms(1) obtain l u1 b u2 k u3 v u4 ver u5 where
    g: "GetSyncState env (channelLatestScope c) w = (Inr l, u1)" "GetSyncState env (channelBackfillScope c) u1 = (Inr b, u2)"
      "GetSyncState env ?c u2 = (Inr k, u3)" "GetSyncState env ?v u3 = (Inr v, u4)" "decode_checkpoint env v u4 = (Inr ver, u5)"
    and tail: "(let state = \<lparr>csLatest = l, csStoredLatest = l, csBackfillCursor = b, csBackfillComplete = (k \<noteq> []), csVerification = ver,
                    csHasMessages = False, csVerifiedEmpty = False\<rparr> in
       if \<not> csBackfillComplete state \<and> ver = None then value_call state
       else bindCall (ChannelHasMessages env c) (\<lambda>hasMessages.
            bindCall (GetSyncState env (channelVerifiedEmptyScope c)) (\<lambda>verifiedEmpty.
              value_call (state\<lparr>csHasMessages := hasMessages, csVerifiedEmpty := (verifiedEmpty \<noteq> [])\<rparr>)))) u5 = (Inr st, w')"
    unfolding loadChannelSyncState_def by (blast dest!: bindCall_Inr)
  have d: "l = sync_cursor (wDB w) (channelLatestScope c)" "b = sync_cursor (wDB w) (channelBackfillScope c)"
    "k = sync_cursor (wDB w) ?c" "v = sync_cursor (wDB w) ?v" "wDB u5 = wDB w"
    "ver = (if v = [] then None else dec_checkpoint env v)" "v \<noteq> [] \<longrightarrow> ver \<noteq> None"
    using g(1-4) [THEN GetSyncState_Inr] g(5) [THEN decode_checkpoint_Inr] by auto
  show ?thesis
  proof (cases "k = [] \<and> ver = None")
    case True
    then show ?thesis using tail d by (auto simp: value_call_def loaded_def)
  next
    case False
    from tail False obtain h u6 z where "ChannelHasMessages env c u5 = (Inr h, u6)"
      "GetSyncState env (channelVerifiedEmptyScope c) u6 = (Inr z, w')"
      and st: "st = \<lparr>csLatest = l, csStoredLatest = l, csBackfillCursor = b, csBackfillComplete = (k \<noteq> []), csVerification = ver,
                    csHasMessages = h, csVerifiedEmpty = (z \<noteq> [])\<rparr>"
      by (auto simp: value_call_def Let_def split: if_splits dest!: bindCall_Inr)
    then have "h = has_messages c (wDB w)" "z = sync_cursor (wDB w) (channelVerifiedEmptyScope c)" "wDB w' = wDB w"
      using ChannelHasMessages_Inr [OF _ assms(2)] GetSyncState_Inr d(5) by metis+
    then show ?thesis using st d False by (auto simp: loaded_def)
  qed
qed

lemma loaded_unique: "loaded env c d st \<Longrightarrow> loaded env c d st' \<Longrightarrow> st' = st"
  unfolding loaded_def by (intro channelSyncState.equality) simp_all


section \<open>The walks end\<close>

lemma newest_first:
  assumes "sorted_wrt (\<lambda>m m'. dec_val (gID m') < dec_val (gID m)) page"
  shows "m \<in> set page \<Longrightarrow> dec_val (gID (last page)) \<le> dec_val (gID m)" and "distinct (map gID page)"
proof -
  show "distinct (map gID page)" using assms by (induction page) force+
  show "m \<in> set page \<Longrightarrow> dec_val (gID (last page)) \<le> dec_val (gID m)"
    using assms
  proof (induction page)
    case (Cons x xs)
    then show ?case by (cases "xs = []") (auto dest: bspec [OF _ last_in_set] intro: less_imp_le)
  qed simp
qed

definition pages_below :: "string set \<Rightarrow> string \<Rightarrow> nat" where
  "pages_below U b = card {u \<in> U. b = [] \<or> dec_val u < dec_val b} div 100"

definition pages_above :: "string set \<Rightarrow> string \<Rightarrow> nat" where
  "pages_above U a = card {u \<in> U. dec_val a < dec_val u} div 100"

lemma rank_falls_by_page:
  assumes "finite S" and "P \<union> T \<subseteq> S" and "P \<inter> T = {}" and "100 \<le> card P"
  shows "card T div 100 < card S div 100"
proof -
  have "finite P" "finite T" using assms(1,2) finite_subset by auto
  then have "card P + card T \<le> card S" using card_mono [OF assms(1,2)] card_Un_disjoint assms(3) by metis
  with assms(4) have "card T + 100 \<le> card S" by simp
  then have "(card T + 100) div 100 \<le> card S div 100" by (rule div_le_mono)
  then show ?thesis by simp
qed

lemma full_page_below:
  assumes page: "page_before H b page" and U: "finite U" "gID ` set page \<subseteq> U" and len: "100 \<le> length page"
  shows "pages_below U (gID (last page)) < pages_below U b"
proof -
  have srt: "sorted_wrt (\<lambda>m m'. dec_val (gID m') < dec_val (gID m)) page"
    and ids: "\<forall>m \<in> set page. snowflake (gID m) \<and> (b \<noteq> [] \<longrightarrow> dec_val (gID m) < dec_val b)"
    using page by (auto simp: page_before_def)
  have "page \<noteq> []" using len by auto
  then have l: "last page \<in> set page" by simp
  then have ne: "gID (last page) \<noteq> []" using ids snowflake_nonempty by blast
  have "card (gID ` set page) = length page" using distinct_card [OF newest_first(2) [OF srt]] by simp
  with len have c: "100 \<le> card (gID ` set page)" by simp
  show ?thesis
    unfolding pages_below_def
  proof (rule rank_falls_by_page [OF _ _ _ c])
    show "finite {u \<in> U. b = [] \<or> dec_val u < dec_val b}" using U(1) by simp
    show "gID ` set page \<union> {u \<in> U. gID (last page) = [] \<or> dec_val u < dec_val (gID (last page))} \<subseteq> {u \<in> U. b = [] \<or> dec_val u < dec_val b}"
    proof
      fix u assume "u \<in> gID ` set page \<union> {u \<in> U. gID (last page) = [] \<or> dec_val u < dec_val (gID (last page))}"
      then show "u \<in> {u \<in> U. b = [] \<or> dec_val u < dec_val b}"
        using U(2) bspec [OF ids l] ids ne by (auto intro: less_trans)
    qed
    show "gID ` set page \<inter> {u \<in> U. gID (last page) = [] \<or> dec_val u < dec_val (gID (last page))} = {}"
      using newest_first(1) [OF srt] ne by (auto simp: not_less [symmetric])
  qed
qed

lemma full_page_above:
  assumes page: "page_after H a page" and U: "finite U" "gID ` set page \<subseteq> U" and len: "100 \<le> length page"
    and t: "\<forall>m \<in> set page. dec_val (gID m) \<le> dec_val t" "t \<in> gID ` set page"
  shows "pages_above U t < pages_above U a"
proof -
  have srt: "sorted_wrt (\<lambda>m m'. dec_val (gID m') < dec_val (gID m)) page"
    and ids: "\<forall>m \<in> set page. dec_val a < dec_val (gID m)"
    using page by (auto simp: page_after_def)
  have "card (gID ` set page) = length page" using distinct_card [OF newest_first(2) [OF srt]] by simp
  with len have c: "100 \<le> card (gID ` set page)" by simp
  show ?thesis
    unfolding pages_above_def
  proof (rule rank_falls_by_page [OF _ _ _ c])
    show "finite {u \<in> U. dec_val a < dec_val u}" using U(1) by simp
    show "gID ` set page \<union> {u \<in> U. dec_val t < dec_val u} \<subseteq> {u \<in> U. dec_val a < dec_val u}"
      using U(2) ids t(2) by (auto intro: less_trans)
    show "gID ` set page \<inter> {u \<in> U. dec_val t < dec_val u} = {}" using t(1) by (auto simp: not_less [symmetric])
  qed
qed

text \<open>A walk goes on only after a full page.\<close>

lemma leave_checkpoint_more:
  "leave_checkpoint env ch flr lim ver page s w = (More s', w') \<Longrightarrow> 100 \<le> length page \<and> bsBefore s' = gID (last page)"
  by (auto simp: leave_checkpoint_def short_page_def Let_def split: if_splits prod.splits option.splits)

lemma backfill_page_more:
  assumes "backfill_page env cfg ch flr name emb since lim ver s w = (More s', w')"
  shows "\<exists>n page. envMessages env n (cID ch) (bsBefore s) [] = Inr page \<and> 100 \<le> length page \<and> bsBefore s' = gID (last page)"
proof -
  from assms obtain page w1 s1 w3 where "read_page env cfg ch (bsBefore s) [] w = (Inr page, w1)"
    and "leave_checkpoint env ch flr lim ver page s1 w3 = (More s', w')"
    by (auto simp: backfill_page_def end_of_history_def reach_since_def Let_def
        split: prod.splits sum.splits if_splits option.splits)
  then show ?thesis by (blast dest: read_page_Inr leave_checkpoint_more)
qed

lemma bootstrap_page_more:
  assumes "bootstrap_page env cfg ch emb since s w = (More s', w')"
  shows "\<exists>n page. envMessages env n (cID ch) (bsBefore s) [] = Inr page \<and> 100 \<le> length page \<and> bsBefore s' = gID (last page)"
proof -
  from assms obtain page w1 where r: "read_page env cfg ch (bsBefore s) [] w = (Inr page, w1)"
    and l: "\<not> length page < 100" "bsBefore s' = gID (last page)"
    by (auto simp: bootstrap_page_def Let_def split: prod.splits sum.splits if_splits option.splits)
  from read_page_Inr [OF r] l show ?thesis by (meson not_less)
qed

lemma forward_page_more:
  assumes "forward_page env cfg ch emb s w = (More s', w')"
  shows "\<exists>n page. envMessages env n (cID ch) [] (fsAfter s) = Inr page \<and> 100 \<le> length page \<and>
    fsAfter s' = maxSnowflake (fsAfter s) (fold (\<lambda>m t. maxSnowflake t (gID m)) page [])"
proof -
  from assms obtain page w1 t w2 where r: "read_page env cfg ch [] (fsAfter s) w = (Inr page, w1)"
    and p: "persistMessagePage env cfg page (cName ch) (cGuildID ch) emb (envNow env (wTick w)) w1 = (Inr t, w2)"
    and l: "\<not> length page < 100" "fsAfter s' = maxSnowflake (fsAfter s) t"
    by (auto simp: forward_page_def Let_def split: prod.splits sum.splits if_splits option.splits)
  from read_page_Inr [OF r] l persist_success(2) [OF p] show ?thesis by (meson not_less)
qed

text \<open>Below a cursor the stock of messages shrinks by a page each time, above it likewise.\<close>

definition cursor_inv :: "env \<Rightarrow> string \<Rightarrow> string set \<Rightarrow> string \<Rightarrow> bool" where
  "cursor_inv env c U b \<longleftrightarrow> serves_history env c {} \<and> serves_within env c U \<and> (b = [] \<or> snowflake b)"

lemma cursor_step:
  assumes "cursor_inv env c U b" and "envMessages env n c b [] = Inr page" and "100 \<le> length page" and "b' = gID (last page)"
  shows "cursor_inv env c U b'" and "pages_below U b' < pages_below U b"
proof -
  have page: "page_before {} b page" using assms(1,2) unfolding cursor_inv_def serves_history_def by blast
  have U: "finite U" "gID ` set page \<subseteq> U" using assms(1,2) unfolding cursor_inv_def serves_within_def by blast+
  have "last page \<in> set page" using assms(3) by (cases page) auto
  then show "cursor_inv env c U b'" using assms(1,4) page by (simp add: cursor_inv_def page_before_def)
  show "pages_below U b' < pages_below U b" using full_page_below [OF page U assms(3)] assms(4) by simp
qed

interpretation backfill_walk: bounded_page_walk "backfill_page env cfg ch flr name emb since lim ver"
    "\<lambda>s w. cursor_inv env (cID ch) U (bsBefore s)" "\<lambda>_ _ _. True" "\<lambda>s w. pages_below U (bsBefore s)"
  for env cfg ch flr name emb since lim ver U
  by unfold_locales (auto dest!: backfill_page_more intro: cursor_step)

interpretation bootstrap_walk: bounded_page_walk "bootstrap_page env cfg ch emb since"
    "\<lambda>s w. cursor_inv env (cID ch) U (bsBefore s)" "\<lambda>_ _ _. True" "\<lambda>s w. pages_below U (bsBefore s)"
  for env cfg ch emb since U
  by unfold_locales (auto dest!: bootstrap_page_more intro: cursor_step)

definition after_inv :: "env \<Rightarrow> string \<Rightarrow> string set \<Rightarrow> string \<Rightarrow> bool" where
  "after_inv env c U a \<longleftrightarrow> serves_history env c {} \<and> serves_within env c U \<and> snowflake a"

lemma after_step:
  assumes inv: "after_inv env c U a" and m: "envMessages env n c [] a = Inr page" and len: "100 \<le> length page"
    and a': "a' = maxSnowflake a (fold (\<lambda>m t. maxSnowflake t (gID m)) page [])"
  shows "after_inv env c U a'" and "pages_above U a' < pages_above U a"
proof -
  let ?t = "fold (\<lambda>m t. maxSnowflake t (gID m)) page []"
  have page: "page_after {} a page" using inv m unfolding after_inv_def serves_history_def by blast
  have U: "finite U" "gID ` set page \<subseteq> U" using inv m unfolding after_inv_def serves_within_def by blast+
  have ids: "\<forall>m \<in> set page. snowflake (gID m)" using page by (simp add: page_after_def)
  have "page \<noteq> []" using len by auto
  note T = newest_of_page [OF ids this refl]
  from T(2) obtain m where "m \<in> set page" "?t = gID m" by blast
  with page have "dec_val a < dec_val ?t" by (simp add: page_after_def)
  then have a't: "a' = ?t" using a' T(1) inv by (simp add: after_inv_def maxSnowflake_snowflakes)
  show "after_inv env c U a'" using inv T(1) a't by (simp add: after_inv_def)
  show "pages_above U a' < pages_above U a" using full_page_above [OF page U len T(3,2)] a't by simp
qed

interpretation forward_walk: bounded_page_walk "forward_page env cfg ch emb"
    "\<lambda>s w. after_inv env (cID ch) U (fsAfter s)" "\<lambda>_ _ _. True" "\<lambda>s w. pages_above U (fsAfter s)"
  for env cfg ch emb U
  by unfold_locales (auto dest!: forward_page_more intro: after_step)

section \<open>Enough fuel\<close>

lemma pages_bound: "finite U \<Longrightarrow> pages_below U b \<le> card U div 100" "finite U \<Longrightarrow> pages_above U a \<le> card U div 100"
  unfolding pages_below_def pages_above_def by (intro div_le_mono card_mono; auto)+

text \<open>The laws of the server and a fuel that covers its stock of messages.\<close>

definition fuel_ok :: "nat \<Rightarrow> env \<Rightarrow> string \<Rightarrow> string set \<Rightarrow> bool" where
  "fuel_ok fuel env c U \<longleftrightarrow> serves_history env c {} \<and> serves_within env c U \<and> card U div 100 < fuel"

lemma backfill_returns:
  assumes "fuel_ok fuel env (cID ch) U" and "b = [] \<or> snowflake b"
  shows "\<exists>e s w'. syncBackfillPages fuel env cfg ch b flr name emb since lim ver wd w = Some ((e, s), w')"
  using backfill_walk.walk_ends [where U = U and n = fuel and s = "\<lparr>bsBefore = b, bsCount = 0, bsNewest = [], bsPages = 0, bsWindow = wd\<rparr>"]
    pages_bound(1) [of U b] assms
  unfolding syncBackfillPages_def fuel_ok_def cursor_inv_def serves_within_def by fastforce

lemma bootstrap_returns:
  assumes "fuel_ok fuel env (cID ch) U"
  shows "\<exists>n e w'. bootstrapChannelHistory fuel env cfg ch emb since w = Some ((n, e), w')"
proof -
  let ?s = "\<lparr>bsBefore = [], bsCount = 0, bsNewest = [], bsPages = 0, bsWindow = None\<rparr>"
  have "\<exists>r. run_pages fuel (bootstrap_page env cfg ch emb since) ?s w = Some r"
    using bootstrap_walk.walk_ends [where U = U and n = fuel and s = ?s] pages_bound(1) [of U "[]"] assms
    unfolding fuel_ok_def cursor_inv_def serves_within_def by fastforce
  then obtain e s w1 where "run_pages fuel (bootstrap_page env cfg ch emb since) ?s w = Some ((e, s), w1)" by force
  then show ?thesis by (simp add: bootstrapChannelHistory_def split: prod.split)
qed

lemma forward_returns:
  assumes "fuel_ok fuel env (cID ch) U" and "snowflake a"
  shows "\<exists>e s w'. syncForwardPages fuel env cfg ch a emb w = Some ((e, s), w')"
  using forward_walk.walk_ends [where U = U and n = fuel and s = "\<lparr>fsAfter = a, fsCount = 0, fsNewest = a\<rparr>"]
    pages_bound(2) [of U a] assms
  unfolding syncForwardPages_def fuel_ok_def after_inv_def serves_within_def by fastforce

text \<open>The cursors the paths of a channel start from.\<close>

definition state_wf :: "channelSyncState \<Rightarrow> bool" where
  "state_wf st \<longleftrightarrow> (csLatest st = [] \<or> snowflake (csLatest st)) \<and> (csBackfillCursor st = [] \<or> snowflake (csBackfillCursor st))"

lemma full_returns:
  assumes f: "fuel_ok fuel env (cID ch) U" and st: "state_wf st"
  shows "\<exists>n e w'. syncFullChannelHistory fuel env cfg ch st emb since ver w = Some ((n, e), w')"
proof -
  have "\<exists>n t e w'. full_forward fuel env cfg ch st emb w = Some ((n, t, e), w')"
  proof (cases "csLatest st = []")
    case False
    then obtain e s w' where "syncForwardPages fuel env cfg ch (csLatest st) emb w = Some ((e, s), w')"
      using forward_returns [OF f] st by (metis state_wf_def)
    with False show ?thesis by (simp add: full_forward_def Let_def split: option.split prod.split)
  qed (simp add: full_forward_def)
  then obtain n t e w1 where ff: "full_forward fuel env cfg ch st emb w = Some ((n, t, e), w1)" by blast
  have "\<exists>n t e w'. full_backfill fuel env cfg ch st emb since ver x v = Some ((n, t, e), w')" for x v
  proof (cases "csBackfillComplete st")
    case False
    have "backfill_start st = [] \<or> snowflake (backfill_start st)" using st by (auto simp: backfill_start_def state_wf_def)
    from backfill_returns [OF f this, of cfg x "cName ch" emb since 0 ver None v] False show ?thesis
      by (auto simp: full_backfill_def backfill_start_def Let_def)
  qed (simp add: full_backfill_def)
  then obtain n2 t2 e2 w2 where "full_backfill fuel env cfg ch st emb since ver t w1 = Some ((n2, t2, e2), w2)" by blast
  with ff show ?thesis by (cases e; cases e2) (simp_all add: syncFullChannelHistory_def split: prod.split)
qed

lemma latest_returns:
  assumes "fuel_ok fuel env (cID ch) U"
  shows "\<exists>n e w'. syncLatestChannelHistory fuel env cfg ch emb since w = Some ((n, e), w')"
  using backfill_returns [OF assms, of "[]" cfg "[]" "cName ch" emb since 1 None None w]
  by (auto simp: syncLatestChannelHistory_def split: prod.split)

lemma incremental_returns:
  assumes "fuel_ok fuel env (cID ch) U" and "state_wf st"
  shows "\<exists>n e w'. syncIncrementalChannelHistory fuel env cfg ch st emb since w = Some ((n, e), w')"
proof (cases "csLatest st = []")
  case False
  with forward_returns [OF assms(1), of "csLatest st" cfg emb w] assms(2) show ?thesis
    by (auto simp: syncIncrementalChannelHistory_def state_wf_def split: prod.split)
qed (use bootstrap_returns [OF assms(1)] in \<open>simp add: syncIncrementalChannelHistory_def\<close>)

lemma window_returns:
  assumes "fuel_ok fuel env (cID ch) U"
  shows "\<exists>n e w'. syncWindowChannelHistory fuel env cfg ch st emb since w = Some ((n, e), w')"
proof -
  obtain r w1 where r: "CanReadHistory env ch w = (r, w1)" by force
  define wd where "wd = \<lparr>hwGuildID = cGuildID ch, hwChannelID = cID ch, hwChannelType = cType ch, hwSince = since,
      hwUntil = envNow env (wTick w1), hwCompletedAt = 0, hwBoundary = [], hwBoundaryMessageID = []\<rparr>"
  obtain e s w2 where "syncBackfillPages fuel env cfg ch [] (csLatest st) (cName ch) emb since 0 None (Some wd) w1 = Some ((e, s), w2)"
    using backfill_returns [OF assms, of "[]"] by blast
  then show ?thesis using r by (cases r) (auto simp: syncWindowChannelHistory_def wd_def Let_def split: option.split prod.split)
qed

lemma verify_returns:
  assumes f: "fuel_ok fuel env (cID ch) U" and cp: "state_wf (checkpoint_state (first_checkpoint cp))"
  shows "\<exists>n e w'. verifyChannelHistory fuel env cfg ch cp emb w = Some ((n, e), w')"
proof -
  have "\<exists>n e w'. verification_crawl fuel env cfg ch (first_checkpoint cp) emb v = Some ((n, e), w')" for v
  proof -
    obtain n e w' where "syncFullChannelHistory fuel env cfg ch (checkpoint_state (first_checkpoint cp)) emb 0 (Some (first_checkpoint cp)) v = Some ((n, e), w')"
      using full_returns [OF f cp] by blast
    then show ?thesis by (simp add: verification_crawl_def split: prod.split)
  qed
  then show ?thesis
    unfolding verifyChannelHistory_def Let_def first_checkpoint_def [symmetric] by (auto split: prod.split option.split)
qed

section \<open>Every path of a channel returns\<close>

text \<open>The cursors, the checkpoint and the ids of the channel's rows are snowflakes, where present.\<close>

definition cursors_wf :: "env \<Rightarrow> string \<Rightarrow> db \<Rightarrow> bool" where
  "cursors_wf env c d \<longleftrightarrow>
     (sync_cursor d (channelLatestScope c) = [] \<or> snowflake (sync_cursor d (channelLatestScope c))) \<and>
     (sync_cursor d (channelBackfillScope c) = [] \<or> snowflake (sync_cursor d (channelBackfillScope c))) \<and>
     (case dec_checkpoint env (sync_cursor d (channelHistoryVerificationScope c)) of None \<Rightarrow> True
      | Some cp \<Rightarrow> state_wf (checkpoint_state cp)) \<and>
     (\<forall>i \<in> set (channel_ids d c). snowflake i)"

lemma loaded_wf:
  assumes "loaded env c d st" and "cursors_wf env c d"
  shows "state_wf st" and "state_wf (checkpoint_state (first_checkpoint (csVerification st)))"
  using assms by (auto simp: loaded_def cursors_wf_def state_wf_def first_checkpoint_def checkpoint_state_def split: option.splits)

lemma fold_pick: "(\<And>a b. f a b \<in> {a, b}) \<Longrightarrow> fold f xs x \<in> insert x (set xs)"
proof (induction xs arbitrary: x)
  case (Cons y ys)
  from Cons.IH [OF Cons.prems, of "f y x"] Cons.prems [of y x] show ?case by auto
qed simp

lemma bounds_wf:
  assumes "ChannelMessageBounds env c w = (Inr (o1, n1), w')" and "\<forall>i \<in> set (channel_ids (wDB w) c). snowflake i"
  shows "(o1 = [] \<or> snowflake o1) \<and> (n1 = [] \<or> snowflake n1)"
proof (cases "channel_ids (wDB w) c")
  case (Cons x xs)
  with assms(1) have "o1 = fold min xs x" "n1 = fold max xs x" by (auto simp: ChannelMessageBounds_def dest!: db_query_Inr)
  moreover have "fold min xs x \<in> insert x (set xs)" "fold max xs x \<in> insert x (set xs)"
    by (rule fold_pick; simp add: min_def max_def)+
  ultimately show ?thesis using assms(2) Cons by auto
qed (use assms(1) in \<open>auto simp: ChannelMessageBounds_def dest!: db_query_Inr\<close>)

lemma seed_wf:
  assumes seed: "seedChannelSyncState env c st w = (Inr st', w')" and st: "state_wf st" and ids: "\<forall>i \<in> set (channel_ids (wDB w) c). snowflake i"
  shows "state_wf st'"
proof -
  from seed obtain st1 w1 where first: "(if csLatest st = [] \<or> csBackfillCursor st = [] then
          bindCall (ChannelMessageBounds env c) (\<lambda>(o1, n1). value_call
               (st\<lparr>csLatest := (if csLatest st = [] then n1 else csLatest st),
                      csBackfillCursor := (if csBackfillCursor st = [] then o1 else csBackfillCursor st)\<rparr>))
        else value_call st) w = (Inr st1, w1)"
    and second: "(if csStoredLatest st1 \<noteq> [] \<and> csBackfillCursor st1 = [] \<and> \<not> csBackfillComplete st1
          then doThen (SetSyncState env (channelHistoryCompleteScope c) ''1'') (value_call (st1\<lparr>csBackfillComplete := True\<rparr>))
          else value_call st1) w1 = (Inr st', w')"
    unfolding seedChannelSyncState_def by (blast dest!: bindCall_Inr)
  have "state_wf st1"
    using first st
    by (auto simp: value_call_def state_wf_def split: if_splits dest!: bindCall_Inr bounds_wf [OF _ ids])
  moreover have "st' = st1 \<or> st' = st1\<lparr>csBackfillComplete := True\<rparr>"
    using second by (auto simp: value_call_def split: if_splits dest!: doThen_Inr)
  ultimately show ?thesis by (auto simp: state_wf_def)
qed

text \<open>
  C11. Crawling a channel ends. When all pages the server ever returns for a channel come from a
  finite stock \<open>U\<close> of messages, newest first and strictly beyond the cursor they were asked for, then
  every path of \<open>syncChannelMessages\<close> (window, verification, full, latest-only, incremental,
  bootstrap) returns after at most one page per hundred messages of the stock and one more in each
  direction, whatever the database answers.
\<close>
theorem channel_crawl_returns:
  assumes fuel: "serves_history env (cID ch) {}" "serves_within env (cID ch) U" "card U div 100 < fuel"
    and wf: "cursors_wf env (cID ch) (wDB w)" and c: "cID ch \<noteq> []"
  shows "\<exists>n e w'. syncChannelMessages fuel env cfg ch full emb since latestOnly w = Some ((n, e), w')"
proof -
  have f: "fuel_ok fuel env (cID ch) U" using fuel by (simp add: fuel_ok_def)
  obtain r w1 where ld: "loadChannelSyncState env (cID ch) w = (r, w1)" by force
  show ?thesis
  proof (cases r)
    case (Inl e)
    with ld show ?thesis by (simp add: syncChannelMessages_def)
  next
    case (Inr st)
    note L = load_Inr [OF ld [unfolded Inr] c]
    note W = loaded_wf [OF L [THEN conjunct1] wf]
    define st1 where "st1 = (if csHasMessages st \<or> full then st\<lparr>csVerifiedEmpty := False\<rparr> else st)"
    have st1: "state_wf st1" "csVerification st1 = csVerification st" using W(1) by (simp_all add: st1_def state_wf_def)
    obtain q w2 where dl: "(if csHasMessages st \<and> csVerifiedEmpty st then DeleteSyncState env (channelVerifiedEmptyScope (cID ch)) else ok) w1 = (q, w2)"
      by force
    have "dbMessages (wDB w2) = dbMessages (wDB w)"
      using dl L cleared(1) [of env _ w1 q w2] by (auto simp: ok_def split: if_splits)
    then have ids: "\<forall>i \<in> set (channel_ids (wDB w2) (cID ch)). snowflake i"
      using wf by (simp add: cursors_wf_def channel_ids_def)
    have "\<exists>n e w'. syncChannelHistory fuel env cfg ch st1 full emb since latestOnly w2 = Some ((n, e), w')"
    proof (cases full)
      case True
      obtain x w3 where s: "seedChannelSyncState env (cID ch) st1 w2 = (x, w3)" by force
      show ?thesis
      proof (cases x)
        case (Inr st2)
        with s seed_wf [OF _ st1(1) ids] have "state_wf st2" by blast
        from full_returns [OF f this] s Inr True show ?thesis by (auto simp: syncChannelHistory_def)
      qed (use s True in \<open>simp add: syncChannelHistory_def\<close>)
    next
      case False
      then show ?thesis
        using full_returns [OF f st1(1)] latest_returns [OF f] incremental_returns [OF f st1(1)]
        by (simp add: syncChannelHistory_def)
    qed
    moreover have "\<exists>n e w'. verifyChannelHistory fuel env cfg ch (csVerification st1) emb w2 = Some ((n, e), w')"
      using verify_returns [OF f W(2)] st1(2) by simp
    moreover have "\<exists>n e w'. syncWindowChannelHistory fuel env cfg ch st emb since w1 = Some ((n, e), w')"
      by (rule window_returns [OF f])
    moreover have "syncChannelMessages fuel env cfg ch full emb since latestOnly w =
       (if full \<and> since \<noteq> 0 then syncWindowChannelHistory fuel env cfg ch st emb since w1
        else case q of Some e \<Rightarrow> Some ((0, Some e), w2) | None \<Rightarrow>
          if needsHistoryVerification ch st1 since then verifyChannelHistory fuel env cfg ch (csVerification st1) emb w2
          else syncChannelHistory fuel env cfg ch st1 full emb since latestOnly w2)"
      by (simp only: syncChannelMessages_def ld Inr prod.case sum.case dl st1_def [symmetric] Let_def)
    ultimately show ?thesis by (cases q) (auto split: if_splits)
  qed
qed

section \<open>A reference server\<close>

text \<open>
  The laws are satisfiable for every history: a server that pages through a fixed list of messages,
  newest first, keeps them.
\<close>

definition stock_page :: "dmessage list \<Rightarrow> string \<Rightarrow> string \<Rightarrow> dmessage list" where
  "stock_page stock before after =
     (if after = [] then take 100 (filter (\<lambda>m. before = [] \<or> dec_val (gID m) < dec_val before) stock)
      else let later = filter (\<lambda>m. dec_val after < dec_val (gID m)) stock in drop (length later - 100) later)"

definition server_env :: "dmessage list \<Rightarrow> env" where
  "server_env stock = calm_env\<lparr>envMessages := \<lambda>n c before after. Inr (stock_page stock before after)\<rparr>"

definition stock_ok :: "dmessage list \<Rightarrow> bool" where
  "stock_ok stock \<longleftrightarrow> (\<forall>m \<in> set stock. snowflake (gID m)) \<and>
     sorted_wrt (\<lambda>m m'. dec_val (gID m') < dec_val (gID m)) stock"

lemma stock_before:
  assumes "stock_ok stock" shows "page_before (gID ` set stock) b (stock_page stock b [])"
proof -
  let ?R = "\<lambda>m m'. dec_val (gID m') < dec_val (gID m)"
  define xs where "xs = filter (\<lambda>m. b = [] \<or> dec_val (gID m) < dec_val b) stock"
  have srt: "sorted_wrt ?R xs" using assms by (simp add: stock_ok_def xs_def sorted_wrt_filter)
  have parts: "sorted_wrt ?R (take 100 xs)" "\<forall>x \<in> set (take 100 xs). \<forall>y \<in> set (drop 100 xs). ?R x y"
    using srt sorted_wrt_append [of ?R "take 100 xs" "drop 100 xs"] by simp_all
  have "gID m \<in> gID ` set (take 100 xs)"
    if m: "m \<in> set stock" "b = [] \<or> dec_val (gID m) < dec_val b"
      "length (take 100 xs) < 100 \<or> dec_val (gID (last (take 100 xs))) \<le> dec_val (gID m)" for m
  proof -
    have mx: "m \<in> set xs" using m by (simp add: xs_def)
    show ?thesis
    proof (cases "length xs \<le> 100")
      case True
      then show ?thesis using mx by simp
    next
      case False
      have "m \<notin> set (drop 100 xs)"
      proof
        assume d: "m \<in> set (drop 100 xs)"
        have "last (take 100 xs) \<in> set (take 100 xs)" using False by (intro last_in_set) auto
        with parts(2) d m(3) False show False by fastforce
      qed
      with mx have "m \<in> set (take 100 xs)" by (metis Un_iff append_take_drop_id set_append)
      then show ?thesis by blast
    qed
  qed
  moreover have "\<forall>m \<in> set (take 100 xs). snowflake (gID m) \<and> (b \<noteq> [] \<longrightarrow> dec_val (gID m) < dec_val b)"
    using assms by (auto simp: stock_ok_def xs_def dest!: in_set_takeD)
  moreover have "stock_page stock b [] = take 100 xs" by (simp add: stock_page_def xs_def)
  ultimately show ?thesis unfolding page_before_def using parts(1) by (intro conjI; simp only:) blast+
qed

lemma stock_after:
  assumes "stock_ok stock" and "a \<noteq> []" shows "page_after (gID ` set stock) a (stock_page stock [] a)"
proof -
  let ?R = "\<lambda>m m'. dec_val (gID m') < dec_val (gID m)"
  define xs where "xs = filter (\<lambda>m. dec_val a < dec_val (gID m)) stock"
  let ?k = "length xs - 100"
  have srt: "sorted_wrt ?R xs" using assms by (simp add: stock_ok_def xs_def sorted_wrt_filter)
  have parts: "sorted_wrt ?R (drop ?k xs)" "\<forall>x \<in> set (take ?k xs). \<forall>y \<in> set (drop ?k xs). ?R x y"
    using srt sorted_wrt_append [of ?R "take ?k xs" "drop ?k xs"] by simp_all
  have "gID m \<in> gID ` set (drop ?k xs)"
    if m: "m \<in> set stock" "dec_val a < dec_val (gID m)"
      "length (drop ?k xs) < 100 \<or> (\<exists>x \<in> set (drop ?k xs). dec_val (gID m) \<le> dec_val (gID x))" for m
  proof -
    have mx: "m \<in> set xs" using m by (simp add: xs_def)
    have "m \<notin> set (take ?k xs)"
    proof
      assume t: "m \<in> set (take ?k xs)"
      then have "100 < length xs" by (cases "?k = 0") auto
      then have "\<not> length (drop ?k xs) < 100" by simp
      with m(3) parts(2) t show False by fastforce
    qed
    with mx have "m \<in> set (drop ?k xs)" by (metis Un_iff append_take_drop_id set_append)
    then show ?thesis by blast
  qed
  moreover have "\<forall>m \<in> set (drop ?k xs). snowflake (gID m) \<and> dec_val a < dec_val (gID m)"
    using assms by (auto simp: stock_ok_def xs_def dest!: in_set_dropD)
  moreover have "stock_page stock [] a = drop ?k xs" using assms(2) by (simp add: stock_page_def xs_def Let_def)
  ultimately show ?thesis unfolding page_after_def using parts(1) by (intro conjI; simp only:) blast+
qed

lemma server_serves:
  assumes "stock_ok stock"
  shows "serves_history (server_env stock) c (gID ` set stock)" and "serves_within (server_env stock) c (gID ` set stock)"
proof -
  show "serves_history (server_env stock) c (gID ` set stock)"
    using assms stock_before [OF assms] stock_after [OF assms]
    by (auto simp: serves_history_def server_env_def stock_ok_def dest: snowflake_nonempty)
  show "serves_within (server_env stock) c (gID ` set stock)"
    by (auto simp: serves_within_def server_env_def stock_page_def Let_def split: if_splits dest!: in_set_takeD in_set_dropD)
qed

lemma serves_none:
  assumes "serves_history env c H" shows "serves_history env c {}"
proof -
  have "page_before H b page \<Longrightarrow> page_before {} b page" "page_after H a page \<Longrightarrow> page_after {} a page" for a b page
    by (simp_all add: page_before_def page_after_def)
  then show ?thesis using assms by (simp add: serves_history_def)
qed

section \<open>Witnesses\<close>

definition page_message :: "string \<Rightarrow> dmessage" where
  "page_message i = \<lparr>gID = i, gChannelID = ''5'', gGuildID = ''1'', gAuthor = None, gType = 0, gTimestamp = 10, gEdited = 0,
     gContent = ''hi'', gReference = [], gPinned = False, gAttachments = 0, gRaw = ''hi''\<rparr>"

definition sample_cfg :: syncer_cfg where
  "sample_cfg = \<lparr>cfExclusions = \<lparr>exIDs = [], exKinds = [], exAllowedCategoryIDs = [], exCategoryScopeSet = False\<rparr>,
     cfPolicyID = (\<lambda>_. ''p''), cfAttachmentText = False\<rparr>"

definition fresh_state :: channelSyncState where
  "fresh_state = \<lparr>csLatest = [], csStoredLatest = [], csBackfillCursor = [], csBackfillComplete = False,
     csVerification = None, csHasMessages = False, csVerifiedEmpty = False\<rparr>"

definition sample_stock :: "dmessage list" where
  "sample_stock = [page_message ''42'', page_message ''7'']"

lemma sample_stock_ok: "stock_ok sample_stock" "gID ` set sample_stock = {''42'', ''7''}"
  by (simp_all add: stock_ok_def sample_stock_def page_message_def snowflake_def isCanonicalDecimalSnowflake_def
      dec_val_def digit_val_def is_digit_def)

lemmas sample_serves = server_serves [OF sample_stock_ok(1), unfolded sample_stock_ok(2)]

lemma sample_fuel: "fuel_ok 1 (server_env sample_stock) c {''42'', ''7''}"
  using sample_serves(2) serves_none [OF sample_serves(1)] by (simp add: fuel_ok_def)

lemma plain_channel_id [simp]: "cID (plain_channel i) = i"
  by (simp add: plain_channel_def)

lemma empty_cursor [simp]: "sync_cursor (wDB empty_world) s = []" "dbMessages (wDB empty_world) = []"
  by (simp_all add: sync_cursor_def empty_world_def empty_db_def)


theorem verification_never_locks_in_witness:
  "\<exists>n e w'. verifyChannelHistory 1 (server_env sample_stock) sample_cfg (plain_channel ''5'') None False empty_world
       = Some ((n, e), w') \<and> (e = None \<longrightarrow> has_row ''42'' (wDB w'))"
proof -
  let ?ch = "plain_channel ''5''"
  have f: "fuel_ok 1 (server_env sample_stock) (cID ?ch) {''42'', ''7''}" by (rule sample_fuel)
  have "state_wf (checkpoint_state (first_checkpoint None))" by (simp add: state_wf_def checkpoint_state_def first_checkpoint_def)
  from verify_returns [OF f this] obtain n e w' where
    r: "verifyChannelHistory 1 (server_env sample_stock) sample_cfg ?ch None False empty_world = Some ((n, e), w')" by blast
  from verification_never_locks_in [OF r sample_serves(1)] r show ?thesis by (auto simp: checkpoint_true_def)
qed

theorem channel_crawl_returns_witness:
  "\<exists>n e w'. syncChannelMessages 1 (server_env sample_stock) sample_cfg (plain_channel ''5'') True False 0 False empty_world = Some ((n, e), w')"
proof -
  let ?ch = "plain_channel ''5''"
  have "serves_history (server_env sample_stock) (cID ?ch) {}" by (rule serves_none [OF sample_serves(1)])
  moreover have "cursors_wf (server_env sample_stock) (cID ?ch) (wDB empty_world)"
    by (simp add: cursors_wf_def dec_checkpoint_def server_env_def calm_env_def channel_ids_def)
  ultimately show ?thesis
    using channel_crawl_returns [of "server_env sample_stock" ?ch "{''42'', ''7''}" 1 empty_world] sample_serves(2) by simp
qed

text \<open>A channel that is marked complete and empty, and a database that fails once.\<close>

definition stranded_db :: db where
  "stranded_db = empty_db\<lparr>dbSyncState := [(channelHistoryCompleteScope ''5'', \<lparr>srCursor = ''1'', srUpdatedAt = 1\<rparr>)]\<rparr>"

definition faulty_env :: env where
  "faulty_env = (server_env sample_stock)\<lparr>envDB := \<lambda>n. if n = 50 then Some (FailBefore (ErrText ''disk I/O error'')) else None\<rparr>"

definition stranded_state :: channelSyncState where
  "stranded_state = fresh_state\<lparr>csBackfillComplete := True\<rparr>"

lemma stranded_load:
  "n < 40 \<Longrightarrow> loadChannelSyncState faulty_env ''5'' \<lparr>wDB = stranded_db, wTick = n\<rparr>
     = (Inr stranded_state, \<lparr>wDB = stranded_db, wTick = n + 6\<rparr>)"
  by (simp add: loadChannelSyncState_def bindCall_def GetSyncState_def db_query_def faulty_env_def tick_def
      decode_checkpoint_def ChannelHasMessages_def value_call_def stranded_db_def sync_cursor_def empty_db_def
      stranded_state_def fresh_state_def)


end
