(* ===== verification/WorkerPool.thy ===== *)
theory WorkerPool
  imports HistoryEffects "HOL-Library.Multiset"
begin

text \<open>
  The concurrent run over channels (\<open>syncMessageChannels\<close> and \<open>syncMessageChannelsConcurrent\<close> of
  internal/syncer/message_sync.go) as a step relation over the goroutines it starts: the feeder,
  the workers, the goroutine that closes \<open>results\<close>, and the collecting loop; and the progress
  counters they share. One step is one channel operation, one look at the context, or the crawl of
  one channel by one worker; the order of the steps is arbitrary. The crawl of a channel is one
  step: the crawls of different channels meet only in the archive, whose answers, faults and clock
  are those of the environment at every call.
\<close>

section \<open>Progress counters\<close>

record messageSyncInFlight =
  ifID :: string
  ifName :: string
  ifStartedAt :: instant
  ifLastPageAt :: instant
  ifPageCount :: nat
  ifPageMessages :: nat

record messageSyncProgress =
  pgTotalChannels :: nat
  pgStartedAt :: instant
  pgLastLogAt :: instant
  pgLastProgressAt :: instant
  pgProcessed :: nat
  pgMessages :: nat
  pgDeferredRetryable :: nat
  pgSkippedMissingAccess :: nat
  pgSkippedUnknownChannel :: nat
  pgLogEvery :: int
  pgWaitEvery :: int
  pgInflight :: "string \<rightharpoonup> messageSyncInFlight"

definition newMessageSyncProgress :: "instant \<Rightarrow> nat \<Rightarrow> int \<Rightarrow> int \<Rightarrow> messageSyncProgress" where
  "newMessageSyncProgress now totalChannels logEvery waitEvery =
     \<lparr>pgTotalChannels = totalChannels, pgStartedAt = now, pgLastLogAt = now, pgLastProgressAt = now,
      pgProcessed = 0, pgMessages = 0, pgDeferredRetryable = 0, pgSkippedMissingAccess = 0,
      pgSkippedUnknownChannel = 0, pgLogEvery = logEvery, pgWaitEvery = waitEvery, pgInflight = Map.empty\<rparr>"

definition progress_start :: "instant \<Rightarrow> dchannel \<Rightarrow> messageSyncProgress \<Rightarrow> messageSyncProgress" where
  "progress_start now channel p =
     p\<lparr>pgInflight := (pgInflight p)(cID channel \<mapsto>
        \<lparr>ifID = cID channel, ifName = cName channel, ifStartedAt = now, ifLastPageAt = now,
         ifPageCount = 0, ifPageMessages = 0\<rparr>)\<rparr>"

definition progress_touch :: "instant \<Rightarrow> dchannel \<Rightarrow> nat \<Rightarrow> messageSyncProgress \<Rightarrow> messageSyncProgress" where
  "progress_touch now channel messages p =
     (let entry = (case pgInflight p (cID channel) of
                     Some entry \<Rightarrow> entry
                   | None \<Rightarrow> \<lparr>ifID = cID channel, ifName = cName channel, ifStartedAt = now, ifLastPageAt = 0,
                             ifPageCount = 0, ifPageMessages = 0\<rparr>) in
      p\<lparr>pgInflight := (pgInflight p)(cID channel \<mapsto>
          entry\<lparr>ifLastPageAt := now, ifPageCount := Suc (ifPageCount entry),
                ifPageMessages := ifPageMessages entry + messages\<rparr>),
        pgLastProgressAt := now\<rparr>)"

text \<open>What a progress line reports: processed, remaining, active, written and skipped channels.\<close>

definition logAttrsLocked :: "messageSyncProgress \<Rightarrow> (string \<times> int) list" where
  "logAttrsLocked p =
     [(''processed_channels'', int (pgProcessed p)), (''total_channels'', int (pgTotalChannels p)),
      (''remaining_channels'', int (pgTotalChannels p) - int (pgProcessed p)),
      (''active_channels'', int (card (dom (pgInflight p)))), (''messages_written'', int (pgMessages p)),
      (''deferred_channels'', int (pgDeferredRetryable p)),
      (''skipped_missing_access_channels'', int (pgSkippedMissingAccess p)),
      (''skipped_unknown_channel_channels'', int (pgSkippedUnknownChannel p))]"

text \<open>\<open>complete\<close>: the counters, and the outcome that is logged when a line is due.\<close>

definition progress_complete :: "instant \<Rightarrow> dchannel \<Rightarrow> nat \<Rightarrow> string \<Rightarrow> messageSyncProgress \<Rightarrow> messageSyncProgress \<times> (string \<times> string) option" where
  "progress_complete now channel written outcome p =
     (let p1 = p\<lparr>pgInflight := (pgInflight p)(cID channel := None), pgProcessed := Suc (pgProcessed p),
                 pgMessages := pgMessages p + written, pgLastProgressAt := now\<rparr>;
          shouldLog = (pgProcessed p1 = pgTotalChannels p1 \<or> pgProcessed p1 = 1 \<or> pgProcessed p1 mod 100 = 0 \<or>
                       now - pgLastLogAt p1 \<ge> pgLogEvery p1) in
      if \<not> shouldLog then (p1, None) else (p1\<lparr>pgLastLogAt := now\<rparr>, Some (cID channel, outcome)))"

definition progress_record :: "instant \<Rightarrow> dchannel \<Rightarrow> nat \<Rightarrow> messageSyncProgress \<Rightarrow> messageSyncProgress \<times> (string \<times> string) option" where
  "progress_record now channel written = progress_complete now channel written ''ok''"

definition progress_recordSkip :: "instant \<Rightarrow> dchannel \<Rightarrow> go_error \<Rightarrow> messageSyncProgress \<Rightarrow> messageSyncProgress \<times> (string \<times> string) option" where
  "progress_recordSkip now channel err p =
     (let outcome = syncErrorOutcome err;
          p1 = (if outcome = ''deferred_retryable'' then p\<lparr>pgDeferredRetryable := Suc (pgDeferredRetryable p)\<rparr>
                else if outcome = ''skipped_missing_access'' then p\<lparr>pgSkippedMissingAccess := Suc (pgSkippedMissingAccess p)\<rparr>
                else if outcome = ''skipped_unknown_channel'' then p\<lparr>pgSkippedUnknownChannel := Suc (pgSkippedUnknownChannel p)\<rparr>
                else p) in
      progress_complete now channel 0 outcome p1)"

section \<open>One channel in a worker\<close>

record result =
  rsChannel :: dchannel
  rsCount :: nat
  rsErr :: "go_error option"
  rsSkipped :: "go_error option"

text \<open>The body of a worker between taking a channel and offering its result.\<close>

definition settle_job :: "env \<Rightarrow> string \<Rightarrow> dchannel \<Rightarrow> nat \<Rightarrow> go_error option \<Rightarrow> world \<Rightarrow> result \<times> world" where
  "settle_job env guildID channel written err w =
     (let res = (\<lambda>e s. \<lparr>rsChannel = channel, rsCount = written, rsErr = e, rsSkipped = s\<rparr>);
          report = (\<lambda>e w. (case recordChannelFailure env guildID (cID channel) (Some e) w of
                             (r, w1) \<Rightarrow> (res (Some (withFailureRecordError e r)) None, w1))) in
      case err of
        Some e \<Rightarrow>
          (case skipSyncError env (Some channel) e w of
             (True, w1) \<Rightarrow> (res None (Some e), snd (recordChannelFailure env guildID (cID channel) (Some e) w1))
           | (False, w1) \<Rightarrow> report e w1)
      | None \<Rightarrow>
          (case clearUnavailableChannel env (cID channel) w of
             (Some e, w1) \<Rightarrow> report e w1
           | (None, w1) \<Rightarrow>
               (case resolveChannelFailures env guildID (cID channel) w1 of
                  (Some e, w2) \<Rightarrow> report e w2
                | (None, w2) \<Rightarrow> (res None None, w2))))"

definition channel_job :: "nat \<Rightarrow> env \<Rightarrow> syncer_cfg \<Rightarrow> string \<Rightarrow> SyncOptions \<Rightarrow> dchannel \<Rightarrow> world \<Rightarrow> (result \<times> world) option" where
  "channel_job fuel env cfg guildID opts channel w =
     do { ((written, err), w1) \<leftarrow> syncChannelMessages fuel env cfg channel (soFull opts) (soEmbeddings opts) (soSince opts) (soLatestOnly opts) w;
          Some (settle_job env guildID channel written err w1) }"

section \<open>The pool\<close>

datatype worker =
    Idle                \<comment> \<open>receiving from \<open>jobs\<close>\<close>
  | Got dchannel        \<comment> \<open>took a channel, about to look at the context\<close>
  | Reporting result    \<comment> \<open>crawled it, offering the result\<close>
  | Failing             \<comment> \<open>sent a result with an error, about to cancel the run\<close>
  | Exited

text \<open>
  The state of a run. \<open>plRun\<close>, \<open>plAbandoned\<close>, \<open>plLost\<close> and \<open>plCollected\<close> are the history of the run:
  the results of all crawls in the order they ran, the channels a worker took and left because the
  context was done, the results not sent for that reason, and the results the collector read.
\<close>

record pool =
  plPending :: "dchannel list"
  plFeeding :: bool
  plWorkers :: "worker list"
  plResults :: "result list"
  plClosed :: bool
  plCancelled :: bool
  plParentDone :: bool
  plTotal :: nat
  plFirstErr :: "go_error option"
  plProgress :: messageSyncProgress
  plWorld :: world
  plRun :: "result list"
  plAbandoned :: "dchannel list"
  plLost :: "result list"
  plCollected :: "result list"

definition pool_init :: "nat \<Rightarrow> dchannel list \<Rightarrow> messageSyncProgress \<Rightarrow> world \<Rightarrow> pool" where
  "pool_init workers channels p w =
     \<lparr>plPending = channels, plFeeding = True, plWorkers = replicate workers Idle, plResults = [],
      plClosed = False, plCancelled = False, plParentDone = False, plTotal = 0, plFirstErr = None,
      plProgress = p, plWorld = w, plRun = [], plAbandoned = [], plLost = [], plCollected = []\<rparr>"

text \<open>One iteration of \<open>for result := range results\<close>.\<close>

definition collect_progress :: "instant \<Rightarrow> result \<Rightarrow> messageSyncProgress \<Rightarrow> messageSyncProgress \<times> (string \<times> string) option" where
  "collect_progress now r =
     (case rsSkipped r of
        Some e \<Rightarrow> progress_recordSkip now (rsChannel r) e
      | None \<Rightarrow> progress_record now (rsChannel r) (rsCount r))"

definition collect_error :: "result \<Rightarrow> go_error option \<Rightarrow> go_error option" where
  "collect_error r firstErr =
     (case (rsErr r, firstErr) of
        (Some e, None) \<Rightarrow> Some (ErrWrap (''sync channel '' @ cID (rsChannel r) @ '': '') e [])
      | _ \<Rightarrow> firstErr)"

definition collect :: "instant \<Rightarrow> result \<Rightarrow> pool \<Rightarrow> pool" where
  "collect now r s =
     s\<lparr>plTotal := plTotal s + rsCount r, plProgress := fst (collect_progress now r (plProgress s)),
       plFirstErr := collect_error r (plFirstErr s), plCollected := plCollected s @ [r]\<rparr>"

definition after_send :: "result \<Rightarrow> worker" where
  "after_send r = (if rsErr r = None then Idle else Failing)"

inductive pool_step ::
  "nat \<Rightarrow> env \<Rightarrow> syncer_cfg \<Rightarrow> string \<Rightarrow> SyncOptions \<Rightarrow> nat \<Rightarrow> pool \<Rightarrow> pool \<Rightarrow> bool"
  for fuel env cfg guildID opts capacity
where
  feed: "\<lbrakk>plFeeding s; plPending s = c # cs; i < length (plWorkers s); plWorkers s ! i = Idle\<rbrakk> \<Longrightarrow>
     pool_step fuel env cfg guildID opts capacity s (s\<lparr>plPending := cs, plWorkers := (plWorkers s)[i := Got c]\<rparr>)"
| feed_end: "\<lbrakk>plFeeding s; plPending s = []\<rbrakk> \<Longrightarrow>
     pool_step fuel env cfg guildID opts capacity s (s\<lparr>plFeeding := False\<rparr>)"
| feed_cancelled: "\<lbrakk>plFeeding s; plPending s \<noteq> []; plCancelled s\<rbrakk> \<Longrightarrow>
     pool_step fuel env cfg guildID opts capacity s (s\<lparr>plFeeding := False\<rparr>)"
| jobs_closed: "\<lbrakk>\<not> plFeeding s; i < length (plWorkers s); plWorkers s ! i = Idle\<rbrakk> \<Longrightarrow>
     pool_step fuel env cfg guildID opts capacity s (s\<lparr>plWorkers := (plWorkers s)[i := Exited]\<rparr>)"
| abandon: "\<lbrakk>i < length (plWorkers s); plWorkers s ! i = Got c; plCancelled s\<rbrakk> \<Longrightarrow>
     pool_step fuel env cfg guildID opts capacity s
       (s\<lparr>plWorkers := (plWorkers s)[i := Exited], plAbandoned := plAbandoned s @ [c]\<rparr>)"
| crawl: "\<lbrakk>i < length (plWorkers s); plWorkers s ! i = Got c; \<not> plCancelled s;
      channel_job fuel env cfg guildID opts c (plWorld s) = Some (r, w)\<rbrakk> \<Longrightarrow>
     pool_step fuel env cfg guildID opts capacity s
       (s\<lparr>plWorkers := (plWorkers s)[i := Reporting r], plWorld := w, plRun := plRun s @ [r],
          plProgress := progress_start now c (plProgress s)\<rparr>)"
| send: "\<lbrakk>i < length (plWorkers s); plWorkers s ! i = Reporting r; length (plResults s) < capacity\<rbrakk> \<Longrightarrow>
     pool_step fuel env cfg guildID opts capacity s
       (s\<lparr>plWorkers := (plWorkers s)[i := after_send r], plResults := plResults s @ [r]\<rparr>)"
| lose: "\<lbrakk>i < length (plWorkers s); plWorkers s ! i = Reporting r; plCancelled s\<rbrakk> \<Longrightarrow>
     pool_step fuel env cfg guildID opts capacity s
       (s\<lparr>plWorkers := (plWorkers s)[i := Exited], plLost := plLost s @ [r]\<rparr>)"
| fail: "\<lbrakk>i < length (plWorkers s); plWorkers s ! i = Failing\<rbrakk> \<Longrightarrow>
     pool_step fuel env cfg guildID opts capacity s
       (s\<lparr>plWorkers := (plWorkers s)[i := Exited], plCancelled := True\<rparr>)"
| close_results: "\<lbrakk>\<not> plClosed s; set (plWorkers s) \<subseteq> {Exited}\<rbrakk> \<Longrightarrow>
     pool_step fuel env cfg guildID opts capacity s (s\<lparr>plClosed := True\<rparr>)"
| receive: "plResults s = r # rs \<Longrightarrow>
     pool_step fuel env cfg guildID opts capacity s (collect now r (s\<lparr>plResults := rs\<rparr>))"
| parent_done: "\<not> plParentDone s \<Longrightarrow>
     pool_step fuel env cfg guildID opts capacity s (s\<lparr>plParentDone := True, plCancelled := True\<rparr>)"

text \<open>The call returns when \<open>results\<close> is closed and drained.\<close>

definition pool_done :: "pool \<Rightarrow> bool" where
  "pool_done s \<longleftrightarrow> plClosed s \<and> plResults s = []"

inductive pool_reach :: "nat \<Rightarrow> env \<Rightarrow> syncer_cfg \<Rightarrow> string \<Rightarrow> SyncOptions \<Rightarrow> pool \<Rightarrow> nat \<Rightarrow> pool \<Rightarrow> bool"
  for fuel env cfg guildID opts s0 capacity
where
  start: "pool_reach fuel env cfg guildID opts s0 capacity s0"
| step: "\<lbrakk>pool_reach fuel env cfg guildID opts s0 capacity s; pool_step fuel env cfg guildID opts capacity s s'\<rbrakk> \<Longrightarrow>
     pool_reach fuel env cfg guildID opts s0 capacity s'"

text \<open>\<open>syncMessageChannelsConcurrent\<close>: the runs of the pool that return, with what they return.\<close>

definition syncMessageChannelsConcurrent ::
  "nat \<Rightarrow> env \<Rightarrow> syncer_cfg \<Rightarrow> string \<Rightarrow> SyncOptions \<Rightarrow> dchannel list \<Rightarrow> nat \<Rightarrow> messageSyncProgress \<Rightarrow> world \<Rightarrow> pool \<Rightarrow> bool" where
  "syncMessageChannelsConcurrent fuel env cfg guildID opts channels workers p w s \<longleftrightarrow>
     pool_reach fuel env cfg guildID opts (pool_init workers channels p w) (length channels) s \<and> pool_done s"

text \<open>
  \<open>syncMessageChannels\<close>: the channels left by the two filters, crawled by the serial loop or by the
  pool, with the total, the error and the world it leaves.
\<close>

inductive syncMessageChannels ::
  "nat \<Rightarrow> env \<Rightarrow> syncer_cfg \<Rightarrow> string \<Rightarrow> chanp list \<Rightarrow> SyncOptions \<Rightarrow> world \<Rightarrow> nat \<times> go_error option \<Rightarrow> world \<Rightarrow> bool"
  for fuel env cfg guildID channels opts w
where
  filter_failed: "filterFreshUnavailableChannels env (filterMessageChannels channels (soChannelIDs opts)) opts w = (Inl e, w1) \<Longrightarrow>
     syncMessageChannels fuel env cfg guildID channels opts w (0, Some e) w1"
| nothing_left: "filterFreshUnavailableChannels env (filterMessageChannels channels (soChannelIDs opts)) opts w = (Inr [], w1) \<Longrightarrow>
     syncMessageChannels fuel env cfg guildID channels opts w (0, None) w1"
| serial: "\<lbrakk>filterFreshUnavailableChannels env (filterMessageChannels channels (soChannelIDs opts)) opts w = (Inr cs, w1);
      cs \<noteq> []; soConcurrency opts \<le> 1; syncMessageChannelsSerial fuel env cfg guildID opts cs 0 w1 = Some (r, w2)\<rbrakk> \<Longrightarrow>
     syncMessageChannels fuel env cfg guildID channels opts w r w2"
| concurrent: "\<lbrakk>filterFreshUnavailableChannels env (filterMessageChannels channels (soChannelIDs opts)) opts w = (Inr cs, w1);
      cs \<noteq> []; soConcurrency opts > 1;
      syncMessageChannelsConcurrent fuel env cfg guildID opts cs (nat (soConcurrency opts))
        (newMessageSyncProgress now (length cs) logEvery waitEvery) w1 s\<rbrakk> \<Longrightarrow>
     syncMessageChannels fuel env cfg guildID channels opts w (plTotal s, plFirstErr s) (plWorld s)"

section \<open>Sums over the workers\<close>

lemma sum_list_nth_update:
  fixes f :: "'a \<Rightarrow> 'b :: comm_monoid_add"
  assumes "i < length xs" "xs ! i = x"
  shows "sum_list (map f (xs[i := y])) + f x = sum_list (map f xs) + f y"
  using assms by (induction xs arbitrary: i) (auto split: nat.split simp: ac_simps)

fun held :: "worker \<Rightarrow> dchannel multiset" where
  "held (Got c) = {#c#}"
| "held _ = {#}"

fun offered :: "worker \<Rightarrow> result multiset" where
  "offered (Reporting r) = {#r#}"
| "offered _ = {#}"

definition all_held :: "pool \<Rightarrow> dchannel multiset" where
  "all_held s = sum_list (map held (plWorkers s))"

definition all_offered :: "pool \<Rightarrow> result multiset" where
  "all_offered s = sum_list (map offered (plWorkers s))"

section \<open>What a run conserves\<close>

text \<open>Every channel is waiting, held by one worker, crawled, or abandoned.\<close>

definition channels_accounted :: "dchannel list \<Rightarrow> pool \<Rightarrow> bool" where
  "channels_accounted channels s \<longleftrightarrow>
     mset channels = mset (plPending s) + all_held s + mset (map rsChannel (plRun s)) + mset (plAbandoned s)"

text \<open>Every result is offered by one worker, buffered, collected, or lost.\<close>

definition results_accounted :: "pool \<Rightarrow> bool" where
  "results_accounted s \<longleftrightarrow>
     mset (plRun s) = all_offered s + mset (plResults s) + mset (plLost s) + mset (plCollected s)"

definition accounted :: "dchannel list \<Rightarrow> pool \<Rightarrow> bool" where
  "accounted channels s \<longleftrightarrow> channels_accounted channels s \<and> results_accounted s"

definition first_error :: "result list \<Rightarrow> go_error option" where
  "first_error rs = foldl (\<lambda>e r. collect_error r e) None rs"

definition collector_accounted :: "pool \<Rightarrow> bool" where
  "collector_accounted s \<longleftrightarrow>
     plTotal s = sum_list (map rsCount (plCollected s)) \<and> plFirstErr s = first_error (plCollected s)"

abbreviation failed :: "result \<Rightarrow> bool" where
  "failed r \<equiv> rsErr r \<noteq> None"

definition failure_sent :: "pool \<Rightarrow> bool" where
  "failure_sent s \<longleftrightarrow> list_ex failed (plResults s) \<or> list_ex failed (plCollected s)"

text \<open>
  A result is lost and a channel abandoned only when the context is done; the context is done only
  when the caller's is, or after a failed result reached the buffer; no worker leaves while channels
  are waiting unless the context is done.
\<close>

definition cancellation_justified :: "pool \<Rightarrow> bool" where
  "cancellation_justified s \<longleftrightarrow>
     (plLost s \<noteq> [] \<or> plAbandoned s \<noteq> [] \<longrightarrow> plCancelled s) \<and>
     (plCancelled s \<longrightarrow> plParentDone s \<or> failure_sent s) \<and>
     (Failing \<in> set (plWorkers s) \<longrightarrow> failure_sent s) \<and>
     (Exited \<in> set (plWorkers s) \<longrightarrow> \<not> plFeeding s \<or> plCancelled s) \<and>
     (\<not> plFeeding s \<longrightarrow> plPending s = [] \<or> plCancelled s) \<and>
     (plClosed s \<longrightarrow> set (plWorkers s) \<subseteq> {Exited})"

lemmas accounted_defs = accounted_def channels_accounted_def results_accounted_def

lemma settle_job_fields [simp]:
  "rsChannel (fst (settle_job env g c n err w)) = c" "rsCount (fst (settle_job env g c n err w)) = n"
  by (simp_all add: settle_job_def Let_def split: option.split prod.split bool.split)

lemma rsChannel_job: "channel_job fuel env cfg g opts c w = Some (r, w') \<Longrightarrow> rsChannel r = c"
  by (auto simp: channel_job_def bind_eq_Some_conv) (metis fst_conv settle_job_fields(1))

lemma worker_sums:
  assumes "i < length (plWorkers s)" "plWorkers s ! i = x" "plWorkers t = (plWorkers s)[i := y]"
  shows "all_held t + held x = all_held s + held y" and "all_offered t + offered x = all_offered s + offered y"
  using sum_list_nth_update [OF assms(1,2)] assms(3) by (simp_all add: all_held_def all_offered_def)

lemma offered_after_send [simp]: "offered (after_send r) = {#}" "held (after_send r) = {#}"
  by (simp_all add: after_send_def)

lemma step_accounted:
  assumes "pool_step fuel env cfg g opts cap s s'" "accounted channels s"
  shows "accounted channels s'"
  using assms
proof (induction rule: pool_step.induct)
  case (feed s c cs i)
  from worker_sums [OF feed(3,4), of "s\<lparr>plPending := cs, plWorkers := (plWorkers s)[i := Got c]\<rparr>" "Got c"] feed
  show ?case by (simp add: accounted_defs)
next
  case (jobs_closed s i)
  from worker_sums [OF jobs_closed(2,3), of "s\<lparr>plWorkers := (plWorkers s)[i := Exited]\<rparr>" Exited] jobs_closed
  show ?case by (simp add: accounted_defs)
next
  case (abandon i s c)
  from worker_sums [OF abandon(1,2), of "s\<lparr>plWorkers := (plWorkers s)[i := Exited], plAbandoned := plAbandoned s @ [c]\<rparr>" Exited] abandon
  show ?case by (simp add: accounted_defs)
next
  case (crawl i s c r w now)
  from worker_sums [OF crawl(1,2), of "s\<lparr>plWorkers := (plWorkers s)[i := Reporting r], plWorld := w, plRun := plRun s @ [r],
      plProgress := progress_start now c (plProgress s)\<rparr>" "Reporting r"] crawl rsChannel_job [OF crawl(4)]
  show ?case by (simp add: accounted_defs)
next
  case (send i s r)
  from worker_sums [OF send(1,2), of "s\<lparr>plWorkers := (plWorkers s)[i := after_send r], plResults := plResults s @ [r]\<rparr>" "after_send r"] send
  show ?case by (simp add: accounted_defs)
next
  case (lose i s r)
  from worker_sums [OF lose(1,2), of "s\<lparr>plWorkers := (plWorkers s)[i := Exited], plLost := plLost s @ [r]\<rparr>" Exited] lose
  show ?case by (simp add: accounted_defs)
next
  case (fail i s)
  from worker_sums [OF fail(1,2), of "s\<lparr>plWorkers := (plWorkers s)[i := Exited], plCancelled := True\<rparr>" Exited] fail
  show ?case by (simp add: accounted_defs)
qed (simp_all add: accounted_defs all_held_def all_offered_def collect_def)

lemma first_error_snoc: "first_error (rs @ [r]) = collect_error r (first_error rs)"
  by (simp add: first_error_def)

lemma collect_error_None: "collect_error r e = None \<longleftrightarrow> rsErr r = None \<and> e = None"
  by (simp add: collect_error_def split: option.split)

lemma first_error_None: "first_error rs = None \<longleftrightarrow> (\<forall>r \<in> set rs. rsErr r = None)"
proof (induction rs rule: rev_induct)
  case Nil
  then show ?case by (simp add: first_error_def)
next
  case (snoc r rs)
  then show ?case by (auto simp: first_error_snoc collect_error_None)
qed

lemma step_collector:
  "pool_step fuel env cfg g opts cap s s' \<Longrightarrow> collector_accounted s \<Longrightarrow> collector_accounted s'"
  by (induction rule: pool_step.induct) (simp_all add: collector_accounted_def collect_def first_error_snoc)

lemma in_set_update: "x \<in> set (xs[i := y]) \<Longrightarrow> x = y \<or> x \<in> set xs"
  using set_update_subset_insert by fastforce

lemma active_open: "cancellation_justified s \<Longrightarrow> i < length (plWorkers s) \<Longrightarrow> plWorkers s ! i \<noteq> Exited \<Longrightarrow> \<not> plClosed s"
  unfolding cancellation_justified_def using nth_mem by fastforce

lemma step_cancellation:
  "pool_step fuel env cfg g opts cap s s' \<Longrightarrow> cancellation_justified s \<Longrightarrow> cancellation_justified s'"
proof (induction rule: pool_step.induct)
  case (feed s c cs i)
  then have "\<not> plClosed s" using active_open by simp
  with feed show ?case by (auto simp: cancellation_justified_def failure_sent_def dest!: in_set_update)
next
  case (jobs_closed s i)
  then have "\<not> plClosed s" using active_open by simp
  with jobs_closed show ?case by (auto simp: cancellation_justified_def failure_sent_def dest!: in_set_update)
next
  case (abandon i s c)
  then have "\<not> plClosed s" using active_open by simp
  with abandon show ?case by (auto simp: cancellation_justified_def failure_sent_def dest!: in_set_update)
next
  case (crawl i s c r w now)
  then have "\<not> plClosed s" using active_open by simp
  with crawl show ?case by (auto simp: cancellation_justified_def failure_sent_def dest!: in_set_update)
next
  case (send i s r)
  then have "\<not> plClosed s" using active_open by simp
  with send show ?case
    by (auto simp: cancellation_justified_def failure_sent_def after_send_def dest!: in_set_update split: if_splits)
next
  case (lose i s r)
  then have "\<not> plClosed s" using active_open by simp
  with lose show ?case by (auto simp: cancellation_justified_def failure_sent_def dest!: in_set_update)
next
  case (fail i s)
  then have "\<not> plClosed s" using active_open by simp
  moreover have "Failing \<in> set (plWorkers s)" using fail by (metis nth_mem)
  ultimately show ?case using fail by (auto simp: cancellation_justified_def failure_sent_def dest!: in_set_update)
next
  case (receive s r rs now)
  then show ?case by (auto simp: cancellation_justified_def failure_sent_def collect_def)
qed (auto simp: cancellation_justified_def failure_sent_def)

section \<open>Reachable states\<close>

lemma reach_invariant:
  assumes "pool_reach fuel env cfg g opts s0 cap s" "P s0"
    "\<And>s s'. pool_step fuel env cfg g opts cap s s' \<Longrightarrow> P s \<Longrightarrow> P s'"
  shows "P s"
  using assms(1) by (induction rule: pool_reach.induct) (use assms(2,3) in blast)+

lemma sum_list_zero: "\<forall>x \<in> set xs. f x = 0 \<Longrightarrow> sum_list (map f xs) = (0 :: 'b :: monoid_add)"
  by (induction xs) simp_all

lemma idle_sums:
  assumes "\<forall>x \<in> set (plWorkers s). held x = {#} \<and> offered x = {#}"
  shows "all_held s = {#}" "all_offered s = {#}"
  using assms by (auto simp: all_held_def all_offered_def intro!: sum_list_zero)

lemma reach_accounted:
  assumes "pool_reach fuel env cfg g opts (pool_init n channels p w) cap s" shows "accounted channels s"
proof (rule reach_invariant [OF assms])
  have "all_held (pool_init n channels p w) = {#}" "all_offered (pool_init n channels p w) = {#}"
    by (rule idle_sums; simp add: pool_init_def)+
  then show "accounted channels (pool_init n channels p w)" by (simp add: accounted_defs) (simp add: pool_init_def)
qed (rule step_accounted)

lemma reach_collector:
  "pool_reach fuel env cfg g opts (pool_init n channels p w) cap s \<Longrightarrow> collector_accounted s"
  by (erule reach_invariant) (simp add: collector_accounted_def pool_init_def first_error_def, rule step_collector)

lemma reach_cancellation:
  "pool_reach fuel env cfg g opts (pool_init n channels p w) cap s \<Longrightarrow> cancellation_justified s"
  by (erule reach_invariant) (simp add: cancellation_justified_def pool_init_def, rule step_cancellation)

lemma length_workers: "pool_step fuel env cfg g opts cap s s' \<Longrightarrow> length (plWorkers s') = length (plWorkers s)"
  by (induction rule: pool_step.induct) (simp_all add: collect_def)

lemma reach_workers:
  "pool_reach fuel env cfg g opts (pool_init n channels p w) cap s \<Longrightarrow> length (plWorkers s) = n"
  by (erule reach_invariant) (simp add: pool_init_def, simp add: length_workers)

text \<open>When the call returns, no worker holds a channel or a result.\<close>

lemma done_sums:
  assumes "cancellation_justified s" "pool_done s" shows "all_held s = {#}" "all_offered s = {#}"
proof -
  have "set (plWorkers s) \<subseteq> {Exited}" using assms by (simp add: cancellation_justified_def pool_done_def)
  then have "\<forall>x \<in> set (plWorkers s). held x = {#} \<and> offered x = {#}" by auto
  from idle_sums [OF this] show "all_held s = {#}" "all_offered s = {#}" by simp_all
qed

text \<open>A run that reports no error and was not interrupted has crawled every channel.\<close>

lemma clean_run:
  assumes reach: "pool_reach fuel env cfg g opts (pool_init n channels p w) cap s" and d: "pool_done s"
    and clean: "plFirstErr s = None" "\<not> plParentDone s" and "0 < n"
  shows "mset (map rsChannel (plRun s)) = mset channels" and "mset (plRun s) = mset (plCollected s)"
    and "\<forall>r \<in> set (plRun s). rsErr r = None"
proof -
  note J = reach_cancellation [OF reach] and A = reach_accounted [OF reach] and C = reach_collector [OF reach]
  have ok: "\<forall>r \<in> set (plCollected s). rsErr r = None"
    using C clean(1) by (simp add: collector_accounted_def first_error_None [symmetric])
  then have "\<not> failure_sent s" using d by (auto simp: failure_sent_def pool_done_def list_ex_iff)
  then have nc: "\<not> plCancelled s" using J clean(2) by (auto simp: cancellation_justified_def)
  then have gone: "plLost s = []" "plAbandoned s = []" using J by (auto simp: cancellation_justified_def)
  have "set (plWorkers s) \<subseteq> {Exited}" using J d by (auto simp: cancellation_justified_def pool_done_def)
  moreover have "plWorkers s \<noteq> []" using reach_workers [OF reach] \<open>0 < n\<close> by auto
  ultimately have "Exited \<in> set (plWorkers s)" by (cases "plWorkers s") auto
  then have "plPending s = []" using J nc by (auto simp: cancellation_justified_def)
  with A gone done_sums [OF J d] d show a: "mset (map rsChannel (plRun s)) = mset channels"
    and b: "mset (plRun s) = mset (plCollected s)" by (simp_all add: accounted_defs pool_done_def)
  show "\<forall>r \<in> set (plRun s). rsErr r = None" using ok b mset_eq_setD by blast
qed

section \<open>The crawls as a serial run\<close>

fun run_jobs :: "nat \<Rightarrow> env \<Rightarrow> syncer_cfg \<Rightarrow> string \<Rightarrow> SyncOptions \<Rightarrow> dchannel list \<Rightarrow> world \<Rightarrow> (result list \<times> world) option" where
  "run_jobs fuel env cfg guildID opts [] w = Some ([], w)"
| "run_jobs fuel env cfg guildID opts (c # cs) w =
     do { (r, w1) \<leftarrow> channel_job fuel env cfg guildID opts c w;
          (rs, w2) \<leftarrow> run_jobs fuel env cfg guildID opts cs w1;
          Some (r # rs, w2) }"

lemma run_jobs_snoc:
  "run_jobs fuel env cfg g opts cs w = Some (rs, w1) \<Longrightarrow> channel_job fuel env cfg g opts c w1 = Some (r, w2) \<Longrightarrow>
   run_jobs fuel env cfg g opts (cs @ [c]) w = Some (rs @ [r], w2)"
proof (induction cs arbitrary: w rs)
  case Nil
  then show ?case by simp
next
  case (Cons b cs)
  from Cons.prems(1) obtain q v qs where *: "channel_job fuel env cfg g opts b w = Some (q, v)"
    "run_jobs fuel env cfg g opts cs v = Some (qs, w1)" "rs = q # qs" by (auto simp: bind_eq_Some_conv)
  from Cons.IH [OF *(2) Cons.prems(2)] * show ?case by simp
qed

lemma step_run:
  assumes "pool_step fuel env cfg g opts cap s s'"
    "run_jobs fuel env cfg g opts (map rsChannel (plRun s)) w = Some (plRun s, plWorld s)"
  shows "run_jobs fuel env cfg g opts (map rsChannel (plRun s')) w = Some (plRun s', plWorld s')"
  using assms
proof (induction rule: pool_step.induct)
  case (crawl i s c r w' now)
  from run_jobs_snoc [OF crawl.prems crawl(4)] rsChannel_job [OF crawl(4)] show ?case by simp
qed (simp_all add: collect_def)

lemma reach_run:
  assumes "pool_reach fuel env cfg g opts (pool_init n channels p w) cap s"
  shows "run_jobs fuel env cfg g opts (map rsChannel (plRun s)) w = Some (plRun s, plWorld s)"
  by (rule reach_invariant [OF assms]) (simp add: pool_init_def, rule step_run)

text \<open>A crawl that a worker reports without error is a crawl the serial loop goes on after.\<close>

lemma settle_outcome:
  "rsErr (fst (settle_job env g c n err w)) = None \<Longrightarrow>
   channel_outcome env g c err w = (None, snd (settle_job env g c n err w))"
  by (auto simp: settle_job_def channel_outcome_def Let_def split: option.splits prod.splits bool.splits)

lemma run_jobs_serial:
  "run_jobs fuel env cfg g opts cs w = Some (rs, w') \<Longrightarrow> \<forall>r \<in> set rs. rsErr r = None \<Longrightarrow>
   syncMessageChannelsSerial fuel env cfg g opts cs acc w = Some ((acc + sum_list (map rsCount rs), None), w')"
proof (induction cs arbitrary: w rs acc)
  case Nil
  then show ?case by simp
next
  case (Cons c cs)
  from Cons.prems(1) obtain r v qs where *: "channel_job fuel env cfg g opts c w = Some (r, v)"
    "run_jobs fuel env cfg g opts cs v = Some (qs, w')" "rs = r # qs" by (auto simp: bind_eq_Some_conv)
  from *(1) obtain n err u where
    u: "syncChannelMessages fuel env cfg c (soFull opts) (soEmbeddings opts) (soSince opts) (soLatestOnly opts) w = Some ((n, err), u)"
    and s: "settle_job env g c n err u = (r, v)" by (auto simp: channel_job_def bind_eq_Some_conv)
  have "rsErr (fst (settle_job env g c n err u)) = None" using Cons.prems(2) * s by simp
  from settle_outcome [OF this] s have o: "channel_outcome env g c err u = (None, v)" by simp
  have "rsCount r = n" using settle_job_fields(2) [of env g c n err u] s by simp
  with Cons.IH [OF *(2), of "acc + n"] Cons.prems(2) * u o show ?case by (simp add: add.assoc)
qed


text \<open>
  C25. A concurrent crawl swallows no failure. Under any scheduling, every channel is crawled at most
  once, and when the call returns, the total is the sum of the results it read, and a failed crawl
  of any channel makes it return an error, that of the first failed result it read, unless the
  caller's own context was done.
\<close>
theorem concurrent_crawl_reports_failures:
  assumes "syncMessageChannelsConcurrent fuel env cfg guildID opts channels workers p w s"
  shows "mset (map rsChannel (plRun s)) \<subseteq># mset channels \<and>
    plTotal s = sum_list (map rsCount (plCollected s)) \<and> plFirstErr s = first_error (plCollected s) \<and>
    (list_ex failed (plRun s) \<longrightarrow> plFirstErr s \<noteq> None \<or> plParentDone s)"
proof -
  have reach: "pool_reach fuel env cfg guildID opts (pool_init workers channels p w) (length channels) s" and d: "pool_done s"
    using assms by (simp_all add: syncMessageChannelsConcurrent_def)
  note J = reach_cancellation [OF reach] and A = reach_accounted [OF reach] and C = reach_collector [OF reach]
  have e: "plFirstErr s = first_error (plCollected s)" using C by (simp add: collector_accounted_def)
  have "plFirstErr s \<noteq> None \<or> plParentDone s" if "list_ex failed (plRun s)"
  proof -
  from that obtain r where r: "r \<in> set (plRun s)" "failed r" by (auto simp: list_ex_iff)
  have "mset (plRun s) = mset (plLost s) + mset (plCollected s)"
    using A done_sums [OF J d] d by (simp add: accounted_defs pool_done_def)
  then have "set (plRun s) = set (plLost s) \<union> set (plCollected s)" by (metis set_mset_mset set_mset_union)
  with r have "plLost s \<noteq> [] \<or> failure_sent s" by (auto simp: failure_sent_def list_ex_iff)
  then have "plParentDone s \<or> failure_sent s" using J by (auto simp: cancellation_justified_def)
  moreover have "failure_sent s \<Longrightarrow> first_error (plCollected s) \<noteq> None"
    using d first_error_None by (auto simp: failure_sent_def pool_done_def list_ex_iff)
  ultimately show ?thesis using e by auto
  qed
  then show ?thesis using A C e by (auto simp: accounted_defs collector_accounted_def)
qed

section \<open>The pool ends\<close>

fun worker_weight :: "worker \<Rightarrow> nat" where
  "worker_weight Idle = 1"
| "worker_weight (Got c) = 4"
| "worker_weight (Reporting r) = 3"
| "worker_weight Failing = 1"
| "worker_weight Exited = 0"

definition pool_weight :: "pool \<Rightarrow> nat" where
  "pool_weight s = 4 * length (plPending s) + sum_list (map worker_weight (plWorkers s)) + length (plResults s) +
     of_bool (plFeeding s) + of_bool (\<not> plClosed s) + of_bool (\<not> plParentDone s)"

lemma weight_update:
  "i < length ws \<Longrightarrow> ws ! i = x \<Longrightarrow>
   sum_list (map worker_weight (ws[i := y])) + worker_weight x = sum_list (map worker_weight ws) + worker_weight y"
  by (rule sum_list_nth_update)

lemma weight_after_send [simp]: "worker_weight (after_send r) = 1"
  by (simp add: after_send_def)

lemma step_weight: "pool_step fuel env cfg g opts cap s s' \<Longrightarrow> pool_weight s' < pool_weight s"
proof (induction rule: pool_step.induct)
  case (feed s c cs i)
  from weight_update [OF feed(3,4), of "Got c"] feed show ?case by (simp add: pool_weight_def)
next
  case (jobs_closed s i)
  from weight_update [OF jobs_closed(2,3), of Exited] jobs_closed show ?case by (simp add: pool_weight_def)
next
  case (abandon i s c)
  from weight_update [OF abandon(1,2), of Exited] show ?case by (simp add: pool_weight_def)
next
  case (crawl i s c r w now)
  from weight_update [OF crawl(1,2), of "Reporting r"] show ?case by (simp add: pool_weight_def)
next
  case (send i s r)
  from weight_update [OF send(1,2), of "after_send r"] show ?case by (simp add: pool_weight_def)
next
  case (lose i s r)
  from weight_update [OF lose(1,2), of Exited] show ?case by (simp add: pool_weight_def)
next
  case (fail i s)
  from weight_update [OF fail(1,2), of Exited] show ?case by (simp add: pool_weight_def)
qed (simp_all add: pool_weight_def collect_def)

text \<open>The results buffer has room for every result, so no send ever blocks.\<close>

lemma send_never_blocks:
  assumes "accounted channels s" "i < length (plWorkers s)" "plWorkers s ! i = Reporting r"
  shows "length (plResults s) < length channels"
proof -
  have "{#r#} \<subseteq># all_offered s"
  proof -
    have "all_offered s = sum_list (map offered ((plWorkers s)[i := Idle])) + {#r#}"
      using sum_list_nth_update [OF assms(2,3), of offered Idle] by (simp add: all_offered_def)
    then show ?thesis by simp
  qed
  then have "size {#r#} \<le> size (all_offered s)" by (rule size_mset_mono)
  moreover have "size (mset (plRun s)) = size (all_offered s + mset (plResults s) + mset (plLost s) + mset (plCollected s))"
    using assms(1) by (simp add: accounted_defs)
  moreover have "size (mset channels) \<ge> size (mset (map rsChannel (plRun s)))"
    using assms(1) by (intro size_mset_mono) (simp add: accounted_defs)
  ultimately show ?thesis by simp
qed

lemma steps_reach:
  "(pool_step fuel env cfg g opts cap ^^ k) s0 s \<Longrightarrow> pool_reach fuel env cfg g opts s0 cap s"
  by (induction k arbitrary: s) (auto intro: pool_reach.intros)

lemma steps_weight:
  "(pool_step fuel env cfg g opts cap ^^ k) s0 s \<Longrightarrow> k + pool_weight s \<le> pool_weight s0"
proof (induction k arbitrary: s)
  case (Suc k)
  then obtain t where "(pool_step fuel env cfg g opts cap ^^ k) s0 t" "pool_step fuel env cfg g opts cap t s" by auto
  with Suc.IH [of t] step_weight [of fuel env cfg g opts cap t s] show ?case by simp
qed simp

lemma held_channel:
  assumes "accounted channels s" "i < length (plWorkers s)" "plWorkers s ! i = Got c" shows "c \<in> set channels"
proof -
  have "all_held s = sum_list (map held ((plWorkers s)[i := Idle])) + {#c#}"
    using sum_list_nth_update [OF assms(2,3), of held Idle] by (simp add: all_held_def)
  then have "c \<in># mset channels" using assms(1) by (simp add: accounted_defs)
  then show ?thesis by simp
qed

text \<open>Some goroutine can always take a step until the call returns.\<close>

lemma pool_not_stuck:
  assumes A: "accounted channels s" and jobs: "\<forall>c \<in> set channels. channel_job fuel env cfg g opts c (plWorld s) \<noteq> None"
    and "\<not> pool_done s"
  shows "\<exists>s'. pool_step fuel env cfg g opts (length channels) s s'"
proof (cases "set (plWorkers s) \<subseteq> {Exited}")
  case True
  show ?thesis
  proof (cases "plClosed s")
    case True
    with assms(3) obtain r rs where "plResults s = r # rs" by (cases "plResults s") (auto simp: pool_done_def)
    then show ?thesis by (blast intro: pool_step.receive)
  qed (use True pool_step.close_results in blast)
next
  case False
  then obtain x where "x \<in> set (plWorkers s)" "x \<noteq> Exited" by blast
  then obtain i where i: "i < length (plWorkers s)" "plWorkers s ! i = x" by (metis in_set_conv_nth)
  show ?thesis
  proof (cases x)
    case Idle
    with i show ?thesis by (cases "plFeeding s"; cases "plPending s") (blast intro: pool_step.intros)+
  next
    case (Got c)
    with held_channel [OF A] i jobs obtain r w where "channel_job fuel env cfg g opts c (plWorld s) = Some (r, w)" by fastforce
    with Got i show ?thesis by (cases "plCancelled s") (blast intro: pool_step.abandon pool_step.crawl)+
  next
    case (Reporting r)
    with i send_never_blocks [OF A] show ?thesis by (blast intro: pool_step.send)
  next
    case Failing
    with i show ?thesis by (blast intro: pool_step.fail)
  qed (use \<open>x \<noteq> Exited\<close> in simp)
qed


section \<open>An interrupted run\<close>

text \<open>
  A run whose caller's context is done before the first channel is handed out: the feeder and the
  workers leave, \<open>results\<close> is closed empty, and the call returns no error although no channel was
  crawled. The serial loop returns the context's error there.
\<close>

lemma interrupted_run_returns_no_error:
  "\<exists>s. syncMessageChannelsConcurrent fuel env cfg guildID opts [c] 2 p w s \<and> plFirstErr s = None \<and> plRun s = []"
proof -
  let ?go = "pool_step fuel env cfg guildID opts (length [c])"
  define s0 where "s0 = pool_init 2 [c] p w"
  define s1 where "s1 = s0\<lparr>plParentDone := True, plCancelled := True\<rparr>"
  define s2 where "s2 = s1\<lparr>plFeeding := False\<rparr>"
  define s3 where "s3 = s2\<lparr>plWorkers := (plWorkers s2)[0 := Exited]\<rparr>"
  define s4 where "s4 = s3\<lparr>plWorkers := (plWorkers s3)[1 := Exited]\<rparr>"
  define s5 where "s5 = s4\<lparr>plClosed := True\<rparr>"
  note defs = s0_def s1_def s2_def s3_def s4_def s5_def pool_init_def
  have "?go s0 s1" unfolding s1_def by (rule pool_step.parent_done) (simp add: defs)
  moreover have "?go s1 s2" unfolding s2_def by (rule pool_step.feed_cancelled) (simp_all add: defs)
  moreover have "?go s2 s3" unfolding s3_def by (rule pool_step.jobs_closed) (simp_all add: defs)
  moreover have "?go s3 s4" unfolding s4_def by (rule pool_step.jobs_closed) (simp_all add: defs numeral_2_eq_2)
  moreover have "?go s4 s5" unfolding s5_def by (rule pool_step.close_results) (simp_all add: defs numeral_2_eq_2)
  ultimately have "pool_reach fuel env cfg guildID opts s0 (length [c]) s5"
    by (meson pool_reach.intros)
  then show ?thesis unfolding syncMessageChannelsConcurrent_def s0_def
    by (intro exI [of _ s5]) (simp add: pool_done_def, simp add: defs)
qed

section \<open>A sample run\<close>

definition sample_opts :: SyncOptions where
  "sample_opts = \<lparr>soFull = False, soEmbeddings = False, soSince = 0, soLatestOnly = False, soConcurrency = 2, soChannelIDs = []\<rparr>"

abbreviation sample_progress :: messageSyncProgress where
  "sample_progress \<equiv> newMessageSyncProgress 0 1 15 30"

lemma sample_job_computed:
  "case channel_job 1 calm_env sample_cfg ''1'' sample_opts (plain_channel ''5'') empty_world of
     Some (r, w) \<Rightarrow> rsErr r = None | None \<Rightarrow> False"
  by code_simp

lemma sample_job:
  "\<exists>r w. channel_job 1 calm_env sample_cfg ''1'' sample_opts (plain_channel ''5'') empty_world = Some (r, w) \<and> rsErr r = None"
  using sample_job_computed by (auto split: option.splits)

lemma sample_run:
  "\<exists>s. syncMessageChannelsConcurrent 1 calm_env sample_cfg ''1'' sample_opts [plain_channel ''5''] 1 sample_progress empty_world s \<and>
     plFirstErr s = None \<and> \<not> plParentDone s \<and> plRun s \<noteq> []"
proof -
  let ?c = "plain_channel ''5''"
  let ?go = "pool_step 1 calm_env sample_cfg ''1'' sample_opts (length [?c])"
  obtain r w where job: "channel_job 1 calm_env sample_cfg ''1'' sample_opts ?c empty_world = Some (r, w)" "rsErr r = None"
    using sample_job by blast
  define s0 where "s0 = pool_init 1 [?c] sample_progress empty_world"
  define s1 where "s1 = s0\<lparr>plPending := [], plWorkers := (plWorkers s0)[0 := Got ?c]\<rparr>"
  define s2 where "s2 = s1\<lparr>plWorkers := (plWorkers s1)[0 := Reporting r], plWorld := w, plRun := plRun s1 @ [r],
          plProgress := progress_start 0 ?c (plProgress s1)\<rparr>"
  define s3 where "s3 = s2\<lparr>plWorkers := (plWorkers s2)[0 := after_send r], plResults := plResults s2 @ [r]\<rparr>"
  define s4 where "s4 = s3\<lparr>plFeeding := False\<rparr>"
  define s5 where "s5 = s4\<lparr>plWorkers := (plWorkers s4)[0 := Exited]\<rparr>"
  define s6 where "s6 = s5\<lparr>plClosed := True\<rparr>"
  define s7 where "s7 = collect 0 r (s6\<lparr>plResults := []\<rparr>)"
  note defs = s0_def s1_def s2_def s3_def s4_def s5_def s6_def pool_init_def after_send_def
  have "?go s0 s1" unfolding s1_def by (rule pool_step.feed) (simp_all add: defs)
  moreover have "?go s1 s2" unfolding s2_def by (rule pool_step.crawl) (simp_all add: defs job del: One_nat_def)
  moreover have "?go s2 s3" unfolding s3_def by (rule pool_step.send) (simp_all add: defs)
  moreover have "?go s3 s4" unfolding s4_def by (rule pool_step.feed_end) (simp_all add: defs)
  moreover have "?go s4 s5" unfolding s5_def by (rule pool_step.jobs_closed) (simp_all add: defs job)
  moreover have "?go s5 s6" unfolding s6_def by (rule pool_step.close_results) (simp_all add: defs)
  moreover have "?go s6 s7" unfolding s7_def by (rule pool_step.receive) (simp add: defs)
  ultimately have "pool_reach 1 calm_env sample_cfg ''1'' sample_opts s0 (length [?c]) s7" by (meson pool_reach.intros)
  then show ?thesis unfolding syncMessageChannelsConcurrent_def s0_def
    by (intro exI [of _ s7]) (simp add: s7_def collect_def pool_done_def, simp add: defs collect_error_def job)
qed


theorem concurrent_crawl_reports_failures_witness:
  "\<exists>s. syncMessageChannelsConcurrent 1 calm_env sample_cfg ''1'' sample_opts [plain_channel ''5''] 1 sample_progress empty_world s \<and>
     mset (map rsChannel (plRun s)) \<subseteq># {#plain_channel ''5''#} \<and> plTotal s = sum_list (map rsCount (plCollected s))"
proof -
  obtain s where s: "syncMessageChannelsConcurrent 1 calm_env sample_cfg ''1'' sample_opts [plain_channel ''5''] 1 sample_progress empty_world s"
    using sample_run by blast
  from concurrent_crawl_reports_failures [OF s] s show ?thesis by auto
qed


end
