(* ===== verification/ChannelStore.thy ===== *)
theory ChannelStore
  imports Scope
begin

text \<open>
  The channel writer of the store (internal/store/write.go, \<open>UpsertChannel\<close> and its variants, with
  the freshness check of internal/store/entity_state.go): authoritative and cached observations,
  batches, the fence against observations older than the stored row, and the revocation of the
  collection scope of a channel that moves or changes kind. Evidence rows, retained raw payloads and
  metrics are tables outside this model; a channel's raw payload is compared by the environment.
\<close>

section \<open>Observations\<close>

definition lastObservedChannelTx :: "env \<Rightarrow> string \<Rightarrow> instant call" where
  "lastObservedChannelTx env i =
     bindCall (db_query env (\<lambda>d. find_channel (dbChannels d) i))
       (\<lambda>stored. case stored of
          None \<Rightarrow> value_call 0
        | Some r \<Rightarrow>
            bindCall (db_query env (\<lambda>d. map_of (dbChannelChecks d) i))
              (\<lambda>checked. value_call (case checked of None \<Rightarrow> crUpdatedAt r | Some t \<Rightarrow> max (crUpdatedAt r) t)))"

definition recordChannelObservedTx :: "env \<Rightarrow> string \<Rightarrow> action" where
  "recordChannelObservedTx env i =
     andThen (db_side env)
       (db_exec env (\<lambda>now d. d\<lparr>dbChannelChecks :=
          AList.update i (case map_of (dbChannelChecks d) i of None \<Rightarrow> now | Some t \<Rightarrow> max t now) (dbChannelChecks d)\<rparr>))"

section \<open>Statements\<close>

definition channel_columns :: "channel_record \<Rightarrow> instant \<Rightarrow> channel_row \<Rightarrow> channel_row" where
  "channel_columns c now r =
     r\<lparr>crGuildID := crGuildID c, crParentID := crParentID c, crKind := crKind c, crName := crName c,
       crTopic := crTopic c, crPosition := crPosition c, crIsNSFW := crIsNSFW c, crIsArchived := crIsArchived c,
       crIsLocked := crIsLocked c, crIsPrivateThread := crIsPrivateThread c, crThreadParentID := crThreadParentID c,
       crArchiveTimestamp := crArchiveTimestamp c, crRawJSON := crRawJSON c, crUpdatedAt := now\<rparr>"

definition new_channel_row :: "string \<Rightarrow> channel_row" where
  "new_channel_row i =
     \<lparr>crID = i, crGuildID = [], crParentID = [], crKind = [], crName = [], crTopic = [], crPosition = 0,
      crIsNSFW = False, crIsArchived = False, crIsLocked = False, crIsPrivateThread = False, crThreadParentID = [],
      crArchiveTimestamp = 0, crRawJSON = [], crDeletedAt = 0, crDeletionSource = [],
      crCollectionScope = ''unknown'', crScopePolicy = [], crUpdatedAt = 0\<rparr>"

text \<open>\<open>insert into channels ... on conflict(id) do update\<close>.\<close>

definition put_channel :: "channel_record \<Rightarrow> instant \<Rightarrow> channel_row list \<Rightarrow> channel_row list" where
  "put_channel c now chans =
     (case find_channel chans (crID c) of
        None \<Rightarrow> chans @ [channel_columns c now (new_channel_row (crID c))]
      | Some r \<Rightarrow> map (\<lambda>r. if crID r = crID c then channel_columns c now r else r) chans)"

definition clear_tombstone :: "string \<Rightarrow> channel_row \<Rightarrow> channel_row" where
  "clear_tombstone i r =
     (if crID r = i \<and> crDeletedAt r \<noteq> 0 then r\<lparr>crDeletedAt := 0, crDeletionSource := []\<rparr> else r)"

section \<open>Upsert\<close>

definition channel_is_stale :: "env \<Rightarrow> channel_row option \<Rightarrow> string \<Rightarrow> instant \<Rightarrow> bool call" where
  "channel_is_stale env stored i started =
     (if stored \<noteq> None \<and> \<not> is_zero_time started
      then bindCall (lastObservedChannelTx env i) (\<lambda>lastSeen. value_call (lastSeen > started))
      else value_call False)"

text \<open>Cached metadata fills missing ancestry and an unknown kind only.\<close>

definition cached_columns :: "channel_row \<Rightarrow> channel_record \<Rightarrow> channel_record" where
  "cached_columns stored c =
     c\<lparr>crParentID := (if crParentID stored \<noteq> [] then crParentID stored else crParentID c),
       crKind := (if crKind stored \<noteq> [] \<and> crKind stored \<noteq> ''unknown'' then crKind stored else crKind c)\<rparr>"

definition prepared_channel :: "env \<Rightarrow> channel_row option \<Rightarrow> bool \<Rightarrow> channel_record \<Rightarrow> channel_record" where
  "prepared_channel env stored authoritative c0 =
     (let c = (case stored of Some r \<Rightarrow> if authoritative then c0 else cached_columns r c0 | None \<Rightarrow> c0);
          raw = (case stored of Some r \<Rightarrow> crRawJSON r | None \<Rightarrow> []) in
      c\<lparr>crRawJSON := envCanonicalChannel env (crKind c) raw (crRawJSON c)\<rparr>)"

definition channel_changed :: "env \<Rightarrow> channel_row option \<Rightarrow> channel_record \<Rightarrow> bool" where
  "channel_changed env stored c =
     (case stored of
        None \<Rightarrow> True
      | Some r \<Rightarrow> crDeletedAt r \<noteq> 0 \<or> crGuildID r \<noteq> crGuildID c \<or> crParentID r \<noteq> crParentID c \<or>
          crKind r \<noteq> crKind c \<or> crName r \<noteq> crName c \<or> crTopic r \<noteq> crTopic c \<or> crPosition r \<noteq> crPosition c \<or>
          crIsNSFW r \<noteq> crIsNSFW c \<or> crIsArchived r \<noteq> crIsArchived c \<or> crIsLocked r \<noteq> crIsLocked c \<or>
          crIsPrivateThread r \<noteq> crIsPrivateThread c \<or> crThreadParentID r \<noteq> crThreadParentID c \<or>
          crArchiveTimestamp r \<noteq> crArchiveTimestamp c \<or> \<not> envSameChannel env (crKind c) (crRawJSON r) (crRawJSON c))"

definition moved :: "channel_row option \<Rightarrow> channel_record \<Rightarrow> bool" where
  "moved stored c = (case stored of None \<Rightarrow> False | Some r \<Rightarrow> crParentID r \<noteq> crParentID c \<or> crKind r \<noteq> crKind c)"

definition write_channel :: "env \<Rightarrow> channel_row option \<Rightarrow> channel_record \<Rightarrow> action" where
  "write_channel env stored c =
     andThen (if stored \<noteq> None then db_side env else ok)
    (andThen (if moved stored c then invalidateChannelScope env (crID c) else ok)
    (andThen (db_exec env (\<lambda>now d. d\<lparr>dbChannels := put_channel c now (dbChannels d)\<rparr>))
       (db_exec env (\<lambda>_ d. d\<lparr>dbChannels := map (clear_tombstone (crID c)) (dbChannels d)\<rparr>))))"

definition upsertChannelTx :: "env \<Rightarrow> channel_record \<Rightarrow> instant \<Rightarrow> bool \<Rightarrow> action" where
  "upsertChannelTx env channel started authoritative =
     andThen (db_side env)
       (withResult (db_query env (\<lambda>d. find_channel (dbChannels d) (crID channel)))
         (\<lambda>stored. withResult (channel_is_stale env stored (crID channel) started)
           (\<lambda>stale.
              if stale then ok
              else if \<not> authoritative \<and> (case stored of Some r \<Rightarrow> crDeletedAt r \<noteq> 0 | None \<Rightarrow> False) then ok
              else let c = prepared_channel env stored authoritative channel in
                andThen (if channel_changed env stored c then write_channel env stored c else ok)
               (andThen (db_side env) (recordChannelObservedTx env (crID c))))))"

definition upsertChannel :: "env \<Rightarrow> channel_record \<Rightarrow> instant \<Rightarrow> bool \<Rightarrow> action" where
  "upsertChannel env channel started authoritative = with_tx env (upsertChannelTx env channel started authoritative)"

definition UpsertObservedChannel :: "env \<Rightarrow> channel_record \<Rightarrow> instant \<Rightarrow> action" where
  "UpsertObservedChannel env channel started = upsertChannel env channel started True"

definition UpsertChannel :: "env \<Rightarrow> channel_record \<Rightarrow> action" where
  "UpsertChannel env channel = UpsertObservedChannel env channel 0"

definition UpsertChannels :: "env \<Rightarrow> channel_record list \<Rightarrow> action" where
  "UpsertChannels env channels =
     (if channels = [] then ok
      else with_tx env (sequence_actions (\<lambda>c. upsertChannelTx env c 0 True) channels))"

definition UpsertCachedChannel :: "env \<Rightarrow> channel_record \<Rightarrow> action" where
  "UpsertCachedChannel env channel = upsertChannel env channel 0 False"

section \<open>The table after an upsert\<close>

lemma andThenE:
  assumes "andThen a b w = (None, w')" obtains w1 where "a w = (None, w1)" "b w1 = (None, w')"
  using andThen_None [OF assms] by blast

lemma withResultE:
  assumes "withResult c k w = (None, w')" obtains x w1 where "c w = (Inr x, w1)" "k x w1 = (None, w')"
  using withResult_None [OF assms] by blast

lemma lastObservedChannelTx_db: "lastObservedChannelTx env i w = (r, w') \<Longrightarrow> wDB w' = wDB w"
  by (auto simp: lastObservedChannelTx_def bindCall_def value_call_def split: prod.splits sum.splits option.splits
      dest!: db_query_Inr db_query_Inl)

lemma stale_db: "channel_is_stale env stored i started w = (r, w') \<Longrightarrow> wDB w' = wDB w"
  by (auto simp: channel_is_stale_def bindCall_def value_call_def split: if_splits prod.splits sum.splits
      dest: lastObservedChannelTx_db)

lemma side_db: "db_side env w = (r, w') \<Longrightarrow> wDB w' = wDB w"
  using db_side_db [of env w] by simp

lemma observed_channels: "recordChannelObservedTx env i w = (None, w') \<Longrightarrow> dbChannels (wDB w') = dbChannels (wDB w)"
  by (auto simp: recordChannelObservedTx_def dest!: andThen_None db_exec_None side_db)

definition channel_table :: "channel_row option \<Rightarrow> channel_record \<Rightarrow> instant \<Rightarrow> instant \<Rightarrow> channel_row list \<Rightarrow> channel_row list" where
  "channel_table stored c t1 t2 chans =
     map (clear_tombstone (crID c))
       (put_channel c t2 (if moved stored c then map (invalidate_row (descendants chans [crID c]) t1) chans else chans))"

lemma write_channel_effect:
  assumes "write_channel env stored c w = (None, w')"
  shows "\<exists>t1 t2. dbChannels (wDB w') = channel_table stored c t1 t2 (dbChannels (wDB w))"
proof -
  from assms obtain u1 u2 u3 where
    a: "(if stored \<noteq> None then db_side env else ok) w = (None, u1)"
    and b: "(if moved stored c then invalidateChannelScope env (crID c) else ok) u1 = (None, u2)"
    and p: "db_exec env (\<lambda>now d. d\<lparr>dbChannels := put_channel c now (dbChannels d)\<rparr>) u2 = (None, u3)"
    and t: "db_exec env (\<lambda>_ d. d\<lparr>dbChannels := map (clear_tombstone (crID c)) (dbChannels d)\<rparr>) u3 = (None, w')"
    unfolding write_channel_def by (elim andThenE) (rule that)
  have u1: "wDB u1 = wDB w" using a by (auto simp: ok_def split: if_splits dest: side_db)
  have "dbChannels (wDB u2) = (if moved stored c
      then map (invalidate_row (descendants (dbChannels (wDB w)) [crID c]) (envNow env (wTick u1))) (dbChannels (wDB w))
      else dbChannels (wDB w))"
    using b u1 by (auto simp: ok_def invalidateChannelScope_def split: if_splits dest!: db_exec_None)
  with db_exec_None [OF p] db_exec_None [OF t] show ?thesis
    by (intro exI [of _ "envNow env (wTick u1)"] exI [of _ "envNow env (wTick u2)"]) (simp add: channel_table_def)
qed

text \<open>What one upsert does: nothing, or the row of the prepared channel is written.\<close>

lemma upsertChannelTx_effect:
  assumes "upsertChannelTx env channel started auth w = (None, w')"
  defines "stored \<equiv> find_channel (dbChannels (wDB w)) (crID channel)"
  defines "c \<equiv> prepared_channel env stored auth channel"
  shows "dbChannels (wDB w') = dbChannels (wDB w) \<and>
      (stored \<noteq> None \<and> started \<noteq> 0 \<or> \<not> auth \<and> (\<exists>r. stored = Some r \<and> crDeletedAt r \<noteq> 0) \<or> \<not> channel_changed env stored c) \<or>
    (auth \<or> (\<forall>r. stored = Some r \<longrightarrow> crDeletedAt r = 0)) \<and>
    (\<exists>t1 t2. dbChannels (wDB w') = channel_table stored c t1 t2 (dbChannels (wDB w)))"
proof -
  from assms(1) obtain u1 s u2 st u3 where
    a: "db_side env w = (None, u1)" and q: "db_query env (\<lambda>d. find_channel (dbChannels d) (crID channel)) u1 = (Inr s, u2)"
    and st: "channel_is_stale env s (crID channel) started u2 = (Inr st, u3)"
    and k: "(if st then ok
              else if \<not> auth \<and> (case s of Some r \<Rightarrow> crDeletedAt r \<noteq> 0 | None \<Rightarrow> False) then ok
              else let c = prepared_channel env s auth channel in
                andThen (if channel_changed env s c then write_channel env s c else ok)
               (andThen (db_side env) (recordChannelObservedTx env (crID c)))) u3 = (None, w')"
    unfolding upsertChannelTx_def by (elim andThenE withResultE) (rule that)
  have u3: "wDB u3 = wDB w" and s: "s = stored"
    using side_db [OF a] db_query_Inr [OF q] stale_db [OF st] by (simp_all add: stored_def)
  have st0: "st \<Longrightarrow> stored \<noteq> None \<and> started \<noteq> 0" using st s by (auto simp: channel_is_stale_def value_call_def split: if_splits)
  show ?thesis
  proof (cases "st \<or> \<not> auth \<and> (case s of Some r \<Rightarrow> crDeletedAt r \<noteq> 0 | None \<Rightarrow> False)")
    case True
    with k have "wDB w' = wDB u3" by (auto simp: ok_def split: if_splits)
    with True u3 st0 s show ?thesis by (auto split: option.splits)
  next
    case False
    with k s have "andThen (if channel_changed env s c then write_channel env s c else ok)
        (andThen (db_side env) (recordChannelObservedTx env (crID c))) u3 = (None, w')"
      by (simp add: Let_def c_def split: if_splits)
    then obtain v1 v2 where wr: "(if channel_changed env s c then write_channel env s c else ok) u3 = (None, v1)"
      and sd: "db_side env v1 = (None, v2)" and ob: "recordChannelObservedTx env (crID c) v2 = (None, w')"
      by (elim andThenE) (rule that)
    have e: "dbChannels (wDB w') = dbChannels (wDB v1)" using observed_channels [OF ob] side_db [OF sd] by simp
    have g: "auth \<or> (\<forall>r. stored = Some r \<longrightarrow> crDeletedAt r = 0)" using False s by (auto split: option.splits)
    show ?thesis
    proof (cases "channel_changed env s c")
      case True
      with wr write_channel_effect [of env s c u3 v1] u3 e g s show ?thesis by auto
    next
      case False
      with wr u3 e s show ?thesis by (auto simp: ok_def)
    qed
  qed
qed

section \<open>Reading the table\<close>

lemma columns_simps [simp]:
  "crID (channel_columns c now r) = crID r" "crParentID (channel_columns c now r) = crParentID c"
  "crKind (channel_columns c now r) = crKind c" "crDeletedAt (channel_columns c now r) = crDeletedAt r"
  "crCollectionScope (channel_columns c now r) = crCollectionScope r" "crUpdatedAt (channel_columns c now r) = now"
  by (simp_all add: channel_columns_def)

lemma clear_simps [simp]:
  "crID (clear_tombstone i r) = crID r" "crParentID (clear_tombstone i r) = crParentID r"
  "crKind (clear_tombstone i r) = crKind r" "crCollectionScope (clear_tombstone i r) = crCollectionScope r"
  "i \<noteq> crID r \<Longrightarrow> clear_tombstone i r = r"
  by (simp_all add: clear_tombstone_def)

lemma crID_new [simp]: "crID (new_channel_row i) = i"
  by (simp add: new_channel_row_def)

lemma find_put_channel:
  "find_channel (put_channel c now chans) i =
     (if i = crID c then Some (channel_columns c now (case find_channel chans i of Some r \<Rightarrow> r | None \<Rightarrow> new_channel_row i))
      else find_channel chans i)"
proof (cases "find_channel chans (crID c)")
  case None
  then show ?thesis
    by (auto simp: put_channel_def find_channel_append split: option.split) (simp_all add: find_channel_def)
next
  case (Some r)
  let ?f = "\<lambda>r. if crID r = crID c then channel_columns c now r else r"
  have "find_channel (map ?f chans) i = map_option ?f (find_channel chans i)" by (rule find_channel_map) simp
  moreover have "map_option ?f (find_channel chans i) = find_channel chans i" if "i \<noteq> crID c"
    using that by (cases "find_channel chans i") (auto dest: find_channel_Some)
  ultimately show ?thesis using Some by (auto simp: put_channel_def split: option.split dest: find_channel_Some)
qed

lemma put_channel_members:
  "r \<in> set (put_channel c now chans) \<Longrightarrow> crID r \<noteq> crID c \<Longrightarrow> r \<in> set chans"
  by (auto simp: put_channel_def split: option.splits if_splits)

text \<open>The row of a channel after an upsert of channel \<open>c\<close>.\<close>

lemma find_channel_table:
  "find_channel (channel_table stored c t1 t2 chans) i =
     (let inv = (\<lambda>r. if moved stored c then invalidate_row (descendants chans [crID c]) t1 r else r) in
      if i = crID c
      then Some (clear_tombstone i (channel_columns c t2 (case find_channel chans i of Some r \<Rightarrow> inv r | None \<Rightarrow> new_channel_row i)))
      else map_option inv (find_channel chans i))"
proof -
  have inv: "find_channel (map (invalidate_row ids t) chans) k = map_option (invalidate_row ids t) (find_channel chans k)" for ids t k
    by (rule find_channel_map) simp
  have clr: "find_channel (map (clear_tombstone (crID c)) xs) i = map_option (clear_tombstone (crID c)) (find_channel xs i)" for xs
    by (rule find_channel_map) simp
  have "map_option (clear_tombstone (crID c)) (find_channel xs i) = find_channel xs i" if "i \<noteq> crID c" for xs
    using that by (cases "find_channel xs i") (auto dest: find_channel_Some)
  then show ?thesis unfolding channel_table_def
    by (auto simp: clr find_put_channel inv Let_def option.map_ident split: option.split)
qed

section \<open>Cached metadata\<close>

text \<open>A row that a cached observation leaves: the tombstone, known ancestry and a known kind stay.\<close>

definition cached_kept :: "channel_row \<Rightarrow> channel_row \<Rightarrow> bool" where
  "cached_kept r r' \<longleftrightarrow> crDeletedAt r' = crDeletedAt r \<and> (crParentID r \<noteq> [] \<longrightarrow> crParentID r' = crParentID r) \<and>
     (crKind r \<noteq> [] \<and> crKind r \<noteq> ''unknown'' \<longrightarrow> crKind r' = crKind r)"

lemma invalidate_row_simps [simp]:
  "crDeletedAt (invalidate_row ids t r) = crDeletedAt r" "crKind (invalidate_row ids t r) = crKind r"
  by (simp_all add: invalidate_row_def)

lemma prepared_cached:
  "prepared_channel env (Some r) False c = (cached_columns r c)\<lparr>crRawJSON := envCanonicalChannel env (crKind (cached_columns r c)) (crRawJSON r) (crRawJSON c)\<rparr>"
  by (simp add: prepared_channel_def Let_def cached_columns_def)

lemma prepared_id [simp]: "crID (prepared_channel env stored auth c) = crID c"
  by (simp add: prepared_channel_def Let_def cached_columns_def split: option.split)

lemma cached_row_kept:
  assumes "upsertChannelTx env c started False w = (None, w')" and r: "find_channel (dbChannels (wDB w)) i = Some r"
  shows "\<exists>r'. find_channel (dbChannels (wDB w')) i = Some r' \<and> cached_kept r r'"
proof -
  let ?chans = "dbChannels (wDB w)" and ?s = "find_channel (dbChannels (wDB w)) (crID c)"
  let ?c = "prepared_channel env ?s False c"
  from upsertChannelTx_effect [OF assms(1)] consider "dbChannels (wDB w') = ?chans"
    | t1 t2 where "\<forall>r. ?s = Some r \<longrightarrow> crDeletedAt r = 0" "dbChannels (wDB w') = channel_table ?s ?c t1 t2 ?chans" by auto
  then show ?thesis
  proof cases
    case 1
    with r show ?thesis by (auto simp: cached_kept_def)
  next
    case 2
    show ?thesis
    proof (cases "i = crID c")
      case True
      with r have s: "?s = Some r" by simp
      have "crDeletedAt r = 0" using 2(1) s by blast
      then show ?thesis
        using 2(2) r True by (simp add: find_channel_table Let_def prepared_cached)
          (auto simp: cached_kept_def cached_columns_def clear_tombstone_def)
    next
      case False
      with 2(2) r show ?thesis by (auto simp: find_channel_table Let_def cached_kept_def)
    qed
  qed
qed

lemma cached_tombstone:
  assumes "\<And>i r. find_channel chans i = Some r \<Longrightarrow> \<exists>r'. find_channel chans' i = Some r' \<and> cached_kept r r'"
    and "tombstoned chans j"
  shows "tombstoned chans' j"
proof -
  from assms(2) obtain k where k: "below chans j k" "deleted_row chans k" by (auto simp: tombstoned_iff)
  have "child_of chans a b \<Longrightarrow> child_of chans' a b" for a b
    using assms(1) by (fastforce simp: child_of_def cached_kept_def)
  then have "below chans' j k" using k(1) rtranclp_mono [of "child_of chans" "child_of chans'"] by blast
  moreover have "deleted_row chans' k" using k(2) assms(1) by (fastforce simp: deleted_row_def cached_kept_def)
  ultimately show ?thesis by (auto simp: tombstoned_iff)
qed

text \<open>
  Cached metadata is weak: importing a channel from a non-authoritative cache never resurrects a
  recorded deletion, never replaces stored ancestry or a known kind, of this channel or another, and
  never opens collection below a tombstone, whatever the database does meanwhile.
\<close>
theorem cached_metadata_is_weak:
  assumes "UpsertCachedChannel env c w = (res, w')" and "find_channel (dbChannels (wDB w)) i = Some r"
  shows "(\<exists>r'. find_channel (dbChannels (wDB w')) i = Some r' \<and> cached_kept r r') \<and>
    (tombstoned (dbChannels (wDB w)) j \<longrightarrow> tombstoned (dbChannels (wDB w')) j)"
proof -
  from with_tx_db [of env "upsertChannelTx env c 0 False" w] assms(1)
  consider "wDB w' = wDB w" | v v' where "wDB v = wDB w" "upsertChannelTx env c 0 False v = (None, v')" "wDB w' = wDB v'"
    by (auto simp: UpsertCachedChannel_def upsertChannel_def)
  then have kept: "\<exists>r'. find_channel (dbChannels (wDB w')) k = Some r' \<and> cached_kept q r'"
    if "find_channel (dbChannels (wDB w)) k = Some q" for k q
  proof cases
    case 1
    with that show ?thesis by (auto simp: cached_kept_def)
  next
    case 2
    with cached_row_kept [OF 2(2), of k q] that show ?thesis by simp
  qed
  with assms(2) cached_tombstone show ?thesis by blast
qed

section \<open>Moving a channel\<close>

lemma table_moved_below:
  assumes "below (channel_table stored c t1 t2 chans) j (crID c)" "find_channel chans (crID c) = Some r"
  shows "below chans j (crID c)"
  using assms(1)
proof (induction rule: converse_rtranclp_induct)
  case (step j k)
  show ?case
  proof (cases "j = crID c")
    case False
    with step(1) have "child_of chans j k"
      by (auto simp: child_of_def find_channel_table Let_def split: if_splits)
    then show ?thesis using step(3) by (rule converse_rtranclp_into_rtranclp)
  qed simp
qed simp

lemma table_moved_scope:
  assumes m: "moved stored c" and j: "j \<in> set (descendants chans [crID c])" and "find_channel chans (crID c) \<noteq> None"
    and row: "row \<in> set (channel_table stored c t1 t2 chans)" "crID row = j"
  shows "crCollectionScope row = ''unknown''"
proof -
  let ?inv = "map (invalidate_row (descendants chans [crID c]) t1) chans"
  from row m obtain q where q: "q \<in> set (put_channel c t2 ?inv)" "row = clear_tombstone (crID c) q"
    by (auto simp: channel_table_def)
  have "find_channel ?inv (crID c) \<noteq> None" using assms(3) by (simp add: find_channel_map)
  then obtain p where "p \<in> set chans" "crID p = j"
    "crCollectionScope q = crCollectionScope (invalidate_row (descendants chans [crID c]) t1 p)"
    using q row(2) by (auto simp: put_channel_def split: option.splits if_splits)
  with j q(2) show ?thesis by (simp add: invalidate_row_def)
qed

lemma guard_refuses_unscoped:
  assumes "\<forall>r \<in> set (dbChannels (wDB v)). crID r = j \<longrightarrow> crCollectionScope r \<noteq> ''allowed''" "policy \<noteq> []"
  shows "\<exists>e. fst (requireMessageScope env j guildID policy v) = Some e"
proof -
  have "crCollectionScope r \<noteq> ''allowed''" if "find (\<lambda>r. crID r = j \<and> crDeletedAt r = 0) (dbChannels (wDB v)) = Some r" for r
    using that assms(1) by (auto simp: find_Some_iff dest: nth_mem)
  then show ?thesis using assms(2)
    by (auto simp: requireMessageScope_def withResult_def fail_with_def split: prod.splits sum.splits option.splits
        dest!: db_query_Inr)
qed


definition observed_move :: channel_record where
  "observed_move = \<lparr>crID = ''5'', crGuildID = ''1'', crParentID = ''9'', crKind = ''text'', crName = ''c'', crTopic = [],
     crPosition = 0, crIsNSFW = False, crIsArchived = False, crIsLocked = False, crIsPrivateThread = False,
     crThreadParentID = [], crArchiveTimestamp = 0, crRawJSON = ''x''\<rparr>"


theorem cached_metadata_is_weak_witness:
  "\<exists>res w' r'. UpsertCachedChannel calm_env observed_move \<lparr>wDB = two_channels, wTick = 0\<rparr> = (res, w') \<and>
     find_channel (dbChannels (wDB w')) ''7'' = Some r' \<and> crParentID r' = ''5''"
proof -
  let ?w = "\<lparr>wDB = two_channels, wTick = 0\<rparr> :: world"
  obtain res w' where u: "UpsertCachedChannel calm_env observed_move ?w = (res, w')" by force
  have "map_option crParentID (find_channel (dbChannels (wDB ?w)) ''7'') = Some ''5''" by code_simp
  then obtain r where r: "find_channel (dbChannels (wDB ?w)) ''7'' = Some r" "crParentID r = ''5''" by auto
  from cached_metadata_is_weak [OF u r(1), THEN conjunct1] r(2) u show ?thesis by (auto simp: cached_kept_def)
qed

end
