(* ===== verification/TailGateway.thy ===== *)
theory TailGateway
  imports ChannelStore HistoryEffects
begin

text \<open>
  The gateway handler (internal/syncer/tail.go, tail_metadata.go and the scope cache of
  collection_scope.go) and the replay of failed gateway events (internal/syncer/tail_replay.go):
  message creations, edits and deletions, channel metadata events, the admission decision with its
  cached catalog, and the bounded replay of pending message failures. Telemetry stages and traces
  have no effect on the archive. The client is present; the JSON text of a live channel and the
  import of the fallback journal (internal/store/tail_failure_fallback.go) are parameters.
\<close>

section \<open>The handler and its scope cache\<close>

text \<open>
  \<open>thGuilds\<close> is the set of \<open>makeGuildSet\<close>, empty for all guilds. The two catalogs of the code hold the
  rows of the same refresh; \<open>thCatalog\<close> is that refresh. The configuration carries the exclusions
  and the policy identifier.
\<close>

record tailHandler =
  thCfg :: syncer_cfg
  thGuilds :: strset
  thEmbeddings :: bool
  thPreserveHistoryCursor :: bool
  thMarshal :: "dchannel \<Rightarrow> string"
  thCatalog :: rows

abbreviation thExclusions :: "tailHandler \<Rightarrow> channelExclusions" where
  "thExclusions h \<equiv> cfExclusions (thCfg h)"

definition allowGuild :: "tailHandler \<Rightarrow> string \<Rightarrow> bool" where
  "allowGuild h guildID \<longleftrightarrow> thGuilds h = [] \<or> guildID \<in> set (thGuilds h)"

definition excludeChannel :: "tailHandler \<Rightarrow> string \<Rightarrow> bool" where
  "excludeChannel h channelID =
     (if excludesID (thExclusions h) channelID then True
      else case map_of (thCatalog h) channelID of
        Some row \<Rightarrow> excludesStoredChannel (thExclusions h) row (thCatalog h)
      | None \<Rightarrow> exCategoryScopeSet (thExclusions h))"

definition scopeDecision :: "tailHandler \<Rightarrow> string \<Rightarrow> string" where
  "scopeDecision h i = scope (thExclusions h) i (thCatalog h)"

definition tail_scopePolicy :: "tailHandler \<Rightarrow> string" where
  "tail_scopePolicy h = scope_policy (thCfg h)"

definition refreshScope :: "env \<Rightarrow> tailHandler \<Rightarrow> world \<Rightarrow> (go_error option \<times> tailHandler) \<times> world" where
  "refreshScope env h w =
     (case refreshCollectionScopes env (thExclusions h) (cfPolicyID (thCfg h) (thExclusions h)) w of
        (Inl e, w1) \<Rightarrow> ((Some e, h), w1)
      | (Inr cat, w1) \<Rightarrow> ((None, h\<lparr>thCatalog := cat\<rparr>), w1))"

definition refresh_if :: "bool \<Rightarrow> env \<Rightarrow> tailHandler \<Rightarrow> world \<Rightarrow> (go_error option \<times> tailHandler) \<times> world" where
  "refresh_if b env h w = (if b then refreshScope env h w else ((None, h), w))"

definition scopeCacheStale :: "env \<Rightarrow> tailHandler \<Rightarrow> string \<Rightarrow> bool call" where
  "scopeCacheStale env h i =
     (case map_of (thCatalog h) i of
        None \<Rightarrow> value_call False
      | Some cached \<Rightarrow>
          bindCall (ChannelScopeRevision env i) (\<lambda>revision. value_call (revision \<noteq> Some (crUpdatedAt cached))))"

text \<open>The decision of the cache, refreshed when it is unknown or its row changed since.\<close>

definition cached_decision :: "env \<Rightarrow> string \<Rightarrow> tailHandler \<Rightarrow> world \<Rightarrow> ((go_error + string) \<times> tailHandler) \<times> world" where
  "cached_decision env i h w =
     (case refresh_if (scopeDecision h i = ''unknown'') env h w of
        ((Some e, h1), w1) \<Rightarrow> ((Inl e, h1), w1)
      | ((None, h1), w1) \<Rightarrow>
          if scopeDecision h1 i = ''unknown'' then ((Inr ''unknown'', h1), w1)
          else case scopeCacheStale env h1 i w1 of
            (Inl e, w2) \<Rightarrow> ((Inl e, h1), w2)
          | (Inr stale, w2) \<Rightarrow>
              (case refresh_if stale env h1 w2 of
                 ((Some e, h2), w3) \<Rightarrow> ((Inl e, h2), w3)
               | ((None, h2), w3) \<Rightarrow> ((Inr (scopeDecision h2 i), h2), w3)))"

text \<open>
  The walk up the ancestry of an unknown channel; \<open>n\<close> is what the limit of 16 channels leaves, and
  \<open>seen\<close> the channels fetched.
\<close>

fun fetch_ancestry :: "env \<Rightarrow> tailHandler \<Rightarrow> string \<Rightarrow> nat \<Rightarrow> strset \<Rightarrow> string \<Rightarrow> action" where
  "fetch_ancestry env h guild 0 seen nxt w =
     (if nxt = [] then (None, w) else (Some (ErrText ''invalid channel ancestry''), w))"
| "fetch_ancestry env h guild (Suc n) seen nxt w =
     (if nxt = [] then (None, w)
      else if nxt \<in> set seen then (Some (ErrText ''invalid channel ancestry''), w)
      else if excludesID (thExclusions h) nxt then (None, w)
      else let started = envNow env (wTick w) in
        case (envChannel env (wTick w) nxt, tick w) of
          (Inl e, w1) \<Rightarrow> (Some (ErrWrap ''resolve channel scope: '' e []), w1)
        | (Inr None, w1) \<Rightarrow> (Some (ErrText ''channel scope identity mismatch''), w1)
        | (Inr (Some c), w1) \<Rightarrow>
            if cID c \<noteq> nxt \<or> cGuildID c = [] \<or> guild \<noteq> [] \<and> cGuildID c \<noteq> guild \<or> \<not> allowGuild h (cGuildID c)
            then (Some (ErrText ''channel scope identity mismatch''), w1)
            else case UpsertObservedChannel env (toChannelRecord c (thMarshal h c)) started w1 of
              (Some e, w2) \<Rightarrow> (Some e, w2)
            | (None, w2) \<Rightarrow> fetch_ancestry env h guild n (nxt # seen) (cParentID c) w2)"

definition resolve_ancestry :: "env \<Rightarrow> string \<Rightarrow> string \<Rightarrow> tailHandler \<Rightarrow> world \<Rightarrow> ((go_error + bool) \<times> tailHandler) \<times> world" where
  "resolve_ancestry env guild i h w =
     (case fetch_ancestry env h guild 16 [] i w of
        (Some e, w1) \<Rightarrow> ((Inl e, h), w1)
      | (None, w1) \<Rightarrow>
          (case refreshScope env h w1 of
             ((Some e, h1), w2) \<Rightarrow> ((Inl e, h1), w2)
           | ((None, h1), w2) \<Rightarrow>
               if scopeDecision h1 i = ''unknown'' then ((Inl (ErrText ''channel ancestry remains unknown''), h1), w2)
               else ((Inr (scopeDecision h1 i = ''allowed''), h1), w2)))"

definition allowMessageChannel :: "env \<Rightarrow> string \<Rightarrow> string \<Rightarrow> tailHandler \<Rightarrow> world \<Rightarrow> ((go_error + bool) \<times> tailHandler) \<times> world" where
  "allowMessageChannel env guild i h w =
     (if \<not> configured (thExclusions h) then
        (if excludeChannel h i then ((Inr False, h), w)
         else if i = [] then ((Inr True, h), w)
         else case ChannelCollectionAdmitted env i [] w of (r, w1) \<Rightarrow> ((r, h), w1))
      else if excludesID (thExclusions h) i then ((Inr False, h), w)
      else case cached_decision env i h w of
        ((Inl e, h1), w1) \<Rightarrow> ((Inl e, h1), w1)
      | ((Inr state, h1), w1) \<Rightarrow>
          if state \<noteq> ''unknown'' then ((Inr (state = ''allowed''), h1), w1)
          else resolve_ancestry env guild i h1 w1)"

section \<open>Message events\<close>

text \<open>
  A scope revocation seen after admission resolves the pending failure of the event; any other error
  is passed on.
\<close>

definition scopeRejection :: "env \<Rightarrow> string \<Rightarrow> dmessage \<Rightarrow> go_error \<Rightarrow> action" where
  "scopeRejection env eventKind msg err =
     (if err_is err ErrCollectionScope
      then ResolveFailureWithReason env (tailMessageFailureIdentity (gGuildID msg) (gChannelID msg) (gID msg) eventKind)
             ''excluded_by_collection_policy''
      else fail_with err)"

definition gateway_mutation :: "tailHandler \<Rightarrow> instant \<Rightarrow> string \<Rightarrow> MessageMutation \<Rightarrow> MessageMutation" where
  "gateway_mutation h started eventType mu =
     mu\<lparr>mmEventType := eventType,
        mmOptions := (mmOptions mu)\<lparr>woScopePolicy := tail_scopePolicy h, woObservationStartedAt := started, woAppendEvent := True\<rparr>\<rparr>"

text \<open>Building and storing the message of a creation or an edit.\<close>

definition store_event :: "env \<Rightarrow> tailHandler \<Rightarrow> instant \<Rightarrow> string \<Rightarrow> dmessage \<Rightarrow> action \<Rightarrow> action" where
  "store_event env h started eventKind msg rest w =
     (case buildMessageMutation env [] [] (thEmbeddings h) msg w of
        (Inl e, w1) \<Rightarrow> scopeRejection env eventKind msg e w1
      | (Inr mu, w1) \<Rightarrow>
          (case UpsertMessages env [gateway_mutation h started eventKind mu] w1 of
             (Some e, w2) \<Rightarrow> scopeRejection env eventKind msg e w2
           | (None, w2) \<Rightarrow> andThen (SetSyncState env ''tail:last_event'' (gID msg)) rest w2))"

definition create_event :: "env \<Rightarrow> tailHandler \<Rightarrow> dmessage \<Rightarrow> action" where
  "create_event env h msg =
     store_event env h 0 ''create'' msg
       (andThen (if thPreserveHistoryCursor h then ok else AdvanceChannelLatestMessageID env (gChannelID msg) (gID msg))
         (resolveMessageFailure env (gGuildID msg) (gChannelID msg) (gID msg) ''create''))"

definition OnMessageCreate :: "env \<Rightarrow> dmessage option \<Rightarrow> tailHandler \<Rightarrow> world \<Rightarrow> (go_error option \<times> tailHandler) \<times> world" where
  "OnMessageCreate env msg h w =
     (case msg of
        None \<Rightarrow> ((None, h), w)
      | Some m \<Rightarrow>
          if \<not> allowGuild h (gGuildID m) then ((None, h), w)
          else case allowMessageChannel env (gGuildID m) (gChannelID m) h w of
            ((Inl e, h1), w1) \<Rightarrow> ((Some e, h1), w1)
          | ((Inr False, h1), w1) \<Rightarrow> ((None, h1), w1)
          | ((Inr True, h1), w1) \<Rightarrow> (case create_event env h1 m w1 of (r, w2) \<Rightarrow> ((r, h1), w2)))"

definition isPartialMessageUpdate :: "dmessage \<Rightarrow> bool" where
  "isPartialMessageUpdate msg \<longleftrightarrow> gAuthor msg = None \<or> is_zero_time (gTimestamp msg)"

definition ValidateMessageUpdateIdentity :: "dmessage \<Rightarrow> dmessage \<Rightarrow> string \<Rightarrow> go_error option" where
  "ValidateMessageUpdateIdentity part full description =
     (let diff = (\<lambda>what a b. Some (ErrText (description @ '' returned different '' @ what @ '' id: event='' @ a @ '' fetched='' @ b))) in
      if gID full \<noteq> [] \<and> gID part \<noteq> [] \<and> gID full \<noteq> gID part then diff ''message'' (gID part) (gID full)
      else if gChannelID full \<noteq> [] \<and> gChannelID part \<noteq> [] \<and> gChannelID full \<noteq> gChannelID part
      then diff ''channel'' (gChannelID part) (gChannelID full)
      else if gGuildID full \<noteq> [] \<and> gGuildID part \<noteq> [] \<and> gGuildID full \<noteq> gGuildID part
      then diff ''guild'' (gGuildID part) (gGuildID full)
      else None)"

definition messageUpdateSnapshot :: "env \<Rightarrow> dmessage \<Rightarrow> dmessage option call" where
  "messageUpdateSnapshot env msg w =
     (let fallback = (if isPartialMessageUpdate msg then None else Some msg) in
      if gChannelID msg = [] \<or> gID msg = [] then (Inr fallback, w)
      else case (envMessage env (wTick w) (gChannelID msg) (gID msg), tick w) of
        (Inl e, w1) \<Rightarrow> (Inl (ErrWrap (''fetch message update '' @ gChannelID msg @ ''/'' @ gID msg @ '': '') e []), w1)
      | (Inr None, w1) \<Rightarrow> (Inr fallback, w1)
      | (Inr (Some full), w1) \<Rightarrow>
          (case ValidateMessageUpdateIdentity msg full ''fetched message update'' of
             Some e \<Rightarrow> (Inl e, w1)
           | None \<Rightarrow>
               (Inr (Some (full\<lparr>gID := (if gID full = [] then gID msg else gID full),
                                gGuildID := (if gGuildID full = [] then gGuildID msg else gGuildID full),
                                gChannelID := (if gChannelID full = [] then gChannelID msg else gChannelID full)\<rparr>)), w1)))"

definition update_event :: "env \<Rightarrow> tailHandler \<Rightarrow> dmessage \<Rightarrow> action" where
  "update_event env h msg w =
     (let observationStarted = envNow env (wTick w) in
      case messageUpdateSnapshot env msg w of
        (Inl e, w1) \<Rightarrow> (Some e, w1)
      | (Inr None, w1) \<Rightarrow> (None, w1)
      | (Inr (Some m), w1) \<Rightarrow>
          if \<not> allowGuild h (gGuildID m) \<or> excludeChannel h (gChannelID m) then (None, w1)
          else store_event env h observationStarted ''update'' m
                 (resolveMessageFailure env (gGuildID m) (gChannelID m) (gID m) ''update'') w1)"

definition OnMessageUpdate :: "env \<Rightarrow> dmessage option \<Rightarrow> tailHandler \<Rightarrow> world \<Rightarrow> (go_error option \<times> tailHandler) \<times> world" where
  "OnMessageUpdate env msg h w =
     (case msg of
        None \<Rightarrow> ((None, h), w)
      | Some m \<Rightarrow>
          if gGuildID m \<noteq> [] \<and> \<not> allowGuild h (gGuildID m) then ((None, h), w)
          else case allowMessageChannel env (gGuildID m) (gChannelID m) h w of
            ((Inl e, h1), w1) \<Rightarrow> ((Some e, h1), w1)
          | ((Inr False, h1), w1) \<Rightarrow> ((None, h1), w1)
          | ((Inr True, h1), w1) \<Rightarrow> (case update_event env h1 m w1 of (r, w2) \<Rightarrow> ((r, h1), w2)))"

text \<open>A deletion event; \<open>dlRaw\<close> is the JSON text stored with the delete event.\<close>

record message_delete =
  dlGuildID :: string
  dlChannelID :: string
  dlID :: string
  dlRaw :: string

definition OnMessageDelete :: "env \<Rightarrow> message_delete option \<Rightarrow> tailHandler \<Rightarrow> action" where
  "OnMessageDelete env evt h =
     (case evt of
        None \<Rightarrow> ok
      | Some e \<Rightarrow>
          if \<not> allowGuild h (dlGuildID e) \<or> excludeChannel h (dlChannelID e) then ok
          else andThen (MarkMessageDeleted env (dlGuildID e) (dlChannelID e) (dlID e) (dlRaw e))
              (andThen (SetSyncState env ''tail:last_event'' (dlID e))
                (resolveMessageFailure env (dlGuildID e) (dlChannelID e) (dlID e) ''delete'')))"

section \<open>Channel events\<close>

definition then_refresh :: "env \<Rightarrow> action \<Rightarrow> tailHandler \<Rightarrow> world \<Rightarrow> (go_error option \<times> tailHandler) \<times> world" where
  "then_refresh env a h w =
     (case a w of (Some e, w1) \<Rightarrow> ((Some e, h), w1) | (None, w1) \<Rightarrow> refreshScope env h w1)"

definition OnChannelUpsert :: "env \<Rightarrow> dchannel option \<Rightarrow> tailHandler \<Rightarrow> world \<Rightarrow> (go_error option \<times> tailHandler) \<times> world" where
  "OnChannelUpsert env channel h w =
     (case channel of
        None \<Rightarrow> ((None, h), w)
      | Some c \<Rightarrow>
          if \<not> allowGuild h (cGuildID c) then ((None, h), w)
          else then_refresh env (UpsertChannel env (toChannelRecord c (thMarshal h c))) h w)"

definition OnChannelDelete :: "env \<Rightarrow> dchannel option \<Rightarrow> tailHandler \<Rightarrow> world \<Rightarrow> (go_error option \<times> tailHandler) \<times> world" where
  "OnChannelDelete env channel h w =
     (case channel of
        None \<Rightarrow> ((None, h), w)
      | Some c \<Rightarrow>
          if cID c = [] \<or> \<not> allowGuild h (cGuildID c) then ((None, h), w)
          else then_refresh env (MarkChannelDeleted env (cGuildID c) (cID c) ''discord-gateway'') h w)"

fun thread_records :: "tailHandler \<Rightarrow> string \<Rightarrow> dchannel option list \<Rightarrow> channel_record list option" where
  "thread_records h guildID [] = Some []"
| "thread_records h guildID (None # cs) = thread_records h guildID cs"
| "thread_records h guildID (Some c # cs) =
     (if cID c = [] then thread_records h guildID cs
      else if cGuildID c \<noteq> [] \<and> cGuildID c \<noteq> guildID then None
      else let observed = c\<lparr>cGuildID := guildID\<rparr> in
        map_option (\<lambda>rs. toChannelRecord observed (thMarshal h observed) # rs) (thread_records h guildID cs))"

definition OnThreadList :: "env \<Rightarrow> string \<Rightarrow> dchannel option list \<Rightarrow> tailHandler \<Rightarrow> world \<Rightarrow> (go_error option \<times> tailHandler) \<times> world" where
  "OnThreadList env guildID channels h w =
     (if \<not> allowGuild h guildID then ((None, h), w)
      else case thread_records h guildID channels of
        None \<Rightarrow> ((Some (ErrText ''thread list guild mismatch''), h), w)
      | Some records \<Rightarrow> then_refresh env (UpsertChannels env records) h w)"

section \<open>Seeding the catalog\<close>

text \<open>
  The channels of stored guild payloads that the catalog does not know; \<open>payloads\<close> gives the stored
  guilds with their decoded channels and threads, \<open>None\<close> where the payload does not decode.
\<close>

fun seed_channels :: "tailHandler \<Rightarrow> string \<Rightarrow> dchannel option list \<Rightarrow> strset \<Rightarrow> channel_record list \<times> strset" where
  "seed_channels h guildID [] known = ([], known)"
| "seed_channels h guildID (None # cs) known = seed_channels h guildID cs known"
| "seed_channels h guildID (Some c # cs) known =
     (if cID c = [] \<or> cID c \<in> set known \<or> cGuildID c \<noteq> [] \<and> cGuildID c \<noteq> guildID then seed_channels h guildID cs known
      else let observed = c\<lparr>cGuildID := guildID\<rparr> in
        case seed_channels h guildID cs (cID c # known) of
          (rs, known') \<Rightarrow> (toChannelRecord observed (thMarshal h observed) # rs, known'))"

fun seed_records :: "tailHandler \<Rightarrow> (string \<times> dchannel option list option) list \<Rightarrow> strset \<Rightarrow> channel_record list" where
  "seed_records h [] known = []"
| "seed_records h ((guildID, None) # gs) known = seed_records h gs known"
| "seed_records h ((guildID, Some cs) # gs) known =
     (if \<not> allowGuild h guildID then seed_records h gs known
      else case seed_channels h guildID cs known of (rs, known') \<Rightarrow> rs @ seed_records h gs known')"

definition seedScopeMetadata ::
  "env \<Rightarrow> (string \<times> dchannel option list option) list call \<Rightarrow> tailHandler \<Rightarrow> world \<Rightarrow> (go_error option \<times> tailHandler) \<times> world" where
  "seedScopeMetadata env payloads h =
     then_refresh env
       (withResult (ScopeChannels env) (\<lambda>rs. withResult payloads (\<lambda>guilds.
          sequence_actions (UpsertChannel env) (seed_records h guilds (map crID rs))))) h"

section \<open>Replay of failed message events\<close>

datatype replay_outcome = OutOfScope | Unavailable | Recovered | Deferred | PolicyDeferred

record TailMessageReplayStats =
  rpOutOfScope :: nat
  rpUnavailable :: nat
  rpCandidates :: nat
  rpRecovered :: nat
  rpDeferred :: nat
  rpPolicyDeferred :: nat

fun count_outcome :: "replay_outcome \<Rightarrow> TailMessageReplayStats \<Rightarrow> TailMessageReplayStats" where
  "count_outcome OutOfScope st = st\<lparr>rpOutOfScope := Suc (rpOutOfScope st)\<rparr>"
| "count_outcome Unavailable st = st\<lparr>rpUnavailable := Suc (rpUnavailable st)\<rparr>"
| "count_outcome Recovered st = st\<lparr>rpRecovered := Suc (rpRecovered st)\<rparr>"
| "count_outcome Deferred st = st\<lparr>rpDeferred := Suc (rpDeferred st)\<rparr>"
| "count_outcome PolicyDeferred st = st\<lparr>rpPolicyDeferred := Suc (rpPolicyDeferred st)\<rparr>"

definition TailMessageReplayLimit :: int where
  "TailMessageReplayLimit = 25"

definition tailMessageReplayEventKind :: "failure \<Rightarrow> string option" where
  "tailMessageReplayEventKind f =
     (if rRelatedKind (fRef f) \<noteq> ''message_event'' then None else normalizeTailMessageEventKind (rRelatedID (fRef f)))"

definition recordTailMessageReplayFailure :: "env \<Rightarrow> failure \<Rightarrow> string \<Rightarrow> replay_outcome \<Rightarrow> replay_outcome call" where
  "recordTailMessageReplayFailure env f text oc =
     doThen (RecordFailure env (tailMessageFailureRef f) (Some (ErrText (''tail message replay '' @ text)))) (value_call oc)"

definition resolve_as :: "env \<Rightarrow> failure \<Rightarrow> string \<Rightarrow> replay_outcome \<Rightarrow> replay_outcome call" where
  "resolve_as env f reason oc = doThen (ResolveFailureGeneration env f reason) (value_call oc)"

definition resolveReplayExclusion :: "env \<Rightarrow> failure \<Rightarrow> replay_outcome call" where
  "resolveReplayExclusion env f = resolve_as env f ''excluded_by_collection_policy'' OutOfScope"

text \<open>\<open>if ctxErr := ctx.Err(); ctxErr != nil\<close> before going on.\<close>

definition unless_cancelled :: "env \<Rightarrow> 'a call \<Rightarrow> 'a call" where
  "unless_cancelled env k w = (case envCtx env (wTick w) of Some e \<Rightarrow> (Inl e, w) | None \<Rightarrow> k w)"

definition replayTailMessageDelete :: "env \<Rightarrow> failure \<Rightarrow> action" where
  "replayTailMessageDelete env f =
     andThen (MarkMessageDeletedWithoutEvent env (rGuildID (fRef f)) (rChannelID (fRef f)) (rMessageID (fRef f)))
       (ResolveFailureGeneration env f ''exact_message_reconciled'')"

definition replay_delete :: "env \<Rightarrow> failure \<Rightarrow> replay_outcome call" where
  "replay_delete env f w =
     (case replayTailMessageDelete env f w of
        (None, w1) \<Rightarrow> (Inr Recovered, w1)
      | (Some e, w1) \<Rightarrow> unless_cancelled env (recordTailMessageReplayFailure env f ''canonical delete failed'' Deferred) w1)"

definition advanceReplayCursor :: "env \<Rightarrow> failure \<Rightarrow> bool \<Rightarrow> action" where
  "advanceReplayCursor env f adv =
     (if adv then AdvanceChannelLatestMessageID env (rChannelID (fRef f)) (rMessageID (fRef f)) else ok)"

definition replay_mutation :: "tailHandler \<Rightarrow> instant \<Rightarrow> MessageMutation \<Rightarrow> MessageMutation" where
  "replay_mutation h started mu =
     mu\<lparr>mmEventType := ''snapshot'',
        mmOptions := (mmOptions mu)\<lparr>woScopePolicy := tail_scopePolicy h, woPreserveNewer := True,
          woObservationStartedAt := started, woAppendEvent := True, woDeduplicateEvent := True\<rparr>\<rparr>"

definition store_replay :: "env \<Rightarrow> tailHandler \<Rightarrow> bool \<Rightarrow> failure \<Rightarrow> instant \<Rightarrow> dmessage \<Rightarrow> replay_outcome call" where
  "store_replay env h adv f started m w =
     (case buildMessageMutation env [] (rGuildID (fRef f)) (thEmbeddings h) m w of
        (Inl e, w1) \<Rightarrow>
          if err_is e ErrCollectionScope then resolveReplayExclusion env f w1
          else unless_cancelled env (recordTailMessageReplayFailure env f ''mutation build failed'' Deferred) w1
      | (Inr mu, w1) \<Rightarrow>
          (case UpsertMessages env [replay_mutation h started mu] w1 of
             (Some e, w2) \<Rightarrow>
               unless_cancelled env
                 (if err_is e ErrCollectionScope then resolveReplayExclusion env f
                  else recordTailMessageReplayFailure env f ''canonical upsert failed'' Deferred) w2
           | (None, w2) \<Rightarrow>
               (case advanceReplayCursor env f adv w2 of
                  (Some e, w3) \<Rightarrow> unless_cancelled env (recordTailMessageReplayFailure env f ''cursor advance failed'' Deferred) w3
                | (None, w3) \<Rightarrow> unless_cancelled env (resolve_as env f ''exact_message_reconciled'' Recovered) w3)))"

definition replay_fetch :: "env \<Rightarrow> tailHandler \<Rightarrow> bool \<Rightarrow> failure \<Rightarrow> replay_outcome call" where
  "replay_fetch env h adv f w =
     (let ref = fRef f; started = envNow env (wTick w);
          answer = envMessage env (wTick w) (rChannelID ref) (rMessageID ref) in
      unless_cancelled env
        (case answer of
           Inl e \<Rightarrow>
             if err_rest e = Some (404, 10003) \<or> err_rest e = Some (404, 10008)
             then resolve_as env f ''provider_unavailable_404'' Unavailable
             else recordTailMessageReplayFailure env f ''exact fetch failed'' Deferred
         | Inr message \<Rightarrow>
             (case validateTailMessageReplay f message of
                Some e \<Rightarrow> recordTailMessageReplayFailure env f ''identity validation failed'' Deferred
              | None \<Rightarrow>
                  (case message of
                     None \<Rightarrow> recordTailMessageReplayFailure env f ''identity validation failed'' Deferred
                   | Some m \<Rightarrow>
                       store_replay env h adv f started
                         (if gGuildID m = [] then m\<lparr>gGuildID := rGuildID ref\<rparr> else m)))) (tick w))"

text \<open>Admission before the fetch: the configured policy decides, or else a recorded tombstone.\<close>

definition replay_admission :: "env \<Rightarrow> failure \<Rightarrow> tailHandler \<Rightarrow> world \<Rightarrow> ((go_error + replay_outcome option) \<times> tailHandler) \<times> world" where
  "replay_admission env f h w =
     (let outcome = (\<lambda>k h w. case k w of (Inl e, w1) \<Rightarrow> ((Inl e, h), w1) | (Inr oc, w1) \<Rightarrow> ((Inr (Some oc), h), w1)) in
      if configured (thExclusions h) then
        (case allowMessageChannel env (rGuildID (fRef f)) (rChannelID (fRef f)) h w of
           ((Inl e, h1), w1) \<Rightarrow> outcome (recordTailMessageReplayFailure env f ''policy deferred'' PolicyDeferred) h1 w1
         | ((Inr False, h1), w1) \<Rightarrow> outcome (resolveReplayExclusion env f) h1 w1
         | ((Inr True, h1), w1) \<Rightarrow> ((Inr None, h1), w1))
      else (case requirePersistedScope env (thCfg h) (rChannelID (fRef f)) w of
              (None, w1) \<Rightarrow> ((Inr None, h), w1)
            | (Some e, w1) \<Rightarrow>
                if err_is e ErrCollectionScope then outcome (resolveReplayExclusion env f) h w1 else ((Inl e, h), w1)))"

definition replay_candidate :: "env \<Rightarrow> bool \<Rightarrow> failure \<Rightarrow> tailHandler \<Rightarrow> world \<Rightarrow> ((go_error + replay_outcome) \<times> tailHandler) \<times> world" where
  "replay_candidate env adv f h w =
     (let run = (\<lambda>k h w. case k w of (r, w1) \<Rightarrow> ((r, h), w1)) in
      case tailMessageReplayEventKind f of
        None \<Rightarrow> run (recordTailMessageReplayFailure env f ''policy deferred'' PolicyDeferred) h w
      | Some kind \<Rightarrow>
          if rGuildID (fRef f) = [] \<or> rChannelID (fRef f) = [] \<or> rMessageID (fRef f) = []
          then run (recordTailMessageReplayFailure env f ''identity is incomplete'' Deferred) h w
          else if kind = ''delete'' then run (replay_delete env f) h w
          else case replay_admission env f h w of
            ((Inl e, h1), w1) \<Rightarrow> ((Inl e, h1), w1)
          | ((Inr (Some oc), h1), w1) \<Rightarrow> ((Inr oc, h1), w1)
          | ((Inr None, h1), w1) \<Rightarrow> run (replay_fetch env h1 adv f) h1 w1)"

fun replay_loop :: "env \<Rightarrow> bool \<Rightarrow> failure list \<Rightarrow> TailMessageReplayStats \<Rightarrow> tailHandler \<Rightarrow> world \<Rightarrow> (TailMessageReplayStats \<times> go_error option) \<times> world" where
  "replay_loop env adv [] st h w = ((st, None), w)"
| "replay_loop env adv (f # fs) st h w =
     (case envCtx env (wTick w) of
        Some e \<Rightarrow> ((st, Some e), w)
      | None \<Rightarrow>
          (case replay_candidate env adv f h w of
             ((Inl e, h1), w1) \<Rightarrow> ((st, Some e), w1)
           | ((Inr oc, h1), w1) \<Rightarrow> replay_loop env adv fs (count_outcome oc st) h1 w1))"

definition no_stats :: TailMessageReplayStats where
  "no_stats = \<lparr>rpOutOfScope = 0, rpUnavailable = 0, rpCandidates = 0, rpRecovered = 0, rpDeferred = 0, rpPolicyDeferred = 0\<rparr>"

definition replayTailMessages ::
  "env \<Rightarrow> action \<Rightarrow> (string \<times> dchannel option list option) list call \<Rightarrow> tailHandler \<Rightarrow> string list \<Rightarrow> int \<Rightarrow> bool \<Rightarrow>
   world \<Rightarrow> (TailMessageReplayStats \<times> go_error option) \<times> world" where
  "replayTailMessages env importFallbacks payloads h0 guildIDs limit adv w =
     (let h = h0\<lparr>thGuilds := makeGuildSet guildIDs, thCatalog := []\<rparr>;
          ref = \<lparr>rOperation = ''tail_message'', rSource = ''discord'', rGuildID = [], rChannelID = [], rMessageID = [],
                 rRelatedKind = ''message_event'', rRelatedID = []\<rparr> in
      case importFallbacks w of
        (Some e, w1) \<Rightarrow> ((no_stats, Some e), w1)
      | (None, w1) \<Rightarrow>
          (case ListFailureReplayCandidatesMatchingRelatedIDs env ref guildIDs [''create'', ''update'', ''delete''] limit w1 of
             (Inl e, w2) \<Rightarrow> ((no_stats, Some e), w2)
           | (Inr candidates, w2) \<Rightarrow>
               let st = no_stats\<lparr>rpCandidates := length candidates\<rparr> in
               case (if configured (thExclusions h) then seedScopeMetadata env payloads h w2 else ((None, h), w2)) of
                 ((Some e, h1), w3) \<Rightarrow> ((st, Some e), w3)
               | ((None, h1), w3) \<Rightarrow> replay_loop env adv candidates st h1 w3))"

definition ReplayTailMessageFailures ::
  "env \<Rightarrow> action \<Rightarrow> (string \<times> dchannel option list option) list call \<Rightarrow> tailHandler \<Rightarrow> string list \<Rightarrow> int \<Rightarrow>
   world \<Rightarrow> (TailMessageReplayStats \<times> go_error option) \<times> world" where
  "ReplayTailMessageFailures env importFallbacks payloads h guildIDs limit w =
     (if limit \<le> 0 \<or> limit > TailMessageReplayLimit
      then ((no_stats, Some (ErrText ''tail message replay limit must be between 1 and 25'')), w)
      else replayTailMessages env importFallbacks payloads h guildIDs limit True w)"

section \<open>What gateway work leaves alone\<close>

text \<open>The sync cursors, as a predicate on the database.\<close>

abbreviation cursors_are :: "(string \<times> sync_row) list \<Rightarrow> db \<Rightarrow> bool" where
  "cursors_are x d \<equiv> dbSyncState d = x"

lemma frameD: "(\<And>x. keeps (\<lambda>d. g d = x) a) \<Longrightarrow> a w = (r, w') \<Longrightarrow> g (wDB w') = g (wDB w)"
  unfolding keeps_def by (metis snd_conv)

lemma ledger_stable_cursors: "ledger_stable (cursors_are x)"
  by (auto simp: ledger_stable_def prune_failures_def ledger_upsert_def update_failures_def)

lemma store_stable_cursors: "store_stable (cursors_are x)"
  by (rule store_stable_frame) simp

lemma keeps_generation:
  "(\<And>d Q g. P d \<Longrightarrow> P (update_failures Q g d)) \<Longrightarrow> keeps P (ResolveFailureGeneration env f reason)"
  "(\<And>d Q g. P d \<Longrightarrow> P (update_failures Q g d)) \<Longrightarrow> keeps P (ResolveFailureWithReason env ref reason)"
  unfolding ResolveFailureGeneration_def ResolveFailureWithReason_def by (intro keeps_intros; blast)+

lemma keeps_identity:
  assumes "\<And>d Q g. P d \<Longrightarrow> P (update_failures Q g d)" "\<And>d now. P d \<Longrightarrow> P (prune_failures now d)"
  shows "keeps P (ResolveFailureIdentity env ref)"
proof -
  have k: "keeps P (andThen (annotate F (db_exec env (\<lambda>_. update_failures Q (resolved_now now)))) (pruneResolvedFailures env now))"
    for F Q now by (intro keeps_andThen keeps_annotate keeps_exec keeps_prune assms)
  show ?thesis unfolding keeps_def ResolveFailureIdentity_def Let_def using keepsD [OF k] by auto
qed

lemma keeps_channel_writes:
  assumes "\<And>d cs. P d \<Longrightarrow> P (d\<lparr>dbChannels := cs\<rparr>)" "\<And>d cs. P d \<Longrightarrow> P (d\<lparr>dbChannelChecks := cs\<rparr>)"
  shows "keeps P (upsertChannelTx env c started auth)"
proof -
  have st: "keeps P (channel_is_stale env s i started)" for s i
    unfolding channel_is_stale_def lastObservedChannelTx_def
    by (auto intro!: keeps_intros split: option.split)
  have "keeps P (write_channel env s c)" for s c
    unfolding write_channel_def invalidateChannelScope_def by (intro keeps_intros assms(1); assumption)
  then show ?thesis unfolding upsertChannelTx_def recordChannelObservedTx_def Let_def
    by (auto intro!: keeps_intros st assms(2))
qed


lemma cursors_ledger:
  "keeps (cursors_are x) (RecordFailure env ref (Some err))" "keeps (cursors_are x) (ResolveFailureGeneration env f reason)"
  "keeps (cursors_are x) (ResolveFailureWithReason env ref reason)" "keeps (cursors_are x) (ResolveFailureIdentity env ref)"
  by (intro keeps_RecordFailure ledger_stable_cursors keeps_generation keeps_identity;
      simp add: update_failures_def prune_failures_def)+

lemma cursors_channels:
  "keeps (cursors_are x) (UpsertObservedChannel env c started)" "keeps (cursors_are x) (UpsertChannel env c)"
  unfolding UpsertChannel_def UpsertObservedChannel_def upsertChannel_def
  by (intro keeps_with_tx keeps_channel_writes; simp)+

lemma cursors_scopes: "keeps (cursors_are x) (SetChannelScopes env ds policy)"
proof -
  have "keeps (cursors_are x) (sequence_actions (set_scope env policy now) ds)" for now
    by (intro keeps_sequence) (auto simp: set_scope_def intro!: keeps_intros split: prod.split)
  from keeps_at [where a = "\<lambda>t. sequence_actions (set_scope env policy (envNow env t)) ds", OF this]
  show ?thesis unfolding SetChannelScopes_def by (rule keeps_with_tx)
qed

lemmas scopes_frame = frameD [OF cursors_scopes]

lemma cursors_refresh: "keeps (cursors_are x) (refreshCollectionScopes env e policy)"
  unfolding keeps_def refreshCollectionScopes_def Let_def ScopeChannels_def
  by (auto split: prod.split sum.split option.split dest!: db_query_Inr db_query_Inl scopes_frame)

lemma cursors_refreshScope: "refreshScope env h w = (r, w') \<Longrightarrow> dbSyncState (wDB w') = dbSyncState (wDB w)"
  by (auto simp: refreshScope_def split: prod.splits sum.splits dest: frameD [OF cursors_refresh])

lemmas cursor_frames =
  cursors_ledger [THEN frameD] cursors_channels [THEN frameD] keeps_buildMessageMutation [THEN frameD]
  keeps_UpsertMessages [OF store_stable_cursors, THEN frameD] cursors_refreshScope

lemma cursors_ancestry: "fetch_ancestry env h guild n seen nxt w = (r, w') \<Longrightarrow> dbSyncState (wDB w') = dbSyncState (wDB w)"
proof (induction n arbitrary: seen nxt w)
  case (Suc n)
  show ?case
  proof (cases "nxt = [] \<or> nxt \<in> set seen \<or> excludesID (thExclusions h) nxt")
    case True
    with Suc.prems show ?thesis by (auto split: if_splits)
  next
    case False
    with Suc.prems show ?thesis
      by (auto simp: Let_def split: sum.splits option.splits if_splits prod.splits
          dest!: Suc.IH cursors_channels(1) [THEN frameD])
  qed
qed (auto split: if_splits)

lemma cursors_decision: "cached_decision env i h w = (r, w') \<Longrightarrow> dbSyncState (wDB w') = dbSyncState (wDB w)"
proof -
  have q: "scopeCacheStale env h1 i u = (x, u') \<Longrightarrow> wDB u' = wDB u" for h1 u x u'
    by (auto simp: scopeCacheStale_def ChannelScopeRevision_def bindCall_def value_call_def
        split: option.splits prod.splits sum.splits dest!: db_query_Inr db_query_Inl)
  have s: "refresh_if b env h1 u = (x, u') \<Longrightarrow> dbSyncState (wDB u') = dbSyncState (wDB u)" for b h1 u x u'
    by (auto simp: refresh_if_def split: if_splits dest: cursors_refreshScope)
  show "cached_decision env i h w = (r, w') \<Longrightarrow> dbSyncState (wDB w') = dbSyncState (wDB w)"
    by (auto simp: cached_decision_def split: prod.splits option.splits if_splits sum.splits dest!: q s)
qed

lemma cursors_admission: "allowMessageChannel env guild i h w = (r, w') \<Longrightarrow> dbSyncState (wDB w') = dbSyncState (wDB w)"
proof -
  have a: "resolve_ancestry env guild i h1 u = (x, u') \<Longrightarrow> dbSyncState (wDB u') = dbSyncState (wDB u)" for h1 u x u'
    by (auto simp: resolve_ancestry_def split: prod.splits option.splits if_splits
        dest!: cursors_ancestry cursors_refreshScope)
  have c: "ChannelCollectionAdmitted env i [] u = (x, u') \<Longrightarrow> wDB u' = wDB u" for u x u'
    using db_query_db [of env "\<lambda>d. \<not> tombstoned (dbChannels d) i" u] by (simp add: ChannelCollectionAdmitted_def)
  show "allowMessageChannel env guild i h w = (r, w') \<Longrightarrow> dbSyncState (wDB w') = dbSyncState (wDB w)"
    by (auto simp: allowMessageChannel_def split: prod.splits option.splits if_splits sum.splits
        dest!: a c cursors_decision)
qed

section \<open>Replay leaves the cursors alone\<close>

text \<open>What a call without a cursor advance keeps: an equation on the sync cursors.\<close>

definition same_cursors :: "'a call \<Rightarrow> bool" where
  "same_cursors k \<longleftrightarrow> (\<forall>w r w'. k w = (r, w') \<longrightarrow> dbSyncState (wDB w') = dbSyncState (wDB w))"

lemma same_cursorsD: "same_cursors k \<Longrightarrow> k w = (r, w') \<Longrightarrow> dbSyncState (wDB w') = dbSyncState (wDB w)"
  by (simp add: same_cursors_def)

lemma same_cursors_keeps: "(\<And>x. keeps (cursors_are x) k) \<Longrightarrow> same_cursors k"
  by (auto simp: same_cursors_def intro: frameD)

lemma same_replay_steps:
  "same_cursors (recordTailMessageReplayFailure env f text oc)" "same_cursors (resolve_as env f reason oc)"
  "same_cursors (resolveReplayExclusion env f)"
  unfolding resolveReplayExclusion_def recordTailMessageReplayFailure_def resolve_as_def
  by (rule same_cursors_keeps, intro keeps_doThen keeps_value cursors_ledger)+

lemma same_unless: "same_cursors k \<Longrightarrow> same_cursors (unless_cancelled env k)"
  by (auto simp: same_cursors_def unless_cancelled_def split: option.splits)

lemmas replay_frames = same_replay_steps [THEN same_cursorsD] same_replay_steps [THEN same_unless, THEN same_cursorsD]

lemma cursors_replay_delete: "same_cursors (replay_delete env f)"
proof -
  have "keeps (cursors_are x) (replayTailMessageDelete env f)" for x
    unfolding replayTailMessageDelete_def MarkMessageDeletedWithoutEvent_def
    by (intro keeps_andThen keeps_markMessageDeleted [OF store_stable_cursors] cursors_ledger) (simp add: update_row_def)
  then have d: "replayTailMessageDelete env f w = (r, w') \<Longrightarrow> dbSyncState (wDB w') = dbSyncState (wDB w)" for w r w'
    by (rule frameD)
  show ?thesis unfolding same_cursors_def replay_delete_def
    by (auto split: prod.splits option.splits dest!: d replay_frames)
qed

lemma cursors_store_replay: "same_cursors (store_replay env h False f started m)"
proof (unfold same_cursors_def, intro allI impI)
  fix w r w'
  assume s: "store_replay env h False f started m w = (r, w')"
  obtain b w1 where b: "buildMessageMutation env [] (rGuildID (fRef f)) (thEmbeddings h) m w = (b, w1)" by force
  note b' = keeps_buildMessageMutation [THEN frameD, OF b, of dbSyncState]
  show "dbSyncState (wDB w') = dbSyncState (wDB w)"
  proof (cases b)
    case (Inl e)
    with s b b' show ?thesis by (auto simp: store_replay_def split: if_splits dest!: replay_frames)
  next
    case (Inr mu)
    obtain q w2 where u: "UpsertMessages env [replay_mutation h started mu] w1 = (q, w2)" by force
    have u': "dbSyncState (wDB w2) = dbSyncState (wDB w1)" using keeps_UpsertMessages [OF store_stable_cursors, THEN frameD, OF u] .
    have s2: "(case q of Some e \<Rightarrow> unless_cancelled env (if err_is e ErrCollectionScope then resolveReplayExclusion env f
          else recordTailMessageReplayFailure env f ''canonical upsert failed'' Deferred) w2
        | None \<Rightarrow> unless_cancelled env (resolve_as env f ''exact_message_reconciled'' Recovered) w2) = (r, w')"
      using s b Inr u by (cases q) (simp_all add: store_replay_def advanceReplayCursor_def ok_def)
    have "dbSyncState (wDB w') = dbSyncState (wDB w2)"
      using s2 by (auto split: option.splits if_splits dest!: replay_frames)
    with u' b' show ?thesis by simp
  qed
qed

lemma cursors_replay_fetch: "same_cursors (replay_fetch env h False f)"
proof (unfold same_cursors_def, intro allI impI)
  fix w r w'
  assume s: "replay_fetch env h False f w = (r, w')"
  have "same_cursors (case envMessage env (wTick w) (rChannelID (fRef f)) (rMessageID (fRef f)) of
      Inl e \<Rightarrow> if err_rest e = Some (404, 10003) \<or> err_rest e = Some (404, 10008)
             then resolve_as env f ''provider_unavailable_404'' Unavailable
             else recordTailMessageReplayFailure env f ''exact fetch failed'' Deferred
    | Inr message \<Rightarrow> (case validateTailMessageReplay f message of
          Some e \<Rightarrow> recordTailMessageReplayFailure env f ''identity validation failed'' Deferred
        | None \<Rightarrow> (case message of
            None \<Rightarrow> recordTailMessageReplayFailure env f ''identity validation failed'' Deferred
          | Some m \<Rightarrow> store_replay env h False f (envNow env (wTick w))
              (if gGuildID m = [] then m\<lparr>gGuildID := rGuildID (fRef f)\<rparr> else m))))"
    by (auto intro: same_replay_steps cursors_store_replay split: sum.split option.split)
  from same_cursorsD [OF same_unless [OF this], of env "tick w" r w'] s show "dbSyncState (wDB w') = dbSyncState (wDB w)"
    by (simp add: replay_fetch_def Let_def)
qed

lemma cursors_requirePersistedScope: "requirePersistedScope env cfg c w = (r, w') \<Longrightarrow> dbSyncState (wDB w') = dbSyncState (wDB w)"
  by (rule keeps_requirePersistedScope [THEN frameD])

lemma cursors_replay_admission: "replay_admission env f h w = (r, w') \<Longrightarrow> dbSyncState (wDB w') = dbSyncState (wDB w)"
  by (auto simp: replay_admission_def Let_def split: if_splits prod.splits sum.splits option.splits bool.splits
      dest!: cursors_admission replay_frames cursors_requirePersistedScope)

lemma cursors_candidate:
  assumes "replay_candidate env False f h w = (r, w')" shows "dbSyncState (wDB w') = dbSyncState (wDB w)"
proof -
  note F = replay_frames cursors_replay_delete [THEN same_cursorsD] cursors_replay_fetch [THEN same_cursorsD] cursors_replay_admission
  show ?thesis using assms
    by (auto simp: replay_candidate_def Let_def split: option.splits if_splits prod.splits sum.splits dest!: F)
qed

lemma cursors_loop: "replay_loop env False fs st h w = (r, w') \<Longrightarrow> dbSyncState (wDB w') = dbSyncState (wDB w)"
  by (induction fs arbitrary: st h w) (auto split: option.splits prod.splits sum.splits dest!: cursors_candidate)


section \<open>Outcomes of a replayed failure\<close>

lemma normalized_replay_ref: "ledger_ref ref (ErrText t) = normalizeFailureRef ref"
  by (simp add: ledger_ref_def FailureRefFromError_def mergeFailureRef_def empty_ref_def normalizeFailureRef_def Let_def)

lemma deferred_pending:
  assumes "recordTailMessageReplayFailure env f text oc w = (Inr oc', w')"
  shows "oc' = oc \<and> pending (wDB w') (normalizeFailureRef (fRef f))"
proof -
  from assms have "RecordFailure env (fRef f) (Some (ErrText (''tail message replay '' @ text))) w = (None, w')" and "oc' = oc"
    by (auto simp: recordTailMessageReplayFailure_def value_call_def tailMessageFailureRef_def dest!: doThen_Inr)
  then show ?thesis using RecordFailure_pending [of env "fRef f" "ErrText (''tail message replay '' @ text)" w w']
    by (simp add: normalized_replay_ref)
qed

lemma resolved_outcome: "resolve_as env f reason oc w = (Inr oc', w') \<Longrightarrow>
   oc' = oc \<and> ResolveFailureGeneration env f reason w = (None, w')"
  by (auto simp: resolve_as_def value_call_def dest!: doThen_Inr)

lemma unless_Inr: "unless_cancelled env k w = (Inr x, w') \<Longrightarrow> k w = (Inr x, w')"
  by (simp add: unless_cancelled_def split: option.splits)

lemma resolve_keeps_rows: "keeps (has_row i) (ResolveFailureGeneration env f reason)"
  by (rule keeps_generation) (simp add: update_failures_def has_row_def stored_row_def)

lemma advance_keeps_rows: "keeps (has_row i) (advanceReplayCursor env f adv)"
proof (unfold keeps_def, intro allI impI)
  fix w :: world
  assume r: "has_row i (wDB w)"
  have s: "has_row i (advance_stmt sc m now d) = has_row i d" for sc m now d
    by (simp add: advance_stmt_def put_cursor_def has_row_def stored_row_def)
  show "has_row i (wDB (snd (advanceReplayCursor env f adv w)))"
  proof (cases adv)
    case True
    from advance_db [of env "rChannelID (fRef f)" "rMessageID (fRef f)" w] show ?thesis
      using True r s by (auto simp: advanceReplayCursor_def)
  qed (simp add: advanceReplayCursor_def ok_def r)
qed

text \<open>
  What the ledger and the archive hold after a candidate was counted under an outcome: a recovered
  failure has its message in the archive; an unavailable one was answered Unknown Channel or Unknown
  Message; each of these, and one out of scope, was resolved for exactly the generation that was
  read, with its reason; a deferred one is pending.
\<close>

definition resolved_by :: "env \<Rightarrow> failure \<Rightarrow> string \<Rightarrow> world \<Rightarrow> bool" where
  "resolved_by env f reason w' \<longleftrightarrow> (\<exists>u. ResolveFailureGeneration env f reason u = (None, w'))"

definition provider_gone :: "env \<Rightarrow> failure \<Rightarrow> bool" where
  "provider_gone env f \<longleftrightarrow> (\<exists>n e. envMessage env n (rChannelID (fRef f)) (rMessageID (fRef f)) = Inl e \<and>
     (err_rest e = Some (404, 10003) \<or> err_rest e = Some (404, 10008)))"

fun replay_settled :: "env \<Rightarrow> failure \<Rightarrow> replay_outcome \<Rightarrow> world \<Rightarrow> bool" where
  "replay_settled env f Recovered w' =
     (has_row (rMessageID (fRef f)) (wDB w') \<and> resolved_by env f ''exact_message_reconciled'' w')"
| "replay_settled env f Unavailable w' = (provider_gone env f \<and> resolved_by env f ''provider_unavailable_404'' w')"
| "replay_settled env f OutOfScope w' = resolved_by env f ''excluded_by_collection_policy'' w'"
| "replay_settled env f Deferred w' = pending (wDB w') (normalizeFailureRef (fRef f))"
| "replay_settled env f PolicyDeferred w' = pending (wDB w') (normalizeFailureRef (fRef f))"

lemma settled_deferred:
  "recordTailMessageReplayFailure env f text oc w = (Inr oc', w') \<Longrightarrow> oc \<in> {Deferred, PolicyDeferred} \<Longrightarrow> replay_settled env f oc' w'"
  by (auto dest!: deferred_pending)

lemma settled_excluded: "resolveReplayExclusion env f w = (Inr oc, w') \<Longrightarrow> replay_settled env f oc w'"
  by (auto simp: resolveReplayExclusion_def resolved_by_def dest!: resolved_outcome)

lemma settled_delete: "replay_delete env f w = (Inr oc, w') \<Longrightarrow> replay_settled env f oc w'"
proof -
  assume a: "replay_delete env f w = (Inr oc, w')"
  obtain r w1 where d: "replayTailMessageDelete env f w = (r, w1)" by force
  show ?thesis
  proof (cases r)
    case (Some e)
    with a d show ?thesis by (auto simp: replay_delete_def dest!: unless_Inr settled_deferred)
  next
    case None
    with a d have w1: "w1 = w'" "oc = Recovered" by (auto simp: replay_delete_def)
    from andThen_None [OF d [unfolded None replayTailMessageDelete_def]] obtain u where
      m: "MarkMessageDeletedWithoutEvent env (rGuildID (fRef f)) (rChannelID (fRef f)) (rMessageID (fRef f)) w = (None, u)"
      and g: "ResolveFailureGeneration env f ''exact_message_reconciled'' u = (None, w1)" by blast
    from with_tx_None [OF m [unfolded MarkMessageDeletedWithoutEvent_def markMessageDeleted_def]] obtain v v' where
      v: "delete_message_tx env (rGuildID (fRef f)) (rChannelID (fRef f)) (rMessageID (fRef f)) [] False True v = (None, v')"
        "wDB u = wDB v'" by blast
    have "has_row (rMessageID (fRef f)) (wDB v')"
      using v(1) by (rule delete_message_effect) (auto simp: has_row_def)
    then have "has_row (rMessageID (fRef f)) (wDB w1)" using g v(2)
        keepsD [OF resolve_keeps_rows, of "rMessageID (fRef f)" u env f "''exact_message_reconciled''"] by simp
    with g w1 show ?thesis by (auto simp: resolved_by_def)
  qed
qed

lemma settled_store:
  assumes a: "store_replay env h adv f started m w = (Inr oc, w')" and i: "gID m = rMessageID (fRef f)"
  shows "replay_settled env f oc w'"
proof -
  obtain b w1 where b: "buildMessageMutation env [] (rGuildID (fRef f)) (thEmbeddings h) m w = (b, w1)" by force
  show ?thesis
  proof (cases b)
    case (Inl e)
    with a b show ?thesis
      by (auto simp: store_replay_def split: if_splits dest!: unless_Inr settled_excluded settled_deferred)
  next
    case (Inr mu)
    obtain q w2 where u: "UpsertMessages env [replay_mutation h started mu] w1 = (q, w2)" by force
    show ?thesis
    proof (cases q)
      case (Some e)
      with a b Inr u show ?thesis
        by (auto simp: store_replay_def split: if_splits dest!: unless_Inr settled_excluded settled_deferred)
    next
      case None
      have id: "msID (mmRecord (replay_mutation h started mu)) = rMessageID (fRef f)"
        using b Inr i by (auto simp: buildMessageMutation_def replay_mutation_def toMessageRecord_def Let_def split: sum.splits prod.splits)
      have r2: "has_row (rMessageID (fRef f)) (wDB w2)"
        using sink.tx_success [where env = env and ms = "[replay_mutation h started mu]" and w = w1 and w' = w2] u None id by (simp add: UpsertMessages_def)
      obtain p w3 where c: "advanceReplayCursor env f adv w2 = (p, w3)" by force
      have r3: "has_row (rMessageID (fRef f)) (wDB w3)" using keepsD [OF advance_keeps_rows r2] c by (metis snd_conv)
      show ?thesis
      proof (cases p)
        case (Some e)
        with a b Inr u None c show ?thesis by (auto simp: store_replay_def dest!: unless_Inr settled_deferred)
      next
        case N: None
        with a b Inr u None c have "resolve_as env f ''exact_message_reconciled'' Recovered w3 = (Inr oc, w')"
          by (auto simp: store_replay_def dest: unless_Inr)
        from resolved_outcome [OF this] have g: "oc = Recovered" "ResolveFailureGeneration env f ''exact_message_reconciled'' w3 = (None, w')" by auto
        have "has_row (rMessageID (fRef f)) (wDB w')" using keepsD [OF resolve_keeps_rows r3] g(2) by (metis snd_conv)
        with g show ?thesis by (auto simp: resolved_by_def)
      qed
    qed
  qed
qed

lemma validated_id: "validateTailMessageReplay f (Some m) = None \<Longrightarrow> gID m = rMessageID (fRef f)"
  by (simp add: validateTailMessageReplay_def split: if_splits)

lemma settled_fetch: "replay_fetch env h adv f w = (Inr oc, w') \<Longrightarrow> replay_settled env f oc w'"
  by (auto simp: replay_fetch_def Let_def resolved_by_def provider_gone_def split: sum.splits option.splits if_splits
      dest!: unless_Inr resolved_outcome settled_deferred settled_store validated_id) blast+

lemma settled_admission:
  "replay_admission env f h w = ((Inr (Some oc), h'), w') \<Longrightarrow> replay_settled env f oc w'"
  by (auto simp: replay_admission_def Let_def split: if_splits prod.splits sum.splits option.splits bool.splits
      dest!: settled_deferred settled_excluded)

lemma replay_loop_counts:
  "replay_loop env adv fs st h w = ((st', None), w') \<Longrightarrow>
   rpCandidates st' = rpCandidates st \<and>
   rpOutOfScope st' + rpUnavailable st' + rpRecovered st' + rpDeferred st' + rpPolicyDeferred st' =
   rpOutOfScope st + rpUnavailable st + rpRecovered st + rpDeferred st + rpPolicyDeferred st + length fs"
proof (induction fs arbitrary: st h w)
  case (Cons f fs)
  then obtain oc h1 w1 where l: "replay_loop env adv fs (count_outcome oc st) h1 w1 = ((st', None), w')"
    by (auto split: option.splits prod.splits sum.splits)
  from Cons.IH [OF l] show ?case by (cases oc) simp_all
qed simp

lemma candidates_bounded:
  "ListFailureReplayCandidatesMatchingRelatedIDs env ref guildIDs relatedIDs limit w = (Inr fs, w') \<Longrightarrow> 0 < limit \<Longrightarrow>
   int (length fs) \<le> limit"
  by (auto simp: ListFailureReplayCandidatesMatchingRelatedIDs_def listFailureReplayCandidates_def Let_def
      split: if_splits prod.splits sum.splits dest!: db_query_Inr)

text \<open>
  C9. A replayed failure is closed only for cause. Whatever the database, the provider and the
  context do, a candidate that the replay counts as recovered has its message in the archive (or its
  row, for a deletion); one counted as unavailable was answered 404 with Unknown Channel or Unknown
  Message; these and one out of scope were resolved by a statement that names the generation the
  replay read, with its reason; one counted as deferred is pending.
\<close>
theorem replay_closes_for_cause:
  assumes "replay_candidate env adv f h w = ((Inr oc, h'), w')"
  shows "replay_settled env f oc w'"
  using assms
  by (auto simp: replay_candidate_def Let_def split: option.splits if_splits prod.splits sum.splits
      dest!: settled_deferred settled_delete settled_admission settled_fetch)

text \<open>
  C29. A replay accounts for everything it took: when it returns without an error, each candidate is
  counted under exactly one outcome, and there are at most as many candidates as the limit, which
  the command bounds by 25.
\<close>
theorem replay_counts_every_candidate:
  assumes "ReplayTailMessageFailures env importFallbacks payloads h guildIDs limit w = ((st, None), w')"
  shows "rpOutOfScope st + rpUnavailable st + rpRecovered st + rpDeferred st + rpPolicyDeferred st = rpCandidates st \<and>
    int (rpCandidates st) \<le> limit \<and> limit \<le> 25"
proof -
  from assms have l: "0 < limit" "limit \<le> 25"
    and r: "replayTailMessages env importFallbacks payloads h guildIDs limit True w = ((st, None), w')"
    by (auto simp: ReplayTailMessageFailures_def TailMessageReplayLimit_def split: if_splits)
  from r obtain fs h1 w2 w3 w4 ref where
    c: "ListFailureReplayCandidatesMatchingRelatedIDs env ref guildIDs [''create'', ''update'', ''delete''] limit w2 = (Inr fs, w3)"
    and k: "replay_loop env True fs (no_stats\<lparr>rpCandidates := length fs\<rparr>) h1 w4 = ((st, None), w')"
    by (auto simp: replayTailMessages_def Let_def split: prod.splits option.splits sum.splits if_splits)
  from replay_loop_counts [OF k] candidates_bounded [OF c l(1)] l(2) show ?thesis by (simp add: no_stats_def)
qed


section \<open>Gateway messages\<close>

lemma identity_resolved:
  assumes "ResolveFailureIdentity env ref w = (None, w')"
  shows "\<not> pending (wDB w') (normalizeFailureRef ref)"
proof -
  let ?n = "normalizeFailureRef ref" and ?now = "envNow env (wTick w)"
  from assms obtain w1 where
    u: "annotate (\<lambda>e. ErrWrap (''resolve exact '' @ rSource ?n @ ''/'' @ rOperation ?n @ '' failure: '') e [])
          (db_exec env (\<lambda>_. update_failures (\<lambda>f. fResolvedAt f = None \<and> fRef f = ?n) (resolved_now ?now))) w = (None, w1)"
    and p: "pruneResolvedFailures env ?now w1 = (None, w')"
    by (auto simp: ResolveFailureIdentity_def Let_def split: if_splits elim!: andThenE)
  have "wDB w1 = resolve_refs (\<lambda>r. r = ?n) ?now (wDB w)"
    using u by (auto simp: annotate_def resolve_refs_def split: prod.splits option.splits dest: db_exec_None)
  then have "\<not> pending (wDB w1) ?n" by (simp add: lg.pend_res)
  moreover have "wDB w' = prune_failures ?now (wDB w1)"
    using p by (auto simp: pruneResolvedFailures_def annotate_def split: prod.splits option.splits dest: db_exec_None)
  ultimately show ?thesis by (simp add: lg.pend_clean)
qed

lemma rows_cursor_put [simp]: "has_row i (put_cursor s c now d) = has_row i d"
  by (simp add: has_row_def stored_row_def put_cursor_def)

lemma keeps_identity_rows: "keeps (has_row i) (ResolveFailureIdentity env ref)"
  by (rule keeps_identity) (simp_all add: update_failures_def prune_failures_def has_row_def stored_row_def)

lemma resolveMessageFailure_kind:
  "resolveMessageFailure env g c i ''create'' = ResolveFailureIdentity env (tailMessageFailureIdentity g c i ''create'')"
  "resolveMessageFailure env g c i ''update'' = ResolveFailureIdentity env (tailMessageFailureIdentity g c i ''update'')"
  "resolveMessageFailure env g c i ''delete'' = ResolveFailureIdentity env (tailMessageFailureIdentity g c i ''delete'')"
proof -
  have k: "normalizeTailMessageEventKind ''create'' = Some ''create''" "normalizeTailMessageEventKind ''update'' = Some ''update''"
    "normalizeTailMessageEventKind ''delete'' = Some ''delete''" by code_simp+
  show "resolveMessageFailure env g c i ''create'' = ResolveFailureIdentity env (tailMessageFailureIdentity g c i ''create'')"
    "resolveMessageFailure env g c i ''update'' = ResolveFailureIdentity env (tailMessageFailureIdentity g c i ''update'')"
    "resolveMessageFailure env g c i ''delete'' = ResolveFailureIdentity env (tailMessageFailureIdentity g c i ''delete'')"
    by (simp_all only: resolveMessageFailure_def k option.case)
qed

text \<open>A write that the collection scope refused after admission.\<close>

definition scope_revoked :: "env \<Rightarrow> tailHandler \<Rightarrow> string \<Rightarrow> instant \<Rightarrow> dmessage \<Rightarrow> world \<Rightarrow> bool" where
  "scope_revoked env h kind started m w \<longleftrightarrow>
     (\<exists>e. err_is e ErrCollectionScope \<and>
       (case buildMessageMutation env [] [] (thEmbeddings h) m w of
          (Inl e', w1) \<Rightarrow> e' = e
        | (Inr mu, w1) \<Rightarrow> fst (UpsertMessages env [gateway_mutation h started kind mu] w1) = Some e))"

lemma store_event_cases:
  assumes "store_event env h started kind m rest w = (None, w')"
  obtains (stored) u where "has_row (gID m) (wDB u)" "sync_cursor (wDB u) ''tail:last_event'' = gID m" "rest u = (None, w')"
    | (revoked) u where "scope_revoked env h kind started m w"
        "ResolveFailureWithReason env (tailMessageFailureIdentity (gGuildID m) (gChannelID m) (gID m) kind)
           ''excluded_by_collection_policy'' u = (None, w')"
proof -
  obtain b w1 where b: "buildMessageMutation env [] [] (thEmbeddings h) m w = (b, w1)" by force
  show ?thesis
  proof (cases b)
    case (Inl e)
    with assms b show ?thesis
      by (intro revoked) (auto simp: store_event_def scopeRejection_def scope_revoked_def fail_with_def split: if_splits)
  next
    case (Inr mu)
    obtain q w2 where u: "UpsertMessages env [gateway_mutation h started kind mu] w1 = (q, w2)" by force
    show ?thesis
    proof (cases q)
      case (Some e)
      with assms b Inr u show ?thesis
        by (intro revoked) (auto simp: store_event_def scopeRejection_def scope_revoked_def fail_with_def split: if_splits)
    next
      case None
      have id: "msID (mmRecord (gateway_mutation h started kind mu)) = gID m"
        using b Inr by (auto simp: buildMessageMutation_def gateway_mutation_def toMessageRecord_def Let_def split: sum.splits prod.splits)
      have r: "has_row (gID m) (wDB w2)"
        using sink.tx_success [where env = env and ms = "[gateway_mutation h started kind mu]" and w = w1 and w' = w2] u None id
        by (simp add: UpsertMessages_def)
      from assms b Inr u None have "andThen (SetSyncState env ''tail:last_event'' (gID m)) rest w2 = (None, w')"
        by (simp add: store_event_def)
      then obtain w3 where s: "SetSyncState env ''tail:last_event'' (gID m) w2 = (None, w3)" and k: "rest w3 = (None, w')"
        by (rule andThenE)
      have "wDB w3 = put_cursor ''tail:last_event'' (gID m) (envNow env (wTick w2)) (wDB w2)"
        using db_exec_None [OF s [unfolded SetSyncState_def]] .
      with r k show ?thesis by (intro stored) simp_all
    qed
  qed
qed

text \<open>
  C27. An admitted gateway message is archived or refused by scope. When the handler of a creation
  event returns without an error for a message whose guild and channel it admitted, the message is
  in the archive and recorded as the last event seen, unless the collection scope refused the write
  after admission; and no failure of this event is pending, so nothing is replayed needlessly.
\<close>
theorem gateway_message_is_archived:
  assumes "allowGuild h (gGuildID m)" and "allowMessageChannel env (gGuildID m) (gChannelID m) h w = ((Inr True, h1), w1)"
    and ret: "OnMessageCreate env (Some m) h w = ((None, h'), w')"
    and ref: "normalizeFailureRef (tailMessageFailureIdentity (gGuildID m) (gChannelID m) (gID m) ''create'')
      = tailMessageFailureIdentity (gGuildID m) (gChannelID m) (gID m) ''create''"
  shows "(has_row (gID m) (wDB w') \<and> sync_cursor (wDB w') ''tail:last_event'' = gID m \<or> scope_revoked env h1 ''create'' 0 m w1) \<and>
    \<not> pending (wDB w') (tailMessageFailureIdentity (gGuildID m) (gChannelID m) (gID m) ''create'')"
proof -
  let ?ref = "tailMessageFailureIdentity (gGuildID m) (gChannelID m) (gID m) ''create''"
  have "create_event env h1 m w1 = (None, w')"
    using ret assms(1,2) by (auto simp: OnMessageCreate_def split: prod.splits)
  then show ?thesis unfolding create_event_def resolveMessageFailure_kind
  proof (cases rule: store_event_cases)
    case (stored u)
    from stored(3) obtain v where a: "(if thPreserveHistoryCursor h1 then ok else AdvanceChannelLatestMessageID env (gChannelID m) (gID m)) u = (None, v)"
      and i: "ResolveFailureIdentity env ?ref v = (None, w')" by (rule andThenE)
    have st: "has_row (gID m) (advance_stmt sc x now d) = has_row (gID m) d" for sc x now d
      by (simp add: advance_stmt_def)
    have "has_row (gID m) (wDB v) \<and> sync_cursor (wDB v) ''tail:last_event'' = gID m"
    proof (cases "thPreserveHistoryCursor h1")
      case True
      with a stored(1,2) show ?thesis by (simp add: ok_def)
    next
      case False
      have n: "channelLatestScope (gChannelID m) \<noteq> ''tail:last_event''" by (simp add: channelLatestScope_def)
      from False a have "AdvanceChannelLatestMessageID env (gChannelID m) (gID m) u = (None, v)" by simp
      with advance_db [of env "gChannelID m" "gID m" u] st n stored(1,2) show ?thesis
        by (auto simp: advance_stmt_other)
    qed
    moreover have "has_row (gID m) (wDB v) \<Longrightarrow> has_row (gID m) (wDB w')"
      using keepsD [OF keeps_identity_rows, of "gID m" v env ?ref] i by simp
    moreover have "dbSyncState (wDB w') = dbSyncState (wDB v)" using cursors_ledger(4) [THEN frameD, OF i] .
    moreover have "\<not> pending (wDB w') ?ref" using identity_resolved [OF i] ref by simp
    ultimately show ?thesis by (simp add: sync_cursor_def)
  next
    case (revoked u)
    with ResolveFailureWithReason_success(1) [OF revoked(2), of ?ref] show ?thesis by simp
  qed
qed

section \<open>The history frontier\<close>

lemma refresh_handler: "refreshScope env h w = ((r, h'), w') \<Longrightarrow> thPreserveHistoryCursor h' = thPreserveHistoryCursor h"
  by (auto simp: refreshScope_def split: prod.splits sum.splits)

lemma decision_handler: "cached_decision env i h w = ((r, h'), w') \<Longrightarrow> thPreserveHistoryCursor h' = thPreserveHistoryCursor h"
  by (auto simp: cached_decision_def refresh_if_def split: prod.splits option.splits if_splits sum.splits dest!: refresh_handler)

lemma admission_handler:
  "allowMessageChannel env g i h w = ((r, h'), w') \<Longrightarrow> thPreserveHistoryCursor h' = thPreserveHistoryCursor h"
  by (auto simp: allowMessageChannel_def resolve_ancestry_def split: prod.splits option.splits if_splits sum.splits
      dest!: refresh_handler decision_handler)

text \<open>Storing an event moves no cursor but that of the last event.\<close>

lemma frontier_store_event:
  assumes rest: "\<And>u r u'. rest u = (r, u') \<Longrightarrow> dbSyncState (wDB u') = dbSyncState (wDB u)"
    and "store_event env h started kind m rest w = (r, w')" and s: "s \<noteq> ''tail:last_event''"
  shows "sync_cursor (wDB w') s = sync_cursor (wDB w) s"
proof -
  have same: "dbSyncState d = dbSyncState d' \<Longrightarrow> sync_cursor d s = sync_cursor d' s" for d d' by (simp add: sync_cursor_def)
  have rej: "scopeRejection env kind m e u = (x, u') \<Longrightarrow> dbSyncState (wDB u') = dbSyncState (wDB u)" for e u x u'
    by (auto simp: scopeRejection_def fail_with_def split: if_splits dest: cursors_ledger(3) [THEN frameD])
  have put: "SetSyncState env ''tail:last_event'' i u = (x, u') \<Longrightarrow> sync_cursor (wDB u') s = sync_cursor (wDB u) s" for i u x u'
    using db_exec_db [of env "put_cursor ''tail:last_event'' i" u] s by (auto simp: SetSyncState_def)
  obtain b w1 where b: "buildMessageMutation env [] [] (thEmbeddings h) m w = (b, w1)" by force
  note b' = keeps_buildMessageMutation [THEN frameD, OF b, of dbSyncState]
  show ?thesis
  proof (cases b)
    case (Inl e)
    with assms(2) b b' show ?thesis by (auto simp: store_event_def dest!: rej intro: same)
  next
    case (Inr mu)
    obtain q w2 where u: "UpsertMessages env [gateway_mutation h started kind mu] w1 = (q, w2)" by force
    have u': "dbSyncState (wDB w2) = dbSyncState (wDB w1)" using keeps_UpsertMessages [OF store_stable_cursors, THEN frameD, OF u] .
    have "sync_cursor (wDB w') s = sync_cursor (wDB w2) s"
    proof (cases q)
      case (Some e)
      with assms(2) b Inr u show ?thesis by (auto simp: store_event_def dest!: rej intro: same)
    next
      case None
      with assms(2) b Inr u have k: "andThen (SetSyncState env ''tail:last_event'' (gID m)) rest w2 = (r, w')"
        by (simp add: store_event_def)
      obtain x w3 where p: "SetSyncState env ''tail:last_event'' (gID m) w2 = (x, w3)" by force
      have "sync_cursor (wDB w') s = sync_cursor (wDB w3) s"
        using k p by (cases x) (auto simp: andThen_def dest!: rest intro: same)
      with put [OF p] show ?thesis by simp
    qed
    also have "\<dots> = sync_cursor (wDB w) s" using u' b' by (intro same) simp
    finally show ?thesis .
  qed
qed

lemma identity_frame: "resolveMessageFailure env g c i k w = (r, w') \<Longrightarrow> dbSyncState (wDB w') = dbSyncState (wDB w)"
  by (auto simp: resolveMessageFailure_def fail_with_def split: option.splits dest: cursors_ledger(4) [THEN frameD])

lemma frontier_create:
  assumes "thPreserveHistoryCursor h" "OnMessageCreate env msg h w = (r, w')" "s \<noteq> ''tail:last_event''"
  shows "sync_cursor (wDB w') s = sync_cursor (wDB w) s"
proof (cases msg)
  case None
  with assms(2) show ?thesis by (simp add: OnMessageCreate_def)
next
  case (Some m)
  have ev: "create_event env h1 m u = (x, u') \<Longrightarrow> thPreserveHistoryCursor h1 \<Longrightarrow> sync_cursor (wDB u') s = sync_cursor (wDB u) s" for h1 u x u'
    unfolding create_event_def by (rule frontier_store_event [OF _ _ assms(3)]) (auto simp: andThen_def ok_def dest: identity_frame)
  have same: "dbSyncState d = dbSyncState d' \<Longrightarrow> sync_cursor d s = sync_cursor d' s" for d d' by (simp add: sync_cursor_def)
  show ?thesis
  proof (cases "allowGuild h (gGuildID m)")
    case False
    with assms(2) Some show ?thesis by (simp add: OnMessageCreate_def)
  next
    case True
    obtain a h1 w1 where al: "allowMessageChannel env (gGuildID m) (gChannelID m) h w = ((a, h1), w1)" by (metis prod.exhaust)
    have h1: "thPreserveHistoryCursor h1" using admission_handler [OF al] assms(1) by simp
    have "sync_cursor (wDB w') s = sync_cursor (wDB w1) s"
      using assms(2) Some True al by (auto simp: OnMessageCreate_def split: sum.splits bool.splits prod.splits dest!: ev [OF _ h1])
    with same [OF cursors_admission [OF al]] show ?thesis by simp
  qed
qed

lemma frontier_update:
  assumes "OnMessageUpdate env msg h w = (r, w')" "s \<noteq> ''tail:last_event''"
  shows "sync_cursor (wDB w') s = sync_cursor (wDB w) s"
proof (cases msg)
  case None
  with assms(1) show ?thesis by (simp add: OnMessageUpdate_def)
next
  case (Some m)
  have snap: "messageUpdateSnapshot env m u = (x, u') \<Longrightarrow> wDB u' = wDB u" for u x u'
    by (auto simp: messageUpdateSnapshot_def Let_def split: if_splits sum.splits option.splits)
  have st: "store_event env h1 t ''update'' m' (resolveMessageFailure env g c i ''update'') u = (x, u') \<Longrightarrow>
      sync_cursor (wDB u') s = sync_cursor (wDB u) s" for h1 t m' g c i u x u'
    by (rule frontier_store_event [OF _ _ assms(2)]) (auto dest: identity_frame)
  have ev: "update_event env h1 m u = (x, u') \<Longrightarrow> sync_cursor (wDB u') s = sync_cursor (wDB u) s" for h1 u x u'
    by (auto simp: update_event_def Let_def split: prod.splits sum.splits option.splits if_splits dest!: snap st)
  show ?thesis
  proof (cases "gGuildID m \<noteq> [] \<and> \<not> allowGuild h (gGuildID m)")
    case True
    with assms(1) Some show ?thesis by (auto simp: OnMessageUpdate_def)
  next
    case False
    obtain a h1 w1 where al: "allowMessageChannel env (gGuildID m) (gChannelID m) h w = ((a, h1), w1)" by (metis prod.exhaust)
    have "sync_cursor (wDB w') s = sync_cursor (wDB w1) s"
      using assms(1) Some False al by (auto simp: OnMessageUpdate_def split: sum.splits bool.splits prod.splits dest!: ev)
    with cursors_admission [OF al] show ?thesis by (simp add: sync_cursor_def)
  qed
qed

lemma frontier_delete:
  assumes "OnMessageDelete env evt h w = (r, w')" "s \<noteq> ''tail:last_event''"
  shows "sync_cursor (wDB w') s = sync_cursor (wDB w) s"
proof -
  have "keeps (\<lambda>d. sync_cursor d s = x) (OnMessageDelete env evt h)" for x
  proof -
    have mark: "keeps (\<lambda>d. sync_cursor d s = x) (MarkMessageDeleted env g c i p)" for g c i p
      unfolding MarkMessageDeleted_def
      by (rule keeps_markMessageDeleted, rule store_stable_frame) (simp_all add: sync_cursor_def update_row_def)
    have put: "keeps (\<lambda>d. sync_cursor d s = x) (SetSyncState env ''tail:last_event'' i)" for i
      unfolding SetSyncState_def by (rule keeps_exec) (simp add: assms(2))
    have res: "keeps (\<lambda>d. sync_cursor d s = x) (resolveMessageFailure env g c i ''delete'')" for g c i
      unfolding resolveMessageFailure_kind by (rule keeps_identity) (simp_all add: update_failures_def prune_failures_def sync_cursor_def)
    show ?thesis unfolding OnMessageDelete_def
      by (cases evt) (auto intro!: keeps_intros mark put res)
  qed
  from frameD [OF this assms(1)] show ?thesis .
qed

lemma frontier_seed:
  assumes "\<forall>u. dbSyncState (wDB (snd (payloads u))) = dbSyncState (wDB u)"
    and "seedScopeMetadata env payloads h w = (r, w')"
  shows "dbSyncState (wDB w') = dbSyncState (wDB w)"
proof -
  have p: "keeps (cursors_are x) payloads" for x using assms(1) by (simp add: keeps_def)
  have "keeps (cursors_are x) (withResult (ScopeChannels env) (\<lambda>rs. withResult payloads (\<lambda>guilds.
          sequence_actions (UpsertChannel env) (seed_records h guilds (map crID rs)))))" for x
    unfolding ScopeChannels_def by (intro keeps_withResult keeps_query keeps_sequence cursors_channels p)
  note a = frameD [OF this]
  show ?thesis using assms(2)
    by (auto simp: seedScopeMetadata_def then_refresh_def split: prod.splits option.splits dest!: a cursors_refreshScope)
qed

lemma candidates_db:
  "ListFailureReplayCandidatesMatchingRelatedIDs env ref guildIDs relatedIDs limit w = (x, w') \<Longrightarrow> wDB w' = wDB w"
  by (auto simp: ListFailureReplayCandidatesMatchingRelatedIDs_def listFailureReplayCandidates_def Let_def
      split: if_splits prod.splits sum.splits dest!: db_query_Inr db_query_Inl)

text \<open>
  Neither the gateway events in startup-repair mode nor an automatic replay moves the cursor of a
  channel, if the import of the fallback journal does not.
\<close>

lemma gateway_frontier:
  assumes imp: "\<forall>u. sync_cursor (wDB (snd (importFallbacks u))) (channelLatestScope c) = sync_cursor (wDB u) (channelLatestScope c)"
    and pay: "\<forall>u. dbSyncState (wDB (snd (payloads u))) = dbSyncState (wDB u)" and h: "thPreserveHistoryCursor h"
  shows "sync_cursor (wDB (snd (OnMessageCreate env msg h w))) (channelLatestScope c) = sync_cursor (wDB w) (channelLatestScope c) \<and>
    sync_cursor (wDB (snd (OnMessageUpdate env msg h w))) (channelLatestScope c) = sync_cursor (wDB w) (channelLatestScope c) \<and>
    sync_cursor (wDB (snd (OnMessageDelete env evt h w))) (channelLatestScope c) = sync_cursor (wDB w) (channelLatestScope c) \<and>
    sync_cursor (wDB (snd (replayTailMessages env importFallbacks payloads h guildIDs limit False w))) (channelLatestScope c)
      = sync_cursor (wDB w) (channelLatestScope c)"
proof (intro conjI)
  let ?s = "channelLatestScope c"
  have s: "?s \<noteq> ''tail:last_event''" by (simp add: channelLatestScope_def)
  show "sync_cursor (wDB (snd (OnMessageCreate env msg h w))) ?s = sync_cursor (wDB w) ?s"
    by (rule frontier_create [OF h _ s]) (rule prod.collapse [symmetric])
  show "sync_cursor (wDB (snd (OnMessageUpdate env msg h w))) ?s = sync_cursor (wDB w) ?s"
    by (rule frontier_update [OF _ s]) (rule prod.collapse [symmetric])
  show "sync_cursor (wDB (snd (OnMessageDelete env evt h w))) ?s = sync_cursor (wDB w) ?s"
    by (rule frontier_delete [OF _ s]) (rule prod.collapse [symmetric])
  have i: "importFallbacks u = (x, u') \<Longrightarrow> sync_cursor (wDB u') ?s = sync_cursor (wDB u) ?s" for u x u' using imp by (metis snd_conv)
  have same: "dbSyncState d = dbSyncState d' \<Longrightarrow> sync_cursor d ?s = sync_cursor d' ?s" for d d' by (simp add: sync_cursor_def)
  note seed = frontier_seed [OF pay, THEN same]
  have loop: "sync_cursor (wDB (snd (replay_loop env False fs st h u))) ?s = sync_cursor (wDB u) ?s" for fs st h u
    by (rule cursors_loop [THEN same]) (rule prod.collapse [symmetric])
  note list = candidates_db [THEN arg_cong [where f = dbSyncState], THEN same]
  show "sync_cursor (wDB (snd (replayTailMessages env importFallbacks payloads h guildIDs limit False w))) ?s = sync_cursor (wDB w) ?s"
    unfolding replayTailMessages_def Let_def
    by (auto simp: loop split: prod.split option.split sum.split if_split dest!: i list seed)
qed

section \<open>Sample events\<close>

definition sample_handler :: tailHandler where
  "sample_handler = \<lparr>thCfg = sample_cfg, thGuilds = [], thEmbeddings = False, thPreserveHistoryCursor = True,
     thMarshal = (\<lambda>c. ''{}''), thCatalog = []\<rparr>"

definition lost_message :: failure where
  "lost_message = \<lparr>fFailureID = 1, fRef = tailMessageFailureIdentity ''1'' ''5'' ''42'' ''create'', fErrorClass = ''error'',
     fErrorMessage = ''e'', fFirstSeenAt = 1, fLastSeenAt = 1, fRetryCount = 1, fResolvedAt = None, fResolutionReason = []\<rparr>"

definition lost_world :: world where
  "lost_world = \<lparr>wDB = empty_db\<lparr>dbFailures := [lost_message], dbNextFailureID := 2,
     dbSyncState := [(channelLatestScope ''5'', \<lparr>srCursor = ''30'', srUpdatedAt = 1\<rparr>)]\<rparr>, wTick = 0\<rparr>"

definition gone_env :: env where
  "gone_env = calm_env\<lparr>envMessage := (\<lambda>_ _ _. Inl (ErrREST 404 10008 ''Unknown Message''))\<rparr>"

lemma gone_candidate:
  "(case fst (fst (replay_candidate gone_env False lost_message sample_handler lost_world)) of Inr Unavailable \<Rightarrow> True | _ \<Rightarrow> False)"
  by code_simp

lemma sample_created:
  "fst (fst (OnMessageCreate calm_env (Some (page_message ''42'')) sample_handler lost_world)) = None"
  by code_simp

lemma sample_replayed:
  "snd (fst (ReplayTailMessageFailures gone_env ok (value_call []) sample_handler [] 25 lost_world)) = None"
  by code_simp

theorem replay_closes_for_cause_witness: "provider_gone gone_env lost_message"
proof -
  obtain oc h' w' where r: "replay_candidate gone_env False lost_message sample_handler lost_world = ((oc, h'), w')"
    by (metis prod.exhaust)
  with gone_candidate have "oc = Inr Unavailable" by (auto split: sum.splits replay_outcome.splits)
  with replay_closes_for_cause [of gone_env False lost_message sample_handler lost_world Unavailable h' w'] r show ?thesis by simp
qed

theorem replay_counts_every_candidate_witness:
  "\<exists>st w'. ReplayTailMessageFailures gone_env ok (value_call []) sample_handler [] 25 lost_world = ((st, None), w') \<and>
     rpOutOfScope st + rpUnavailable st + rpRecovered st + rpDeferred st + rpPolicyDeferred st = rpCandidates st"
proof -
  obtain st e w' where r: "ReplayTailMessageFailures gone_env ok (value_call []) sample_handler [] 25 lost_world = ((st, e), w')"
    by (metis prod.exhaust)
  with sample_replayed have "e = None" by simp
  with r replay_counts_every_candidate [of gone_env ok "value_call []" sample_handler "[]" 25 lost_world st w'] show ?thesis by simp
qed

lemma sample_admitted:
  "fst (fst (allowMessageChannel calm_env ''1'' ''5'' sample_handler lost_world)) = Inr True"
  by code_simp

theorem gateway_message_is_archived_witness:
  "\<exists>h' w'. OnMessageCreate calm_env (Some (page_message ''42'')) sample_handler lost_world = ((None, h'), w') \<and>
     \<not> pending (wDB w') (tailMessageFailureIdentity ''1'' ''5'' ''42'' ''create'')"
proof -
  let ?m = "page_message ''42''"
  have m: "gGuildID ?m = ''1''" "gChannelID ?m = ''5''" "gID ?m = ''42''" by (simp_all add: page_message_def)
  obtain r h' w' where c: "OnMessageCreate calm_env (Some ?m) sample_handler lost_world = ((r, h'), w')" by (metis prod.exhaust)
  with sample_created have c': "OnMessageCreate calm_env (Some ?m) sample_handler lost_world = ((None, h'), w')" by simp
  obtain a h1 w1 where al: "allowMessageChannel calm_env ''1'' ''5'' sample_handler lost_world = ((a, h1), w1)" by (metis prod.exhaust)
  with sample_admitted have al': "allowMessageChannel calm_env (gGuildID ?m) (gChannelID ?m) sample_handler lost_world = ((Inr True, h1), w1)"
    by (simp add: m)
  have g: "allowGuild sample_handler (gGuildID ?m)" by (simp add: allowGuild_def sample_handler_def)
  have "normalizeFailureRef (tailMessageFailureIdentity ''1'' ''5'' ''42'' ''create'') = tailMessageFailureIdentity ''1'' ''5'' ''42'' ''create''"
    by code_simp
  then have n: "normalizeFailureRef (tailMessageFailureIdentity (gGuildID ?m) (gChannelID ?m) (gID ?m) ''create'')
      = tailMessageFailureIdentity (gGuildID ?m) (gChannelID ?m) (gID ?m) ''create''" by (simp only: m)
  from gateway_message_is_archived [OF g al' c' n] c' show ?thesis by (auto simp: m)
qed

end
