(* ===== verification/MemberStore.thy ===== *)
theory MemberStore
  imports MessageEffects ChannelStore
begin

text \<open>
  The guild and member writers of the store (internal/store/write.go, member_refresh.go,
  members_profile.go, with the freshness check of entity_state.go): observations and tombstones of
  guilds and members, the merge of a member enumeration in batches, and the removal of a guild.
  Evidence rows, retained raw payloads and metrics are tables outside this model; raw payloads are
  compared by the environment.
\<close>

section \<open>Transactions that return a value\<close>

definition tx_call :: "env \<Rightarrow> 'a call \<Rightarrow> 'a call" where
  "tx_call env body w =
     (case db_side env w of
        (Some e, w1) \<Rightarrow> (Inl e, w1)
      | (None, w1) \<Rightarrow>
          (case body w1 of
             (Inl e, w2) \<Rightarrow> (Inl e, w2\<lparr>wDB := wDB w1\<rparr>)
           | (Inr x, w2) \<Rightarrow>
               (case db_exec env (\<lambda>_ _. wDB w2) (w2\<lparr>wDB := wDB w1\<rparr>) of
                  (Some e, w3) \<Rightarrow> (Inl e, w3)
                | (None, w3) \<Rightarrow> (Inr x, w3))))"

section \<open>Freshness\<close>

text \<open>
  \<open>lastObservedTx\<close> for a row given by its \<open>updated_at\<close> and its observed check; \<open>None\<close> when there
  is no row.
\<close>

definition last_seen :: "instant option \<Rightarrow> instant option \<Rightarrow> instant option" where
  "last_seen updated checked =
     map_option (\<lambda>t. case checked of None \<Rightarrow> t | Some c \<Rightarrow> if c > t then c else t) updated"

definition lastObservedRow :: "env \<Rightarrow> (db \<Rightarrow> instant option) \<Rightarrow> (db \<Rightarrow> instant option) \<Rightarrow> instant option call" where
  "lastObservedRow env updated checked =
     bindCall (db_query env updated)
       (\<lambda>u. if u = None then value_call None
            else bindCall (db_query env checked) (\<lambda>c. value_call (last_seen u c)))"

definition later_check :: "'k \<Rightarrow> instant \<Rightarrow> ('k \<times> instant) list \<Rightarrow> ('k \<times> instant) list" where
  "later_check k now checks = AList.update k (case map_of checks k of None \<Rightarrow> now | Some t \<Rightarrow> max t now) checks"

definition newer_than :: "instant option \<Rightarrow> instant \<Rightarrow> bool" where
  "newer_than seen started = (case seen of None \<Rightarrow> False | Some t \<Rightarrow> t > started)"

section \<open>Guilds\<close>

definition guild_seen :: "db \<Rightarrow> string \<Rightarrow> instant option" where
  "guild_seen d i = last_seen (map_option gdUpdatedAt (map_of (dbGuilds d) i)) (map_of (dbGuildChecks d) i)"

definition lastObservedGuildTx :: "env \<Rightarrow> string \<Rightarrow> instant option call" where
  "lastObservedGuildTx env i =
     lastObservedRow env (\<lambda>d. map_option gdUpdatedAt (map_of (dbGuilds d) i)) (\<lambda>d. map_of (dbGuildChecks d) i)"

definition recordGuildObservedTx :: "env \<Rightarrow> string \<Rightarrow> action" where
  "recordGuildObservedTx env i =
     andThen (db_side env) (db_exec env (\<lambda>now d. d\<lparr>dbGuildChecks := later_check i now (dbGuildChecks d)\<rparr>))"

text \<open>The statements \<open>UpsertGuild\<close> and \<open>MarkGuildDeleted\<close>.\<close>

definition put_guild :: "guild_record \<Rightarrow> instant \<Rightarrow> db \<Rightarrow> db" where
  "put_guild g now d =
     d\<lparr>dbGuilds := AList.update (gdID g)
        \<lparr>gdID = gdID g, gdName = gdName g, gdIcon = gdIcon g, gdRawJSON = gdRawJSON g, gdUpdatedAt = now,
         gdDeletedAt = 0, gdDeletionSource = [], gdDeletionReason = []\<rparr> (dbGuilds d)\<rparr>"

definition bury_guild :: "string \<Rightarrow> string \<Rightarrow> string \<Rightarrow> instant \<Rightarrow> db \<Rightarrow> db" where
  "bury_guild i source reason now d =
     d\<lparr>dbGuilds := AList.update i
        (case map_of (dbGuilds d) i of
           None \<Rightarrow> \<lparr>gdID = i, gdName = i, gdIcon = [], gdRawJSON = ''{}'', gdUpdatedAt = now,
                    gdDeletedAt = now, gdDeletionSource = source, gdDeletionReason = reason\<rparr>
         | Some r \<Rightarrow> r\<lparr>gdDeletedAt := now, gdDeletionSource := source, gdDeletionReason := reason, gdUpdatedAt := now\<rparr>)
        (dbGuilds d)\<rparr>"

definition guild_changed :: "env \<Rightarrow> guild_row option \<Rightarrow> guild_record \<Rightarrow> bool" where
  "guild_changed env stored g =
     (case stored of
        None \<Rightarrow> True
      | Some r \<Rightarrow> gdDeletedAt r \<noteq> 0 \<or> gdName r \<noteq> gdName g \<or> gdIcon r \<noteq> gdIcon g \<or>
          \<not> envSameEntity env ''guild'' (gdRawJSON r) (gdRawJSON g))"

definition upsertGuildTx :: "env \<Rightarrow> guild_record \<Rightarrow> instant \<Rightarrow> action" where
  "upsertGuildTx env guild started =
     andThen (db_side env)
       (withResult (db_query env (\<lambda>d. map_of (dbGuilds d) (gdID guild)))
         (\<lambda>stored. withResult (if stored \<noteq> None \<and> \<not> is_zero_time started then lastObservedGuildTx env (gdID guild) else value_call None)
           (\<lambda>seen.
              if newer_than seen started then ok
              else let g = guild\<lparr>gdRawJSON := envCanonicalEntity env ''guild''
                             (case stored of None \<Rightarrow> [] | Some r \<Rightarrow> gdRawJSON r) (gdRawJSON guild)\<rparr> in
                andThen (if guild_changed env stored g
                         then andThen (if stored \<noteq> None then db_side env else ok) (db_exec env (put_guild g)) else ok)
               (andThen (db_side env) (recordGuildObservedTx env (gdID guild))))))"

definition UpsertObservedGuild :: "env \<Rightarrow> guild_record \<Rightarrow> instant \<Rightarrow> action" where
  "UpsertObservedGuild env guild started = with_tx env (upsertGuildTx env guild started)"

definition UpsertGuild :: "env \<Rightarrow> guild_record \<Rightarrow> action" where
  "UpsertGuild env guild = UpsertObservedGuild env guild 0"

definition guild_tombstone_error :: go_error where
  "guild_tombstone_error = ErrText ''guild tombstone requires guild id, source, and reason''"

definition blank :: "string \<Rightarrow> bool" where
  "blank s \<longleftrightarrow> trim_space s = []"

definition MarkGuildDeleted :: "env \<Rightarrow> string \<Rightarrow> string \<Rightarrow> string \<Rightarrow> action" where
  "MarkGuildDeleted env guildID source reason =
     (if blank guildID \<or> blank source \<or> blank reason then fail_with guild_tombstone_error
      else db_exec env (bury_guild guildID source reason))"

definition MarkObservedGuildDeleted :: "env \<Rightarrow> string \<Rightarrow> string \<Rightarrow> string \<Rightarrow> instant \<Rightarrow> action" where
  "MarkObservedGuildDeleted env guildID source reason started =
     (if blank guildID \<or> blank source \<or> blank reason then fail_with guild_tombstone_error
      else with_tx env
        (withResult (lastObservedGuildTx env guildID)
          (\<lambda>seen. if seen = None then ok
                  else if \<not> is_zero_time started \<and> newer_than seen started then ok
                  else db_exec env (bury_guild guildID source reason))))"

section \<open>Members\<close>

definition memberKey :: "string \<Rightarrow> string \<Rightarrow> string" where
  "memberKey guildID userID = guildID @ '':'' @ userID"

definition memberFTSRowID :: "string \<Rightarrow> string \<Rightarrow> int" where
  "memberFTSRowID guildID userID =
     (let h = uint (fnv64a (memberKey guildID userID) AND mask 63) in if h = 0 then 1 else h)"

definition normalizeProviderTime :: "env \<Rightarrow> string \<Rightarrow> string" where
  "normalizeProviderTime env raw0 =
     (let raw = trim_space raw0 in
      if raw = [] then []
      else case envParseTime env raw of
        None \<Rightarrow> raw
      | Some t \<Rightarrow> if is_zero_time t then raw else envTimeText env (t - t mod 1000000))"

type_synonym member_id = "string \<times> string"

abbreviation member_id :: "'a member_record_scheme \<Rightarrow> member_id" where
  "member_id m \<equiv> (mbGuildID m, mbUserID m)"

definition member_seen :: "db \<Rightarrow> member_id \<Rightarrow> instant option" where
  "member_seen d k = last_seen (map_option mbUpdatedAt (map_of (dbMembers d) k)) (map_of (dbMemberChecks d) k)"

definition lastObservedMemberTx :: "env \<Rightarrow> member_id \<Rightarrow> instant option call" where
  "lastObservedMemberTx env k =
     lastObservedRow env (\<lambda>d. map_option mbUpdatedAt (map_of (dbMembers d) k)) (\<lambda>d. map_of (dbMemberChecks d) k)"

definition recordMemberObservedTx :: "env \<Rightarrow> member_id \<Rightarrow> action" where
  "recordMemberObservedTx env k =
     andThen (db_side env) (db_exec env (\<lambda>now d. d\<lparr>dbMemberChecks := later_check k now (dbMemberChecks d)\<rparr>))"

text \<open>The statements \<open>UpsertMember\<close> and \<open>MarkMemberDeleted\<close>, and the search row of a member.\<close>

definition upsertMemberParams :: "member_record \<Rightarrow> instant \<Rightarrow> member_row" where
  "upsertMemberParams m now =
     \<lparr>mbGuildID = mbGuildID m, mbUserID = mbUserID m, mbUsername = mbUsername m, mbGlobalName = mbGlobalName m,
      mbDisplayName = mbDisplayName m, mbNick = mbNick m, mbDiscriminator = mbDiscriminator m, mbAvatar = mbAvatar m,
      mbBot = mbBot m, mbJoinedAt = mbJoinedAt m, mbRoleIDsJSON = mbRoleIDsJSON m, mbRawJSON = mbRawJSON m,
      mbUpdatedAt = now, mbDeletedAt = 0, mbDeletionSource = [], mbDeletionReason = []\<rparr>"

definition put_member :: "member_record \<Rightarrow> instant \<Rightarrow> db \<Rightarrow> db" where
  "put_member m now d = d\<lparr>dbMembers := AList.update (member_id m) (upsertMemberParams m now) (dbMembers d)\<rparr>"

definition bury_member :: "member_id \<Rightarrow> string \<Rightarrow> string \<Rightarrow> instant \<Rightarrow> db \<Rightarrow> db" where
  "bury_member k source reason now d =
     d\<lparr>dbMembers := AList.update k
        (case map_of (dbMembers d) k of
           None \<Rightarrow> \<lparr>mbGuildID = fst k, mbUserID = snd k, mbUsername = snd k, mbGlobalName = [], mbDisplayName = [],
                    mbNick = [], mbDiscriminator = [], mbAvatar = [], mbBot = False, mbJoinedAt = [],
                    mbRoleIDsJSON = ''[]'', mbRawJSON = ''{}'', mbUpdatedAt = now, mbDeletedAt = now,
                    mbDeletionSource = source, mbDeletionReason = reason\<rparr>
         | Some r \<Rightarrow> r\<lparr>mbDeletedAt := now, mbDeletionSource := source, mbDeletionReason := reason, mbUpdatedAt := now\<rparr>)
        (dbMembers d)\<rparr>"

definition drop_member_fts :: "member_id \<Rightarrow> db \<Rightarrow> db" where
  "drop_member_fts k d = d\<lparr>dbMemberFTS := AList.delete (memberFTSRowID (fst k) (snd k)) (dbMemberFTS d)\<rparr>"

definition first_nonempty :: "string list \<Rightarrow> string" where
  "first_nonempty ss = (case filter (\<lambda>s. s \<noteq> []) ss of [] \<Rightarrow> [] | s # _ \<Rightarrow> s)"

definition member_fts :: "env \<Rightarrow> 'a member_record_scheme \<Rightarrow> member_fts_row" where
  "member_fts env m =
     \<lparr>mfMemberKey = memberKey (mbGuildID m) (mbUserID m), mfGuildID = mbGuildID m, mfUserID = mbUserID m,
      mfUsername = mbUsername m, mfDisplayName = first_nonempty [mbDisplayName m, mbNick m, mbGlobalName m, mbUsername m],
      mfProfileText = envProfileText env (mbRawJSON m)\<rparr>"

definition upsertMemberFTSTx :: "env \<Rightarrow> member_record \<Rightarrow> action" where
  "upsertMemberFTSTx env m =
     andThen (db_exec env (\<lambda>_. drop_member_fts (member_id m)))
       (db_exec env (\<lambda>_ d. d\<lparr>dbMemberFTS :=
          AList.update (memberFTSRowID (mbGuildID m) (mbUserID m)) (member_fts env m) (dbMemberFTS d)\<rparr>))"

definition prepared_member :: "env \<Rightarrow> member_row option \<Rightarrow> member_record \<Rightarrow> member_record" where
  "prepared_member env stored m =
     m\<lparr>mbJoinedAt := normalizeProviderTime env (mbJoinedAt m),
       mbRawJSON := envCanonicalEntity env ''member'' (case stored of None \<Rightarrow> [] | Some r \<Rightarrow> mbRawJSON r) (mbRawJSON m)\<rparr>"

definition member_changed :: "env \<Rightarrow> member_row option \<Rightarrow> member_record \<Rightarrow> bool" where
  "member_changed env stored m =
     (case stored of
        None \<Rightarrow> True
      | Some r \<Rightarrow> mbDeletedAt r \<noteq> 0 \<or> mbUsername r \<noteq> mbUsername m \<or> mbGlobalName r \<noteq> mbGlobalName m \<or>
          mbDisplayName r \<noteq> mbDisplayName m \<or> mbNick r \<noteq> mbNick m \<or> mbDiscriminator r \<noteq> mbDiscriminator m \<or>
          mbAvatar r \<noteq> mbAvatar m \<or> mbBot r \<noteq> mbBot m \<or> normalizeProviderTime env (mbJoinedAt r) \<noteq> mbJoinedAt m \<or>
          mbRoleIDsJSON r \<noteq> mbRoleIDsJSON m \<or> \<not> envSameEntity env ''member'' (mbRawJSON r) (mbRawJSON m))"

definition write_member :: "env \<Rightarrow> member_row option \<Rightarrow> member_record \<Rightarrow> action" where
  "write_member env stored m =
     andThen (if stored \<noteq> None then db_side env else ok)
    (andThen (db_exec env (put_member m)) (upsertMemberFTSTx env m))"

definition upsertMemberTx :: "env \<Rightarrow> member_record \<Rightarrow> bool call" where
  "upsertMemberTx env member =
     doThen (db_side env)
       (bindCall (db_query env (\<lambda>d. map_of (dbMembers d) (member_id member)))
         (\<lambda>stored. let m = prepared_member env stored member; changed = member_changed env stored m in
            doThen (if changed then write_member env stored m else ok)
           (doThen (recordMemberObservedTx env (member_id m)) (value_call changed))))"

definition discard :: "'a call \<Rightarrow> action" where
  "discard c = withResult c (\<lambda>_. ok)"

definition UpsertObservedMember :: "env \<Rightarrow> member_record \<Rightarrow> instant \<Rightarrow> action" where
  "UpsertObservedMember env member started =
     with_tx env
       (withResult (if is_zero_time started then value_call None else lastObservedMemberTx env (member_id member))
         (\<lambda>seen. if newer_than seen started then db_side env else discard (upsertMemberTx env member)))"

definition UpsertMember :: "env \<Rightarrow> member_record \<Rightarrow> action" where
  "UpsertMember env member = UpsertObservedMember env member 0"

definition MarkObservedMemberDeleted :: "env \<Rightarrow> string \<Rightarrow> string \<Rightarrow> string \<Rightarrow> string \<Rightarrow> instant \<Rightarrow> action" where
  "MarkObservedMemberDeleted env guildID userID source reason observed =
     (if blank guildID \<or> blank userID \<or> blank source \<or> blank reason
      then fail_with (ErrText ''member tombstone requires guild id, user id, source, and reason'')
      else with_tx env
        (withResult (if is_zero_time observed then value_call None else lastObservedMemberTx env (guildID, userID))
          (\<lambda>seen. if newer_than seen observed then ok
             else andThen (db_exec env (bury_member (guildID, userID) source reason))
                    (db_exec env (\<lambda>_. drop_member_fts (guildID, userID))))))"

definition MarkMemberDeleted :: "env \<Rightarrow> string \<Rightarrow> string \<Rightarrow> string \<Rightarrow> string \<Rightarrow> action" where
  "MarkMemberDeleted env guildID userID source reason = MarkObservedMemberDeleted env guildID userID source reason 0"

section \<open>The merge of an enumeration\<close>

record MemberRefreshMerge =
  mmApplied :: nat
  mmNewerSkipped :: nat

definition memberRefreshBatchSize :: nat where
  "memberRefreshBatchSize = 256"

fun validate_members :: "string \<Rightarrow> strset \<Rightarrow> member_record list \<Rightarrow> go_error option" where
  "validate_members guildID seen [] = None"
| "validate_members guildID seen (m # ms) =
     (if mbGuildID m \<noteq> guildID \<or> mbUserID m = [] then Some (ErrText ''member refresh has invalid member scope or identity'')
      else if mbUserID m \<in> set seen then Some (ErrText ''member refresh has duplicate member identity'')
      else validate_members guildID (mbUserID m # seen) ms)"

definition wrap_error :: "string \<Rightarrow> 'a call \<Rightarrow> 'a call" where
  "wrap_error prefix c w = (case c w of (Inl e, w1) \<Rightarrow> (Inl (ErrWrap prefix e []), w1) | (Inr x, w1) \<Rightarrow> (Inr x, w1))"

definition merge_member :: "env \<Rightarrow> instant \<Rightarrow> member_record \<Rightarrow> MemberRefreshMerge \<Rightarrow> MemberRefreshMerge call" where
  "merge_member env started m res =
     bindCall (lastObservedMemberTx env (member_id m))
       (\<lambda>seen. if newer_than seen started
          then doThen (db_side env) (value_call (res\<lparr>mmNewerSkipped := Suc (mmNewerSkipped res)\<rparr>))
          else bindCall (wrap_error ''merge observed member: '' (upsertMemberTx env m))
                 (\<lambda>_. value_call (res\<lparr>mmApplied := Suc (mmApplied res)\<rparr>)))"

fun merge_members :: "env \<Rightarrow> instant \<Rightarrow> member_record list \<Rightarrow> MemberRefreshMerge \<Rightarrow> MemberRefreshMerge call" where
  "merge_members env started [] res w = (Inr res, w)"
| "merge_members env started (m # ms) res w =
     (case merge_member env started m res w of
        (Inl e, w1) \<Rightarrow> (Inl e, w1) | (Inr res1, w1) \<Rightarrow> merge_members env started ms res1 w1)"

definition mergeObservedMemberBatch :: "env \<Rightarrow> member_record list \<Rightarrow> instant \<Rightarrow> MemberRefreshMerge call" where
  "mergeObservedMemberBatch env members started =
     tx_call env (merge_members env started members \<lparr>mmApplied = 0, mmNewerSkipped = 0\<rparr>)"

function merge_batches :: "env \<Rightarrow> instant \<Rightarrow> member_record list \<Rightarrow> MemberRefreshMerge \<Rightarrow> world \<Rightarrow>
    (MemberRefreshMerge \<times> go_error option) \<times> world" where
  "merge_batches env started members res w =
     (if members = [] then ((res, None), w)
      else case mergeObservedMemberBatch env (take memberRefreshBatchSize members) started w of
        (Inl e, w1) \<Rightarrow> ((res, Some e), w1)
      | (Inr one, w1) \<Rightarrow>
          merge_batches env started (drop memberRefreshBatchSize members)
            (res\<lparr>mmApplied := mmApplied res + mmApplied one, mmNewerSkipped := mmNewerSkipped res + mmNewerSkipped one\<rparr>) w1)"
  by pat_completeness auto
termination
  by (relation "measure (\<lambda>(_, _, ms, _, _). length ms)") (auto simp: memberRefreshBatchSize_def)

declare merge_batches.simps [simp del]

definition MergeObservedMembers :: "env \<Rightarrow> string \<Rightarrow> member_record list \<Rightarrow> instant \<Rightarrow> world \<Rightarrow>
    (MemberRefreshMerge \<times> go_error option) \<times> world" where
  "MergeObservedMembers env guildID members started w =
     (let none = \<lparr>mmApplied = 0, mmNewerSkipped = 0\<rparr> in
      if guildID = [] \<or> is_zero_time started
      then ((none, Some (ErrText ''member refresh requires guild and observation start'')), w)
      else case validate_members guildID [] members of
        Some e \<Rightarrow> ((none, Some e), w)
      | None \<Rightarrow>
          (case merge_batches env started members none w of
             ((res, Some e), w1) \<Rightarrow> ((res, Some e), w1)
           | ((res, None), w1) \<Rightarrow> ((res, envCtx env (wTick w1)), w1)))"

section \<open>Removal of a guild\<close>

definition guild_messages :: "db \<Rightarrow> string \<Rightarrow> string set" where
  "guild_messages d g = fst ` set (filter (\<lambda>(i, r). mrGuildID r = g) (dbMessages d))"

definition DeleteGuildData :: "env \<Rightarrow> string \<Rightarrow> action" where
  "DeleteGuildData env g = with_tx env
     (andThen (db_exec env (\<lambda>_ d. d\<lparr>dbJobs := filter (\<lambda>(i, _). i \<notin> guild_messages d g) (dbJobs d)\<rparr>))
     (andThen (db_exec env (\<lambda>_ d. d\<lparr>dbEmbeddings := filter (\<lambda>v. evMessageID v \<notin> guild_messages d g) (dbEmbeddings d)\<rparr>))
     (andThen (db_exec env (\<lambda>_ d. d\<lparr>dbFTS := filter (\<lambda>(_, r). ftGuildID r \<noteq> g) (dbFTS d)\<rparr>))
     (andThen (db_side env)
     (andThen (db_exec env (\<lambda>_ d. d\<lparr>dbEvents := filter (\<lambda>r. meGuildID r \<noteq> g) (dbEvents d)\<rparr>))
     (andThen (db_side env)
     (andThen (db_side env)
     (andThen (db_exec env (\<lambda>_ d. d\<lparr>dbMessages := filter (\<lambda>(_, r). mrGuildID r \<noteq> g) (dbMessages d)\<rparr>))
     (andThen (db_exec env (\<lambda>_ d. d\<lparr>dbMemberFTS := filter (\<lambda>(_, r). mfGuildID r \<noteq> g) (dbMemberFTS d)\<rparr>))
     (andThen (db_exec env (\<lambda>_ d. d\<lparr>dbMembers := filter (\<lambda>(k, _). fst k \<noteq> g) (dbMembers d)\<rparr>))
     (andThen (db_exec env (\<lambda>_ d. d\<lparr>dbChannels := filter (\<lambda>r. crGuildID r \<noteq> g) (dbChannels d)\<rparr>))
       (db_exec env (\<lambda>_ d. d\<lparr>dbGuilds := filter (\<lambda>(i, _). i \<noteq> g) (dbGuilds d)\<rparr>)))))))))))))"

definition DeleteOrphanChannels :: "env \<Rightarrow> string \<Rightarrow> action" where
  "DeleteOrphanChannels env g =
     db_exec env (\<lambda>_ d. d\<lparr>dbChannels :=
       filter (\<lambda>c. \<not> (crGuildID c = g \<and> crID c \<notin> mrChannelID ` snd ` set (dbMessages d))) (dbChannels d)\<rparr>)"

section \<open>Transactions and freshness\<close>

lemma tx_call_db:
  "wDB (snd (tx_call env body w)) = wDB w \<or>
   (\<exists>w1 x w2. wDB w1 = wDB w \<and> body w1 = (Inr x, w2) \<and> wDB (snd (tx_call env body w)) = wDB w2)"
proof -
  obtain r w1 where a: "db_side env w = (r, w1)" by force
  have w1: "wDB w1 = wDB w" by (rule side_db [OF a])
  obtain b w2 where b: "body w1 = (b, w2)" by force
  have "wDB (snd (db_exec env (\<lambda>_ _. wDB w2) (w2\<lparr>wDB := wDB w1\<rparr>))) \<in> {wDB w1, wDB w2}"
    using db_exec_db [of env "\<lambda>_ _. wDB w2" "w2\<lparr>wDB := wDB w1\<rparr>"] by auto
  with a b w1 show ?thesis
    by (cases r; cases b) (auto simp: tx_call_def split: prod.splits option.splits)
qed

lemma tx_call_Inr:
  assumes "tx_call env body w = (Inr x, w')"
  shows "\<exists>w1 w2. wDB w1 = wDB w \<and> body w1 = (Inr x, w2) \<and> wDB w' = wDB w2"
proof -
  from assms obtain w1 w2 where a: "db_side env w = (None, w1)" and b: "body w1 = (Inr x, w2)"
    and c: "db_exec env (\<lambda>_ _. wDB w2) (w2\<lparr>wDB := wDB w1\<rparr>) = (None, w')"
    by (auto simp: tx_call_def split: prod.splits option.splits sum.splits)
  from side_db [OF a] b db_exec_None [OF c] show ?thesis by blast
qed

lemma keeps_tx_call [keeps_intros]: "keeps P body \<Longrightarrow> keeps P (tx_call env body)"
  unfolding keeps_def using tx_call_db by (metis snd_conv)

lemma keeps_wrap [keeps_intros]: "keeps P c \<Longrightarrow> keeps P (wrap_error p c)"
  unfolding keeps_def wrap_error_def by (auto split: prod.split sum.split)

lemma keeps_lastObserved [keeps_intros]: "keeps P (lastObservedRow env u c)"
  unfolding lastObservedRow_def by (intro keeps_intros)

lemma keeps_lastMember [keeps_intros]: "keeps P (lastObservedMemberTx env k)"
  unfolding lastObservedMemberTx_def by (rule keeps_lastObserved)

lemma lastObservedRow_db: "lastObservedRow env u c w = (r, w') \<Longrightarrow> wDB w' = wDB w"
  by (auto simp: lastObservedRow_def bindCall_def value_call_def split: prod.splits sum.splits if_splits
      dest!: db_query_Inr db_query_Inl)

lemma lastObservedRow_Inr: "lastObservedRow env u c w = (Inr x, w') \<Longrightarrow> x = last_seen (u (wDB w)) (c (wDB w))"
  by (auto simp: lastObservedRow_def last_seen_def value_call_def split: if_splits dest!: bindCall_Inr db_query_Inr)

lemma lastObservedMember_Inr:
  "lastObservedMemberTx env k w = (Inr x, w') \<Longrightarrow> x = member_seen (wDB w) k \<and> wDB w' = wDB w"
  unfolding lastObservedMemberTx_def member_seen_def by (auto dest: lastObservedRow_Inr lastObservedRow_db)

lemma lastObservedMember_db: "lastObservedMemberTx env k w = (r, w') \<Longrightarrow> wDB w' = wDB w"
  unfolding lastObservedMemberTx_def by (rule lastObservedRow_db)

section \<open>What a write touches\<close>

text \<open>The row of a member and its observed check.\<close>

definition member_state :: "db \<Rightarrow> member_id \<Rightarrow> member_row option \<times> instant option" where
  "member_state d k = (map_of (dbMembers d) k, map_of (dbMemberChecks d) k)"

lemma member_seen_state: "member_seen d k = last_seen (map_option mbUpdatedAt (fst (member_state d k))) (snd (member_state d k))"
  by (simp add: member_seen_def member_state_def)

lemma later_check_other [simp]: "k \<noteq> k' \<Longrightarrow> map_of (later_check k' now xs) k = map_of xs k"
  by (simp add: later_check_def update_conv')

lemma state_put_other: "k \<noteq> member_id m \<Longrightarrow> member_state (put_member m now d) k = member_state d k"
  by (simp add: member_state_def put_member_def update_conv')

lemma state_fts [simp]: "member_state (d\<lparr>dbMemberFTS := x\<rparr>) k = member_state d k"
  by (simp add: member_state_def)

lemma prepared_member_simps [simp]:
  "mbGuildID (prepared_member env st m) = mbGuildID m" "mbUserID (prepared_member env st m) = mbUserID m"
  by (simp_all add: prepared_member_def)

lemma upsert_other:
  assumes "k \<noteq> member_id m"
  shows "keeps (\<lambda>d. member_state d k = s) (upsertMemberTx env m)"
proof -
  have c: "keeps (\<lambda>d. member_state d k = s) (recordMemberObservedTx env (member_id m))"
    unfolding recordMemberObservedTx_def using assms
    by (intro keeps_intros) (simp add: member_state_def)
  have p: "keeps (\<lambda>d. member_state d k = s) (db_exec env (put_member (prepared_member env st m)))" for st
    using assms by (intro keeps_intros) (subst state_put_other, simp_all)
  have f: "keeps (\<lambda>d. member_state d k = s) (upsertMemberFTSTx env x)" for x
    unfolding upsertMemberFTSTx_def drop_member_fts_def by (intro keeps_intros) simp_all
  show ?thesis unfolding upsertMemberTx_def Let_def write_member_def prepared_member_simps
    by (intro keeps_intros c p f)
qed

text \<open>A member that the archive knows from later than the start of the enumeration is left alone.\<close>

lemma merge_member_protected:
  assumes "k \<noteq> member_id m \<or> newer_than (last_seen (map_option mbUpdatedAt (fst s)) (snd s)) started"
  shows "keeps (\<lambda>d. member_state d k = s) (merge_member env started m res)"
proof (cases "k = member_id m")
  case False
  then show ?thesis unfolding merge_member_def lastObservedMemberTx_def by (intro keeps_intros upsert_other)
next
  case True
  show ?thesis unfolding keeps_def
  proof (intro allI impI)
    fix w :: world
    assume s: "member_state (wDB w) k = s"
    obtain r w1 where l: "lastObservedMemberTx env k w = (r, w1)" by force
    have w1: "wDB w1 = wDB w" by (rule lastObservedMember_db [OF l])
    show "member_state (wDB (snd (merge_member env started m res w))) k = s"
    proof (cases r)
      case (Inl e)
      with l True w1 s show ?thesis by (simp add: merge_member_def bindCall_def)
    next
      case (Inr x)
      with l have "x = member_seen (wDB w) k" using lastObservedMember_Inr by blast
      then have n: "newer_than x started" using assms True s by (simp add: member_seen_state)
      have "member_state (wDB (snd (doThen (db_side env) (value_call y) w1))) k = s" for y
        by (rule keepsD [where P = "\<lambda>d. member_state d k = s"]) (intro keeps_intros, simp add: w1 s)
      with l True Inr n show ?thesis by (simp add: merge_member_def bindCall_def)
    qed
  qed
qed

lemma merge_members_protected:
  assumes "k \<notin> member_id ` set ms \<or> newer_than (last_seen (map_option mbUpdatedAt (fst s)) (snd s)) started"
  shows "keeps (\<lambda>d. member_state d k = s) (merge_members env started ms res)"
  using assms
proof (induction ms arbitrary: res)
  case Nil
  show ?case by (simp add: keeps_def)
next
  case (Cons m ms)
  have m: "keeps (\<lambda>d. member_state d k = s) (merge_member env started m res)" for res
    using Cons.prems by (intro merge_member_protected) auto
  have ms: "keeps (\<lambda>d. member_state d k = s) (merge_members env started ms res)" for res
    using Cons by auto
  show ?case unfolding keeps_def
  proof (intro allI impI)
    fix w :: world
    assume s: "member_state (wDB w) k = s"
    obtain r w1 where r: "merge_member env started m res w = (r, w1)" by force
    with keepsD [OF m s] have s1: "member_state (wDB w1) k = s" by (metis snd_conv)
    show "member_state (wDB (snd (merge_members env started (m # ms) res w))) k = s"
    proof (cases r)
      case (Inr res1)
      with r keepsD [OF ms s1, of res1] show ?thesis by simp
    qed (use r s1 in simp)
  qed
qed

lemma merge_batches_protected:
  assumes "k \<notin> member_id ` set ms \<or> newer_than (last_seen (map_option mbUpdatedAt (fst s)) (snd s)) started"
    and "member_state (wDB w) k = s"
  shows "member_state (wDB (snd (merge_batches env started ms res w))) k = s"
  using assms
proof (induction env started ms res w rule: merge_batches.induct)
  case (1 env started ms res w)
  have b: "keeps (\<lambda>d. member_state d k = s) (mergeObservedMemberBatch env (take memberRefreshBatchSize ms) started)"
    unfolding mergeObservedMemberBatch_def using "1.prems"(1)
    by (intro keeps_tx_call merge_members_protected) (meson image_mono in_set_takeD subsetD subsetI)
  obtain r w1 where r: "mergeObservedMemberBatch env (take memberRefreshBatchSize ms) started w = (r, w1)" by force
  have w1: "member_state (wDB w1) k = s" using keepsD [OF b "1.prems"(2)] r by simp
  have d: "k \<notin> member_id ` set (drop memberRefreshBatchSize ms) \<or> newer_than (last_seen (map_option mbUpdatedAt (fst s)) (snd s)) started"
    using "1.prems"(1) by (meson image_mono set_drop_subset subsetD)
  show ?case
  proof (cases "ms = []")
    case True
    with "1.prems" show ?thesis by (simp add: merge_batches.simps)
  next
    case False
    show ?thesis
    proof (cases r)
      case (Inl e)
      with False r w1 show ?thesis by (subst merge_batches.simps) simp
    next
      case (Inr one)
      with "1.IH" [OF False r [symmetric, unfolded Inr] _ d w1] False r show ?thesis
        by (subst merge_batches.simps) simp
    qed
  qed
qed

text \<open>The merge of one enumeration keeps what is newer and what it does not list.\<close>

lemma merge_protected:
  assumes "k \<notin> member_id ` set ms \<or> newer_than (member_seen (wDB w) k) started"
  shows "member_state (wDB (snd (MergeObservedMembers env guildID ms started w))) k = member_state (wDB w) k"
proof -
  have "member_state (wDB (snd (merge_batches env started ms res w))) k = member_state (wDB w) k" for res
    using assms by (intro merge_batches_protected) (auto simp: member_seen_state)
  then have "merge_batches env started ms res w = (r, w1) \<Longrightarrow> member_state (wDB w1) k = member_state (wDB w) k" for res r w1
    by (metis snd_conv)
  then show ?thesis
    by (auto simp: MergeObservedMembers_def Let_def split: option.split prod.split)
qed

section \<open>What the merge stores\<close>

text \<open>A live row with the columns of an observation.\<close>

definition member_stored :: "env \<Rightarrow> member_record \<Rightarrow> member_row \<Rightarrow> bool" where
  "member_stored env m r \<longleftrightarrow> mbDeletedAt r = 0 \<and> mbUsername r = mbUsername m \<and> mbGlobalName r = mbGlobalName m \<and>
     mbDisplayName r = mbDisplayName m \<and> mbNick r = mbNick m \<and> mbDiscriminator r = mbDiscriminator m \<and>
     mbAvatar r = mbAvatar m \<and> mbBot r = mbBot m \<and> mbRoleIDsJSON r = mbRoleIDsJSON m"

lemma unchanged_stored: "\<not> member_changed env (Some r) (prepared_member env st m) \<Longrightarrow> member_stored env m r"
  by (simp add: member_changed_def member_stored_def prepared_member_def)

lemma written_stored: "member_stored env m (upsertMemberParams (prepared_member env st m) now)"
  by (simp add: member_stored_def upsertMemberParams_def prepared_member_def)

lemma doThenE:
  assumes "doThen a c w = (Inr x, w')" obtains w1 where "a w = (None, w1)" "c w1 = (Inr x, w')"
  using doThen_Inr [OF assms] by blast

lemma bindCallE:
  assumes "bindCall c k w = (Inr y, w')" obtains x w1 where "c w = (Inr x, w1)" "k x w1 = (Inr y, w')"
  using bindCall_Inr [OF assms] by blast

lemma observed_members: "recordMemberObservedTx env k w = (None, w') \<Longrightarrow> dbMembers (wDB w') = dbMembers (wDB w)"
  by (auto simp: recordMemberObservedTx_def dest!: andThen_None db_exec_None side_db)

lemma write_member_effect:
  assumes "write_member env st m w = (None, w')"
  shows "\<exists>now. map_of (dbMembers (wDB w')) (member_id m) = Some (upsertMemberParams m now)"
proof -
  from assms obtain u1 u2 u3 where a: "(if st \<noteq> None then db_side env else ok) w = (None, u1)"
    and p: "db_exec env (put_member m) u1 = (None, u2)"
    and f: "db_exec env (\<lambda>_. drop_member_fts (member_id m)) u2 = (None, u3)"
    and g: "db_exec env (\<lambda>_ d. d\<lparr>dbMemberFTS :=
          AList.update (memberFTSRowID (mbGuildID m) (mbUserID m)) (member_fts env m) (dbMemberFTS d)\<rparr>) u3 = (None, w')"
    unfolding write_member_def upsertMemberFTSTx_def by (elim andThenE) (rule that)
  from db_exec_None [OF p] db_exec_None [OF f] db_exec_None [OF g] show ?thesis
    by (auto simp: put_member_def drop_member_fts_def update_conv')
qed

lemma upsert_stores:
  assumes "upsertMemberTx env m w = (Inr b, w')"
  shows "\<exists>r. map_of (dbMembers (wDB w')) (member_id m) = Some r \<and> member_stored env m r"
proof -
  from assms obtain u1 st u2 u3 u4 where a: "db_side env w = (None, u1)"
    and q: "db_query env (\<lambda>d. map_of (dbMembers d) (member_id m)) u1 = (Inr st, u2)"
    and c: "(if member_changed env st (prepared_member env st m) then write_member env st (prepared_member env st m) else ok) u2 = (None, u3)"
    and o: "recordMemberObservedTx env (member_id (prepared_member env st m)) u3 = (None, u4)"
    and v: "value_call (member_changed env st (prepared_member env st m)) u4 = (Inr b, w')"
    unfolding upsertMemberTx_def Let_def by (elim doThenE bindCallE) (rule that)
  have w': "dbMembers (wDB w') = dbMembers (wDB u3)" using v observed_members [OF o] by (simp add: value_call_def)
  show ?thesis
  proof (cases "member_changed env st (prepared_member env st m)")
    case True
    with c write_member_effect [of env st "prepared_member env st m" u2 u3] w' written_stored show ?thesis
      by (simp split del: if_split) blast
  next
    case False
    then obtain r where r: "st = Some r" by (cases st) (auto simp: member_changed_def)
    have "map_of (dbMembers (wDB w')) (member_id m) = Some r"
      using False c w' db_query_Inr [OF q] r by (simp add: ok_def)
    with False r unchanged_stored show ?thesis by blast
  qed
qed

text \<open>After a member was merged: the stored row is the listed one, or the newer one that was there.\<close>

definition merged_row :: "env \<Rightarrow> instant \<Rightarrow> db \<Rightarrow> db \<Rightarrow> member_record \<Rightarrow> bool" where
  "merged_row env started d d' m \<longleftrightarrow>
     (\<exists>r. map_of (dbMembers d') (member_id m) = Some r \<and>
        (member_stored env m r \<or> newer_than (member_seen d (member_id m)) started \<and> map_of (dbMembers d) (member_id m) = Some r))"

lemma seen_has_row: "newer_than (member_seen d k) started \<Longrightarrow> \<exists>r. map_of (dbMembers d) k = Some r"
  by (cases "map_of (dbMembers d) k") (auto simp: member_seen_def last_seen_def newer_than_def)

lemma wrap_error_Inr: "wrap_error p c w = (Inr x, w') \<Longrightarrow> c w = (Inr x, w')"
  by (auto simp: wrap_error_def split: prod.splits sum.splits)

lemma merge_member_effect:
  assumes "merge_member env started m res w = (Inr res', w')"
  shows "merged_row env started (wDB w) (wDB w') m \<and>
    mmApplied res' + mmNewerSkipped res' = Suc (mmApplied res + mmNewerSkipped res)"
proof -
  from assms obtain seen w1 where l: "lastObservedMemberTx env (member_id m) w = (Inr seen, w1)"
    and k: "(if newer_than seen started
          then doThen (db_side env) (value_call (res\<lparr>mmNewerSkipped := Suc (mmNewerSkipped res)\<rparr>))
          else bindCall (wrap_error ''merge observed member: '' (upsertMemberTx env m))
                 (\<lambda>_. value_call (res\<lparr>mmApplied := Suc (mmApplied res)\<rparr>))) w1 = (Inr res', w')"
    unfolding merge_member_def by (elim bindCallE) (rule that)
  note L = lastObservedMember_Inr [OF l]
  show ?thesis
  proof (cases "newer_than seen started")
    case True
    with k L have "wDB w' = wDB w" "res' = res\<lparr>mmNewerSkipped := Suc (mmNewerSkipped res)\<rparr>"
      by (auto simp: value_call_def dest!: doThen_Inr side_db)
    with True L seen_has_row [of "wDB w" "member_id m" started] show ?thesis by (auto simp: merged_row_def)
  next
    case False
    with k obtain b w2 where "wrap_error ''merge observed member: '' (upsertMemberTx env m) w1 = (Inr b, w2)"
      "value_call (res\<lparr>mmApplied := Suc (mmApplied res)\<rparr>) w2 = (Inr res', w')" by (auto elim!: bindCallE)
    with upsert_stores [OF wrap_error_Inr] show ?thesis by (fastforce simp: merged_row_def value_call_def)
  qed
qed

lemma merged_row_cong:
  assumes "member_state d (member_id m) = member_state e (member_id m)" "member_state d' (member_id m) = member_state e' (member_id m)"
  shows "merged_row env started d d' m \<longleftrightarrow> merged_row env started e e' m"
  using assms by (simp add: merged_row_def member_seen_state) (simp add: member_state_def)

lemma merge_member_other:
  assumes "merge_member env started m res w = (r, w')" "k \<noteq> member_id m"
  shows "member_state (wDB w') k = member_state (wDB w) k"
  using keepsD [OF merge_member_protected [of k m "member_state (wDB w) k" started env res], of w] assms by simp

lemma merge_members_other:
  assumes "merge_members env started ms res w = (r, w')" "k \<notin> member_id ` set ms"
  shows "member_state (wDB w') k = member_state (wDB w) k"
  using keepsD [OF merge_members_protected [of k ms "member_state (wDB w) k" started env res], of w] assms by simp

lemma merge_members_effect:
  assumes "merge_members env started ms res w = (Inr res', w')" "distinct (map member_id ms)"
  shows "(\<forall>m \<in> set ms. merged_row env started (wDB w) (wDB w') m) \<and>
    mmApplied res' + mmNewerSkipped res' = mmApplied res + mmNewerSkipped res + length ms"
  using assms
proof (induction ms arbitrary: res w)
  case Nil
  then show ?case by simp
next
  case (Cons m ms)
  from Cons.prems obtain res1 w1 where m: "merge_member env started m res w = (Inr res1, w1)"
    and ms: "merge_members env started ms res1 w1 = (Inr res', w')" by (auto split: prod.splits sum.splits)
  have IH: "\<forall>x \<in> set ms. merged_row env started (wDB w1) (wDB w') x"
    "mmApplied res' + mmNewerSkipped res' = mmApplied res1 + mmNewerSkipped res1 + length ms"
    using Cons.IH [OF ms] Cons.prems(2) by auto
  note M = merge_member_effect [OF m]
  have new: "member_id m \<notin> member_id ` set ms" using Cons.prems(2) by simp
  from merge_members_other [OF ms new] M have "merged_row env started (wDB w) (wDB w') m"
    using merged_row_cong [of "wDB w" m "wDB w" "wDB w'" "wDB w1"] by simp
  moreover have "merged_row env started (wDB w) (wDB w') x" if "x \<in> set ms" for x
  proof -
    have "member_id x \<in> member_id ` set ms" using that by (rule imageI)
    with new have "member_id x \<noteq> member_id m" by (intro notI) simp
    from merge_member_other [OF m this] IH(1) that show ?thesis
      using merged_row_cong [of "wDB w" x "wDB w1" "wDB w'" "wDB w'"] by simp
  qed
  ultimately show ?case using M IH(2) by auto
qed

lemma batch_effect:
  assumes "mergeObservedMemberBatch env ms started w = (Inr one, w')" "distinct (map member_id ms)"
  shows "(\<forall>m \<in> set ms. merged_row env started (wDB w) (wDB w') m) \<and> mmApplied one + mmNewerSkipped one = length ms \<and>
    (\<forall>k. k \<notin> member_id ` set ms \<longrightarrow> member_state (wDB w') k = member_state (wDB w) k)"
proof -
  from tx_call_Inr [OF assms(1) [unfolded mergeObservedMemberBatch_def]] obtain w1 w2 where
    w: "wDB w1 = wDB w" "wDB w' = wDB w2"
    and b: "merge_members env started ms \<lparr>mmApplied = 0, mmNewerSkipped = 0\<rparr> w1 = (Inr one, w2)" by blast
  from merge_members_effect [OF b assms(2)] merge_members_other [OF b] w show ?thesis by simp
qed

lemma merge_batches_effect:
  assumes "merge_batches env started ms res w = ((res', None), w')" "distinct (map member_id ms)"
  shows "(\<forall>m \<in> set ms. merged_row env started (wDB w) (wDB w') m) \<and>
    mmApplied res' + mmNewerSkipped res' = mmApplied res + mmNewerSkipped res + length ms \<and>
    (\<forall>k. k \<notin> member_id ` set ms \<longrightarrow> member_state (wDB w') k = member_state (wDB w) k)"
  using assms
proof (induction env started ms res w rule: merge_batches.induct)
  case (1 env started ms res w)
  show ?case
  proof (cases "ms = []")
    case True
    with "1.prems" show ?thesis by (simp add: merge_batches.simps)
  next
    case False
    let ?a = "take memberRefreshBatchSize ms" and ?b = "drop memberRefreshBatchSize ms"
    from "1.prems"(1) False obtain one w1 where a: "mergeObservedMemberBatch env ?a started w = (Inr one, w1)"
      and b: "merge_batches env started ?b (res\<lparr>mmApplied := mmApplied res + mmApplied one,
        mmNewerSkipped := mmNewerSkipped res + mmNewerSkipped one\<rparr>) w1 = ((res', None), w')"
      by (subst (asm) merge_batches.simps) (auto split: prod.splits sum.splits)
    have split: "ms = ?a @ ?b" by simp
    have "distinct (map member_id (?a @ ?b))" using "1.prems"(2) by simp
    then have d: "distinct (map member_id ?a)" "distinct (map member_id ?b)"
      and dj: "member_id ` set ?a \<inter> member_id ` set ?b = {}" by (simp_all only: map_append distinct_append) auto
    note A = batch_effect [OF a d(1)] and B = "1.IH" [OF False a [symmetric] refl b d(2)]
    have "merged_row env started (wDB w) (wDB w') m" if "m \<in> set ms" for m
    proof (cases "m \<in> set ?a")
      case True
      with dj have "member_id m \<notin> member_id ` set ?b" by blast
      with B True A show ?thesis using merged_row_cong [of "wDB w" m "wDB w" "wDB w'" "wDB w1"] by simp
    next
      case False
      with that split have m: "m \<in> set ?b" by (metis UnE set_append)
      with dj have "member_id m \<notin> member_id ` set ?a" by blast
      with A B m show ?thesis using merged_row_cong [of "wDB w" m "wDB w1" "wDB w'" "wDB w'"] by simp
    qed
    moreover have "length ?a + length ?b = length ms" by simp
    moreover have "member_state (wDB w') k = member_state (wDB w) k" if "k \<notin> member_id ` set ms" for k
    proof -
      have "k \<notin> member_id ` set ?a" "k \<notin> member_id ` set ?b" using that by (auto dest: in_set_takeD in_set_dropD)
      with A B show ?thesis by (metis prod.collapse)
    qed
    ultimately show ?thesis using A B by auto
  qed
qed

lemma validate_distinct:
  "validate_members g seen ms = None \<Longrightarrow> distinct (map member_id ms) \<and> (\<forall>m \<in> set ms. mbGuildID m = g \<and> mbUserID m \<noteq> [] \<and> mbUserID m \<notin> set seen)"
proof (induction ms arbitrary: seen)
  case Nil
  then show ?case by simp
next
  case (Cons m ms)
  from Cons.prems have v: "validate_members g (mbUserID m # seen) ms = None"
    and m: "mbGuildID m = g" "mbUserID m \<noteq> []" "mbUserID m \<notin> set seen" by (auto split: if_splits)
  from Cons.IH [OF v] m show ?case by (auto simp: image_iff)
qed

lemma merge_effect:
  assumes "MergeObservedMembers env guildID ms started w = ((res, None), w')"
  shows "(\<forall>m \<in> set ms. merged_row env started (wDB w) (wDB w') m) \<and> mmApplied res + mmNewerSkipped res = length ms"
proof -
  from assms have v: "validate_members guildID [] ms = None"
    and b: "merge_batches env started ms \<lparr>mmApplied = 0, mmNewerSkipped = 0\<rparr> w = ((res, None), w')"
    by (auto simp: MergeObservedMembers_def Let_def split: if_splits option.splits prod.splits)
  from merge_batches_effect [OF b] validate_distinct [OF v] show ?thesis by simp
qed

section \<open>The search index of members\<close>

lemma settles_withResult:
  assumes "keeps P c" "\<And>x. settles P (k x)"
  shows "settles P (withResult c k)"
proof (rule settlesI)
  fix w w'
  assume P: "P (wDB w)" and "withResult c k w = (None, w')"
  then obtain x w1 where c: "c w = (Inr x, w1)" and k: "k x w1 = (None, w')" by (elim withResultE) (rule that)
  from keepsD [OF assms(1) P] c have "P (wDB w1)" by simp
  from settlesD [OF assms(2) this k] show "P (wDB w')" .
qed

text \<open>
  Row ids of the index are hashes of guild and user. \<open>K\<close> is a set of members whose hashes differ; as
  long as all members are among them the index has one row for each live member and no other.
\<close>

abbreviation member_rid :: "member_id \<Rightarrow> int" where
  "member_rid k \<equiv> memberFTSRowID (fst k) (snd k)"

definition member_index_row :: "env \<Rightarrow> member_row option \<Rightarrow> member_fts_row option" where
  "member_index_row env row =
     (case row of None \<Rightarrow> None | Some r \<Rightarrow> if mbDeletedAt r = 0 then Some (member_fts env r) else None)"

definition members_exact :: "env \<Rightarrow> member_id set \<Rightarrow> db \<Rightarrow> bool" where
  "members_exact env K d \<longleftrightarrow>
     (\<forall>k r. map_of (dbMembers d) k = Some r \<longrightarrow> k \<in> K \<and> member_id r = k) \<and>
     (\<forall>k \<in> K. map_of (dbMemberFTS d) (member_rid k) = member_index_row env (map_of (dbMembers d) k)) \<and>
     dom (map_of (dbMemberFTS d)) \<subseteq> member_rid ` K"

lemma members_exact_cong:
  "dbMembers d = dbMembers d' \<Longrightarrow> dbMemberFTS d = dbMemberFTS d' \<Longrightarrow> members_exact env K d = members_exact env K d'"
  by (simp add: members_exact_def)

lemma members_exact_update:
  assumes ex: "members_exact env K d" and K: "inj_on member_rid K" "k \<in> K" and r: "member_id r = k"
    and m: "map_of (dbMembers d') = (map_of (dbMembers d))(k \<mapsto> r)"
    and f: "map_of (dbMemberFTS d') = (map_of (dbMemberFTS d))(member_rid k := member_index_row env (Some r))"
  shows "members_exact env K d'"
proof -
  have "map_of (dbMemberFTS d') (member_rid j) = member_index_row env (map_of (dbMembers d') j)" if "j \<in> K" for j
  proof (cases "j = k")
    case True
    with m f show ?thesis by simp
  next
    case False
    then have "member_rid j \<noteq> member_rid k" using inj_onD [OF K(1) _ that K(2)] by blast
    with False m f ex that show ?thesis by (simp add: members_exact_def)
  qed
  moreover have "dom (map_of (dbMemberFTS d')) \<subseteq> member_rid ` K"
  proof
    fix x assume "x \<in> dom (map_of (dbMemberFTS d'))"
    then have "x = member_rid k \<or> x \<in> dom (map_of (dbMemberFTS d))" using f by (auto split: if_splits)
    with ex K(2) show "x \<in> member_rid ` K" by (auto simp: members_exact_def)
  qed
  ultimately show ?thesis using ex K(2) m r by (auto simp: members_exact_def)
qed

lemma rid_prepared: "member_id (prepared_member env st m) = member_id m"
  by simp

lemma write_member_index:
  assumes "write_member env st m w = (None, w')"
  shows "\<exists>now. map_of (dbMembers (wDB w')) = (map_of (dbMembers (wDB w)))(member_id m \<mapsto> upsertMemberParams m now) \<and>
    map_of (dbMemberFTS (wDB w')) = (map_of (dbMemberFTS (wDB w)))(member_rid (member_id m) := Some (member_fts env m))"
proof -
  from assms obtain u1 u2 u3 where a: "(if st \<noteq> None then db_side env else ok) w = (None, u1)"
    and p: "db_exec env (put_member m) u1 = (None, u2)"
    and f: "db_exec env (\<lambda>_. drop_member_fts (member_id m)) u2 = (None, u3)"
    and g: "db_exec env (\<lambda>_ d. d\<lparr>dbMemberFTS :=
          AList.update (memberFTSRowID (mbGuildID m) (mbUserID m)) (member_fts env m) (dbMemberFTS d)\<rparr>) u3 = (None, w')"
    unfolding write_member_def upsertMemberFTSTx_def by (elim andThenE) (rule that)
  have "wDB u1 = wDB w" using a by (auto simp: ok_def split: if_splits dest: side_db)
  with db_exec_None [OF p] db_exec_None [OF f] db_exec_None [OF g] show ?thesis
    by (intro exI [of _ "envNow env (wTick u1)"]) (auto simp: put_member_def drop_member_fts_def update_conv' AList.delete_conv')
qed

lemma observed_fts: "recordMemberObservedTx env k w = (None, w') \<Longrightarrow> dbMemberFTS (wDB w') = dbMemberFTS (wDB w)"
  by (auto simp: recordMemberObservedTx_def dest!: andThen_None db_exec_None side_db)

lemma upsert_exact:
  assumes "upsertMemberTx env m w = (Inr b, w')" and ex: "members_exact env K (wDB w)"
    and K: "inj_on member_rid K" "member_id m \<in> K"
  shows "members_exact env K (wDB w')"
proof -
  from assms(1) obtain u1 st u2 u3 u4 where a: "db_side env w = (None, u1)"
    and q: "db_query env (\<lambda>d. map_of (dbMembers d) (member_id m)) u1 = (Inr st, u2)"
    and c: "(if member_changed env st (prepared_member env st m) then write_member env st (prepared_member env st m) else ok) u2 = (None, u3)"
    and o: "recordMemberObservedTx env (member_id (prepared_member env st m)) u3 = (None, u4)"
    and v: "value_call (member_changed env st (prepared_member env st m)) u4 = (Inr b, w')"
    unfolding upsertMemberTx_def Let_def by (elim doThenE bindCallE) (rule that)
  let ?m = "prepared_member env st m"
  have u2: "wDB u2 = wDB w" using side_db [OF a] db_query_Inr [OF q] by simp
  have w': "members_exact env K (wDB w') = members_exact env K (wDB u3)"
    using v observed_members [OF o] observed_fts [OF o] by (intro members_exact_cong) (auto simp: value_call_def)
  show ?thesis
  proof (cases "member_changed env st ?m")
    case True
    with c have "write_member env st ?m u2 = (None, u3)" by simp
    from write_member_index [OF this] obtain now where
      n: "map_of (dbMembers (wDB u3)) = (map_of (dbMembers (wDB w)))(member_id m \<mapsto> upsertMemberParams ?m now)"
      "map_of (dbMemberFTS (wDB u3)) = (map_of (dbMemberFTS (wDB w)))(member_rid (member_id m) := Some (member_fts env ?m))"
      unfolding u2 rid_prepared by blast
    have i: "member_index_row env (Some (upsertMemberParams ?m now)) = Some (member_fts env ?m)"
      by (simp add: member_index_row_def upsertMemberParams_def member_fts_def)
    have "member_id (upsertMemberParams ?m now) = member_id m" by (simp add: upsertMemberParams_def)
    from members_exact_update [OF ex K this n(1)] n(2) i w' show ?thesis by simp
  next
    case False
    with c ex w' u2 show ?thesis by (simp add: ok_def)
  qed
qed

lemma merge_members_exact:
  assumes "merge_members env started ms res w = (Inr res', w')" "members_exact env K (wDB w)"
    and K: "inj_on member_rid K" "member_id ` set ms \<subseteq> K"
  shows "members_exact env K (wDB w')"
  using assms
proof (induction ms arbitrary: res w)
  case Nil
  then show ?case by simp
next
  case (Cons m ms)
  from Cons.prems obtain res1 w1 where m: "merge_member env started m res w = (Inr res1, w1)"
    and ms: "merge_members env started ms res1 w1 = (Inr res', w')" by (auto split: prod.splits sum.splits)
  from m obtain seen u where l: "lastObservedMemberTx env (member_id m) w = (Inr seen, u)"
    and k: "(if newer_than seen started
          then doThen (db_side env) (value_call (res\<lparr>mmNewerSkipped := Suc (mmNewerSkipped res)\<rparr>))
          else bindCall (wrap_error ''merge observed member: '' (upsertMemberTx env m))
                 (\<lambda>_. value_call (res\<lparr>mmApplied := Suc (mmApplied res)\<rparr>))) u = (Inr res1, w1)"
    unfolding merge_member_def by (elim bindCallE) (rule that)
  have u: "members_exact env K (wDB u)" using lastObservedMember_db [OF l] Cons.prems(2) by simp
  have "members_exact env K (wDB w1)"
  proof (cases "newer_than seen started")
    case True
    with k have "wDB w1 = wDB u" by (auto simp: value_call_def dest!: doThen_Inr side_db)
    with u show ?thesis by simp
  next
    case False
    with k obtain b w2 where up: "wrap_error ''merge observed member: '' (upsertMemberTx env m) u = (Inr b, w2)"
      and "value_call (res\<lparr>mmApplied := Suc (mmApplied res)\<rparr>) w2 = (Inr res1, w1)" by (auto elim!: bindCallE)
    then have "w1 = w2" by (simp add: value_call_def)
    with upsert_exact [OF wrap_error_Inr [OF up] u K(1)] Cons.prems(4) show ?thesis by simp
  qed
  with Cons.IH [OF ms] Cons.prems show ?case by simp
qed

lemma batch_exact:
  assumes "inj_on member_rid K" "member_id ` set ms \<subseteq> K"
  shows "keeps (members_exact env K) (mergeObservedMemberBatch env ms started)"
  unfolding keeps_def mergeObservedMemberBatch_def
proof (intro allI impI)
  fix w :: world
  assume ex: "members_exact env K (wDB w)"
  from tx_call_db [of env "merge_members env started ms \<lparr>mmApplied = 0, mmNewerSkipped = 0\<rparr>" w]
  show "members_exact env K (wDB (snd (tx_call env (merge_members env started ms \<lparr>mmApplied = 0, mmNewerSkipped = 0\<rparr>) w)))"
    by (elim disjE exE conjE) (use ex merge_members_exact [OF _ _ assms] in simp_all)
qed

lemma merge_batches_exact:
  assumes "members_exact env K (wDB w)" "inj_on member_rid K" "member_id ` set ms \<subseteq> K"
  shows "members_exact env K (wDB (snd (merge_batches env started ms res w)))"
  using assms
proof (induction env started ms res w rule: merge_batches.induct)
  case (1 env started ms res w)
  let ?a = "take memberRefreshBatchSize ms" and ?b = "drop memberRefreshBatchSize ms"
  obtain r w1 where r: "mergeObservedMemberBatch env ?a started w = (r, w1)" by force
  have K: "member_id ` set ?a \<subseteq> K" "member_id ` set ?b \<subseteq> K"
    using "1.prems"(3) by (meson image_mono order_trans set_take_subset set_drop_subset)+
  have w1: "members_exact env K (wDB w1)" using keepsD [OF batch_exact [OF "1.prems"(2) K(1)] "1.prems"(1)] r by (metis snd_conv)
  show ?case
  proof (cases "ms = []")
    case True
    with "1.prems" show ?thesis by (simp add: merge_batches.simps)
  next
    case False
    show ?thesis
    proof (cases r)
      case (Inl e)
      with False r w1 show ?thesis by (subst merge_batches.simps) simp
    next
      case (Inr one)
      with "1.IH" [OF False r [symmetric, unfolded Inr] _ w1 "1.prems"(2) K(2)] False r show ?thesis
        by (subst merge_batches.simps) simp
    qed
  qed
qed

lemma delete_exact:
  assumes K: "inj_on member_rid K" "k \<in> K" and clock: "\<forall>n. envNow env n \<noteq> 0"
  shows "settles (members_exact env K) (andThen (db_exec env (bury_member k source reason)) (db_exec env (\<lambda>_. drop_member_fts k)))"
proof (rule settlesI)
  fix w w'
  assume ex: "members_exact env K (wDB w)"
    and "andThen (db_exec env (bury_member k source reason)) (db_exec env (\<lambda>_. drop_member_fts k)) w = (None, w')"
  then obtain u where b: "db_exec env (bury_member k source reason) w = (None, u)" and f: "db_exec env (\<lambda>_. drop_member_fts k) u = (None, w')"
    by (elim andThenE) (rule that)
  obtain r where r: "map_of (dbMembers (wDB w')) = (map_of (dbMembers (wDB w)))(k \<mapsto> r)" "mbDeletedAt r = envNow env (wTick w)" "member_id r = k"
  proof (cases "map_of (dbMembers (wDB w)) k")
    case None
    with db_exec_None [OF b] db_exec_None [OF f] show thesis
      by (intro that) (auto simp: bury_member_def drop_member_fts_def update_conv')
  next
    case (Some r0)
    with ex have "member_id r0 = k" unfolding members_exact_def by blast
    with Some db_exec_None [OF b] db_exec_None [OF f] show thesis
      by (intro that [of "r0\<lparr>mbDeletedAt := envNow env (wTick w), mbDeletionSource := source, mbDeletionReason := reason,
          mbUpdatedAt := envNow env (wTick w)\<rparr>"]) (auto simp: bury_member_def drop_member_fts_def update_conv')
  qed
  have "map_of (dbMemberFTS (wDB w')) = (map_of (dbMemberFTS (wDB w)))(member_rid k := member_index_row env (Some r))"
    using db_exec_None [OF b] db_exec_None [OF f] r(2) clock
    by (simp add: bury_member_def drop_member_fts_def AList.delete_conv' member_index_row_def)
  from members_exact_update [OF ex K r(3,1) this] show "members_exact env K (wDB w')" .
qed

section \<open>Properties\<close>

text \<open>
  C17. Merging an enumeration of members is safe and complete. Whatever fails on the way, a member the
  archive knows from later than the start of the enumeration (a gateway change, a removal) and a
  member the enumeration does not list keep their rows. When the merge returns no error, every listed
  member has a row, the listed one unless a newer one was there, and each was counted once.
\<close>
theorem member_refresh_merges:
  assumes "MergeObservedMembers env guildID ms started w = ((res, e), w')"
  shows "(\<forall>k. k \<notin> member_id ` set ms \<or> newer_than (member_seen (wDB w) k) started \<longrightarrow>
      member_state (wDB w') k = member_state (wDB w) k) \<and>
    (e = None \<longrightarrow> (\<forall>m \<in> set ms. merged_row env started (wDB w) (wDB w') m) \<and>
      mmApplied res + mmNewerSkipped res = length ms)"
proof (intro conjI allI impI)
  fix k assume "k \<notin> member_id ` set ms \<or> newer_than (member_seen (wDB w) k) started"
  from merge_protected [OF this, of env guildID] assms show "member_state (wDB w') k = member_state (wDB w) k" by simp
next
  assume "e = None"
  with assms merge_effect [of env guildID ms started w res w'] show
    "\<forall>m \<in> set ms. merged_row env started (wDB w) (wDB w') m" "mmApplied res + mmNewerSkipped res = length ms" by simp_all
qed

text \<open>
  C21. The search index of members mirrors the members: as long as the row ids of the members at hand
  differ, every observation, removal and merge, successful or failed at any statement, keeps one
  index row for each live member, with its current names and profile, and no other row.
\<close>
theorem member_index_mirrors_members:
  assumes K: "inj_on member_rid K" "member_id m \<in> K" "(guildID, userID) \<in> K" "member_id ` set ms \<subseteq> K"
    and clock: "\<forall>n. envNow env n \<noteq> 0"
  shows "keeps (members_exact env K) (UpsertObservedMember env m started) \<and>
    keeps (members_exact env K) (MarkObservedMemberDeleted env guildID userID source reason observed) \<and>
    keeps (members_exact env K) (MergeObservedMembers env guildID ms started)"
proof (intro conjI)
  have "settles (members_exact env K) (discard (upsertMemberTx env m))"
    by (rule settlesI) (auto simp: discard_def ok_def dest!: withResult_None intro: upsert_exact [OF _ _ K(1,2)])
  then have "settles (members_exact env K) (if b then db_side env else discard (upsertMemberTx env m))" for b
    by (simp add: keeps_settles keeps_side)
  then show "keeps (members_exact env K) (UpsertObservedMember env m started)"
    unfolding UpsertObservedMember_def by (intro keeps_if keeps_value keeps_lastMember settles_with_tx settles_withResult)
  have "settles (members_exact env K) (if b then ok else andThen (db_exec env (bury_member (guildID, userID) source reason))
      (db_exec env (\<lambda>_. drop_member_fts (guildID, userID))))" for b
    using delete_exact [OF K(1,3) clock] by (simp add: keeps_settles keeps_ok)
  then show "keeps (members_exact env K) (MarkObservedMemberDeleted env guildID userID source reason observed)"
    unfolding MarkObservedMemberDeleted_def by (intro keeps_if keeps_fail keeps_value keeps_lastMember settles_with_tx settles_withResult)
  have "members_exact env K (wDB (snd (MergeObservedMembers env guildID ms started w)))" if "members_exact env K (wDB w)" for w
  proof -
    have "merge_batches env started ms res w = (r, w1) \<Longrightarrow> members_exact env K (wDB w1)" for res r w1
      using merge_batches_exact [OF that K(1,4)] by (metis snd_conv)
    with that show ?thesis by (auto simp: MergeObservedMembers_def Let_def split: option.split prod.split)
  qed
  then show "keeps (members_exact env K) (MergeObservedMembers env guildID ms started)" by (simp add: keeps_def)
qed

section \<open>Instances\<close>

definition sample_member :: member_record where
  "sample_member = \<lparr>mbGuildID = ''1'', mbUserID = ''7'', mbUsername = ''ada'', mbGlobalName = [], mbDisplayName = ''ada'',
     mbNick = [], mbDiscriminator = [], mbAvatar = [], mbBot = False, mbJoinedAt = [], mbRoleIDsJSON = ''[]'', mbRawJSON = ''{}''\<rparr>"

lemma sample_merge: "snd (fst (MergeObservedMembers calm_env ''1'' [sample_member] 50 empty_world)) = None"
  by code_simp

theorem member_refresh_merges_witness:
  "\<exists>r. map_of (dbMembers (wDB (snd (MergeObservedMembers calm_env ''1'' [sample_member] 50 empty_world)))) (''1'', ''7'') = Some r \<and>
     mbUsername r = ''ada''"
proof -
  obtain res e w' where m: "MergeObservedMembers calm_env ''1'' [sample_member] 50 empty_world = ((res, e), w')"
    by (metis prod.exhaust)
  have "\<not> newer_than (member_seen (wDB empty_world) (''1'', ''7'')) 50"
    by (simp add: member_seen_def last_seen_def newer_than_def empty_world_def empty_db_def)
  moreover have "member_id sample_member = (''1'', ''7'')" by (simp add: sample_member_def)
  ultimately show ?thesis
    using member_refresh_merges [OF m] m sample_merge by (auto simp: merged_row_def member_stored_def sample_member_def)
qed

theorem member_index_mirrors_members_witness:
  "members_exact calm_env {(''1'', ''7'')} (wDB (snd (MarkMemberDeleted calm_env ''1'' ''7'' ''gateway'' ''left''
     (snd (MergeObservedMembers calm_env ''1'' [sample_member] 50 empty_world)))))"
proof -
  have "keeps (members_exact calm_env {(''1'', ''7'')}) (MarkObservedMemberDeleted calm_env ''1'' ''7'' ''gateway'' ''left'' 0)"
    "keeps (members_exact calm_env {(''1'', ''7'')}) (MergeObservedMembers calm_env ''1'' [sample_member] 50)"
    using member_index_mirrors_members [of "{(''1'', ''7'')}" sample_member "''1''" "''7''" "[sample_member]" calm_env 50 "''gateway''" "''left''" 0]
    by (simp_all add: sample_member_def calm_env_def)
  moreover have "members_exact calm_env {(''1'', ''7'')} (wDB empty_world)"
    by (simp add: members_exact_def empty_world_def empty_db_def member_index_row_def)
  ultimately show ?thesis unfolding MarkMemberDeleted_def by (metis keepsD)
qed

end
