(* ===== verification/JsonText.thy ===== *)
theory JsonText
  imports Json
begin

text \<open>
  JSON text of package \<open>encoding/json\<close>, byte by byte: UTF-8 as \<open>utf8.DecodeRune\<close> accepts it, the
  string writer of \<open>json.Marshal\<close> (HTML escaping on, an invalid byte written as the escape of
  U+FFFD), and the reader of \<open>json.Decoder\<close> for a whole value. The reader takes fuel for the nesting;
  \<open>read_value_enough\<close> shows that one more than twice the length of the text is enough.
\<close>

section \<open>UTF-8\<close>

abbreviation byte :: "char \<Rightarrow> nat" where
  "byte c \<equiv> of_char c"

definition byte_in :: "string \<Rightarrow> nat \<Rightarrow> nat \<Rightarrow> nat \<Rightarrow> bool" where
  "byte_in s i lo hi \<longleftrightarrow> i < length s \<and> lo \<le> byte (s ! i) \<and> byte (s ! i) \<le> hi"

text \<open>The length of the well-formed sequence a text begins with (\<open>None\<close>: \<open>RuneError\<close> of size 1).\<close>

definition rune_len :: "string \<Rightarrow> nat option" where
  "rune_len s =
     (if byte_in s 0 0 0x7F then Some 1
      else if byte_in s 0 0xC2 0xDF \<and> byte_in s 1 0x80 0xBF then Some 2
      else if (byte_in s 0 0xE0 0xE0 \<and> byte_in s 1 0xA0 0xBF \<or>
               byte_in s 0 0xE1 0xEC \<and> byte_in s 1 0x80 0xBF \<or>
               byte_in s 0 0xED 0xED \<and> byte_in s 1 0x80 0x9F \<or>
               byte_in s 0 0xEE 0xEF \<and> byte_in s 1 0x80 0xBF) \<and> byte_in s 2 0x80 0xBF then Some 3
      else if (byte_in s 0 0xF0 0xF0 \<and> byte_in s 1 0x90 0xBF \<or>
               byte_in s 0 0xF1 0xF3 \<and> byte_in s 1 0x80 0xBF \<or>
               byte_in s 0 0xF4 0xF4 \<and> byte_in s 1 0x80 0x8F) \<and>
              byte_in s 2 0x80 0xBF \<and> byte_in s 3 0x80 0xBF then Some 4
      else None)"

lemma rune_len_bounds: "rune_len s = Some n \<Longrightarrow> 0 < n \<and> n \<le> length s"
  by (auto simp: rune_len_def byte_in_def Suc_le_eq split: if_splits)

function utf8_ok :: "string \<Rightarrow> bool" where
  "utf8_ok s = (s = [] \<or> (case rune_len s of None \<Rightarrow> False | Some n \<Rightarrow> utf8_ok (drop n s)))"
  by pat_completeness auto
termination
  by (relation "measure length") (auto dest!: rune_len_bounds)

declare utf8_ok.simps [simp del]

text \<open>\<open>utf8.AppendRune\<close> for a code point that is not a surrogate.\<close>

definition rune_bytes :: "nat \<Rightarrow> string" where
  "rune_bytes u =
     (if u < 0x80 then [char_of u]
      else if u < 0x800 then [char_of (0xC0 + u div 64), char_of (0x80 + u mod 64)]
      else if u < 0x10000 then [char_of (0xE0 + u div 4096), char_of (0x80 + u div 64 mod 64), char_of (0x80 + u mod 64)]
      else [char_of (0xF0 + u div 262144), char_of (0x80 + u div 4096 mod 64), char_of (0x80 + u div 64 mod 64),
            char_of (0x80 + u mod 64)])"

definition rune_error :: string where
  "rune_error = [CHR 0xEF, CHR 0xBF, CHR 0xBD]"

section \<open>Writing\<close>

text \<open>The escapes of U+FFFD, U+2028 and U+2029, and the bytes of the last two.\<close>

definition replacement_escape :: string where
  "replacement_escape = [CHR 0x5C, CHR ''u'', CHR ''f'', CHR ''f'', CHR ''f'', CHR ''d'']"

definition separator_escape :: "char \<Rightarrow> string" where
  "separator_escape d = [CHR 0x5C, CHR ''u'', CHR ''2'', CHR ''0'', CHR ''2'', d]"

definition line_separator :: string where
  "line_separator = [CHR 0xE2, CHR 0x80, CHR 0xA8]"

definition paragraph_separator :: string where
  "paragraph_separator = [CHR 0xE2, CHR 0x80, CHR 0xA9]"

function escape_text :: "string \<Rightarrow> string" where
  "escape_text s =
     (if s = [] then []
      else if byte (hd s) < 0x80 then json_escape (hd s) @ escape_text (tl s)
      else case rune_len s of
        None \<Rightarrow> replacement_escape @ escape_text (tl s)
      | Some n \<Rightarrow>
          (if take n s = line_separator then separator_escape (CHR ''8'')
           else if take n s = paragraph_separator then separator_escape (CHR ''9'')
           else take n s) @ escape_text (drop n s))"
  by pat_completeness auto
termination
  by (relation "measure length") (auto dest!: rune_len_bounds)

declare escape_text.simps [simp del]

definition quote_text :: "string \<Rightarrow> string" where
  "quote_text s = CHR 0x22 # escape_text s @ [CHR 0x22]"

section \<open>Reading\<close>

definition hex_value :: "char \<Rightarrow> nat option" where
  "hex_value c =
     (let n = byte c in
      if 48 \<le> n \<and> n \<le> 57 then Some (n - 48)
      else if 97 \<le> n \<and> n \<le> 102 then Some (n - 87)
      else if 65 \<le> n \<and> n \<le> 70 then Some (n - 55)
      else None)"

text \<open>The four hexadecimal digits of a \<open>u\<close> escape.\<close>

definition hex4 :: "string \<Rightarrow> nat option" where
  "hex4 s =
     (case map hex_value (take 4 s) of
        [Some a, Some b, Some c, Some d] \<Rightarrow> Some (((a * 16 + b) * 16 + c) * 16 + d)
      | _ \<Rightarrow> None)"

text \<open>
  The escape whose code unit is \<open>u\<close> and whose text continues with \<open>r\<close>: the bytes it denotes and how
  much of \<open>r\<close> it takes. A surrogate joins the escape of its partner or becomes U+FFFD.
\<close>

definition join_surrogates :: "nat \<Rightarrow> string \<Rightarrow> string \<times> nat" where
  "join_surrogates u r =
     (if \<not> (0xD800 \<le> u \<and> u < 0xE000) then (rune_bytes u, 0)
      else case (if has_prefix r [CHR 0x5C, CHR ''u''] then hex4 (drop 2 r) else None) of
        None \<Rightarrow> (rune_error, 0)
      | Some v \<Rightarrow>
          if u < 0xDC00 \<and> 0xDC00 \<le> v \<and> v < 0xE000
          then (rune_bytes (0x10000 + (u - 0xD800) * 1024 + (v - 0xDC00)), 6) else (rune_error, 0))"

definition simple_escape :: "char \<Rightarrow> char option" where
  "simple_escape e =
     (if e = CHR 0x22 \<or> e = CHR 0x5C \<or> e = CHR ''/'' then Some e
      else if e = CHR ''b'' then Some (CHR 0x08)
      else if e = CHR ''f'' then Some (CHR 0x0C)
      else if e = CHR ''n'' then Some (CHR 0x0A)
      else if e = CHR ''r'' then Some (CHR 0x0D)
      else if e = CHR ''t'' then Some (CHR 0x09)
      else None)"

definition push :: "string \<Rightarrow> (string \<times> string) option \<Rightarrow> (string \<times> string) option" where
  "push x r = map_option (\<lambda>(t, rest). (x @ t, rest)) r"

text \<open>A string after its opening quote: its value and the text after the closing quote.\<close>

function read_string :: "string \<Rightarrow> (string \<times> string) option" where
  "read_string s =
     (if s = [] then None
      else if hd s = CHR 0x22 then Some ([], tl s)
      else if hd s = CHR 0x5C then
        (if tl s = [] then None
         else case simple_escape (hd (tl s)) of
           Some c \<Rightarrow> push [c] (read_string (drop 2 s))
         | None \<Rightarrow>
             if hd (tl s) \<noteq> CHR ''u'' then None
             else (case hex4 (drop 2 s) of
                     None \<Rightarrow> None
                   | Some u \<Rightarrow>
                       push (fst (join_surrogates u (drop 6 s)))
                         (read_string (drop (6 + snd (join_surrogates u (drop 6 s))) s))))
      else if byte (hd s) < 0x20 then None
      else if byte (hd s) < 0x80 then push [hd s] (read_string (tl s))
      else case rune_len s of
        None \<Rightarrow> push rune_error (read_string (tl s))
      | Some n \<Rightarrow> push (take n s) (read_string (drop n s)))"
  by pat_completeness auto
termination
  by (relation "measure length") (auto dest!: rune_len_bounds)

declare read_string.simps [simp del]

definition skip_ws :: "string \<Rightarrow> string" where
  "skip_ws = dropWhile (\<lambda>c. c = CHR 0x20 \<or> c = CHR 0x09 \<or> c = CHR 0x0A \<or> c = CHR 0x0D)"

text \<open>The fraction and the exponent of a number are optional.\<close>

definition read_digits :: "string \<Rightarrow> (string \<times> string) option" where
  "read_digits s = (let ds = takeWhile is_digit s in if ds = [] then None else Some (ds, drop (length ds) s))"

definition read_fraction :: "string \<Rightarrow> (string \<times> string) option" where
  "read_fraction s = (if has_prefix s ''.'' then push ''.'' (read_digits (tl s)) else Some ([], s))"

definition read_exponent :: "string \<Rightarrow> (string \<times> string) option" where
  "read_exponent s =
     (if has_prefix s ''e'' \<or> has_prefix s ''E''
      then (if has_prefix (tl s) ''+'' \<or> has_prefix (tl s) ''-'' then push (take 2 s) (read_digits (drop 2 s))
            else push (take 1 s) (read_digits (tl s)))
      else Some ([], s))"

definition read_integer :: "string \<Rightarrow> (string \<times> string) option" where
  "read_integer s = (if has_prefix s ''0'' then Some (''0'', tl s) else read_digits s)"

definition read_number :: "string \<Rightarrow> (json \<times> string) option" where
  "read_number s =
     (let sign = (if has_prefix s ''-'' then ''-'' else []) in
      case read_integer (drop (length sign) s) of
        None \<Rightarrow> None
      | Some (i, s1) \<Rightarrow>
          (case read_fraction s1 of
             None \<Rightarrow> None
           | Some (f, s2) \<Rightarrow>
               (case read_exponent s2 of
                  None \<Rightarrow> None
                | Some (e, s3) \<Rightarrow> Some (JNum (sign @ i @ f @ e), s3))))"

definition read_word :: "string \<Rightarrow> json \<Rightarrow> string \<Rightarrow> (json \<times> string) option" where
  "read_word word v s = (if has_prefix s word then Some (v, drop (length word) s) else None)"

text \<open>Whether the next token begins with \<open>c\<close>, and the text after it.\<close>

definition next_is :: "char \<Rightarrow> string \<Rightarrow> bool" where
  "next_is c s \<longleftrightarrow> has_prefix (skip_ws s) [c]"

definition after_next :: "string \<Rightarrow> string" where
  "after_next s = tl (skip_ws s)"

fun read_value :: "nat \<Rightarrow> string \<Rightarrow> (json \<times> string) option"
  and read_members :: "nat \<Rightarrow> string \<Rightarrow> ((string \<times> json) list \<times> string) option"
  and read_elements :: "nat \<Rightarrow> string \<Rightarrow> (json list \<times> string) option" where
  "read_value 0 s = None"
| "read_value (Suc n) s =
     (if next_is (CHR 0x22) s then map_option (\<lambda>(t, r). (JStr t, r)) (read_string (after_next s))
      else if next_is (CHR 0x7B) s then
        (if next_is (CHR 0x7D) (after_next s) then Some (JObj [], after_next (after_next s))
         else map_option (\<lambda>(ms, r). (JObj ms, r)) (read_members n (after_next s)))
      else if next_is (CHR 0x5B) s then
        (if next_is (CHR 0x5D) (after_next s) then Some (JArr [], after_next (after_next s))
         else map_option (\<lambda>(vs, r). (JArr vs, r)) (read_elements n (after_next s)))
      else if next_is (CHR ''n'') s then read_word ''null'' JNull (skip_ws s)
      else if next_is (CHR ''t'') s then read_word ''true'' (JBool True) (skip_ws s)
      else if next_is (CHR ''f'') s then read_word ''false'' (JBool False) (skip_ws s)
      else read_number (skip_ws s))"
| "read_members 0 s = None"
| "read_members (Suc n) s =
     (if \<not> next_is (CHR 0x22) s then None
      else case read_string (after_next s) of
        None \<Rightarrow> None
      | Some (k, r) \<Rightarrow>
          if \<not> next_is (CHR '':'') r then None
          else (case read_value n (after_next r) of
                  None \<Rightarrow> None
                | Some (v, r1) \<Rightarrow>
                    if next_is (CHR '','') r1
                    then map_option (\<lambda>(ms, r2). ((k, v) # ms, r2)) (read_members n (after_next r1))
                    else if next_is (CHR 0x7D) r1 then Some ([(k, v)], after_next r1)
                    else None))"
| "read_elements 0 s = None"
| "read_elements (Suc n) s =
     (case read_value n s of
        None \<Rightarrow> None
      | Some (v, r) \<Rightarrow>
          if next_is (CHR '','') r then map_option (\<lambda>(vs, r1). (v # vs, r1)) (read_elements n (after_next r))
          else if next_is (CHR 0x5D) r then Some ([v], after_next r)
          else None)"

text \<open>One \<open>Decode\<close> of a decoder over the text.\<close>

definition read_json :: "string \<Rightarrow> (json \<times> string) option" where
  "read_json s = read_value (Suc (2 * length s)) s"

section \<open>The reader ends\<close>

lemma push_simps [simp]: "push x None = None" "push x (Some (t, r)) = Some (x @ t, r)"
  by (simp_all add: push_def)

lemma push_Some: "push x r = Some (t, rest) \<longleftrightarrow> (\<exists>u. r = Some (u, rest) \<and> t = x @ u)"
  by (auto simp: push_def)

lemma read_string_shorter: "read_string s = Some (t, r) \<Longrightarrow> length r < length s"
proof (induction s arbitrary: t r rule: measure_induct_rule [where f = length])
  case (less s)
  from less.prems have ne: "s \<noteq> []" by (subst (asm) read_string.simps) auto
  have ih: "read_string (drop n s) = Some (u, r) \<Longrightarrow> 0 < n \<Longrightarrow> length r < length s" for n u
    using less.IH [of "drop n s" u r] ne by fastforce
  have ih1: "read_string (tl s) = Some (u, r) \<Longrightarrow> length r < length s" for u
    using ih [of 1 u] by (simp add: drop_Suc)
  from less.prems ne show ?case
    by (subst (asm) read_string.simps)
      (auto simp: push_Some split: if_splits option.splits dest: ih1 intro: ih dest!: rune_len_bounds)
qed

lemma skip_ws_le: "length (skip_ws s) \<le> length s"
  by (simp add: skip_ws_def length_dropWhile_le)

lemma next_is_after: "next_is c s \<Longrightarrow> length (after_next s) < length s"
  using skip_ws_le [of s] by (cases "skip_ws s") (auto simp: next_is_def after_next_def has_prefix_def)

lemma read_digits_shorter: "read_digits s = Some (t, r) \<Longrightarrow> length r < length s"
  by (cases s) (auto simp: read_digits_def Let_def split: if_splits)

lemma read_number_shorter: "read_number s = Some (v, r) \<Longrightarrow> length r < length s"
proof -
  assume a: "read_number s = Some (v, r)"
  have i: "read_integer u = Some (t, q) \<Longrightarrow> length q < length u" for u t q
    by (cases u) (auto simp: read_integer_def has_prefix_def dest!: read_digits_shorter split: if_splits)
  have f: "read_fraction u = Some (t, q) \<Longrightarrow> length q \<le> length u" for u t q
    by (cases u) (auto simp: read_fraction_def push_Some has_prefix_def dest!: read_digits_shorter split: if_splits)
  have e: "read_exponent u = Some (t, q) \<Longrightarrow> length q \<le> length u" for u t q
    by (cases u) (auto simp: read_exponent_def push_Some has_prefix_def dest!: read_digits_shorter split: if_splits)
  from a show ?thesis
    by (auto simp: read_number_def Let_def split: option.splits if_splits dest!: i f e) arith?
qed

lemma read_word_shorter: "read_word w v s = Some (u, r) \<Longrightarrow> w \<noteq> [] \<Longrightarrow> length r < length s"
  by (cases w; cases s) (auto simp: read_word_def has_prefix_def split: if_splits)

lemma read_shorter:
  "read_value n s = Some (v, r) \<Longrightarrow> length r < length s"
  "read_members n s = Some (ms, r) \<Longrightarrow> length r < length s"
  "read_elements n s = Some (vs, r) \<Longrightarrow> length r < length s"
proof (induction n s and n s and n s arbitrary: v r and ms r and vs r rule: read_value_read_members_read_elements.induct)
  case (2 n s)
  have ws: "length q < length (skip_ws s) \<Longrightarrow> length q < length s" for q :: string using skip_ws_le [of s] by linarith
  note after = next_is_after [of "CHR 0x22" s] next_is_after [of "CHR 0x7B" s] next_is_after [of "CHR 0x5B" s]
    next_is_after [of "CHR 0x7D" "after_next s"] next_is_after [of "CHR 0x5D" "after_next s"]
  have members: "next_is (CHR 0x7B) s \<Longrightarrow> \<not> next_is (CHR 0x22) s \<Longrightarrow> \<not> next_is (CHR 0x7D) (after_next s) \<Longrightarrow>
      read_members n (after_next s) = Some (a, r) \<Longrightarrow> length r < length (after_next s)" for a
    using "2.IH"(1) by blast
  have elems: "next_is (CHR 0x5B) s \<Longrightarrow> \<not> next_is (CHR 0x22) s \<Longrightarrow> \<not> next_is (CHR 0x7B) s \<Longrightarrow>
      \<not> next_is (CHR 0x5D) (after_next s) \<Longrightarrow>
      read_elements n (after_next s) = Some (a, r) \<Longrightarrow> length r < length (after_next s)" for a
    using "2.IH"(2) by blast
  consider (str) "next_is (CHR 0x22) s" | (obj) "\<not> next_is (CHR 0x22) s" "next_is (CHR 0x7B) s"
    | (arr) "\<not> next_is (CHR 0x22) s" "\<not> next_is (CHR 0x7B) s" "next_is (CHR 0x5B) s"
    | (other) "\<not> next_is (CHR 0x22) s" "\<not> next_is (CHR 0x7B) s" "\<not> next_is (CHR 0x5B) s" by blast
  then show ?case
  proof cases
    case str
    with "2.prems" after(1) show ?thesis by (auto dest!: read_string_shorter)
  next
    case obj
    with "2.prems" after(2,4) members show ?thesis by (fastforce split: if_splits)
  next
    case arr
    with "2.prems" after(3,5) elems show ?thesis by (fastforce split: if_splits)
  next
    case other
    with "2.prems" show ?thesis
      by (auto split: if_splits dest!: read_number_shorter read_word_shorter intro: ws)
  qed
next
  case (4 n s)
  from "4.prems" obtain k q v1 r1 where
    q: "next_is (CHR 0x22) s" "read_string (after_next s) = Some (k, q)" "next_is (CHR '':'') q"
       "read_value n (after_next q) = Some (v1, r1)"
    by (auto split: if_splits option.splits)
  have l: "length r1 < length s"
    using next_is_after [OF q(1)] read_string_shorter [OF q(2)] next_is_after [OF q(3)] "4.IH"(1) [OF _ q(2) _ _ q(4)] q by force
  from "4.prems" q show ?case
    using l "4.IH"(2) [OF _ q(2) refl _ q(4) refl] next_is_after [of _ r1] by (fastforce split: if_splits)
next
  case (6 n s)
  from "6.prems" obtain v1 r1 where q: "read_value n s = Some (v1, r1)" by (auto split: option.splits)
  from "6.prems" q "6.IH"(1) [OF q] show ?case
    using "6.IH"(2) [OF q refl] next_is_after [of _ r1] by (fastforce split: if_splits)
qed auto

text \<open>The fuel of \<open>read_json\<close> is enough: no larger amount gives another result.\<close>

lemma read_value_enough:
  "2 * length s < n \<Longrightarrow> n \<le> m \<Longrightarrow> read_value m s = read_value n s"
  "2 * length s < n \<Longrightarrow> n \<le> m \<Longrightarrow> read_members m s = read_members n s"
  "2 * length s + 1 < n \<Longrightarrow> n \<le> m \<Longrightarrow> read_elements m s = read_elements n s"
proof (induction n s and n s and n s arbitrary: m and m and m rule: read_value_read_members_read_elements.induct)
  case (2 n s)
  from "2.prems" obtain m' where m: "m = Suc m'" "n \<le> m'" by (cases m) auto
  have a: "next_is c s \<Longrightarrow> 2 * length (after_next s) + 1 < n" for c
    using next_is_after [of c s] "2.prems" by linarith
  have members: "read_members m' (after_next s) = read_members n (after_next s)"
    if "\<not> next_is (CHR 0x22) s" "next_is (CHR 0x7B) s" "\<not> next_is (CHR 0x7D) (after_next s)"
    using "2.IH"(1) [OF that _ m(2)] a [OF that(2)] by simp
  have elems: "read_elements m' (after_next s) = read_elements n (after_next s)"
    if "\<not> next_is (CHR 0x22) s" "\<not> next_is (CHR 0x7B) s" "next_is (CHR 0x5B) s" "\<not> next_is (CHR 0x5D) (after_next s)"
    using "2.IH"(2) [OF that _ m(2)] a [OF that(3)] by simp
  show ?case
    by (cases "next_is (CHR 0x22) s"; cases "next_is (CHR 0x7B) s"; cases "next_is (CHR 0x5B) s") (simp_all add: m(1) members elems)
next
  case (4 n s)
  from "4.prems" obtain m' where m: "m = Suc m'" "n \<le> m'" by (cases m) auto
  show ?case
  proof (cases "next_is (CHR 0x22) s \<and> read_string (after_next s) \<noteq> None")
    case True
    then obtain k q where q: "next_is (CHR 0x22) s" "read_string (after_next s) = Some (k, q)" by auto
    have lq: "length q < length s" using next_is_after [OF q(1)] read_string_shorter [OF q(2)] by linarith
    have v: "next_is (CHR '':'') q \<Longrightarrow> read_value m' (after_next q) = read_value n (after_next q)"
      using "4.IH"(1) [OF _ q(2) refl _ _ m(2)] q(1) next_is_after [of "CHR '':''" q] lq "4.prems" by force
    have w: "read_members m' (after_next r1) = read_members n (after_next r1)"
      if "next_is (CHR '':'') q" "read_value n (after_next q) = Some (v1, r1)" "next_is (CHR '','') r1" for v1 r1
      using "4.IH"(2) [OF _ q(2) refl _ that(2) refl that(3) _ m(2)] that(1) q(1) next_is_after [OF that(1)] next_is_after [OF that(3)]
        read_shorter(1) [OF that(2)] lq "4.prems" by force
    show ?thesis using q v w m by (auto split: option.split)
  next
    case False
    with m show ?thesis by (auto split: option.split)
  qed
next
  case (6 n s)
  from "6.prems" obtain m' where m: "m = Suc m'" "n \<le> m'" by (cases m) auto
  have v: "read_value m' s = read_value n s" using "6.IH"(1) [of m'] m "6.prems" by auto
  have w: "read_elements m' (after_next r1) = read_elements n (after_next r1)"
    if "read_value n s = Some (v1, r1)" "next_is (CHR '','') r1" for v1 r1
    using "6.IH"(2) [OF that(1) refl that(2) _ m(2)] next_is_after [OF that(2)] read_shorter(1) [OF that(1)] "6.prems" by force
  from m v w show ?case by (auto split: option.split)
qed auto

section \<open>A written string is read back\<close>

lemma byte_eq: "byte c = byte d \<longleftrightarrow> c = d"
  by simp

lemma hex_value_digit [simp]: "k < 16 \<Longrightarrow> hex_value (hex_digit k) = Some k"
  by (auto simp: hex_digit_def hex_value_def Let_def)

definition u_escape :: "nat \<Rightarrow> string" where
  "u_escape u = [CHR 0x5C, CHR ''u'', hex_digit (u div 4096 mod 16), hex_digit (u div 256 mod 16),
     hex_digit (u div 16 mod 16), hex_digit (u mod 16)]"

lemma written_escapes:
  "replacement_escape = u_escape 0xFFFD" "separator_escape (CHR ''8'') = u_escape 0x2028" "separator_escape (CHR ''9'') = u_escape 0x2029"
  by (simp_all add: replacement_escape_def separator_escape_def u_escape_def hex_digit_def flip: byte_eq)

lemma rune_texts: "rune_bytes 0xFFFD = rune_error" "rune_bytes 0x2028 = line_separator" "rune_bytes 0x2029 = paragraph_separator"
  by (simp_all add: rune_bytes_def rune_error_def line_separator_def paragraph_separator_def flip: byte_eq)

lemma hex4_digits:
  "a < 16 \<Longrightarrow> b < 16 \<Longrightarrow> c < 16 \<Longrightarrow> d < 16 \<Longrightarrow>
   hex4 (hex_digit a # hex_digit b # hex_digit c # hex_digit d # t) = Some (((a * 16 + b) * 16 + c) * 16 + d)"
  by (simp add: hex4_def)

lemma read_u_escape:
  assumes "u < 0x10000"
  shows "read_string (u_escape u @ t) =
    push (fst (join_surrogates u t)) (read_string (drop (snd (join_surrogates u t)) t))"
proof -
  have u: "((u div 4096 mod 16 * 16 + u div 256 mod 16) * 16 + u div 16 mod 16) * 16 + u mod 16 = u"
  proof -
    have "u div 4096 mod 16 = u div 256 div 16" "u div 256 = u div 16 div 16"
      using assms by (simp_all add: div_mult2_eq [symmetric])
    then show ?thesis by (simp only: div_mult_mod_eq)
  qed
  have "hex4 (drop 2 (u_escape u @ t)) = Some u"
    using hex4_digits [of "u div 4096 mod 16" "u div 256 mod 16" "u div 16 mod 16" "u mod 16" t] unfolding u
    by (simp add: u_escape_def)
  moreover have "drop 6 (u_escape u @ t) = t" "drop (6 + k) (u_escape u @ t) = drop k t" for k
    using drop_drop [of k 6 "u_escape u @ t"] by (simp_all add: u_escape_def add.commute)
  moreover have "hd (u_escape u @ t) = CHR 0x5C" "tl (u_escape u) \<noteq> []" "hd (tl (u_escape u @ t)) = CHR ''u''"
    "u_escape u \<noteq> []" by (simp_all add: u_escape_def)
  ultimately show ?thesis
    by (subst read_string.simps) (simp add: simple_escape_def)
qed

lemma read_json_escape:
  assumes "byte c < 0x80"
  shows "read_string (json_escape c @ t) = push [c] (read_string t)"
proof -
  let ?n = "byte c :: nat"
  have c: "c = char_of ?n" by simp
  consider (simple) "?n \<in> {0x22, 0x5C, 0x08, 0x0C, 0x0A, 0x0D, 0x09}"
    | (hex) "?n \<notin> {0x22, 0x5C, 0x08, 0x0C, 0x0A, 0x0D, 0x09}" "?n < 0x20 \<or> ?n = 0x3C \<or> ?n = 0x3E \<or> ?n = 0x26"
    | (plain) "?n \<notin> {0x22, 0x5C, 0x08, 0x0C, 0x0A, 0x0D, 0x09}" "\<not> (?n < 0x20 \<or> ?n = 0x3C \<or> ?n = 0x3E \<or> ?n = 0x26)" by blast
  then show ?thesis
  proof cases
    case simple
    then have "c \<in> {CHR 0x22, CHR 0x5C, CHR 0x08, CHR 0x0C, CHR 0x0A, CHR 0x0D, CHR 0x09}"
      unfolding insert_iff empty_iff byte_eq [symmetric] by simp
    then show ?thesis
      by (subst read_string.simps) (auto simp: json_escape_def simple_escape_def Let_def)
  next
    case hex
    have "hex_digit 0 = CHR ''0''" by code_simp
    with hex have e: "json_escape c = u_escape ?n"
      using assms by (auto simp: json_escape_def u_escape_def Let_def)
    have "join_surrogates ?n t = ([c], 0)" using assms by (simp add: join_surrogates_def rune_bytes_def)
    with e show ?thesis using read_u_escape [of ?n t] assms by simp
  next
    case plain
    then have e: "json_escape c = [c]" by (auto simp: json_escape_def Let_def)
    from plain have "c \<noteq> CHR 0x22" "c \<noteq> CHR 0x5C" by auto
    with plain assms e show ?thesis by (subst read_string.simps) auto
  qed
qed

lemma rune_len_take: "rune_len s = Some n \<Longrightarrow> rune_len (take n s @ t) = Some n"
proof -
  assume a: "rune_len s = Some n"
  then have "byte_in (take n s @ t) i lo hi = byte_in s i lo hi" if "i < n" for i lo hi
    using that rune_len_bounds [OF a] by (auto simp: byte_in_def nth_append)
  with a show ?thesis by (auto simp: rune_len_def split: if_splits)
qed

lemma read_rune:
  assumes "rune_len s = Some n" "\<not> byte (hd s) < 0x80"
  shows "read_string (take n s @ t) = push (take n s) (read_string t)"
proof -
  have b: "0 < n" "n \<le> length s" using rune_len_bounds [OF assms(1)] by auto
  then have h: "hd (take n s @ t) = hd s" "s \<noteq> []" by (auto simp: hd_append)
  have "hd s \<noteq> CHR 0x22" "hd s \<noteq> CHR 0x5C" using assms(2) by auto
  with h assms(2) b show ?thesis
    by (subst read_string.simps) (simp add: rune_len_take [OF assms(1)])
qed

theorem read_written_string: "utf8_ok s \<Longrightarrow> read_string (escape_text s @ CHR 0x22 # t) = Some (s, t)"
proof (induction s rule: escape_text.induct)
  case (1 s)
  show ?case
  proof (cases "s = []")
    case True
    then show ?thesis by (subst read_string.simps) (simp add: escape_text.simps)
  next
    case ne: False
    from "1.prems" ne obtain n where n: "rune_len s = Some n" "utf8_ok (drop n s)"
      by (subst (asm) utf8_ok.simps) (auto split: option.splits)
    show ?thesis
    proof (cases "byte (hd s) < (0x80 :: nat)")
      case True
      then have "n = 1" using n ne by (auto simp: rune_len_def byte_in_def hd_conv_nth split: if_splits)
      with n have "utf8_ok (tl s)" by (simp add: drop_Suc)
      with "1.IH"(1) ne True have "read_string (escape_text (tl s) @ CHR 0x22 # t) = Some (tl s, t)" by blast
      with True ne show ?thesis by (subst escape_text.simps) (simp add: read_json_escape)
    next
      case False
      from "1.IH"(3) ne False n have ih: "read_string (escape_text (drop n s) @ CHR 0x22 # t) = Some (drop n s, t)" by blast
      have j: "join_surrogates 0x2028 u = (line_separator, 0)" "join_surrogates 0x2029 u = (paragraph_separator, 0)" for u
        by (simp_all add: join_surrogates_def rune_texts)
      define p where "p = (if take n s = line_separator then separator_escape (CHR ''8'')
           else if take n s = paragraph_separator then separator_escape (CHR ''9'') else take n s)"
      have piece: "read_string (p @ u) = push (take n s) (read_string u)" for u
        using read_u_escape [of "0x2028" u] read_u_escape [of "0x2029" u] j read_rune [OF n(1) False]
        by (auto simp: p_def written_escapes)
      have "escape_text s = p @ escape_text (drop n s)"
        by (subst escape_text.simps) (use ne False n in \<open>simp add: p_def\<close>)
      with piece ih show ?thesis by simp
    qed
  qed
qed

section \<open>A written object is read back\<close>

lemma next_is_Cons: "\<not> (d = CHR 0x20 \<or> d = CHR 0x09 \<or> d = CHR 0x0A \<or> d = CHR 0x0D) \<Longrightarrow> next_is c (d # s) \<longleftrightarrow> d = c"
  by (simp add: next_is_def skip_ws_def has_prefix_def)

lemma after_next_Cons: "\<not> (d = CHR 0x20 \<or> d = CHR 0x09 \<or> d = CHR 0x0A \<or> d = CHR 0x0D) \<Longrightarrow> after_next (d # s) = s"
  by (simp add: after_next_def skip_ws_def)

lemmas token_simps = next_is_Cons after_next_Cons

lemma read_quoted: "utf8_ok s \<Longrightarrow> read_value (Suc n) (quote_text s @ t) = Some (JStr s, t)"
  by (simp add: quote_text_def token_simps read_written_string)

lemma read_member_more:
  assumes "utf8_ok k" "read_value n (v @ CHR '','' # t) = Some (x, CHR '','' # t)"
  shows "read_members (Suc n) (quote_text k @ CHR '':'' # v @ CHR '','' # t) =
    map_option (\<lambda>(ms, r). ((k, x) # ms, r)) (read_members n t)"
  using assms by (simp add: quote_text_def token_simps read_written_string)

lemma read_member_last:
  assumes "utf8_ok k" "read_value n (v @ CHR 0x7D # t) = Some (x, CHR 0x7D # t)"
  shows "read_members (Suc n) (quote_text k @ CHR '':'' # v @ CHR 0x7D # t) = Some ([(k, x)], t)"
  using assms by (simp add: quote_text_def token_simps read_written_string)

text \<open>A number of one digit, before the separator of a member.\<close>

lemma read_small_number: "read_value (Suc n) (''1'' @ CHR '','' # t) = Some (JNum ''1'', CHR '','' # t)"
  by (simp add: token_simps read_number_def read_integer_def read_digits_def read_fraction_def read_exponent_def
      skip_ws_def has_prefix_def is_digit_def less_eq_char_def)

section \<open>Trimming keeps UTF-8\<close>

lemma utf8_ok_drop: "utf8_ok s \<Longrightarrow> rune_len s = Some n \<Longrightarrow> utf8_ok (drop n s)"
  by (subst (asm) utf8_ok.simps) (auto dest: rune_len_bounds)

text \<open>A text that starts with a lead byte can only be split off at the border of two code points.\<close>

lemma rune_len_append:
  assumes "rune_len (s @ p) = Some n" "s \<noteq> []" "p \<noteq> []" "\<not> (0x80 \<le> byte (hd p) \<and> byte (hd p) \<le> 0xBF)"
  shows "n \<le> length s \<and> rune_len s = Some n"
proof -
  have c: "\<not> byte_in (s @ p) i lo hi" if "i = length s" "0x80 \<le> lo" "hi \<le> 0xBF" for i lo hi
    using assms(3,4) that by (auto simp: byte_in_def nth_append hd_conv_nth)
  have le: "n \<le> length s"
  proof (rule ccontr)
    assume "\<not> n \<le> length s"
    then have "length s < n" by simp
    moreover have "n \<le> 4" using assms(1) by (auto simp: rune_len_def split: if_splits)
    moreover have "0 < length s" using assms(2) by simp
    ultimately have "length s = 1 \<or> length s = 2 \<or> length s = 3" by linarith
    with assms(1) \<open>length s < n\<close> show False
      by (auto simp: rune_len_def c split: if_splits)
  qed
  then have "take n (s @ p) = take n s" by simp
  with rune_len_take [OF assms(1), of "drop n s"] le show ?thesis by simp
qed

lemma utf8_ok_prefix:
  "utf8_ok (s @ p) \<Longrightarrow> p \<noteq> [] \<Longrightarrow> \<not> (0x80 \<le> byte (hd p) \<and> byte (hd p) \<le> 0xBF) \<Longrightarrow> utf8_ok s"
proof (induction s rule: measure_induct_rule [where f = length])
  case (less s)
  show ?case
  proof (cases "s = []")
    case False
    from less.prems(1,2) obtain n where n: "rune_len (s @ p) = Some n" "utf8_ok (drop n (s @ p))"
      by (subst (asm) utf8_ok.simps) (auto split: option.splits)
    from rune_len_append [OF n(1) False less.prems(2,3)] have r: "n \<le> length s" "rune_len s = Some n" by auto
    have "utf8_ok (drop n s)"
      using less.IH [of "drop n s"] n(2) r rune_len_bounds [OF r(2)] less.prems(2,3) by auto
    with r False show ?thesis by (subst utf8_ok.simps) simp
  qed (simp add: utf8_ok.simps)
qed

lemma space_seqs_runes: "p \<in> set space_seqs \<Longrightarrow> rune_len p = Some (length p) \<and> \<not> (0x80 \<le> byte (hd p) \<and> byte (hd p) \<le> 0xBF)"
proof -
  have "\<forall>p \<in> set space_seqs. rune_len p = Some (length p) \<and> \<not> (0x80 \<le> byte (hd p) \<and> byte (hd p) \<le> 0xBF)"
    by code_simp
  then show "p \<in> set space_seqs \<Longrightarrow> ?thesis" by blast
qed

lemma utf8_ok_trim_left: "utf8_ok s \<Longrightarrow> utf8_ok (trim_left s)"
proof (induction s rule: trim_left.induct)
  case (1 s)
  show ?case
  proof (cases "leading_space s")
    case None
    then show ?thesis using "1.prems" by (simp add: trim_left.simps)
  next
    case (Some p)
    then have p: "p \<in> set space_seqs" "has_prefix s p" by (auto simp: leading_space_def find_Some_iff in_set_conv_nth)
    then obtain t where t: "s = p @ t" by (auto simp: has_prefix_iff)
    have "rune_len s = Some (length p)"
      using rune_len_take [of p "length p" t] space_seqs_runes [OF p(1)] t by simp
    from utf8_ok_drop [OF "1.prems" this] "1.IH" [OF Some] show ?thesis by (subst trim_left.simps) (simp add: Some)
  qed
qed

lemma utf8_ok_trim_right: "utf8_ok s \<Longrightarrow> utf8_ok (trim_right s)"
proof (induction s rule: trim_right.induct)
  case (1 s)
  show ?case
  proof (cases "trailing_space s")
    case None
    then show ?thesis using "1.prems" by (simp add: trim_right.simps)
  next
    case (Some p)
    then have p: "p \<in> set space_seqs" "has_suffix s p" by (auto simp: trailing_space_def find_Some_iff in_set_conv_nth)
    then obtain t where t: "s = t @ p" by (auto simp: has_suffix_iff)
    have "utf8_ok t"
      using utf8_ok_prefix [of t p] "1.prems" t space_seqs_runes [OF p(1)] space_seqs_nonempty [OF p(1)] by blast
    moreover have "trim_right s = trim_right t" using Some t by (subst trim_right.simps) simp
    ultimately show ?thesis using "1.IH" [OF Some] t by simp
  qed
qed

lemma utf8_ok_trim: "utf8_ok s \<Longrightarrow> utf8_ok (trim_space s)"
  by (simp add: trim_space_def utf8_ok_trim_left utf8_ok_trim_right)

end
