(* ===== verification/FallbackRecord.thy ===== *)
theory FallbackRecord
  imports Availability JsonText
begin

text \<open>
  The record of the tail failure fallback journal (internal/store/tail_failure_fallback.go): what a
  failure is normalised to, the JSON text and the file name it is stored under, and the strict reader
  of a stored text. \<open>sha256\<close> is the digest function of \<open>crypto/sha256\<close>, as 32 bytes.
\<close>

section \<open>Records\<close>

record tailMessageFailureFallbackRecord =
  recVersion :: int
  recEventKind :: string
  recFailureKind :: string
  recGuildID :: string
  recChannelID :: string
  recMessageID :: string

definition tailMessageFailureFallbackVersion :: int where
  "tailMessageFailureFallbackVersion = 1"

definition tailMessageFailureFallbackMaxSize :: nat where
  "tailMessageFailureFallbackMaxSize = 4096"

text \<open>The store has its own copies of the normalisers of the event kind and of the failure kind.\<close>

definition storeNormalizeTailMessageEventKind :: "string \<Rightarrow> string option" where
  "storeNormalizeTailMessageEventKind value0 =
     (let kind = trim_prefix (to_lower (trim_space value0)) ''message_'' in
      if kind = ''create'' \<or> kind = ''update'' \<or> kind = ''delete'' then Some kind else None)"

definition normalizeTailMessageFailureKind :: "string \<Rightarrow> string option" where
  "normalizeTailMessageFailureKind value0 =
     (let kind = map (\<lambda>c. if c = CHR ''-'' then CHR ''_'' else c) (to_lower (trim_space value0)) in
      if kind = ''returned_error'' \<or> kind = ''panic'' \<or> kind = ''timeout'' then Some kind else None)"

definition storeTailMessageFailureSentinel :: "string \<Rightarrow> (string \<times> string) option" where
  "storeTailMessageFailureSentinel kind =
     (if kind = ''returned_error'' then Some (''returned_error'', ''tail message handler returned an error'')
      else if kind = ''panic'' then Some (''panic'', ''tail message handler panicked'')
      else if kind = ''timeout'' then Some (''timeout'', ''tail message handler timed out'')
      else None)"

section \<open>Text\<close>

text \<open>\<open>json.Marshal\<close> of the record: its fields in the order of the struct.\<close>

definition marshal_record :: "tailMessageFailureFallbackRecord \<Rightarrow> string" where
  "marshal_record r =
     CHR 0x7B # quote_text ''version'' @ CHR '':'' # show_int (recVersion r) @ CHR '','' #
     quote_text ''event_kind'' @ CHR '':'' # quote_text (recEventKind r) @ CHR '','' #
     quote_text ''failure_kind'' @ CHR '':'' # quote_text (recFailureKind r) @ CHR '','' #
     quote_text ''guild_id'' @ CHR '':'' # quote_text (recGuildID r) @ CHR '','' #
     quote_text ''channel_id'' @ CHR '':'' # quote_text (recChannelID r) @ CHR '','' #
     quote_text ''message_id'' @ CHR '':'' # quote_text (recMessageID r) @ [CHR 0x7D]"

definition record_keys :: "string list" where
  "record_keys = [''version'', ''event_kind'', ''failure_kind'', ''guild_id'', ''channel_id'', ''message_id'']"

text \<open>A field of type \<open>int\<close>: an integer literal within 64 bits, \<open>null\<close> leaves it.\<close>

definition int_literal :: "string \<Rightarrow> int option" where
  "int_literal s =
     (let ds = (if has_prefix s ''-'' then tl s else s);
          n = int (dec_val ds); i = (if has_prefix s ''-'' then - n else n) in
      if ds \<noteq> [] \<and> list_all is_digit ds \<and> - (2 ^ 63) \<le> i \<and> i < 2 ^ 63 then Some i else None)"

fun dec_int :: "json list \<Rightarrow> int \<Rightarrow> int option" where
  "dec_int [] acc = Some acc"
| "dec_int (JNum s # vs) acc = (case int_literal s of None \<Rightarrow> None | Some i \<Rightarrow> dec_int vs i)"
| "dec_int (JNull # vs) acc = dec_int vs acc"
| "dec_int (v # vs) acc = None"

text \<open>\<open>Decode\<close> into the record with \<open>DisallowUnknownFields\<close>.\<close>

definition decode_record :: "json \<Rightarrow> tailMessageFailureFallbackRecord option" where
  "decode_record v =
     (case dec_fields v of
        None \<Rightarrow> None
      | Some obj \<Rightarrow>
          if \<exists>k \<in> set (map fst obj). fold_key k \<notin> set (map fold_key record_keys) then None
          else
            let str = (\<lambda>k. dec_string (key_values k obj) []) in
            (case (dec_int (key_values ''version'' obj) 0, str ''event_kind'', str ''failure_kind'', str ''guild_id'',
                   str ''channel_id'', str ''message_id'') of
               (Some ver, Some ek, Some fk, Some g, Some c, Some m) \<Rightarrow>
                 Some \<lparr>recVersion = ver, recEventKind = ek, recFailureKind = fk, recGuildID = g,
                       recChannelID = c, recMessageID = m\<rparr>
             | _ \<Rightarrow> None))"

text \<open>\<open>hex.EncodeToString\<close>.\<close>

definition hex_string :: "nat list \<Rightarrow> string" where
  "hex_string bs = concat (map (\<lambda>b. [hex_digit (b div 16), hex_digit (b mod 16)]) bs)"

section \<open>Normalising and validating\<close>

definition normalizeTailMessageFailureFallback ::
  "TailMessageFailureFallback \<Rightarrow> go_error + tailMessageFailureFallbackRecord" where
  "normalizeTailMessageFailureFallback fallback =
     (case storeNormalizeTailMessageEventKind (fbEventKind fallback) of
        None \<Rightarrow> Inl (ErrText ''tail message event kind must be create, update, or delete'')
      | Some eventKind \<Rightarrow>
          (case normalizeTailMessageFailureKind (fbFailureKind fallback) of
             None \<Rightarrow> Inl (ErrText ''tail message failure kind must be returned_error, panic, or timeout'')
           | Some failureKind \<Rightarrow>
               let r = \<lparr>recVersion = tailMessageFailureFallbackVersion, recEventKind = eventKind,
                        recFailureKind = failureKind, recGuildID = trim_space (fbGuildID fallback),
                        recChannelID = trim_space (fbChannelID fallback), recMessageID = trim_space (fbMessageID fallback)\<rparr> in
               if recGuildID r = [] \<or> recChannelID r = [] \<or> recMessageID r = []
               then Inl (ErrText ''tail message failure fallback requires guild, channel, and message ids'')
               else if length (marshal_record r) > tailMessageFailureFallbackMaxSize
               then Inl (ErrText ''tail message failure fallback exceeds size limit'')
               else Inr r))"

definition validateCommittedTailMessageFailure :: "tailMessageFailureFallbackRecord \<Rightarrow> go_error option" where
  "validateCommittedTailMessageFailure r =
     (let trimmed = (\<lambda>s. s \<noteq> [] \<and> trim_space s = s) in
      if recVersion r \<noteq> tailMessageFailureFallbackVersion
      then Some (ErrText ''committed tail message failure fallback version is unsupported'')
      else if storeNormalizeTailMessageEventKind (recEventKind r) \<noteq> Some (recEventKind r)
      then Some (ErrText ''committed tail message failure fallback event kind is invalid'')
      else if normalizeTailMessageFailureKind (recFailureKind r) \<noteq> Some (recFailureKind r)
      then Some (ErrText ''committed tail message failure fallback failure kind is invalid'')
      else if \<not> (trimmed (recGuildID r) \<and> trimmed (recChannelID r) \<and> trimmed (recMessageID r))
      then Some (ErrText ''committed tail message failure fallback identity is invalid'')
      else None)"

text \<open>
  The text part of \<open>readCommittedTailMessageFailure\<close>: from the check of the size of the text read to
  the check that it is canonical.
\<close>

definition decode_committed :: "(string \<Rightarrow> nat list) \<Rightarrow> string \<Rightarrow> string \<Rightarrow> go_error + tailMessageFailureFallbackRecord" where
  "decode_committed sha256 digestHex body =
     (if body = [] \<or> length body > tailMessageFailureFallbackMaxSize
      then Inl (ErrText ''committed tail message failure fallback size is invalid'')
      else if hex_string (sha256 body) \<noteq> digestHex
      then Inl (ErrText ''committed tail message failure fallback digest does not match filename'')
      else case (case read_json body of None \<Rightarrow> None | Some (v, rest) \<Rightarrow> map_option (\<lambda>r. (r, rest)) (decode_record v)) of
        None \<Rightarrow> Inl (ErrText ''committed tail message failure fallback JSON is invalid'')
      | Some (r, rest) \<Rightarrow>
          if skip_ws rest \<noteq> [] then Inl (ErrText ''committed tail message failure fallback has trailing data'')
          else (case validateCommittedTailMessageFailure r of
                  Some e \<Rightarrow> Inl e
                | None \<Rightarrow>
                    if marshal_record r \<noteq> body
                    then Inl (ErrText ''committed tail message failure fallback JSON is not canonical'')
                    else Inr r))"

section \<open>File names\<close>

fun split_dash :: "string \<Rightarrow> string list" where
  "split_dash [] = [[]]"
| "split_dash (c # s) =
     (if c = CHR ''-'' then [] # split_dash s
      else case split_dash s of [] \<Rightarrow> [[c]] | p # ps \<Rightarrow> (c # p) # ps)"

definition validLowerHex :: "string \<Rightarrow> nat \<Rightarrow> bool" where
  "validLowerHex value0 byteLength \<longleftrightarrow>
     length value0 = byteLength * 2 \<and> value0 = to_lower value0 \<and> list_all (\<lambda>c. hex_value c \<noteq> None) value0"

definition tailMessageFailureOccurrenceBytes :: nat where
  "tailMessageFailureOccurrenceBytes = 16"

definition tailMessageFailureFallbackTempPrefix :: string where
  "tailMessageFailureFallbackTempPrefix = ''.tmp-''"

definition tailMessageFailureFallbackExtension :: string where
  "tailMessageFailureFallbackExtension = ''.json''"

definition tailMessageFailureReceiptPrefix :: string where
  "tailMessageFailureReceiptPrefix = ''tail-message-failure-fallback:''"

text \<open>The artifact id and the digest of a committed name.\<close>

definition tailMessageFailureNameParts :: "string \<Rightarrow> (string \<times> string) option" where
  "tailMessageFailureNameParts name =
     (if \<not> has_suffix name tailMessageFailureFallbackExtension then None
      else
        let artifactID = trim_suffix name tailMessageFailureFallbackExtension in
        case split_dash artifactID of
          [digest] \<Rightarrow> if validLowerHex digest 32 then Some (artifactID, digest) else None
        | [occurrence, digest] \<Rightarrow>
            if validLowerHex occurrence tailMessageFailureOccurrenceBytes \<and> validLowerHex digest 32
            then Some (artifactID, digest) else None
        | _ \<Rightarrow> None)"

definition tailMessageFailureReceiptScope :: "string \<Rightarrow> string option" where
  "tailMessageFailureReceiptScope name =
     map_option (\<lambda>(artifactID, _). tailMessageFailureReceiptPrefix @ artifactID) (tailMessageFailureNameParts name)"

definition commit_name :: "nat list \<Rightarrow> nat list \<Rightarrow> string" where
  "commit_name occurrence digest =
     hex_string occurrence @ ''-'' @ hex_string digest @ tailMessageFailureFallbackExtension"

text \<open>The documented shape of a SHA-256 digest: 32 bytes.\<close>

definition digest_ok :: "(string \<Rightarrow> nat list) \<Rightarrow> bool" where
  "digest_ok sha256 \<longleftrightarrow> (\<forall>s. length (sha256 s) = 32 \<and> list_all (\<lambda>b. b < 256) (sha256 s))"

section \<open>A written record is read back\<close>

definition valid_record :: "tailMessageFailureFallbackRecord \<Rightarrow> bool" where
  "valid_record r \<longleftrightarrow> validateCommittedTailMessageFailure r = None"

text \<open>The identifiers are texts: what the gateway's JSON decoder hands over is UTF-8.\<close>

definition utf8_record :: "tailMessageFailureFallbackRecord \<Rightarrow> bool" where
  "utf8_record r \<longleftrightarrow> utf8_ok (recGuildID r) \<and> utf8_ok (recChannelID r) \<and> utf8_ok (recMessageID r)"

definition record_object :: "tailMessageFailureFallbackRecord \<Rightarrow> (string \<times> json) list" where
  "record_object r =
     [(''version'', JNum ''1''), (''event_kind'', JStr (recEventKind r)), (''failure_kind'', JStr (recFailureKind r)),
      (''guild_id'', JStr (recGuildID r)), (''channel_id'', JStr (recChannelID r)), (''message_id'', JStr (recMessageID r))]"

lemma kind_texts_utf8:
  "storeNormalizeTailMessageEventKind s = Some k \<Longrightarrow> utf8_ok k"
  "normalizeTailMessageFailureKind s = Some k \<Longrightarrow> utf8_ok k"
proof -
  have "utf8_ok ''create''" "utf8_ok ''update''" "utf8_ok ''delete''" "utf8_ok ''returned_error''" "utf8_ok ''panic''" "utf8_ok ''timeout''"
    by code_simp+
  then show "storeNormalizeTailMessageEventKind s = Some k \<Longrightarrow> utf8_ok k" "normalizeTailMessageFailureKind s = Some k \<Longrightarrow> utf8_ok k"
    by (auto simp: storeNormalizeTailMessageEventKind_def normalizeTailMessageFailureKind_def Let_def split: if_splits)
qed

lemma valid_recordD:
  assumes "valid_record r"
  shows "recVersion r = 1" "storeNormalizeTailMessageEventKind (recEventKind r) = Some (recEventKind r)"
    "normalizeTailMessageFailureKind (recFailureKind r) = Some (recFailureKind r)"
    "recGuildID r \<noteq> []" "recChannelID r \<noteq> []" "recMessageID r \<noteq> []"
    "trim_space (recGuildID r) = recGuildID r" "trim_space (recChannelID r) = recChannelID r" "trim_space (recMessageID r) = recMessageID r"
  using assms by (auto simp: valid_record_def validateCommittedTailMessageFailure_def Let_def
      tailMessageFailureFallbackVersion_def split: if_splits)

lemma record_keys_utf8: "list_all utf8_ok record_keys"
  by code_simp

text \<open>\<open>reads_as s t\<close>: the written form of \<open>s\<close> is read as \<open>t\<close>.\<close>

definition reads_as :: "string \<Rightarrow> string \<Rightarrow> bool" where
  "reads_as s t \<longleftrightarrow> (\<forall>m x. read_value (Suc m) (quote_text s @ x) = Some (JStr t, x))"

lemma reads_as_self: "utf8_ok s \<Longrightarrow> reads_as s s"
  by (simp only: reads_as_def read_quoted simp_thms)

lemma marshal_size: "20 \<le> length (marshal_record r)"
  by (simp add: marshal_record_def quote_text_def escape_text.simps json_escape_def)

lemma marshal_reads_as:
  assumes "recVersion r = 1" "reads_as (recEventKind r) (recEventKind q)" "reads_as (recFailureKind r) (recFailureKind q)"
    "reads_as (recGuildID r) (recGuildID q)" "reads_as (recChannelID r) (recChannelID q)" "reads_as (recMessageID r) (recMessageID q)"
  shows "read_json (marshal_record r) = Some (JObj (record_object q), [])"
proof -
  have k: "utf8_ok ''version''" "utf8_ok ''event_kind''" "utf8_ok ''failure_kind''" "utf8_ok ''guild_id''" "utf8_ok ''channel_id''" "utf8_ok ''message_id''"
    using record_keys_utf8 by (simp_all add: record_keys_def)
  note u = assms(2-6) [unfolded reads_as_def, rule_format]
  have one: "show_int 1 = ''1''" by code_simp
  have first: "read_members (Suc (Suc m)) (quote_text ''version'' @ CHR '':'' # CHR ''1'' # CHR '','' # x) =
      map_option (\<lambda>(ms, y). ((''version'', JNum ''1'') # ms, y)) (read_members (Suc m) x)" for m x
    using read_member_more [OF k(1) read_small_number, of m x] by (simp del: read_members.simps)
  have "\<exists>x. quote_text ''version'' = CHR 0x22 # x" by (simp add: quote_text_def)
  then have s: "\<not> next_is (CHR 0x7D) (quote_text ''version'' @ x)" for x by (auto simp: token_simps)
  have read: "read_value (Suc (Suc (Suc (Suc (Suc (Suc (Suc (Suc n)))))))) (marshal_record r) = Some (JObj (record_object q), [])" for n
    by (simp add: marshal_record_def record_object_def token_simps s assms(1) one
        first read_member_more [OF k(2) u(1)]
        read_member_more [OF k(3) u(2)] read_member_more [OF k(4) u(3)] read_member_more [OF k(5) u(4)]
        read_member_last [OF k(6) u(5)] del: read_members.simps)
  obtain n where "Suc (2 * length (marshal_record r)) = Suc (Suc (Suc (Suc (Suc (Suc (Suc (Suc n)))))))"
    using marshal_size [of r] by (intro that [of "2 * length (marshal_record r) - 7"]) linarith
  with read [of n] show ?thesis by (simp add: read_json_def)
qed

lemma record_object_decoded:
  assumes "recVersion r = 1"
  shows "decode_record (JObj (record_object r)) = Some r"
proof -
  have f: "fold_key ''version'' = ''version''" "fold_key ''event_kind'' = ''event_kind''" "fold_key ''failure_kind'' = ''failure_kind''"
    "fold_key ''guild_id'' = ''guild_id''" "fold_key ''channel_id'' = ''channel_id''" "fold_key ''message_id'' = ''message_id''"
    by code_simp+
  have "dec_val ''1'' = 1" "list_all is_digit ''1''" "\<not> has_prefix ''1'' ''-''" by code_simp+
  then have o: "int_literal ''1'' = Some 1" by (simp add: int_literal_def)
  have kv: "key_values ''version'' (record_object r) = [JNum ''1'']"
    "key_values ''event_kind'' (record_object r) = [JStr (recEventKind r)]"
    "key_values ''failure_kind'' (record_object r) = [JStr (recFailureKind r)]"
    "key_values ''guild_id'' (record_object r) = [JStr (recGuildID r)]"
    "key_values ''channel_id'' (record_object r) = [JStr (recChannelID r)]"
    "key_values ''message_id'' (record_object r) = [JStr (recMessageID r)]"
    by (simp_all add: key_values_def record_object_def f)
  have keys: "map fst (record_object r) = record_keys" by (simp add: record_object_def record_keys_def)
  have "\<not> (\<exists>k \<in> set (map fst (record_object r)). fold_key k \<notin> set (map fold_key record_keys))"
    unfolding keys by auto
  with assms show ?thesis unfolding decode_record_def dec_fields.simps by (simp add: kv o del: set_map)
qed

lemma marshal_read:
  assumes "valid_record r" "utf8_record r"
  shows "read_json (marshal_record r) = Some (JObj (record_object r), [])"
  using valid_recordD [OF assms(1)] assms(2) kind_texts_utf8
  by (intro marshal_reads_as) (auto simp: utf8_record_def intro!: reads_as_self)

lemma decode_marshalled:
  assumes "valid_record r" "utf8_record r" "length (marshal_record r) \<le> tailMessageFailureFallbackMaxSize"
  shows "decode_committed sha256 (hex_string (sha256 (marshal_record r))) (marshal_record r) = Inr r"
proof -
  have "marshal_record r \<noteq> []" using marshal_size [of r] by auto
  moreover have "decode_record (JObj (record_object r)) = Some r"
    using valid_recordD(1) [OF assms(1)] by (rule record_object_decoded)
  ultimately show ?thesis
    using assms unfolding decode_committed_def by (simp add: marshal_read valid_record_def skip_ws_def)
qed

lemma decode_committedD:
  assumes "decode_committed sha256 digestHex body = Inr r"
  shows "body = marshal_record r" "valid_record r" "digestHex = hex_string (sha256 body)"
    "length body \<le> tailMessageFailureFallbackMaxSize" "body \<noteq> []"
  using assms by (auto simp: decode_committed_def valid_record_def split: if_splits option.splits)

section \<open>Normalised failures\<close>

lemma trailing_None_trim: "trailing_space (trim_right s) = None"
proof (induction s rule: trim_right.induct)
  case (1 s)
  show ?case by (subst trim_right.simps) (auto split: option.split intro: "1.IH")
qed

lemma leading_None_trim: "leading_space (trim_left s) = None"
proof (induction s rule: trim_left.induct)
  case (1 s)
  show ?case by (subst trim_left.simps) (auto split: option.split intro: "1.IH")
qed

lemma trim_right_prefix: "\<exists>t. s = trim_right s @ t"
proof (induction s rule: trim_right.induct)
  case (1 s)
  show ?case
  proof (cases "trailing_space s")
    case (Some p)
    from "1.IH" [OF Some] obtain t where "take (length s - length p) s = trim_right (take (length s - length p) s) @ t" by blast
    then have "s = trim_right (take (length s - length p) s) @ t @ drop (length s - length p) s"
      by (metis append.assoc append_take_drop_id)
    with Some show ?thesis by (subst trim_right.simps) auto
  qed (simp add: trim_right.simps)
qed

lemma trim_space_idem [simp]: "trim_space (trim_space s) = trim_space s"
proof -
  let ?t = "trim_space s"
  have "leading_space ?t = None"
  proof -
    obtain u where u: "trim_left s = ?t @ u" using trim_right_prefix [of "trim_left s"] by (auto simp: trim_space_def)
    have "has_prefix ?t p \<Longrightarrow> has_prefix (trim_left s) p" for p unfolding u by (auto simp: has_prefix_iff)
    with leading_None_trim [of s] show ?thesis by (auto simp: leading_space_def find_None_iff)
  qed
  moreover have "trailing_space ?t = None" by (simp add: trim_space_def trailing_None_trim)
  ultimately show ?thesis unfolding trim_space_def [of "?t"] by (simp add: trim_left.simps trim_right.simps)
qed

lemma kinds_fixed:
  "storeNormalizeTailMessageEventKind s = Some k \<Longrightarrow> storeNormalizeTailMessageEventKind k = Some k"
  "normalizeTailMessageFailureKind s = Some f \<Longrightarrow> normalizeTailMessageFailureKind f = Some f"
proof -
  have "storeNormalizeTailMessageEventKind ''create'' = Some ''create''" "storeNormalizeTailMessageEventKind ''update'' = Some ''update''"
    "storeNormalizeTailMessageEventKind ''delete'' = Some ''delete''" by code_simp+
  then show "storeNormalizeTailMessageEventKind s = Some k \<Longrightarrow> storeNormalizeTailMessageEventKind k = Some k"
    by (auto simp: storeNormalizeTailMessageEventKind_def [of s] Let_def split: if_splits)
  have "normalizeTailMessageFailureKind ''returned_error'' = Some ''returned_error''" "normalizeTailMessageFailureKind ''panic'' = Some ''panic''"
    "normalizeTailMessageFailureKind ''timeout'' = Some ''timeout''" by code_simp+
  then show "normalizeTailMessageFailureKind s = Some f \<Longrightarrow> normalizeTailMessageFailureKind f = Some f"
    by (auto simp: normalizeTailMessageFailureKind_def [of s] Let_def split: if_splits)
qed

lemma normalized_valid:
  assumes "normalizeTailMessageFailureFallback f = Inr r"
  shows "valid_record r" "length (marshal_record r) \<le> tailMessageFailureFallbackMaxSize"
    "utf8_ok (fbGuildID f) \<Longrightarrow> utf8_ok (fbChannelID f) \<Longrightarrow> utf8_ok (fbMessageID f) \<Longrightarrow> utf8_record r"
    "recGuildID r = trim_space (fbGuildID f)" "recChannelID r = trim_space (fbChannelID f)" "recMessageID r = trim_space (fbMessageID f)"
    "storeNormalizeTailMessageEventKind (fbEventKind f) = Some (recEventKind r)"
    "normalizeTailMessageFailureKind (fbFailureKind f) = Some (recFailureKind r)"
  using assms
  by (auto simp: normalizeTailMessageFailureFallback_def valid_record_def validateCommittedTailMessageFailure_def Let_def
      utf8_record_def utf8_ok_trim split: option.splits if_splits dest: kinds_fixed)

lemma valid_sentinel:
  assumes "valid_record r"
  shows "\<exists>msg. storeTailMessageFailureSentinel (recFailureKind r) = Some (recFailureKind r, msg)"
  using valid_recordD(3) [OF assms]
  by (auto simp: normalizeTailMessageFailureKind_def storeTailMessageFailureSentinel_def Let_def split: if_splits)

section \<open>Names\<close>

lemma hex_digit_lower: "k < 16 \<Longrightarrow> hex_digit k \<in> set ''0123456789abcdef''"
proof -
  have "list_all (\<lambda>k. hex_digit k \<in> set ''0123456789abcdef'') [0..<16]" by code_simp
  then show "k < 16 \<Longrightarrow> ?thesis" unfolding list_all_iff by simp
qed

lemma hex_chars: "c \<in> set ''0123456789abcdef'' \<Longrightarrow> lower_char c = c \<and> byte c < 0x80 \<and> hex_value c \<noteq> None \<and> c \<noteq> CHR ''-'' \<and> c \<noteq> CHR ''.''"
proof -
  have "list_all (\<lambda>c. lower_char c = c \<and> byte c < (0x80 :: nat) \<and> hex_value c \<noteq> None \<and> c \<noteq> CHR ''-'' \<and> c \<noteq> CHR ''.'') ''0123456789abcdef''"
    by code_simp
  then show "c \<in> set ''0123456789abcdef'' \<Longrightarrow> ?thesis" unfolding list_all_iff by blast
qed

lemma to_lower_ascii: "list_all (\<lambda>c. lower_char c = c \<and> byte c < (0x80 :: nat)) s \<Longrightarrow> to_lower s = s"
proof (induction s)
  case (Cons c s)
  have "c \<noteq> CHR 0xC4" "c \<noteq> CHR 0xE2" using Cons.prems by auto
  with Cons show ?case by (subst to_lower.simps) (simp add: has_prefix_def)
qed (simp add: to_lower.simps)

lemma hex_string_set: "list_all (\<lambda>b. b < 256) bs \<Longrightarrow> set (hex_string bs) \<subseteq> set ''0123456789abcdef''"
proof (induction bs)
  case (Cons b bs)
  then have "hex_digit (b div 16) \<in> set ''0123456789abcdef''" "hex_digit (b mod 16) \<in> set ''0123456789abcdef''"
    using hex_digit_lower [of "b div 16"] hex_digit_lower [of "b mod 16"] by auto
  with Cons show ?case by (simp add: hex_string_def)
qed (simp add: hex_string_def)

lemma hex_string_length: "length (hex_string bs) = length bs * 2"
  by (induction bs) (simp_all add: hex_string_def)

lemma hex_string_valid: "list_all (\<lambda>b. b < 256) bs \<Longrightarrow> validLowerHex (hex_string bs) (length bs)"
proof -
  assume a: "list_all (\<lambda>b. b < 256) bs"
  then have "\<forall>c \<in> set (hex_string bs). lower_char c = c \<and> byte c < (0x80 :: nat) \<and> hex_value c \<noteq> None"
    using hex_string_set [OF a] hex_chars by blast
  then show ?thesis using to_lower_ascii [of "hex_string bs"]
    by (auto simp: validLowerHex_def hex_string_length list_all_iff)
qed

lemma split_dash_none: "CHR ''-'' \<notin> set s \<Longrightarrow> split_dash s = [s]"
  by (induction s) auto

lemma split_dash_once: "CHR ''-'' \<notin> set s \<Longrightarrow> split_dash (s @ CHR ''-'' # t) = s # split_dash t"
  by (induction s) auto

lemma commit_name_parts:
  assumes "list_all (\<lambda>b. b < 256) occ" "length occ = 16" "list_all (\<lambda>b. b < 256) dig" "length dig = 32"
  shows "tailMessageFailureNameParts (commit_name occ dig) = Some (hex_string occ @ ''-'' @ hex_string dig, hex_string dig)"
proof -
  have n: "CHR ''-'' \<notin> set (hex_string occ)" "CHR ''-'' \<notin> set (hex_string dig)"
    using hex_string_set [OF assms(1)] hex_string_set [OF assms(3)] hex_chars by blast+
  have v: "validLowerHex (hex_string occ) 16" "validLowerHex (hex_string dig) 32"
    using hex_string_valid [OF assms(1)] hex_string_valid [OF assms(3)] assms(2,4) by simp_all
  have c: "commit_name occ dig = (hex_string occ @ ''-'' @ hex_string dig) @ tailMessageFailureFallbackExtension"
    by (simp add: commit_name_def)
  have "has_suffix (commit_name occ dig) tailMessageFailureFallbackExtension" unfolding c by (auto simp: has_suffix_iff)
  moreover have "trim_suffix (commit_name occ dig) tailMessageFailureFallbackExtension = hex_string occ @ ''-'' @ hex_string dig"
    unfolding c trim_suffix_def cut_suffix_append by simp
  ultimately show ?thesis
    using n v by (simp add: tailMessageFailureNameParts_def split_dash_once split_dash_none tailMessageFailureOccurrenceBytes_def)
qed

lemma name_parts_name:
  assumes "tailMessageFailureNameParts name = Some (a, d)"
  shows "name = a @ tailMessageFailureFallbackExtension"
proof -
  from assms have "has_suffix name tailMessageFailureFallbackExtension" "a = trim_suffix name tailMessageFailureFallbackExtension"
    by (auto simp: tailMessageFailureNameParts_def Let_def split: if_splits list.splits)
  then show ?thesis by (auto simp: has_suffix_iff trim_suffix_def)
qed

lemma receipt_scope_inj:
  "tailMessageFailureReceiptScope n = Some s \<Longrightarrow> tailMessageFailureReceiptScope m = Some s \<Longrightarrow> n = m"
  by (auto simp: tailMessageFailureReceiptScope_def dest!: name_parts_name)

lemma hex_not_dot: "validLowerHex s n \<Longrightarrow> CHR ''.'' \<notin> set s"
proof -
  have "hex_value (CHR ''.'') = None" by code_simp
  then show "validLowerHex s n \<Longrightarrow> ?thesis" by (auto simp: validLowerHex_def list_all_iff)
qed

lemma split_dash_hd: "c \<noteq> CHR ''-'' \<Longrightarrow> \<exists>p ps. split_dash (c # s) = (c # p) # ps"
  by (auto split: list.split)

text \<open>A committed name is never taken for a temporary one.\<close>

lemma committed_not_temp:
  assumes "tailMessageFailureNameParts name = Some (a, d)"
  shows "\<not> has_prefix name tailMessageFailureFallbackTempPrefix"
proof
  assume t: "has_prefix name tailMessageFailureFallbackTempPrefix"
  have a: "split_dash a = [d] \<and> validLowerHex d 32 \<or> (\<exists>p. split_dash a = [p, d] \<and> validLowerHex p 16 \<and> validLowerHex d 32)"
    using assms by (auto simp: tailMessageFailureNameParts_def Let_def tailMessageFailureOccurrenceBytes_def split: if_splits list.splits)
  have n: "name = a @ ''.json''" using name_parts_name [OF assms] by (simp add: tailMessageFailureFallbackExtension_def)
  show False
  proof (cases a)
    case Nil
    with a show False by (auto simp: validLowerHex_def)
  next
    case (Cons c b)
    from t n Cons have c: "c = CHR ''.''" by (auto simp: has_prefix_def tailMessageFailureFallbackTempPrefix_def)
    obtain p ps where "split_dash a = (c # p) # ps" using split_dash_hd [of c b] c Cons by auto
    moreover have "\<not> validLowerHex (c # p) k" for k using hex_not_dot [of "c # p" k] c by auto
    ultimately show False using a by auto
  qed
qed

lemma receipt_scope_some: "tailMessageFailureNameParts n = Some (a, d) \<Longrightarrow> tailMessageFailureReceiptScope n = Some (tailMessageFailureReceiptPrefix @ a)"
  by (simp add: tailMessageFailureReceiptScope_def)

section \<open>Round trip\<close>

text \<open>
  C14. What the journal writes, the importer reads: the text of a normalised failure whose identifiers
  are UTF-8 passes every check of the importer and gives the same record back, and the importer
  accepts no other text: whatever it accepts is the canonical text of the record it returns, under
  the digest in the name, and the record is valid.
\<close>
theorem fallback_record_roundtrip:
  assumes "normalizeTailMessageFailureFallback f = Inr r"
    and "utf8_ok (fbGuildID f)" "utf8_ok (fbChannelID f)" "utf8_ok (fbMessageID f)"
  shows "decode_committed sha256 (hex_string (sha256 (marshal_record r))) (marshal_record r) = Inr r \<and>
    (\<forall>digest body q. decode_committed sha256 digest body = Inr q \<longrightarrow>
       body = marshal_record q \<and> digest = hex_string (sha256 (marshal_record q)) \<and>
       validateCommittedTailMessageFailure q = None)"
  using decode_marshalled [OF normalized_valid(1) [OF assms(1)] normalized_valid(3) [OF assms] normalized_valid(2) [OF assms(1)]]
  by (auto dest: decode_committedD simp: valid_record_def)

definition lost_update :: TailMessageFailureFallback where
  "lost_update = \<lparr>fbEventKind = ''MESSAGE_UPDATE'', fbFailureKind = ''returned-error'', fbGuildID = ''1'',
     fbChannelID = '' 5'', fbMessageID = ''4<2''\<rparr>"

definition lost_update_record :: tailMessageFailureFallbackRecord where
  "lost_update_record = \<lparr>recVersion = 1, recEventKind = ''update'', recFailureKind = ''returned_error'', recGuildID = ''1'',
     recChannelID = ''5'', recMessageID = ''4<2''\<rparr>"

theorem fallback_record_roundtrip_witness:
  "normalizeTailMessageFailureFallback lost_update = Inr lost_update_record \<and>
   decode_committed (\<lambda>s. replicate 32 (length s mod 256)) (hex_string (replicate 32 (length (marshal_record lost_update_record) mod 256)))
     (marshal_record lost_update_record) = Inr lost_update_record"
proof -
  have n: "normalizeTailMessageFailureFallback lost_update = Inr lost_update_record" by code_simp
  have u: "utf8_ok (fbGuildID lost_update)" "utf8_ok (fbChannelID lost_update)" "utf8_ok (fbMessageID lost_update)" by code_simp+
  from fallback_record_roundtrip [OF n u, of "\<lambda>s. replicate 32 (length s mod 256)"] n show ?thesis by blast
qed

text \<open>
  Without UTF-8 the round trip fails: an identifier with a byte that is no UTF-8 is accepted and
  written, but its text is read as U+FFFD, whose canonical text is another one. The importer refuses
  the file, and with it the whole journal.
\<close>

definition broken_failure :: TailMessageFailureFallback where
  "broken_failure = \<lparr>fbEventKind = ''create'', fbFailureKind = ''panic'', fbGuildID = [CHR 0xFF], fbChannelID = ''5'', fbMessageID = ''42''\<rparr>"

definition broken_record :: tailMessageFailureFallbackRecord where
  "broken_record = \<lparr>recVersion = 1, recEventKind = ''create'', recFailureKind = ''panic'', recGuildID = [CHR 0xFF],
     recChannelID = ''5'', recMessageID = ''42''\<rparr>"

lemma broken_texts_utf8: "utf8_ok ''create''" "utf8_ok ''panic''" "utf8_ok ''5''" "utf8_ok ''42''"
  by code_simp+

lemma invalid_text_is_not_canonical:
  "normalizeTailMessageFailureFallback broken_failure = Inr broken_record \<and>
   decode_committed sha256 (hex_string (sha256 (marshal_record broken_record))) (marshal_record broken_record) =
     Inl (ErrText ''committed tail message failure fallback JSON is not canonical'')"
proof -
  have n: "normalizeTailMessageFailureFallback broken_failure = Inr broken_record" by code_simp
  have "marshal_record broken_record \<noteq> []" "\<not> length (marshal_record broken_record) > tailMessageFailureFallbackMaxSize"
    by code_simp+
  moreover have "read_json (marshal_record broken_record) = Some (JObj (record_object (broken_record\<lparr>recGuildID := rune_error\<rparr>)), [])"
  proof (rule marshal_reads_as)
    have "escape_text [CHR 0xFF] = replacement_escape" by code_simp
    then have "read_string (escape_text [CHR 0xFF] @ CHR 0x22 # x) = Some (rune_error, x)" for x
      using read_u_escape [of "0xFFFD" "CHR 0x22 # x"] read_written_string [of "[]" x]
      by (simp add: written_escapes join_surrogates_def utf8_ok.simps escape_text.simps rune_texts)
    then show "reads_as (recGuildID broken_record) (recGuildID (broken_record\<lparr>recGuildID := rune_error\<rparr>))"
      by (simp add: reads_as_def broken_record_def quote_text_def token_simps)
  qed (auto simp: broken_record_def intro!: reads_as_self broken_texts_utf8)
  moreover have "validateCommittedTailMessageFailure (broken_record\<lparr>recGuildID := rune_error\<rparr>) = None" by code_simp
  moreover have "marshal_record (broken_record\<lparr>recGuildID := rune_error\<rparr>) \<noteq> marshal_record broken_record" by code_simp
  moreover have "decode_record (JObj (record_object (broken_record\<lparr>recGuildID := rune_error\<rparr>))) = Some (broken_record\<lparr>recGuildID := rune_error\<rparr>)"
    by (rule record_object_decoded) (simp add: broken_record_def)
  ultimately show ?thesis using n by (simp add: decode_committed_def skip_ws_def)
qed

end
