(* ===== verification/FallbackFiles.thy ===== *)
theory FallbackFiles
  imports TailGateway MemberStore FallbackRecord "HOL-Library.Code_Target_Nat"
begin

text \<open>
  The file system under the tail failure fallback journal, and the operations of
  internal/store/tail_failure_fallback.go that run on it (Linux build). A directory has the entries
  that are visible and the entries that are on stable storage; a file knows whether its bytes are on
  stable storage. Every system call takes one step of the environment, which decides its fault, what
  another process does to the path of the directory before it, the random bytes and short writes.
  A call whose error is ignored and that changes nothing (closing a handle after an error) takes no
  step. The hooks of the test suite are the ones of production: none.
\<close>

section \<open>Files\<close>

datatype node_kind = RegularFile | DirectoryNode | SymbolicLink | OtherNode

text \<open>
  \<open>os.FileInfo\<close>: \<open>fiOwned\<close> tells whether the owner is the effective user, \<open>fiIno\<close> identifies the file
  (\<open>os.SameFile\<close>).
\<close>

record file_info =
  fiKind :: node_kind
  fiPerm :: nat
  fiOwned :: bool
  fiIno :: nat

record journal_file =
  jfInfo :: file_info
  jfBody :: string
  jfSynced :: bool

record journal_dir =
  jdFiles :: "(string \<times> journal_file) list"
  jdStable :: "(string \<times> journal_file) list"

text \<open>\<open>jsPath\<close> is what the path of the journal directory names, \<open>jsPathStable\<close> what it would name after a crash.\<close>

record journal_fs =
  jsPath :: "file_info option"
  jsPathStable :: "file_info option"
  jsDirs :: "nat \<Rightarrow> journal_dir"
  jsNextIno :: nat
  jsTick :: nat

record fs_env =
  fsFault :: "nat \<Rightarrow> db_fault option"
  fsOther :: "nat \<Rightarrow> file_info option option"
  fsFollow :: "nat \<Rightarrow> file_info option"
  fsRandom :: "nat \<Rightarrow> go_error + nat list"
  fsShort :: "nat \<Rightarrow> nat option"
  fsSha256 :: "string \<Rightarrow> nat list"
  fsDirPath :: "go_error + string"

type_synonym 'a fs_call = "journal_fs \<Rightarrow> (go_error + 'a) \<times> journal_fs"

definition os_ErrExist :: go_error where
  "os_ErrExist = ErrText ''file already exists''"

definition os_ErrNotExist :: go_error where
  "os_ErrNotExist = ErrText ''file does not exist''"

definition unix_ENOSYS :: go_error where
  "unix_ENOSYS = ErrText ''function not implemented''"

definition unix_EINVAL :: go_error where
  "unix_EINVAL = ErrText ''invalid argument''"

section \<open>System calls\<close>

text \<open>The state when the call arrives: another process may have replaced the path.\<close>

definition fs_arrive :: "fs_env \<Rightarrow> journal_fs \<Rightarrow> journal_fs" where
  "fs_arrive env fs =
     (let fs1 = fs\<lparr>jsTick := Suc (jsTick fs)\<rparr> in
      case fsOther env (jsTick fs) of None \<Rightarrow> fs1 | Some p \<Rightarrow> fs1\<lparr>jsPath := p\<rparr>)"

definition fs_op :: "fs_env \<Rightarrow> 'a fs_call \<Rightarrow> 'a fs_call" where
  "fs_op env f fs =
     (case fsFault env (jsTick fs) of
        None \<Rightarrow> f (fs_arrive env fs)
      | Some (FailBefore e) \<Rightarrow> (Inl e, fs_arrive env fs)
      | Some (FailAfter e) \<Rightarrow> (Inl e, snd (f (fs_arrive env fs))))"

definition fs_return :: "'a \<Rightarrow> 'a fs_call" where
  "fs_return x fs = (Inr x, fs)"

definition fs_fail :: "go_error \<Rightarrow> 'a fs_call" where
  "fs_fail e fs = (Inl e, fs)"

definition fs_bind :: "'a fs_call \<Rightarrow> ('a \<Rightarrow> 'b fs_call) \<Rightarrow> 'b fs_call" where
  "fs_bind c k fs = (case c fs of (Inl e, fs1) \<Rightarrow> (Inl e, fs1) | (Inr x, fs1) \<Rightarrow> k x fs1)"

definition fs_wrap :: "string \<Rightarrow> 'a fs_call \<Rightarrow> 'a fs_call" where
  "fs_wrap p c fs = (case c fs of (Inl e, fs1) \<Rightarrow> (Inl (ErrWrap p e []), fs1) | (Inr x, fs1) \<Rightarrow> (Inr x, fs1))"

text \<open>A call that reads: it changes nothing.\<close>

definition fs_read :: "fs_env \<Rightarrow> (journal_fs \<Rightarrow> go_error + 'a) \<Rightarrow> 'a fs_call" where
  "fs_read env q = fs_op env (\<lambda>fs. (q fs, fs))"

definition os_lstat :: "fs_env \<Rightarrow> file_info fs_call" where
  "os_lstat env = fs_read env (\<lambda>fs. case jsPath fs of None \<Rightarrow> Inl os_ErrNotExist | Some info \<Rightarrow> Inr info)"

text \<open>\<open>os.OpenRoot\<close> follows a symbolic link, to whatever it leads to.\<close>

definition os_open_root :: "fs_env \<Rightarrow> file_info fs_call" where
  "os_open_root env fs =
     fs_read env (\<lambda>fs1.
       case (case jsPath fs1 of
               None \<Rightarrow> None
             | Some info \<Rightarrow> if fiKind info = SymbolicLink then fsFollow env (jsTick fs) else Some info) of
         None \<Rightarrow> Inl os_ErrNotExist
       | Some info \<Rightarrow> if fiKind info = DirectoryNode then Inr info else Inl (ErrText ''not a directory'')) fs"

text \<open>A call on an open handle: it gives what the handle was opened on.\<close>

definition os_handle :: "fs_env \<Rightarrow> 'a \<Rightarrow> 'a fs_call" where
  "os_handle env x = fs_read env (\<lambda>_. Inr x)"

definition update_dir :: "nat \<Rightarrow> (journal_dir \<Rightarrow> journal_dir) \<Rightarrow> journal_fs \<Rightarrow> journal_fs" where
  "update_dir d f fs = fs\<lparr>jsDirs := (jsDirs fs)(d := f (jsDirs fs d))\<rparr>"

definition update_files ::
  "nat \<Rightarrow> ((string \<times> journal_file) list \<Rightarrow> (string \<times> journal_file) list) \<Rightarrow> journal_fs \<Rightarrow> journal_fs" where
  "update_files d f = update_dir d (\<lambda>dir. dir\<lparr>jdFiles := f (jdFiles dir)\<rparr>)"

definition visible :: "journal_fs \<Rightarrow> nat \<Rightarrow> string \<rightharpoonup> journal_file" where
  "visible fs d = map_of (jdFiles (jsDirs fs d))"

definition stable :: "journal_fs \<Rightarrow> nat \<Rightarrow> string \<rightharpoonup> journal_file" where
  "stable fs d = map_of (jdStable (jsDirs fs d))"

definition createTailFailureFallbackDir :: "fs_env \<Rightarrow> unit fs_call" where
  "createTailFailureFallbackDir env =
     fs_op env (\<lambda>fs. case jsPath fs of
       Some info \<Rightarrow> (Inl os_ErrExist, fs)
     | None \<Rightarrow>
         (Inr (), (update_dir (jsNextIno fs) (\<lambda>_. \<lparr>jdFiles = [], jdStable = []\<rparr>) fs)
            \<lparr>jsPath := Some \<lparr>fiKind = DirectoryNode, fiPerm = 0x1C0, fiOwned = True, fiIno = jsNextIno fs\<rparr>,
             jsNextIno := Suc (jsNextIno fs)\<rparr>))"

definition root_lstat :: "fs_env \<Rightarrow> nat \<Rightarrow> string \<Rightarrow> journal_file fs_call" where
  "root_lstat env d name =
     fs_read env (\<lambda>fs. case visible fs d name of None \<Rightarrow> Inl os_ErrNotExist | Some file \<Rightarrow> Inr file)"

definition open_exclusive :: "fs_env \<Rightarrow> nat \<Rightarrow> string \<Rightarrow> unit fs_call" where
  "open_exclusive env d name =
     fs_op env (\<lambda>fs.
       if visible fs d name \<noteq> None then (Inl os_ErrExist, fs)
       else (Inr (), (update_files d (AList.update name
               \<lparr>jfInfo = \<lparr>fiKind = RegularFile, fiPerm = 0x180, fiOwned = True, fiIno = jsNextIno fs\<rparr>,
                jfBody = [], jfSynced = False\<rparr>) fs)\<lparr>jsNextIno := Suc (jsNextIno fs)\<rparr>))"

definition change_file :: "nat \<Rightarrow> string \<Rightarrow> (journal_file \<Rightarrow> journal_file) \<Rightarrow> journal_fs \<Rightarrow> journal_fs" where
  "change_file d name f = update_files d (AList.map_entry name f)"

definition file_chmod :: "fs_env \<Rightarrow> nat \<Rightarrow> string \<Rightarrow> nat \<Rightarrow> unit fs_call" where
  "file_chmod env d name perm =
     fs_op env (\<lambda>fs. (Inr (), change_file d name (\<lambda>f. f\<lparr>jfInfo := (jfInfo f)\<lparr>fiPerm := perm\<rparr>\<rparr>) fs))"

text \<open>The count \<open>Write\<close> returns can be short without an error.\<close>

definition file_write :: "fs_env \<Rightarrow> nat \<Rightarrow> string \<Rightarrow> string \<Rightarrow> nat fs_call" where
  "file_write env d name body fs =
     (let n = (case fsShort env (jsTick fs) of None \<Rightarrow> length body | Some k \<Rightarrow> min k (length body)) in
      fs_op env (\<lambda>fs1. (Inr n, change_file d name (\<lambda>f. f\<lparr>jfBody := jfBody f @ take n body, jfSynced := False\<rparr>) fs1)) fs)"

definition file_sync :: "fs_env \<Rightarrow> nat \<Rightarrow> string \<Rightarrow> unit fs_call" where
  "file_sync env d name = fs_op env (\<lambda>fs. (Inr (), change_file d name (\<lambda>f. f\<lparr>jfSynced := True\<rparr>) fs))"

definition file_close :: "fs_env \<Rightarrow> unit fs_call" where
  "file_close env = fs_op env (\<lambda>fs. (Inr (), fs))"

definition root_remove :: "fs_env \<Rightarrow> nat \<Rightarrow> string \<Rightarrow> unit fs_call" where
  "root_remove env d name =
     fs_op env (\<lambda>fs.
       if visible fs d name = None then (Inl os_ErrNotExist, fs)
       else (Inr (), update_files d (AList.delete name) fs))"

definition root_link :: "fs_env \<Rightarrow> nat \<Rightarrow> string \<Rightarrow> string \<Rightarrow> unit fs_call" where
  "root_link env d oldName newName =
     fs_op env (\<lambda>fs.
       if visible fs d newName \<noteq> None then (Inl os_ErrExist, fs)
       else (case visible fs d oldName of
               None \<Rightarrow> (Inl os_ErrNotExist, fs)
             | Some file \<Rightarrow> (Inr (), update_files d (AList.update newName file) fs)))"

definition renameat2_noreplace :: "fs_env \<Rightarrow> nat \<Rightarrow> string \<Rightarrow> string \<Rightarrow> unit fs_call" where
  "renameat2_noreplace env d oldName newName =
     fs_op env (\<lambda>fs.
       if visible fs d newName \<noteq> None then (Inl os_ErrExist, fs)
       else (case visible fs d oldName of
               None \<Rightarrow> (Inl os_ErrNotExist, fs)
             | Some file \<Rightarrow> (Inr (), update_files d (\<lambda>files. AList.update newName file (AList.delete oldName files)) fs)))"

text \<open>Removing a file of the directory, making its entries stable, and the same for the parent directory.\<close>

definition removeFile :: "fs_env \<Rightarrow> nat \<Rightarrow> string \<Rightarrow> unit fs_call" where
  "removeFile env d name = root_remove env d name"

definition syncTailFailureDirectory :: "fs_env \<Rightarrow> nat \<Rightarrow> unit fs_call" where
  "syncTailFailureDirectory env d = fs_op env (\<lambda>fs. (Inr (), update_dir d (\<lambda>dir. dir\<lparr>jdStable := jdFiles dir\<rparr>) fs))"

definition syncDirectory :: "fs_env \<Rightarrow> nat \<Rightarrow> unit fs_call" where
  "syncDirectory env d = syncTailFailureDirectory env d"

definition sync_parent :: "fs_env \<Rightarrow> unit fs_call" where
  "sync_parent env = fs_op env (\<lambda>fs. (Inr (), fs\<lparr>jsPathStable := jsPath fs\<rparr>))"

section \<open>Opening the directory\<close>

definition errTailMessageFailureFallbackDirAbsent :: go_error where
  "errTailMessageFailureFallbackDirAbsent = ErrText ''tail message failure fallback directory is absent''"

definition validateTailFailureFallbackOwner :: "file_info \<Rightarrow> go_error option" where
  "validateTailFailureFallbackOwner info =
     (if \<not> fiOwned info then Some (ErrText ''tail message failure fallback owner must be the current user'') else None)"

text \<open>The permission bits 0700 are \<open>0x1C0\<close>, and 0600 are \<open>0x180\<close>.\<close>

definition validateTailFailureFallbackDir :: "file_info \<Rightarrow> go_error option" where
  "validateTailFailureFallbackDir info =
     (case validateTailFailureFallbackOwner info of
        Some e \<Rightarrow> Some e
      | None \<Rightarrow>
          if fiPerm info \<noteq> 0x1C0 then Some (ErrText ''tail message failure fallback directory permissions must be 0700'') else None)"

text \<open>\<open>perm & 0o077 \<noteq> 0\<close> is \<open>perm mod 64 \<noteq> 0\<close>, and \<open>perm & 0o400\<close> the bit of weight 256.\<close>

definition validateTailFailureFallbackFile :: "file_info \<Rightarrow> go_error option" where
  "validateTailFailureFallbackFile info =
     (case validateTailFailureFallbackOwner info of
        Some e \<Rightarrow> Some e
      | None \<Rightarrow>
          if fiPerm info mod 64 \<noteq> 0 \<or> even (fiPerm info div 256)
          then Some (ErrText ''committed tail message failure fallback permissions are insecure'') else None)"

definition check_info :: "go_error option \<Rightarrow> 'a fs_call \<Rightarrow> 'a fs_call" where
  "check_info e c = (case e of Some x \<Rightarrow> fs_fail x | None \<Rightarrow> c)"

text \<open>The part after the directory was created: the new entry is made durable in the parent.\<close>

definition publish_dir :: "fs_env \<Rightarrow> bool \<Rightarrow> unit fs_call" where
  "publish_dir env created =
     (if \<not> created then fs_return ()
      else fs_bind (fs_wrap ''open tail message failure fallback parent directory: '' (os_handle env ())) (\<lambda>_.
        fs_bind (fs_wrap ''sync tail message failure fallback parent directory: '' (sync_parent env)) (\<lambda>_.
          fs_wrap ''close tail message failure fallback parent directory: '' (file_close env))))"

text \<open>The part that opens the directory and verifies that the handle is the directory that was inspected.\<close>

definition verify_dir :: "fs_env \<Rightarrow> bool \<Rightarrow> file_info \<Rightarrow> nat fs_call" where
  "verify_dir env created info =
     (if fiKind info = SymbolicLink then fs_fail (ErrText ''tail message failure fallback directory must not be a symlink'')
      else if fiKind info \<noteq> DirectoryNode then fs_fail (ErrText ''tail message failure fallback path must be a directory'')
      else fs_bind (fs_wrap ''open tail message failure fallback directory: '' (os_open_root env)) (\<lambda>root.
        fs_bind (fs_wrap ''verify tail message failure fallback directory: '' (os_handle env root)) (\<lambda>openedInfo.
          fs_bind (fs_wrap ''reinspect tail message failure fallback directory: '' (os_lstat env)) (\<lambda>currentInfo.
            if fiKind currentInfo = SymbolicLink
            then fs_fail (ErrText ''tail message failure fallback directory must not be a symlink'')
            else if fiKind openedInfo \<noteq> DirectoryNode \<or> fiIno info \<noteq> fiIno openedInfo \<or> fiIno openedInfo \<noteq> fiIno currentInfo
            then fs_fail (ErrText ''tail message failure fallback directory changed during verification'')
            else fs_bind (fs_wrap ''open verified tail message failure fallback directory: '' (os_handle env root)) (\<lambda>dirFile.
              fs_bind (fs_wrap ''verify opened tail message failure fallback directory: '' (os_handle env dirFile)) (\<lambda>dirInfo.
                if fiKind dirInfo \<noteq> DirectoryNode \<or> fiIno openedInfo \<noteq> fiIno dirInfo
                then fs_fail (ErrText ''tail message failure fallback directory handle changed during verification'')
                else check_info (validateTailFailureFallbackDir dirInfo)
                  (fs_bind (publish_dir env created) (\<lambda>_. fs_return (fiIno dirInfo)))))))))"

definition inspect_dir :: "fs_env \<Rightarrow> bool \<Rightarrow> nat fs_call" where
  "inspect_dir env created =
     fs_bind (fs_wrap ''inspect tail message failure fallback directory: '' (os_lstat env)) (verify_dir env created)"

definition openTailMessageFailureFallbackDir :: "fs_env \<Rightarrow> bool \<Rightarrow> nat fs_call" where
  "openTailMessageFailureFallbackDir env create fs =
     (case os_lstat env fs of
        (Inr info, fs1) \<Rightarrow> verify_dir env False info fs1
      | (Inl e, fs1) \<Rightarrow>
          if \<not> err_is e os_ErrNotExist then (Inl (ErrWrap ''inspect tail message failure fallback directory: '' e []), fs1)
          else if \<not> create then (Inl errTailMessageFailureFallbackDirAbsent, fs1)
          else (case createTailFailureFallbackDir env fs1 of
                  (Inl e1, fs2) \<Rightarrow>
                    if \<not> err_is e1 os_ErrExist
                    then (Inl (ErrWrap ''create tail message failure fallback directory: '' e1 []), fs2)
                    else inspect_dir env False fs2
                | (Inr u, fs2) \<Rightarrow> inspect_dir env True fs2))"

section \<open>Persisting\<close>

definition newTailMessageFailureOccurrenceID :: "fs_env \<Rightarrow> nat list fs_call" where
  "newTailMessageFailureOccurrenceID env fs =
     fs_wrap ''generate tail message failure fallback occurrence id: '' (fs_read env (\<lambda>_. fsRandom env (jsTick fs))) fs"

definition tailMessageFailureNameAttempts :: nat where
  "tailMessageFailureNameAttempts = 16"

fun create_temp :: "fs_env \<Rightarrow> nat \<Rightarrow> nat \<Rightarrow> string fs_call" where
  "create_temp env d 0 = fs_fail (ErrText ''exhausted unique temp filenames'')"
| "create_temp env d (Suc k) =
     fs_bind (newTailMessageFailureOccurrenceID env) (\<lambda>token fs.
       let name = tailMessageFailureFallbackTempPrefix @ hex_string token in
       case open_exclusive env d name fs of
         (Inr u, fs1) \<Rightarrow> (Inr name, fs1)
       | (Inl e, fs1) \<Rightarrow> if \<not> err_is e os_ErrExist then (Inl e, fs1) else create_temp env d k fs1)"

definition createTailMessageFailureTemp :: "fs_env \<Rightarrow> nat \<Rightarrow> string fs_call" where
  "createTailMessageFailureTemp env d = create_temp env d tailMessageFailureNameAttempts"

definition secureTailFailureFallbackTempFile :: "nat \<Rightarrow> string \<Rightarrow> unit fs_call" where
  "secureTailFailureFallbackTempFile d name = fs_return ()"

text \<open>The stale temporary name left by a failed removal is ignored.\<close>

definition linkTailFailureNoReplaceRoot :: "fs_env \<Rightarrow> nat \<Rightarrow> string \<Rightarrow> string \<Rightarrow> unit fs_call" where
  "linkTailFailureNoReplaceRoot env d oldName newName =
     fs_bind (root_link env d oldName newName) (\<lambda>_ fs. (Inr (), snd (root_remove env d oldName fs)))"

definition renameTailFailureNoReplace :: "fs_env \<Rightarrow> nat \<Rightarrow> string \<Rightarrow> string \<Rightarrow> unit fs_call" where
  "renameTailFailureNoReplace env d oldName newName fs =
     (case renameat2_noreplace env d oldName newName fs of
        (Inr u, fs1) \<Rightarrow> (Inr (), fs1)
      | (Inl e, fs1) \<Rightarrow>
          if \<not> err_is e unix_ENOSYS \<and> \<not> err_is e unix_EINVAL then (Inl e, fs1)
          else linkTailFailureNoReplaceRoot env d oldName newName fs1)"

text \<open>The temporary file is filled and made durable before it gets its name.\<close>

definition fill_temp :: "fs_env \<Rightarrow> nat \<Rightarrow> string \<Rightarrow> string \<Rightarrow> unit fs_call" where
  "fill_temp env d tempName body =
     fs_bind (fs_wrap ''secure tail message failure fallback temp file: '' (file_chmod env d tempName 0x180)) (\<lambda>_.
       fs_bind (secureTailFailureFallbackTempFile d tempName) (\<lambda>_.
         fs_bind (fs_wrap ''inspect tail message failure fallback temp file: '' (root_lstat env d tempName)) (\<lambda>temp.
           check_info (validateTailFailureFallbackFile (jfInfo temp))
             (fs_bind (fs_wrap ''write tail message failure fallback temp file: '' (file_write env d tempName body)) (\<lambda>written.
               if written \<noteq> length body then fs_fail (ErrText ''write tail message failure fallback temp file: short write'')
               else fs_bind (fs_wrap ''sync tail message failure fallback temp file: '' (file_sync env d tempName)) (\<lambda>_.
                 fs_wrap ''close tail message failure fallback temp file: '' (file_close env)))))))"

text \<open>The commit loop; the flag tells whether the temporary file is still to be removed.\<close>

fun commit_temp :: "fs_env \<Rightarrow> nat \<Rightarrow> string \<Rightarrow> nat list \<Rightarrow> nat \<Rightarrow> journal_fs \<Rightarrow> (go_error option \<times> bool) \<times> journal_fs" where
  "commit_temp env d tempName digest 0 fs =
     ((Some (ErrText ''commit tail message failure fallback: exhausted unique filenames''), True), fs)"
| "commit_temp env d tempName digest (Suc k) fs =
     (case newTailMessageFailureOccurrenceID env fs of
        (Inl e, fs1) \<Rightarrow> ((Some e, True), fs1)
      | (Inr occurrence, fs1) \<Rightarrow>
          (case renameTailFailureNoReplace env d tempName (commit_name occurrence digest) fs1 of
             (Inl e, fs2) \<Rightarrow>
               if err_is e os_ErrExist then commit_temp env d tempName digest k fs2
               else ((Some (ErrWrap ''commit tail message failure fallback: '' e []), True), fs2)
           | (Inr u, fs2) \<Rightarrow>
               (case syncDirectory env d fs2 of
                  (Inl e, fs3) \<Rightarrow> ((Some (ErrWrap ''sync tail message failure fallback directory: '' e []), False), fs3)
                | (Inr u, fs3) \<Rightarrow> ((None, False), fs3))))"

text \<open>From the creation of the temporary file to the deferred removal.\<close>

definition write_fallback :: "fs_env \<Rightarrow> string \<Rightarrow> nat \<Rightarrow> journal_fs \<Rightarrow> go_error option \<times> journal_fs" where
  "write_fallback env body d fs =
     (case fs_wrap ''create tail message failure fallback temp file: '' (createTailMessageFailureTemp env d) fs of
        (Inl e, fs1) \<Rightarrow> (Some e, fs1)
      | (Inr tempName, fs1) \<Rightarrow>
          (case fill_temp env d tempName body fs1 of
             (Inl e, fs2) \<Rightarrow> (Some e, snd (removeFile env d tempName fs2))
           | (Inr u, fs2) \<Rightarrow>
               (case commit_temp env d tempName (fsSha256 env body) tailMessageFailureNameAttempts fs2 of
                  ((e, True), fs3) \<Rightarrow> (e, snd (removeFile env d tempName fs3))
                | ((e, False), fs3) \<Rightarrow> (e, fs3))))"

definition persistTailMessageFailureFallback ::
  "fs_env \<Rightarrow> TailMessageFailureFallback \<Rightarrow> journal_fs \<Rightarrow> go_error option \<times> journal_fs" where
  "persistTailMessageFailureFallback env fallback fs =
     (case normalizeTailMessageFailureFallback fallback of
        Inl e \<Rightarrow> (Some e, fs)
      | Inr r \<Rightarrow>
          let body = marshal_record r in
          if length body > tailMessageFailureFallbackMaxSize
          then (Some (ErrText ''tail message failure fallback exceeds size limit''), fs)
          else (case fsDirPath env of
                  Inl e \<Rightarrow> (Some e, fs)
                | Inr path \<Rightarrow>
                    (case openTailMessageFailureFallbackDir env True fs of
                       (Inl e, fs1) \<Rightarrow> (Some e, fs1)
                     | (Inr d, fs1) \<Rightarrow> write_fallback env body d fs1)))"

definition PersistTailMessageFailureFallback ::
  "fs_env \<Rightarrow> TailMessageFailureFallback \<Rightarrow> journal_fs \<Rightarrow> go_error option \<times> journal_fs" where
  "PersistTailMessageFailureFallback env fallback = persistTailMessageFailureFallback env fallback"

section \<open>Reading the journal\<close>

record committedTailMessageFailure =
  cmName :: string
  cmRecord :: tailMessageFailureFallbackRecord

definition committed_error :: "string \<Rightarrow> go_error" where
  "committed_error s = ErrText (''committed tail message failure fallback '' @ s)"

definition readCommittedTailMessageFailure :: "fs_env \<Rightarrow> nat \<Rightarrow> string \<Rightarrow> tailMessageFailureFallbackRecord fs_call" where
  "readCommittedTailMessageFailure env d name =
     (case tailMessageFailureNameParts name of
        None \<Rightarrow> fs_fail (ErrText ''invalid committed tail message failure fallback filename'')
      | Some (artifactID, digestHex) \<Rightarrow>
          fs_bind (fs_wrap ''inspect committed tail message failure fallback: '' (root_lstat env d name)) (\<lambda>file.
            let info = jfInfo file; size = length (jfBody file) in
            if fiKind info = SymbolicLink then fs_fail (committed_error ''must not be a symlink'')
            else if fiKind info \<noteq> RegularFile then fs_fail (committed_error ''must be a regular file'')
            else if size = 0 \<or> size > tailMessageFailureFallbackMaxSize then fs_fail (committed_error ''size is invalid'')
            else fs_bind (fs_wrap ''open committed tail message failure fallback: '' (root_lstat env d name)) (\<lambda>opened.
              fs_bind (fs_wrap ''verify committed tail message failure fallback: '' (os_handle env (jfInfo opened))) (\<lambda>openedInfo.
                if fiKind openedInfo \<noteq> RegularFile \<or> fiIno info \<noteq> fiIno openedInfo
                then fs_fail (committed_error ''changed during verification'')
                else check_info (validateTailFailureFallbackFile openedInfo)
                  (fs_bind (fs_wrap ''read committed tail message failure fallback: ''
                      (os_handle env (take (tailMessageFailureFallbackMaxSize + 1) (jfBody opened)))) (\<lambda>body.
                    case decode_committed (fsSha256 env) digestHex body of
                      Inl e \<Rightarrow> fs_fail e
                    | Inr r \<Rightarrow> fs_return r))))))"

fun read_entries :: "fs_env \<Rightarrow> nat \<Rightarrow> string list \<Rightarrow> (committedTailMessageFailure list \<times> string list) fs_call" where
  "read_entries env d [] = fs_return ([], [])"
| "read_entries env d (name # names) =
     (if has_prefix name tailMessageFailureFallbackTempPrefix
      then fs_bind (read_entries env d names) (\<lambda>(cs, ts). fs_return (cs, name # ts))
      else fs_bind (fs_wrap ''validate committed tail message failure fallback: '' (readCommittedTailMessageFailure env d name)) (\<lambda>r.
        fs_bind (read_entries env d names) (\<lambda>(cs, ts). fs_return (\<lparr>cmName = name, cmRecord = r\<rparr> # cs, ts))))"

fun cleanup_temps :: "fs_env \<Rightarrow> nat \<Rightarrow> string list \<Rightarrow> bool \<Rightarrow> bool fs_call" where
  "cleanup_temps env d [] removed = fs_return removed"
| "cleanup_temps env d (name # names) removed = (\<lambda>fs.
     case root_lstat env d name fs of
       (Inl e, fs1) \<Rightarrow>
         if err_is e os_ErrNotExist then cleanup_temps env d names removed fs1
         else (Inl (ErrWrap ''inspect tail message failure fallback temp file: '' e []), fs1)
     | (Inr file, fs1) \<Rightarrow>
         if fiKind (jfInfo file) = DirectoryNode
         then (Inl (ErrText ''tail message failure fallback temp entry must not be a directory''), fs1)
         else fs_bind (fs_wrap ''remove tail message failure fallback temp file: '' (removeFile env d name))
                (\<lambda>_. cleanup_temps env d names True) fs1)"

definition cleanupTailMessageFailureTemps :: "fs_env \<Rightarrow> nat \<Rightarrow> string list \<Rightarrow> unit fs_call" where
  "cleanupTailMessageFailureTemps env d names =
     fs_bind (cleanup_temps env d names False) (\<lambda>removed.
       if removed then fs_wrap ''sync tail message failure fallback temp cleanup: '' (syncDirectory env d) else fs_return ())"

section \<open>Importing\<close>

text \<open>The upsert of \<open>importTailMessageFailureSQL\<close>: on a conflict it leaves \<open>resolution_reason\<close> as it is.\<close>

definition importTailMessageFailureSQL :: "failure_ref \<Rightarrow> string \<Rightarrow> string \<Rightarrow> instant \<Rightarrow> db \<Rightarrow> db" where
  "importTailMessageFailureSQL ref cls msg now d =
     (if \<exists>f \<in> set (dbFailures d). fRef f = ref
      then d\<lparr>dbFailures := map (\<lambda>f. if fRef f = ref
               then f\<lparr>fErrorClass := cls, fErrorMessage := msg, fLastSeenAt := now,
                      fRetryCount := fRetryCount f + 1, fResolvedAt := None\<rparr>
               else f) (dbFailures d)\<rparr>
      else d\<lparr>dbFailures := dbFailures d @
               [\<lparr>fFailureID = dbNextFailureID d, fRef = ref, fErrorClass = cls, fErrorMessage = msg,
                 fFirstSeenAt = now, fLastSeenAt = now, fRetryCount = 0, fResolvedAt = None,
                 fResolutionReason = []\<rparr>],
             dbNextFailureID := dbNextFailureID d + 1\<rparr>)"

definition record_ref :: "tailMessageFailureFallbackRecord \<Rightarrow> failure_ref" where
  "record_ref r = tailMessageFailureIdentity (recGuildID r) (recChannelID r) (recMessageID r) (recEventKind r)"

definition importTailMessageFailureFallbackRecord :: "env \<Rightarrow> tailMessageFailureFallbackRecord \<Rightarrow> instant \<Rightarrow> action" where
  "importTailMessageFailureFallbackRecord env r now =
     (case storeTailMessageFailureSentinel (recFailureKind r) of
        None \<Rightarrow> fail_with (ErrText ''invalid tail message failure kind'')
      | Some (errorClass, errorMessage) \<Rightarrow>
          annotate (\<lambda>e. ErrWrap ''import tail message failure fallback: '' e [])
            (db_exec env (\<lambda>_. importTailMessageFailureSQL (record_ref r) errorClass errorMessage now)))"

text \<open>The insert of a receipt, \<open>on conflict do nothing\<close>, with the number of rows it affected.\<close>

definition put_receipt :: "string \<Rightarrow> instant \<Rightarrow> db \<Rightarrow> db" where
  "put_receipt receiptScope now d =
     (if map_of (dbSyncState d) receiptScope \<noteq> None then d
      else d\<lparr>dbSyncState := AList.update receiptScope \<lparr>srCursor = [], srUpdatedAt = now\<rparr> (dbSyncState d)\<rparr>)"

definition insert_receipt :: "env \<Rightarrow> string \<Rightarrow> instant \<Rightarrow> nat call" where
  "insert_receipt env receiptScope now w =
     (let rows = (if map_of (dbSyncState (wDB w)) receiptScope = None then 1 else 0) in
      doThen (annotate (\<lambda>e. ErrWrap ''record tail message failure fallback import receipt: '' e [])
          (db_exec env (\<lambda>_. put_receipt receiptScope now)))
        (value_call rows) w)"

fun import_items :: "env \<Rightarrow> instant \<Rightarrow> committedTailMessageFailure list \<Rightarrow> nat \<Rightarrow> nat call" where
  "import_items env now [] imported = value_call imported"
| "import_items env now (item # items) imported =
     bindCall (insert_receipt env (the (tailMessageFailureReceiptScope (cmName item))) now) (\<lambda>rowsAffected.
       if rowsAffected = 0 then import_items env now items imported
       else doThen (importTailMessageFailureFallbackRecord env (cmRecord item) now) (import_items env now items (imported + 1)))"

fun check_committed :: "committedTailMessageFailure list \<Rightarrow> go_error option" where
  "check_committed [] = None"
| "check_committed (item # items) =
     (case validateCommittedTailMessageFailure (cmRecord item) of
        Some e \<Rightarrow> Some e
      | None \<Rightarrow>
          if tailMessageFailureReceiptScope (cmName item) = None
          then Some (ErrText ''invalid committed tail message failure fallback filename'')
          else check_committed items)"

text \<open>The prefixes of the begin and commit errors are left out.\<close>

definition importTailMessageFailureFallbackRecords :: "env \<Rightarrow> committedTailMessageFailure list \<Rightarrow> instant \<Rightarrow> nat call" where
  "importTailMessageFailureFallbackRecords env committed now =
     (if committed = [] then value_call 0
      else case check_committed committed of
        Some e \<Rightarrow> (\<lambda>w. (Inl e, w))
      | None \<Rightarrow> tx_call env (import_items env now committed 0))"

fun remove_committed :: "fs_env \<Rightarrow> nat \<Rightarrow> committedTailMessageFailure list \<Rightarrow> bool \<Rightarrow> go_error option \<Rightarrow>
    journal_fs \<Rightarrow> (bool \<times> go_error option) \<times> journal_fs" where
  "remove_committed env d [] removed removeErr fs = ((removed, removeErr), fs)"
| "remove_committed env d (item # items) removed removeErr fs =
     (case removeFile env d (cmName item) fs of
        (Inr u, fs1) \<Rightarrow> remove_committed env d items True removeErr fs1
      | (Inl e, fs1) \<Rightarrow>
          if err_is e os_ErrNotExist then remove_committed env d items removed removeErr fs1
          else remove_committed env d items removed
            (if removeErr = None then Some (ErrWrap ''remove imported tail message failure fallback: '' e []) else removeErr) fs1)"

definition remove_imported :: "fs_env \<Rightarrow> nat \<Rightarrow> committedTailMessageFailure list \<Rightarrow> journal_fs \<Rightarrow> go_error option \<times> journal_fs" where
  "remove_imported env d committed fs =
     (case remove_committed env d committed False None fs of
        ((removed, removeErr), fs1) \<Rightarrow>
          if \<not> removed then (removeErr, fs1)
          else (case syncDirectory env d fs1 of
                  (Inr u, fs2) \<Rightarrow> (removeErr, fs2)
                | (Inl e, fs2) \<Rightarrow>
                    (if removeErr = None then Some (ErrWrap ''sync imported tail message failure fallback removals: '' e [])
                     else removeErr, fs2)))"

text \<open>Listing, validating and cleaning up: the committed failures of a directory.\<close>

definition read_journal :: "fs_env \<Rightarrow> nat \<Rightarrow> committedTailMessageFailure list fs_call" where
  "read_journal env d =
     fs_bind (fs_wrap ''list tail message failure fallbacks: '' (fs_read env (\<lambda>fs. Inr (sort (map fst (jdFiles (jsDirs fs d)))))))
       (\<lambda>names. fs_bind (read_entries env d names) (\<lambda>(committed, tempNames).
          fs_bind (cleanupTailMessageFailureTemps env d tempNames) (\<lambda>_. fs_return committed)))"

definition importTailMessageFailureFallbacks ::
  "env \<Rightarrow> fs_env \<Rightarrow> world \<times> journal_fs \<Rightarrow> (nat \<times> go_error option) \<times> world \<times> journal_fs" where
  "importTailMessageFailureFallbacks env fenv wj =
     (case wj of (w, fs) \<Rightarrow>
      case fsDirPath fenv of
        Inl e \<Rightarrow> ((0, Some e), w, fs)
      | Inr path \<Rightarrow>
          (case openTailMessageFailureFallbackDir fenv False fs of
             (Inl e, fs1) \<Rightarrow>
               if err_is e errTailMessageFailureFallbackDirAbsent then ((0, None), w, fs1) else ((0, Some e), w, fs1)
           | (Inr d, fs1) \<Rightarrow>
               (case read_journal fenv d fs1 of
                  (Inl e, fs2) \<Rightarrow> ((0, Some e), w, fs2)
                | (Inr committed, fs2) \<Rightarrow>
                    if committed = [] then ((0, None), w, fs2)
                    else (case importTailMessageFailureFallbackRecords env committed (envNow env (wTick w)) w of
                            (Inl e, w1) \<Rightarrow> ((0, Some e), w1, fs2)
                          | (Inr imported, w1) \<Rightarrow>
                              (case remove_imported fenv d committed fs2 of
                                 (e, fs3) \<Rightarrow> ((imported, e), w1, fs3))))))"

definition ImportTailMessageFailureFallbacks ::
  "env \<Rightarrow> fs_env \<Rightarrow> world \<times> journal_fs \<Rightarrow> (nat \<times> go_error option) \<times> world \<times> journal_fs" where
  "ImportTailMessageFailureFallbacks env fenv wj = importTailMessageFailureFallbacks env fenv wj"

section \<open>Reasoning about calls\<close>

text \<open>\<open>fs_keeps P c\<close>: the call leaves \<open>P\<close> true, whatever its faults.\<close>

definition fs_keeps :: "(journal_fs \<Rightarrow> bool) \<Rightarrow> (journal_fs \<Rightarrow> 'r \<times> journal_fs) \<Rightarrow> bool" where
  "fs_keeps P c \<longleftrightarrow> (\<forall>fs. P fs \<longrightarrow> P (snd (c fs)))"

named_theorems fs_intros \<open>composition rules for invariants of file system calls\<close>

text \<open>A predicate that survives what other processes do before a call.\<close>

definition arrives :: "fs_env \<Rightarrow> (journal_fs \<Rightarrow> bool) \<Rightarrow> bool" where
  "arrives env P \<longleftrightarrow> (\<forall>fs. P fs \<longrightarrow> P (fs_arrive env fs))"

lemma arrives_conj [fs_intros]: "arrives env P \<Longrightarrow> arrives env Q \<Longrightarrow> arrives env (\<lambda>fs. P fs \<and> Q fs)"
  unfolding arrives_def by blast

lemma arrive_simps [simp]: "jsDirs (fs_arrive env fs) = jsDirs fs" "jsNextIno (fs_arrive env fs) = jsNextIno fs"
    "jsPathStable (fs_arrive env fs) = jsPathStable fs" "visible (fs_arrive env fs) = visible fs" "stable (fs_arrive env fs) = stable fs"
  by (simp_all add: fs_arrive_def Let_def visible_def stable_def fun_eq_iff split: option.split)

lemma fs_keepsD: "fs_keeps P c \<Longrightarrow> P fs \<Longrightarrow> P (snd (c fs))"
  by (simp add: fs_keeps_def)

lemma fs_keeps_result: "fs_keeps P c \<Longrightarrow> c fs = (r, fs') \<Longrightarrow> P fs \<Longrightarrow> P fs'"
  by (metis fs_keepsD snd_conv)

lemma fs_keeps_op [fs_intros]:
  assumes "arrives env P" "\<And>fs. P fs \<Longrightarrow> P (snd (f fs))"
  shows "fs_keeps P (fs_op env f)"
  using assms by (auto simp: arrives_def fs_keeps_def fs_op_def split: option.split db_fault.split)

lemma fs_keeps_read [fs_intros]: "arrives env P \<Longrightarrow> fs_keeps P (fs_read env q)"
  unfolding fs_read_def by (rule fs_keeps_op) simp_all

lemma fs_keeps_pure [fs_intros]: "fs_keeps P (fs_return x)" "fs_keeps P (fs_fail e)"
  by (simp_all add: fs_keeps_def fs_return_def fs_fail_def)

lemma fs_keeps_bind [fs_intros]: "fs_keeps P c \<Longrightarrow> (\<And>x. fs_keeps P (k x)) \<Longrightarrow> fs_keeps P (fs_bind c k)"
  by (auto simp: fs_keeps_def fs_bind_def split: prod.split sum.split)

lemma fs_keeps_wrap [fs_intros]: "fs_keeps P c \<Longrightarrow> fs_keeps P (fs_wrap p c)"
  by (auto simp: fs_keeps_def fs_wrap_def split: prod.split sum.split)

lemma fs_keeps_check [fs_intros]: "fs_keeps P c \<Longrightarrow> fs_keeps P (check_info e c)"
  by (cases e) (simp_all add: check_info_def fs_keeps_pure)

lemma fs_keeps_if [fs_intros]: "(b \<Longrightarrow> fs_keeps P c) \<Longrightarrow> (\<not> b \<Longrightarrow> fs_keeps P c') \<Longrightarrow> fs_keeps P (if b then c else c')"
  by simp

lemma fs_keeps_at: "(\<And>n. fs_keeps P (k n)) \<Longrightarrow> fs_keeps P (\<lambda>fs. k (g fs) fs)"
  by (simp add: fs_keeps_def)

lemma fs_op_Inr: "fs_op env f fs = (Inr x, fs') \<Longrightarrow> f (fs_arrive env fs) = (Inr x, fs')"
  by (auto simp: fs_op_def split: option.splits db_fault.splits)

lemma fs_read_Inr: "fs_read env q fs = (Inr x, fs') \<Longrightarrow> q (fs_arrive env fs) = Inr x \<and> fs' = fs_arrive env fs"
  by (auto simp: fs_read_def dest!: fs_op_Inr)

lemma fs_bind_Inr: "fs_bind c k fs = (Inr y, fs') \<Longrightarrow> \<exists>x fs1. c fs = (Inr x, fs1) \<and> k x fs1 = (Inr y, fs')"
  by (auto simp: fs_bind_def split: prod.splits sum.splits)

lemma fs_wrap_Inr: "fs_wrap p c fs = (Inr y, fs') \<longleftrightarrow> c fs = (Inr y, fs')"
  by (auto simp: fs_wrap_def split: prod.splits sum.splits)

lemma check_info_Inr: "check_info e c fs = (Inr y, fs') \<longleftrightarrow> e = None \<and> c fs = (Inr y, fs')"
  by (cases e) (auto simp: check_info_def fs_fail_def)

section \<open>The entries a call changes\<close>

lemma update_dir_dirs [simp]: "jsDirs (update_dir d f fs) = (jsDirs fs)(d := f (jsDirs fs d))"
  by (simp add: update_dir_def)

lemma stable_update_files [simp]: "stable (update_files d f fs) = stable fs"
  by (auto simp: stable_def update_files_def fun_eq_iff)

lemma visible_delete: "visible (update_files d (AList.delete name) fs) d' = (if d' = d then (visible fs d)(name := None) else visible fs d')"
  by (auto simp: visible_def update_files_def delete_conv')

lemma visible_update: "visible (update_files d (AList.update name file) fs) d' = (if d' = d then (visible fs d)(name \<mapsto> file) else visible fs d')"
  by (auto simp: visible_def update_files_def update_conv')

lemma map_of_map_entry: "map_of (AList.map_entry k f xs) = (map_of xs)(k := map_option f (map_of xs k))"
  by (induction xs) (auto simp: fun_eq_iff)

lemma visible_change: "visible (change_file d name f fs) d' = (if d' = d then (visible fs d)(name := map_option f (visible fs d name)) else visible fs d')"
  by (auto simp: visible_def change_file_def update_files_def map_of_map_entry)

lemma stable_change [simp]: "stable (change_file d name f fs) = stable fs"
  by (simp add: change_file_def)

lemma visible_rename:
  "visible (update_files d (\<lambda>files. AList.update new file (AList.delete old files)) fs) d' =
     (if d' = d then (visible fs d)(old := None, new \<mapsto> file) else visible fs d')"
  by (auto simp: visible_def update_files_def update_conv' delete_conv')

lemma visible_sync [simp]: "visible (update_dir d (\<lambda>dir. dir\<lparr>jdStable := jdFiles dir\<rparr>) fs) = visible fs"
  by (auto simp: visible_def fun_eq_iff)

lemma stable_sync: "stable (update_dir d (\<lambda>dir. dir\<lparr>jdStable := jdFiles dir\<rparr>) fs) d' = (if d' = d then visible fs d else stable fs d')"
  by (auto simp: visible_def stable_def)

lemma dirs_frame [simp]:
  "visible (fs\<lparr>jsPath := p\<rparr>) = visible fs" "stable (fs\<lparr>jsPath := p\<rparr>) = stable fs"
  "visible (fs\<lparr>jsPathStable := p\<rparr>) = visible fs" "stable (fs\<lparr>jsPathStable := p\<rparr>) = stable fs"
  "visible (fs\<lparr>jsNextIno := n\<rparr>) = visible fs" "stable (fs\<lparr>jsNextIno := n\<rparr>) = stable fs"
  by (simp_all add: visible_def stable_def fun_eq_iff)

lemmas entry_simps = visible_delete visible_update visible_change visible_rename stable_sync

text \<open>A predicate over the entries of one directory.\<close>

definition entries :: "(string \<Rightarrow> journal_file \<Rightarrow> bool) \<Rightarrow> nat \<Rightarrow> journal_fs \<Rightarrow> bool" where
  "entries E d fs \<longleftrightarrow> (\<forall>name file. visible fs d name = Some file \<or> stable fs d name = Some file \<longrightarrow> E name file)"

lemma arrives_entries [fs_intros]: "arrives env (entries E d)"
  by (simp add: arrives_def entries_def)

definition temp_name :: "string \<Rightarrow> bool" where
  "temp_name name \<longleftrightarrow> has_prefix name tailMessageFailureFallbackTempPrefix"

text \<open>Removing, making durable and inspecting add no entry.\<close>

lemma entries_remove [fs_intros]: "fs_keeps (entries E d) (root_remove env d' name)"
  unfolding root_remove_def
  by (intro fs_intros) (auto simp: entries_def entry_simps split: if_splits)

lemma entries_sync [fs_intros]: "fs_keeps (entries E d) (syncDirectory env d')"
  unfolding syncDirectory_def syncTailFailureDirectory_def
  by (intro fs_intros) (auto simp: entries_def entry_simps split: if_splits)

lemma entries_mkdir [fs_intros]: "fs_keeps (entries E d) (createTailFailureFallbackDir env)"
  unfolding createTailFailureFallbackDir_def
  by (intro fs_intros) (auto simp: entries_def visible_def stable_def update_dir_def split: option.splits if_splits)

lemma entries_sync_parent [fs_intros]: "fs_keeps (entries E d) (sync_parent env)"
  unfolding sync_parent_def by (intro fs_intros) (simp add: entries_def)

lemma keeps_close [fs_intros]: "arrives env P \<Longrightarrow> fs_keeps P (file_close env)"
  unfolding file_close_def by (intro fs_intros) auto

lemma keeps_lstat [fs_intros]:
  "arrives env P \<Longrightarrow> fs_keeps P (os_lstat env)" "arrives env P \<Longrightarrow> fs_keeps P (root_lstat env d name)"
  "arrives env P \<Longrightarrow> fs_keeps P (os_handle env x)"
  unfolding os_lstat_def root_lstat_def os_handle_def by (intro fs_intros; assumption)+

lemma keeps_open_root [fs_intros]: "arrives env P \<Longrightarrow> fs_keeps P (os_open_root env)"
  unfolding os_open_root_def by (rule fs_keeps_at) (rule fs_intros)

lemma keeps_random [fs_intros]: "arrives env P \<Longrightarrow> fs_keeps P (newTailMessageFailureOccurrenceID env)"
  unfolding newTailMessageFailureOccurrenceID_def by (rule fs_keeps_at) (intro fs_intros)

lemma entries_verify_dir [fs_intros]: "fs_keeps (entries E d) (verify_dir env created info)"
  unfolding verify_dir_def publish_dir_def by (intro fs_intros)

lemma entries_open_dir: "fs_keeps (entries E d) (openTailMessageFailureFallbackDir env create)" (is "fs_keeps ?P _")
proof -
  have l: "fs_keeps ?P (os_lstat env)" by (intro fs_intros)
  have c: "fs_keeps ?P (createTailFailureFallbackDir env)" by (rule fs_intros)
  have v: "fs_keeps ?P (verify_dir env c info)" for c info by (rule fs_intros)
  have i: "fs_keeps ?P (inspect_dir env c)" for c unfolding inspect_dir_def by (intro fs_intros)
  show ?thesis
    unfolding fs_keeps_def openTailMessageFailureFallbackDir_def
    using fs_keeps_result [OF l] fs_keeps_result [OF c] fs_keepsD [OF v] fs_keepsD [OF i]
    by (fastforce split: prod.split sum.split)
qed

text \<open>
  What the file calls of a journal directory leave alone: the path, unless another process replaces
  it, and the entries, as far as \<open>E\<close> does not look into temporary files.
\<close>

definition undisturbed :: "fs_env \<Rightarrow> bool" where
  "undisturbed env \<longleftrightarrow> (\<forall>n. fsOther env n = None)"

definition path_is :: "file_info option \<Rightarrow> file_info option \<Rightarrow> journal_fs \<Rightarrow> bool" where
  "path_is p q fs \<longleftrightarrow> jsPath fs = p \<and> jsPathStable fs = q"

lemma path_arrive [simp]: "undisturbed env \<Longrightarrow> jsPath (fs_arrive env fs) = jsPath fs"
  by (simp add: undisturbed_def fs_arrive_def)

lemma path_update [simp]: "jsPath (update_files d f fs) = jsPath fs" "jsPathStable (update_files d f fs) = jsPathStable fs"
    "jsPath (update_dir d g fs) = jsPath fs" "jsPathStable (update_dir d g fs) = jsPathStable fs"
    "jsPath (change_file d name h fs) = jsPath fs" "jsPathStable (change_file d name h fs) = jsPathStable fs"
  by (simp_all add: update_files_def update_dir_def change_file_def)

definition frame :: "fs_env \<Rightarrow> (string \<Rightarrow> journal_file \<Rightarrow> bool) \<Rightarrow> nat \<Rightarrow> file_info option \<Rightarrow> file_info option \<Rightarrow> journal_fs \<Rightarrow> bool" where
  "frame env E d p q fs \<longleftrightarrow> entries E d fs \<and> (undisturbed env \<longrightarrow> path_is p q fs)"

lemma arrives_frame [fs_intros]: "arrives env (frame env E d p q)"
  by (simp add: arrives_def frame_def path_is_def entries_def)

definition temp_free :: "(string \<Rightarrow> journal_file \<Rightarrow> bool) \<Rightarrow> bool" where
  "temp_free E \<longleftrightarrow>
     (\<forall>name f. temp_name name \<and> fiKind (jfInfo f) = RegularFile \<longrightarrow> E name f) \<and>
     (\<forall>name f f'. temp_name name \<and> E name f \<and> fiKind (jfInfo f') = fiKind (jfInfo f) \<longrightarrow> E name f')"

lemmas frame_simps = frame_def entries_def path_is_def entry_simps

section \<open>Well-formed journals\<close>

text \<open>The documented shape of the random bytes and the digest.\<close>

definition sources_ok :: "fs_env \<Rightarrow> bool" where
  "sources_ok env \<longleftrightarrow> digest_ok (fsSha256 env) \<and>
     (\<forall>n bs. fsRandom env n = Inr bs \<longrightarrow> length bs = tailMessageFailureOccurrenceBytes \<and> list_all (\<lambda>b. b < 256) bs)"

definition whole_file :: "tailMessageFailureFallbackRecord \<Rightarrow> journal_file \<Rightarrow> bool" where
  "whole_file r file \<longleftrightarrow> jfBody file = marshal_record r \<and> jfSynced file \<and> fiKind (jfInfo file) = RegularFile \<and>
     fiOwned (jfInfo file) \<and> fiPerm (jfInfo file) = 0x180"

definition storable :: "tailMessageFailureFallbackRecord \<Rightarrow> bool" where
  "storable r \<longleftrightarrow> valid_record r \<and> utf8_record r \<and> length (marshal_record r) \<le> tailMessageFailureFallbackMaxSize"

definition named_for :: "(string \<Rightarrow> nat list) \<Rightarrow> tailMessageFailureFallbackRecord \<Rightarrow> string \<Rightarrow> bool" where
  "named_for sha256 r name \<longleftrightarrow> (\<exists>a. tailMessageFailureNameParts name = Some (a, hex_string (sha256 (marshal_record r))))"

definition committed_entry :: "(string \<Rightarrow> nat list) \<Rightarrow> string \<Rightarrow> journal_file \<Rightarrow> bool" where
  "committed_entry sha256 name file \<longleftrightarrow> (\<exists>r. storable r \<and> whole_file r file \<and> named_for sha256 r name)"

definition entry_ok :: "(string \<Rightarrow> nat list) \<Rightarrow> string \<Rightarrow> journal_file \<Rightarrow> bool" where
  "entry_ok sha256 name file \<longleftrightarrow> fiKind (jfInfo file) = RegularFile \<and> (temp_name name \<or> committed_entry sha256 name file)"

text \<open>
  A journal directory is well-formed when every entry, visible or stable, is a regular file that is
  either temporary or the complete, durable and canonical text of a valid record, under a name that
  carries its digest.
\<close>

definition journal_ok :: "(string \<Rightarrow> nat list) \<Rightarrow> nat \<Rightarrow> journal_fs \<Rightarrow> bool" where
  "journal_ok sha256 = entries (entry_ok sha256)"

lemma temp_free_entry_ok: "temp_free (entry_ok sha256)"
  by (auto simp: temp_free_def entry_ok_def)

lemma temp_name_made: "temp_name (tailMessageFailureFallbackTempPrefix @ s)"
  by (simp add: temp_name_def)

lemma frame_temp_change:
  assumes "temp_free E" "temp_name tempName" "\<And>fl. fiKind (jfInfo (g fl)) = fiKind (jfInfo fl)"
  shows "frame env E d p q fs \<Longrightarrow> frame env E d p q (change_file d' tempName g fs)"
proof -
  have "E tempName fl \<Longrightarrow> E tempName (g fl)" for fl using assms unfolding temp_free_def by metis
  then show "frame env E d p q fs \<Longrightarrow> frame env E d p q (change_file d' tempName g fs)"
    by (auto simp: frame_simps split: if_splits)
qed

lemma frame_create_temp:
  assumes "temp_free E"
  shows "fs_keeps (frame env E d p q) (create_temp env d' k)"
proof (induction k)
  case (Suc k)
  have "fs_keeps (frame env E d p q) (open_exclusive env d' (tailMessageFailureFallbackTempPrefix @ s))" for s
    unfolding open_exclusive_def using assms
    by (intro fs_intros) (auto simp: frame_simps temp_free_def temp_name_made split: if_splits)
  note o = fs_keeps_result [OF this]
  have "fs_keeps (frame env E d p q) (\<lambda>fs.
       let name = tailMessageFailureFallbackTempPrefix @ hex_string token in
       case open_exclusive env d' name fs of
         (Inr u, fs1) \<Rightarrow> (Inr name, fs1)
       | (Inl e, fs1) \<Rightarrow> if \<not> err_is e os_ErrExist then (Inl e, fs1) else create_temp env d' k fs1)" for token
    unfolding fs_keeps_def Let_def
    by (auto split: prod.split sum.split dest: o intro: fs_keepsD [OF Suc.IH])
  then show ?case by (simp only: create_temp.simps) (intro fs_intros)
qed (simp add: fs_keeps_pure)

lemma frame_fill_temp:
  assumes "temp_free E" "temp_name tempName"
  shows "fs_keeps (frame env E d p q) (fill_temp env d' tempName body)"
proof -
  note change = frame_temp_change [OF assms]
  have "fs_keeps (frame env E d p q) (file_chmod env d' tempName perm)" for perm
    unfolding file_chmod_def by (intro fs_intros) (auto intro!: change)
  moreover have "fs_keeps (frame env E d p q)
      (fs_op env (\<lambda>fs1. (Inr n, change_file d' tempName (\<lambda>f. f\<lparr>jfBody := jfBody f @ take n body, jfSynced := False\<rparr>) fs1)))" for n
    by (intro fs_intros) (auto intro!: change)
  then have "fs_keeps (frame env E d p q) (file_write env d' tempName body)"
    by (simp add: fs_keeps_def file_write_def Let_def)
  moreover have "fs_keeps (frame env E d p q) (file_sync env d' tempName)"
    unfolding file_sync_def by (intro fs_intros) (auto intro!: change)
  ultimately show ?thesis
    unfolding fill_temp_def secureTailFailureFallbackTempFile_def by (intro fs_intros)
qed

text \<open>The commit: as long as the temporary file is there, it is whole.\<close>

definition temp_ready :: "tailMessageFailureFallbackRecord \<Rightarrow> nat \<Rightarrow> string \<Rightarrow> journal_fs \<Rightarrow> bool" where
  "temp_ready r d tempName fs \<longleftrightarrow> (\<forall>file. visible fs d tempName = Some file \<longrightarrow> whole_file r file)"

lemma arrives_ready [fs_intros]: "arrives env (temp_ready r d tempName)"
  by (simp add: arrives_def temp_ready_def)

lemma named_not_temp: "named_for sha256 r name \<Longrightarrow> \<not> temp_name name"
  by (auto simp: named_for_def temp_name_def dest: committed_not_temp)

lemma frame_rename:
  assumes "\<And>fl. whole_file r fl \<Longrightarrow> E finalName fl" "finalName \<noteq> tempName"
  shows "fs_keeps (\<lambda>fs. frame env E d p q fs \<and> temp_ready r d' tempName fs) (renameTailFailureNoReplace env d' tempName finalName)"
    (is "fs_keeps ?P _")
proof -
  have r: "fs_keeps ?P (renameat2_noreplace env d' tempName finalName)"
    unfolding renameat2_noreplace_def
    by (intro fs_intros) (auto simp: frame_simps temp_ready_def assms split: if_splits option.splits)
  have l: "fs_keeps ?P (root_link env d' tempName finalName)"
    unfolding root_link_def
    by (intro fs_intros) (auto simp: frame_simps temp_ready_def assms split: if_splits option.splits)
  have d: "fs_keeps ?P (root_remove env d' tempName)"
    unfolding root_remove_def
    by (intro fs_intros) (auto simp: frame_simps temp_ready_def split: if_splits option.splits)
  have k: "fs_keeps ?P (linkTailFailureNoReplaceRoot env d' tempName finalName)"
    unfolding linkTailFailureNoReplaceRoot_def
    by (intro fs_intros l) (use fs_keepsD [OF d] in \<open>auto simp: fs_keeps_def\<close>)
  have "?P (snd (renameTailFailureNoReplace env d' tempName finalName fs))" if p: "?P fs" for fs
  proof -
    obtain res fs1 where a: "renameat2_noreplace env d' tempName finalName fs = (res, fs1)" by force
    from fs_keeps_result [OF r a p] have "?P fs1" .
    with a fs_keepsD [OF k this] show ?thesis by (cases res) (simp_all add: renameTailFailureNoReplace_def)
  qed
  then show ?thesis by (simp add: fs_keeps_def)
qed

lemma occurrence_named:
  assumes "sources_ok env" "newTailMessageFailureOccurrenceID env fs = (Inr occ, fs1)"
  shows "named_for (fsSha256 env) r (commit_name occ (fsSha256 env (marshal_record r)))"
proof -
  from assms(2) have "\<exists>n. fsRandom env n = Inr occ"
    by (auto simp: newTailMessageFailureOccurrenceID_def fs_wrap_Inr dest!: fs_read_Inr)
  with assms(1) show ?thesis
    by (auto simp: sources_ok_def digest_ok_def named_for_def commit_name_parts tailMessageFailureOccurrenceBytes_def)
qed

text \<open>The entry predicate admits every whole file under a name made for it.\<close>

definition admits :: "(string \<Rightarrow> journal_file \<Rightarrow> bool) \<Rightarrow> (string \<Rightarrow> nat list) \<Rightarrow> tailMessageFailureFallbackRecord \<Rightarrow> bool" where
  "admits E sha256 r \<longleftrightarrow> (\<forall>name fl. named_for sha256 r name \<longrightarrow> whole_file r fl \<longrightarrow> E name fl)"

lemma admits_entry_ok: "storable r \<Longrightarrow> admits (entry_ok sha256) sha256 r"
  by (auto simp: admits_def entry_ok_def committed_entry_def whole_file_def)

lemma frame_commit_temp:
  assumes "sources_ok env" "admits E (fsSha256 env) r" "temp_name tempName"
  shows "fs_keeps (\<lambda>fs. frame env E d p q fs \<and> temp_ready r d' tempName fs)
    (commit_temp env d' tempName (fsSha256 env (marshal_record r)) k)" (is "fs_keeps ?P _")
proof (induction k)
  case (Suc k)
  have o: "fs_keeps ?P (newTailMessageFailureOccurrenceID env)" by (intro fs_intros)
  have s: "fs_keeps ?P (syncDirectory env d')"
    unfolding syncDirectory_def syncTailFailureDirectory_def
    by (intro fs_intros) (auto simp: frame_simps temp_ready_def split: if_splits)
  have "?P (snd (commit_temp env d' tempName (fsSha256 env (marshal_record r)) (Suc k) fs))" if "?P fs" for fs
  proof (cases "newTailMessageFailureOccurrenceID env fs")
    case (Pair res fs1)
    have p1: "?P fs1" by (rule fs_keeps_result [OF o Pair that])
    show ?thesis
    proof (cases res)
      case (Inr occ)
      let ?final = "commit_name occ (fsSha256 env (marshal_record r))"
      have n: "named_for (fsSha256 env) r ?final" using occurrence_named [OF assms(1)] Pair Inr by blast
      have e: "whole_file r fl \<Longrightarrow> E ?final fl" for fl using assms(2) n by (auto simp: admits_def)
      have ne: "?final \<noteq> tempName" using named_not_temp [OF n] assms(3) by auto
      obtain res2 fs2 where r2: "renameTailFailureNoReplace env d' tempName ?final fs1 = (res2, fs2)" by force
      have "fs_keeps ?P (renameTailFailureNoReplace env d' tempName ?final)" by (rule frame_rename) (use e ne in auto)
      then have p2: "?P fs2" using r2 p1 by (rule fs_keeps_result)
      obtain res3 fs3 where r3: "syncDirectory env d' fs2 = (res3, fs3)" by force
      have p3: "?P fs3" by (rule fs_keeps_result [OF s r3 p2])
      show ?thesis using Pair Inr r2 r3 p2 p3 fs_keepsD [OF Suc.IH p2] by (cases res2; cases res3) auto
    qed (use Pair p1 in simp)
  qed
  then show ?case by (simp add: fs_keeps_def)
qed (simp add: fs_keeps_def)

text \<open>A filled temporary file is whole.\<close>

lemma create_temp_Inr:
  "create_temp env d k fs = (Inr tempName, fs') \<Longrightarrow> temp_name tempName \<and>
    (\<exists>n. visible fs' d tempName = Some \<lparr>jfInfo = \<lparr>fiKind = RegularFile, fiPerm = 0x180, fiOwned = True, fiIno = n\<rparr>,
       jfBody = [], jfSynced = False\<rparr>)"
proof (induction k arbitrary: fs)
  case (Suc k)
  then obtain token fs1 where t: "(let name = tailMessageFailureFallbackTempPrefix @ hex_string token in
       case open_exclusive env d name fs1 of
         (Inr u, fs2) \<Rightarrow> (Inr name, fs2)
       | (Inl e, fs2) \<Rightarrow> if \<not> err_is e os_ErrExist then (Inl e, fs2) else create_temp env d k fs2) = (Inr tempName, fs')"
    by (auto dest!: fs_bind_Inr)
  let ?name = "tailMessageFailureFallbackTempPrefix @ hex_string token"
  obtain res fs2 where o: "open_exclusive env d ?name fs1 = (res, fs2)" by force
  show ?case
  proof (cases res)
    case (Inr u)
    with o have "\<exists>n. visible fs2 d ?name = Some \<lparr>jfInfo = \<lparr>fiKind = RegularFile, fiPerm = 0x180, fiOwned = True, fiIno = n\<rparr>,
       jfBody = [], jfSynced = False\<rparr>"
      by (auto simp: open_exclusive_def entry_simps dest!: fs_op_Inr split: if_splits)
    with t o Inr show ?thesis by (auto simp: temp_name_made)
  qed (use t o Suc.IH in \<open>auto split: if_splits\<close>)
qed (simp add: fs_fail_def)

lemma fill_temp_Inr:
  assumes "fill_temp env d tempName (marshal_record r) fs = (Inr u, fs')"
    and "visible fs d tempName = Some \<lparr>jfInfo = \<lparr>fiKind = RegularFile, fiPerm = 0x180, fiOwned = True, fiIno = n\<rparr>,
       jfBody = [], jfSynced = False\<rparr>"
  shows "\<exists>f. visible fs' d tempName = Some f \<and> whole_file r f"
proof -
  let ?body = "marshal_record r"
  from assms(1) obtain fs1 temp fs2 k fs3 fs4 where
    c: "file_chmod env d tempName 0x180 fs = (Inr (), fs1)" and l: "root_lstat env d tempName fs1 = (Inr temp, fs2)"
    and w: "file_write env d tempName ?body fs2 = (Inr k, fs3)" and k: "k = length ?body"
    and s: "file_sync env d tempName fs3 = (Inr (), fs4)" and cl: "file_close env fs4 = (Inr u, fs')"
    by (auto simp: fill_temp_def secureTailFailureFallbackTempFile_def fs_return_def fs_wrap_Inr check_info_Inr fs_fail_def
        dest!: fs_bind_Inr split: if_splits)
  have 1: "visible fs1 d tempName = Some \<lparr>jfInfo = \<lparr>fiKind = RegularFile, fiPerm = 0x180, fiOwned = True, fiIno = n\<rparr>,
       jfBody = [], jfSynced = False\<rparr>"
    using c assms(2) by (auto simp: file_chmod_def entry_simps dest!: fs_op_Inr)
  have 2: "visible fs2 = visible fs1" using l by (auto simp: root_lstat_def dest!: fs_read_Inr)
  have 3: "visible fs3 d tempName = Some \<lparr>jfInfo = \<lparr>fiKind = RegularFile, fiPerm = 0x180, fiOwned = True, fiIno = n\<rparr>,
       jfBody = ?body, jfSynced = False\<rparr>"
    using w k 1 2 by (auto simp: file_write_def entry_simps Let_def dest!: fs_op_Inr)
  have 4: "visible fs4 d tempName = Some \<lparr>jfInfo = \<lparr>fiKind = RegularFile, fiPerm = 0x180, fiOwned = True, fiIno = n\<rparr>,
       jfBody = ?body, jfSynced = True\<rparr>"
    using s 3 by (auto simp: file_sync_def entry_simps dest!: fs_op_Inr)
  have "visible fs' = visible fs4" using cl by (auto simp: file_close_def dest!: fs_op_Inr)
  with 4 show ?thesis by (simp add: whole_file_def)
qed

text \<open>The parts of a run of \<open>write_fallback\<close>.\<close>

lemma write_fallback_cases:
  obtains (no_temp) e where "createTailMessageFailureTemp env d fs = (Inl e, snd (write_fallback env body d fs))"
      "fst (write_fallback env body d fs) \<noteq> None"
  | (no_fill) tempName fs1 e fs2 where "createTailMessageFailureTemp env d fs = (Inr tempName, fs1)"
      "fill_temp env d tempName body fs1 = (Inl e, fs2)" "write_fallback env body d fs = (Some e, snd (removeFile env d tempName fs2))"
  | (commit) tempName fs1 u fs2 e flag fs3 where "createTailMessageFailureTemp env d fs = (Inr tempName, fs1)"
      "fill_temp env d tempName body fs1 = (Inr u, fs2)"
      "commit_temp env d tempName (fsSha256 env body) tailMessageFailureNameAttempts fs2 = ((e, flag), fs3)"
      "write_fallback env body d fs = (e, if flag then snd (removeFile env d tempName fs3) else fs3)"
proof -
  obtain res fs1 where a: "createTailMessageFailureTemp env d fs = (res, fs1)" by force
  show ?thesis
  proof (cases res)
    case (Inl e)
    with a show ?thesis by (intro no_temp) (simp_all add: write_fallback_def fs_wrap_def)
  next
    case (Inr tempName)
    obtain res2 fs2 where b: "fill_temp env d tempName body fs1 = (res2, fs2)" by force
    show ?thesis
    proof (cases res2)
      case (Inl e)
      with a b \<open>res = Inr tempName\<close> show ?thesis by (intro no_fill) (simp_all add: write_fallback_def fs_wrap_def)
    next
      case (Inr u)
      obtain e flag fs3 where "commit_temp env d tempName (fsSha256 env body) tailMessageFailureNameAttempts fs2 = ((e, flag), fs3)"
        by (metis surj_pair)
      with a b Inr \<open>res = Inr tempName\<close> show ?thesis
        by (cases flag) (auto intro!: commit simp: write_fallback_def fs_wrap_def)
    qed
  qed
qed

lemma frame_write_fallback:
  assumes "sources_ok env" "temp_free E" "admits E (fsSha256 env) r"
  shows "fs_keeps (frame env E d p q) (write_fallback env (marshal_record r) d')" (is "fs_keeps ?P _")
proof -
  have "fs_keeps ?P (removeFile env d' name)" for name
    unfolding removeFile_def root_remove_def by (intro fs_intros) (auto simp: frame_simps split: if_splits)
  note rm = fs_keepsD [OF this]
  have "?P (snd (write_fallback env (marshal_record r) d' fs))" if P: "?P fs" for fs
  proof (rule write_fallback_cases [of env d' fs "marshal_record r"])
    fix e assume "createTailMessageFailureTemp env d' fs = (Inl e, snd (write_fallback env (marshal_record r) d' fs))"
    from fs_keeps_result [OF frame_create_temp [OF assms(2)] this [unfolded createTailMessageFailureTemp_def] P]
    show ?thesis .
  next
    fix tempName fs1 e fs2
    assume a: "createTailMessageFailureTemp env d' fs = (Inr tempName, fs1)"
      and b: "fill_temp env d' tempName (marshal_record r) fs1 = (Inl e, fs2)"
      and c: "write_fallback env (marshal_record r) d' fs = (Some e, snd (removeFile env d' tempName fs2))"
    have "?P fs1" by (rule fs_keeps_result [OF frame_create_temp [OF assms(2)] a [unfolded createTailMessageFailureTemp_def] P])
    with create_temp_Inr [OF a [unfolded createTailMessageFailureTemp_def]] have "?P fs2"
      using fs_keeps_result [OF frame_fill_temp [OF assms(2)] b] by blast
    with c rm show ?thesis by simp
  next
    fix tempName fs1 u fs2 e flag fs3
    assume a: "createTailMessageFailureTemp env d' fs = (Inr tempName, fs1)"
      and b: "fill_temp env d' tempName (marshal_record r) fs1 = (Inr u, fs2)"
      and c: "commit_temp env d' tempName (fsSha256 env (marshal_record r)) tailMessageFailureNameAttempts fs2 = ((e, flag), fs3)"
      and w: "write_fallback env (marshal_record r) d' fs = (e, if flag then snd (removeFile env d' tempName fs3) else fs3)"
    have P1: "?P fs1" by (rule fs_keeps_result [OF frame_create_temp [OF assms(2)] a [unfolded createTailMessageFailureTemp_def] P])
    from create_temp_Inr [OF a [unfolded createTailMessageFailureTemp_def]] obtain n where
      t: "temp_name tempName" and v: "visible fs1 d' tempName = Some \<lparr>jfInfo = \<lparr>fiKind = RegularFile, fiPerm = 0x180, fiOwned = True, fiIno = n\<rparr>,
         jfBody = [], jfSynced = False\<rparr>" by blast
    have P2: "?P fs2" by (rule fs_keeps_result [OF frame_fill_temp [OF assms(2) t] b P1])
    have "temp_ready r d' tempName fs2" using fill_temp_Inr [OF b v] by (auto simp: temp_ready_def)
    with P2 have "?P fs3" using fs_keeps_result [OF frame_commit_temp [OF assms(1,3) t, of d p q d'] c] by blast
    with w rm show ?thesis by simp
  qed
  then show ?thesis by (simp add: fs_keeps_def)
qed

lemma keeps_write_fallback:
  assumes "sources_ok env" "storable r"
  shows "fs_keeps (journal_ok (fsSha256 env) d) (write_fallback env (marshal_record r) d')"
proof -
  note w = frame_write_fallback [OF assms(1) temp_free_entry_ok admits_entry_ok [OF assms(2)], of d _ _ d']
  have "journal_ok (fsSha256 env) d (snd (write_fallback env (marshal_record r) d' fs))" if "journal_ok (fsSha256 env) d fs" for fs
  proof -
    have "path_is (jsPath fs) (jsPathStable fs) fs" by (simp add: path_is_def)
    with that fs_keepsD [OF w, of "jsPath fs" "jsPathStable fs" fs] show ?thesis by (simp add: frame_def journal_ok_def)
  qed
  then show ?thesis by (simp add: fs_keeps_def)
qed

lemma keeps_open_journal: "fs_keeps (journal_ok sha256 d) (openTailMessageFailureFallbackDir env create)"
  unfolding journal_ok_def by (rule entries_open_dir)

lemma normalized_storable:
  assumes "normalizeTailMessageFailureFallback f = Inr r" "utf8_ok (fbGuildID f)" "utf8_ok (fbChannelID f)" "utf8_ok (fbMessageID f)"
  shows "storable r"
  using normalized_valid [OF assms(1)] assms(2-) by (simp add: storable_def)

lemma keeps_journal_persist:
  assumes "sources_ok env" "utf8_ok (fbGuildID f)" "utf8_ok (fbChannelID f)" "utf8_ok (fbMessageID f)"
  shows "fs_keeps (journal_ok (fsSha256 env) d) (PersistTailMessageFailureFallback env f)"
proof -
  let ?J = "journal_ok (fsSha256 env) d"
  have "?J (snd (PersistTailMessageFailureFallback env f fs))" if J: "?J fs" for fs
  proof (cases "normalizeTailMessageFailureFallback f")
    case (Inr r)
    obtain res fs1 where o: "openTailMessageFailureFallbackDir env True fs = (res, fs1)" by force
    have J1: "?J fs1" by (rule fs_keeps_result [OF keeps_open_journal o J])
    note w = fs_keepsD [OF keeps_write_fallback [OF assms(1) normalized_storable [OF Inr assms(2-)]] J1]
    show ?thesis
      using Inr o J J1 w
      by (cases "fsDirPath env"; cases res)
        (simp_all add: PersistTailMessageFailureFallback_def persistTailMessageFailureFallback_def Let_def)
  qed (use J in \<open>simp add: PersistTailMessageFailureFallback_def persistTailMessageFailureFallback_def\<close>)
  then show ?thesis by (simp add: fs_keeps_def)
qed

section \<open>Importing keeps the journal well-formed\<close>

lemma keeps_read_committed [fs_intros]: "arrives env P \<Longrightarrow> fs_keeps P (readCommittedTailMessageFailure env d name)"
  unfolding readCommittedTailMessageFailure_def Let_def
  by (cases "tailMessageFailureNameParts name")
    (auto simp: fs_keeps_pure split: sum.split intro!: fs_intros)

lemma keeps_read_entries [fs_intros]: "arrives env P \<Longrightarrow> fs_keeps P (read_entries env d names)"
  by (induction names) (auto split: prod.split intro!: fs_intros)

lemma entries_cleanup [fs_intros]: "fs_keeps (entries E d) (cleanup_temps env d' names removed)"
proof (induction names arbitrary: removed)
  case (Cons name names)
  have "entries E d (snd (cleanup_temps env d' (name # names) removed fs))" if p: "entries E d fs" for fs
  proof -
    obtain res fs1 where l: "root_lstat env d' name fs = (res, fs1)" by force
    have "fs_keeps (entries E d) (root_lstat env d' name)" by (intro fs_intros)
    then have p1: "entries E d fs1" using l p by (rule fs_keeps_result)
    have "fs_keeps (entries E d) (fs_bind (fs_wrap ''remove tail message failure fallback temp file: '' (removeFile env d' name))
        (\<lambda>_. cleanup_temps env d' names True))"
      unfolding removeFile_def by (intro fs_intros Cons.IH)
    from fs_keepsD [OF this p1] fs_keepsD [OF Cons.IH p1, of removed] l p1 show ?thesis
      by (cases res) auto
  qed
  then show ?case by (simp add: fs_keeps_def)
qed (simp add: fs_keeps_pure)

lemma entries_read_journal: "fs_keeps (entries E d) (read_journal env d')"
  unfolding read_journal_def cleanupTailMessageFailureTemps_def
  by (auto split: prod.split intro!: fs_intros)

lemma entries_remove_committed: "entries E d fs \<Longrightarrow> entries E d (snd (remove_committed env d' items removed e fs))"
proof (induction items arbitrary: removed e fs)
  case (Cons item items)
  obtain res fs1 where l: "removeFile env d' (cmName item) fs = (res, fs1)" by force
  have "fs_keeps (entries E d) (removeFile env d' (cmName item))" unfolding removeFile_def by (rule fs_intros)
  then have "entries E d fs1" using l Cons.prems by (rule fs_keeps_result)
  with l Cons.IH show ?case by (cases res) auto
qed simp

lemma entries_remove_imported: "fs_keeps (entries E d) (remove_imported env d' items)"
proof -
  have "entries E d (snd (remove_imported env d' items fs))" if p: "entries E d fs" for fs
  proof -
    obtain b e fs1 where l: "remove_committed env d' items False None fs = ((b, e), fs1)" by (metis surj_pair)
    then have p1: "entries E d fs1" using entries_remove_committed [OF p, of env d' items False None] by simp
    obtain res fs2 where s: "syncDirectory env d' fs1 = (res, fs2)" by force
    have "entries E d fs2" by (rule fs_keeps_result [OF entries_sync s p1])
    with l p1 s show ?thesis by (cases res) (simp_all add: remove_imported_def)
  qed
  then show ?thesis by (simp add: fs_keeps_def)
qed

lemma keeps_import_journal:
  "journal_ok sha256 d fs \<Longrightarrow> journal_ok sha256 d (snd (snd (ImportTailMessageFailureFallbacks env fenv (w, fs))))"
proof -
  assume J: "journal_ok sha256 d fs"
  obtain res fs1 where o: "openTailMessageFailureFallbackDir fenv False fs = (res, fs1)" by force
  have J1: "journal_ok sha256 d fs1" by (rule fs_keeps_result [OF keeps_open_journal o J])
  show ?thesis
  proof (cases res)
    case (Inr d')
    obtain res2 fs2 where r: "read_journal fenv d' fs1 = (res2, fs2)" by force
    have J2: "journal_ok sha256 d fs2"
      using fs_keeps_result [OF entries_read_journal r] J1 unfolding journal_ok_def by blast
    have J3: "journal_ok sha256 d (snd (remove_imported fenv d' items fs2))" for items
      using fs_keepsD [OF entries_remove_imported] J2 unfolding journal_ok_def by blast
    show ?thesis
      using o Inr r J J2 J3
      by (auto simp: ImportTailMessageFailureFallbacks_def importTailMessageFailureFallbacks_def split: sum.split prod.split)
        (metis snd_conv)+
  qed (use o J J1 in \<open>auto simp: ImportTailMessageFailureFallbacks_def importTailMessageFailureFallbacks_def split: sum.split\<close>)
qed

section \<open>Crashes\<close>

text \<open>
  After a crash the path names what it named before or what was stable, and so does every name of a
  directory, each on its own; a file whose bytes were not stable has any bytes.
\<close>

definition file_after_crash :: "journal_file \<Rightarrow> journal_file \<Rightarrow> bool" where
  "file_after_crash f f' \<longleftrightarrow> jfInfo f' = jfInfo f \<and> jfSynced f' \<and> (jfSynced f \<longrightarrow> f' = f)"

definition crashed :: "journal_fs \<Rightarrow> journal_fs \<Rightarrow> bool" where
  "crashed fs fs' \<longleftrightarrow>
     (jsPath fs' = jsPath fs \<or> jsPath fs' = jsPathStable fs) \<and> jsPathStable fs' = jsPath fs' \<and>
     (\<forall>d name. (rel_option file_after_crash (visible fs d name) (visible fs' d name) \<or>
                rel_option file_after_crash (stable fs d name) (visible fs' d name)) \<and>
               stable fs' d name = visible fs' d name)"

lemma crash_keeps_journal:
  assumes "crashed fs fs'" "journal_ok sha256 d fs"
  shows "journal_ok sha256 d fs'"
proof -
  have "entry_ok sha256 name f'" if "visible fs' d name = Some f'" for name f'
  proof -
    from assms(1) that obtain f where f: "visible fs d name = Some f \<or> stable fs d name = Some f" "file_after_crash f f'"
      unfolding crashed_def by (metis option.rel_cases option.distinct(1) option.inject)
    then have e: "entry_ok sha256 name f" using assms(2) unfolding journal_ok_def entries_def by blast
    with f(2) show ?thesis
      by (auto simp: entry_ok_def file_after_crash_def committed_entry_def whole_file_def)
  qed
  moreover have "stable fs' d name = visible fs' d name" for name using assms(1) by (simp add: crashed_def)
  ultimately show ?thesis by (auto simp: journal_ok_def entries_def)
qed


section \<open>Durability\<close>

text \<open>The failure of a record is held by the journal: the path names a directory with a whole file for it.\<close>

definition holds_failure :: "(string \<Rightarrow> nat list) \<Rightarrow> tailMessageFailureFallbackRecord \<Rightarrow> journal_fs \<Rightarrow> bool" where
  "holds_failure sha256 r fs \<longleftrightarrow> (\<exists>info name f. jsPath fs = Some info \<and> validateTailFailureFallbackDir info = None \<and>
     fiKind info = DirectoryNode \<and> visible fs (fiIno info) name = Some f \<and> whole_file r f \<and> named_for sha256 r name)"


lemma path_of_read: "undisturbed env \<Longrightarrow> fs_read env q fs = (x, fs') \<Longrightarrow> jsPath fs' = jsPath fs \<and> jsPathStable fs' = jsPathStable fs"
  by (auto simp: fs_read_def fs_op_def split: option.splits db_fault.splits)

lemma lstat_Inr: "undisturbed env \<Longrightarrow> os_lstat env fs = (Inr info, fs') \<Longrightarrow> jsPath fs = Some info"
  by (auto simp: os_lstat_def dest!: fs_read_Inr split: option.splits)

lemma lstat_path: "undisturbed env \<Longrightarrow> os_lstat env fs = (x, fs') \<Longrightarrow> jsPath fs' = jsPath fs \<and> jsPathStable fs' = jsPathStable fs"
  unfolding os_lstat_def by (rule path_of_read)

lemma handle_Inr: "undisturbed env \<Longrightarrow> os_handle env x fs = (Inr y, fs') \<Longrightarrow> y = x \<and> jsPath fs' = jsPath fs \<and> jsPathStable fs' = jsPathStable fs"
  unfolding os_handle_def using path_of_read by (fastforce dest: fs_read_Inr)

lemma open_root_Inr:
  assumes "undisturbed env" "os_open_root env fs = (Inr root, fs')"
  shows "jsPath fs' = jsPath fs \<and> jsPathStable fs' = jsPathStable fs \<and>
    (\<forall>info. jsPath fs = Some info \<longrightarrow> fiKind info \<noteq> SymbolicLink \<longrightarrow> root = info)"
  using assms by (auto simp: os_open_root_def dest!: fs_read_Inr split: option.splits if_splits)

lemma publish_dir_Inr:
  assumes "undisturbed env" "publish_dir env created fs = (Inr u, fs')"
  shows "jsPath fs' = jsPath fs \<and> jsPathStable fs' = (if created then jsPath fs else jsPathStable fs)"
proof (cases created)
  case True
  with assms(2) obtain fs1 fs2 where h: "os_handle env () fs = (Inr (), fs1)" and s: "sync_parent env fs1 = (Inr (), fs2)"
    and c: "file_close env fs2 = (Inr u, fs')"
    by (auto simp: publish_dir_def fs_wrap_Inr dest!: fs_bind_Inr)
  with handle_Inr [OF assms(1) h] assms(1) True show ?thesis
    by (auto simp: sync_parent_def file_close_def dest!: fs_op_Inr)
qed (use assms(2) in \<open>simp add: publish_dir_def fs_return_def\<close>)

lemma verify_dir_Inr:
  assumes "undisturbed env" "verify_dir env created info fs = (Inr d, fs')"
  shows "\<exists>i. jsPath fs = Some i \<and> jsPath fs' = Some i \<and> fiIno i = d \<and> fiKind i = DirectoryNode \<and>
    validateTailFailureFallbackDir i = None \<and> jsPathStable fs' = (if created then Some i else jsPathStable fs)"
proof -
  from assms(2) obtain root fs1 opened fs2 current fs3 handle fs4 dirInfo fs5 u where
    r: "os_open_root env fs = (Inr root, fs1)" and o: "os_handle env root fs1 = (Inr opened, fs2)"
    and c: "os_lstat env fs2 = (Inr current, fs3)" and nosym: "fiKind current \<noteq> SymbolicLink"
    and dir: "fiKind opened = DirectoryNode"
    and h: "os_handle env root fs3 = (Inr handle, fs4)" and i: "os_handle env handle fs4 = (Inr dirInfo, fs5)"
    and v: "validateTailFailureFallbackDir dirInfo = None" and p: "publish_dir env created fs5 = (Inr u, fs')" and d: "d = fiIno dirInfo"
    by (auto simp: verify_dir_def fs_wrap_Inr check_info_Inr fs_fail_def fs_return_def dest!: fs_bind_Inr split: if_splits)
  note path = open_root_Inr [OF assms(1) r] handle_Inr [OF assms(1) o] lstat_path [OF assms(1) c] handle_Inr [OF assms(1) h]
    handle_Inr [OF assms(1) i] publish_dir_Inr [OF assms(1) p]
  have cur: "jsPath fs2 = Some current" by (rule lstat_Inr [OF assms(1) c])
  with path nosym have "root = current" by auto
  with path cur dir v d show ?thesis by (intro exI [of _ current]) auto
qed

text \<open>A call that reports that the file exists has not created it.\<close>

definition exists_is_honest :: "fs_env \<Rightarrow> bool" where
  "exists_is_honest env \<longleftrightarrow> (\<forall>n e. fsFault env n = Some (FailAfter e) \<longrightarrow> \<not> err_is e os_ErrExist)"

lemma mkdir_exists:
  assumes "undisturbed env" "exists_is_honest env" "createTailFailureFallbackDir env fs = (Inl e, fs')" "err_is e os_ErrExist"
  shows "jsPath fs' = jsPath fs \<and> jsPathStable fs' = jsPathStable fs"
  using assms unfolding exists_is_honest_def
  by (auto simp: createTailFailureFallbackDir_def fs_op_def split: option.splits db_fault.splits)

lemma open_dir_Inr:
  assumes "undisturbed env" "exists_is_honest env" "openTailMessageFailureFallbackDir env create fs = (Inr d, fs')"
    and "jsPath fs = None \<or> jsPathStable fs = jsPath fs"
  shows "\<exists>i. path_is (Some i) (Some i) fs' \<and> fiIno i = d \<and> fiKind i = DirectoryNode \<and> validateTailFailureFallbackDir i = None"
proof -
  obtain res fs1 where l: "os_lstat env fs = (res, fs1)" by force
  have p1: "jsPath fs1 = jsPath fs" "jsPathStable fs1 = jsPathStable fs" using lstat_path [OF assms(1) l] by auto
  show ?thesis
  proof (cases res)
    case (Inr info)
    with l assms(3) have v: "verify_dir env False info fs1 = (Inr d, fs')" by (simp add: openTailMessageFailureFallbackDir_def)
    from verify_dir_Inr [OF assms(1) v] lstat_Inr [OF assms(1) l [unfolded Inr]] p1 assms(4) show ?thesis
      by (auto simp: path_is_def)
  next
    case (Inl e)
    obtain res2 fs2 where m: "createTailFailureFallbackDir env fs1 = (res2, fs2)" by force
    show ?thesis
    proof (cases res2)
      case (Inr u)
      with assms(3) l Inl m obtain info fs3 where i: "os_lstat env fs2 = (Inr info, fs3)" and v: "verify_dir env True info fs3 = (Inr d, fs')"
        by (auto simp: openTailMessageFailureFallbackDir_def inspect_dir_def fs_wrap_Inr dest!: fs_bind_Inr split: if_splits)
      from verify_dir_Inr [OF assms(1) v] show ?thesis by (auto simp: path_is_def)
    next
      case (Inl e2)
      with assms(3) l \<open>res = Inl e\<close> m obtain info fs3 where i: "os_lstat env fs2 = (Inr info, fs3)" and v: "verify_dir env False info fs3 = (Inr d, fs')"
        by (auto simp: openTailMessageFailureFallbackDir_def inspect_dir_def fs_wrap_Inr dest!: fs_bind_Inr split: if_splits)
      have a: "jsPath fs2 = Some info" by (rule lstat_Inr [OF assms(1) i])
      from assms(3) l \<open>res = Inl e\<close> m Inl have e2: "err_is e2 os_ErrExist"
        by (auto simp: openTailMessageFailureFallbackDir_def split: if_splits)
      have p2: "jsPath fs2 = jsPath fs1" "jsPathStable fs2 = jsPathStable fs1"
        using mkdir_exists [OF assms(1,2) m [unfolded Inl] e2] by auto
      with verify_dir_Inr [OF assms(1) v] lstat_path [OF assms(1) i] p1 a assms(4) show ?thesis
        by (auto simp: path_is_def)
    qed
  qed
qed

lemma ready_rename_Inr:
  assumes "temp_ready r d tempName fs" "finalName \<noteq> tempName" "renameTailFailureNoReplace env d tempName finalName fs = (Inr u, fs')"
  shows "\<exists>f. visible fs' d finalName = Some f \<and> whole_file r f"
proof -
  obtain res fs1 where a: "renameat2_noreplace env d tempName finalName fs = (res, fs1)" by force
  show ?thesis
  proof (cases res)
    case (Inr v)
    with a assms show ?thesis
      by (auto simp: renameTailFailureNoReplace_def renameat2_noreplace_def temp_ready_def entry_simps
          dest!: fs_op_Inr split: if_splits option.splits)
  next
    case (Inl e)
    have "temp_ready r d tempName fs1"
      using a Inl assms(1,2)
      by (auto simp: renameat2_noreplace_def fs_op_def temp_ready_def entry_simps split: option.splits db_fault.splits if_splits)
    moreover from a Inl assms(3) obtain fs2 where l: "root_link env d tempName finalName fs1 = (Inr (), fs2)"
      and r: "fs' = snd (root_remove env d tempName fs2)"
      by (auto simp: renameTailFailureNoReplace_def linkTailFailureNoReplaceRoot_def dest!: fs_bind_Inr split: if_splits)
    ultimately obtain f where f: "visible fs2 d finalName = Some f" "whole_file r f"
      by (auto simp: root_link_def temp_ready_def entry_simps dest!: fs_op_Inr split: if_splits option.splits)
    have "visible fs' d finalName = visible fs2 d finalName"
      using r assms(2) by (auto simp: root_remove_def fs_op_def entry_simps split: option.split db_fault.split)
    with f show ?thesis by auto
  qed
qed

text \<open>A name made of bytes the random source gives.\<close>

definition drawn :: "fs_env \<Rightarrow> tailMessageFailureFallbackRecord \<Rightarrow> string \<Rightarrow> bool" where
  "drawn env r name \<longleftrightarrow> (\<exists>n occ. fsRandom env n = Inr occ \<and> name = commit_name occ (fsSha256 env (marshal_record r)))"

lemma occurrence_drawn:
  "newTailMessageFailureOccurrenceID env fs = (Inr occ, fs1) \<Longrightarrow> drawn env r (commit_name occ (fsSha256 env (marshal_record r)))"
  by (auto simp: newTailMessageFailureOccurrenceID_def fs_wrap_Inr drawn_def dest!: fs_read_Inr)

lemma commit_temp_None:
  assumes "sources_ok env" "temp_name tempName"
  shows "commit_temp env d tempName (fsSha256 env (marshal_record r)) k fs = ((None, flag), fs') \<Longrightarrow> temp_ready r d tempName fs \<Longrightarrow>
    \<not> flag \<and> (\<exists>name f. drawn env r name \<and> named_for (fsSha256 env) r name \<and> whole_file r f \<and> visible fs' d name = Some f \<and> stable fs' d name = Some f)"
proof (induction k arbitrary: fs)
  case (Suc k)
  have o: "fs_keeps (temp_ready r d tempName) (newTailMessageFailureOccurrenceID env)" by (intro fs_intros)
  from Suc.prems(1) obtain occ fs1 where a: "newTailMessageFailureOccurrenceID env fs = (Inr occ, fs1)"
    by (auto split: prod.splits sum.splits)
  let ?final = "commit_name occ (fsSha256 env (marshal_record r))"
  have n: "named_for (fsSha256 env) r ?final" by (rule occurrence_named [OF assms(1) a])
  have ne: "?final \<noteq> tempName" using named_not_temp [OF n] assms(2) by auto
  have r1: "temp_ready r d tempName fs1" by (rule fs_keeps_result [OF o a Suc.prems(2)])
  obtain res fs2 where b: "renameTailFailureNoReplace env d tempName ?final fs1 = (res, fs2)" by force
  show ?case
  proof (cases res)
    case (Inl e)
    with Suc.prems(1) a b have c: "commit_temp env d tempName (fsSha256 env (marshal_record r)) k fs2 = ((None, flag), fs')"
      by (auto split: if_splits)
    let ?P = "\<lambda>fs. frame env (\<lambda>_ _. True) d (jsPath fs1) (jsPathStable fs1) fs \<and> temp_ready r d tempName fs"
    have k: "fs_keeps ?P (renameTailFailureNoReplace env d tempName ?final)"
      by (rule frame_rename) (use ne in simp_all)
    have "?P fs1" using r1 by (simp add: frame_def entries_def path_is_def)
    from fs_keeps_result [OF k b this] have "?P fs2" .
    then have "temp_ready r d tempName fs2" by simp
    with Suc.IH c show ?thesis by blast
  next
    case (Inr u)
    from ready_rename_Inr [OF r1 ne b [unfolded Inr]] obtain f where f: "visible fs2 d ?final = Some f" "whole_file r f" by blast
    from Suc.prems(1) a b Inr obtain v where s: "syncDirectory env d fs2 = (Inr v, fs')" and "\<not> flag"
      by (auto split: prod.splits sum.splits)
    then have "visible fs' d ?final = Some f" "stable fs' d ?final = Some f"
      using f by (auto simp: syncDirectory_def syncTailFailureDirectory_def entry_simps dest!: fs_op_Inr)
    with f n \<open>\<not> flag\<close> occurrence_drawn [OF a] show ?thesis by blast
  qed
qed simp

lemma write_fallback_None:
  assumes "sources_ok env" "write_fallback env (marshal_record r) d fs = (None, fs')"
  shows "\<exists>name f. drawn env r name \<and> named_for (fsSha256 env) r name \<and> whole_file r f \<and> visible fs' d name = Some f \<and> stable fs' d name = Some f"
proof (rule write_fallback_cases [of env d fs "marshal_record r"])
  fix tempName fs1 u fs2 e flag fs3
  assume a: "createTailMessageFailureTemp env d fs = (Inr tempName, fs1)"
    and b: "fill_temp env d tempName (marshal_record r) fs1 = (Inr u, fs2)"
    and c: "commit_temp env d tempName (fsSha256 env (marshal_record r)) tailMessageFailureNameAttempts fs2 = ((e, flag), fs3)"
    and w: "write_fallback env (marshal_record r) d fs = (e, if flag then snd (removeFile env d tempName fs3) else fs3)"
  from create_temp_Inr [OF a [unfolded createTailMessageFailureTemp_def]] obtain n where
    t: "temp_name tempName" and v: "visible fs1 d tempName = Some \<lparr>jfInfo = \<lparr>fiKind = RegularFile, fiPerm = 0x180, fiOwned = True, fiIno = n\<rparr>,
       jfBody = [], jfSynced = False\<rparr>" by blast
  have "temp_ready r d tempName fs2" using fill_temp_Inr [OF b v] by (auto simp: temp_ready_def)
  moreover have e: "e = None" using w assms(2) by simp
  ultimately have k: "\<not> flag \<and> (\<exists>name f. drawn env r name \<and> named_for (fsSha256 env) r name \<and> whole_file r f \<and> visible fs3 d name = Some f \<and> stable fs3 d name = Some f)"
    using commit_temp_None [OF assms(1) t] c by blast
  with w assms(2) have "fs' = fs3" by simp
  with k show ?thesis by blast
qed (use assms(2) in auto)

lemma persist_None:
  assumes "PersistTailMessageFailureFallback env f fs = (None, fs')"
  obtains r d fs1 where "normalizeTailMessageFailureFallback f = Inr r" "openTailMessageFailureFallbackDir env True fs = (Inr d, fs1)"
    "write_fallback env (marshal_record r) d fs1 = (None, fs')"
  using assms
  by (auto simp: PersistTailMessageFailureFallback_def persistTailMessageFailureFallback_def Let_def
      split: sum.splits if_splits prod.splits)

lemma persisted_entry:
  assumes "PersistTailMessageFailureFallback env f fs = (None, fs')"
    and "undisturbed env" "exists_is_honest env" "sources_ok env"
    and "jsPath fs = None \<or> jsPathStable fs = jsPath fs"
  obtains r i name fl where "normalizeTailMessageFailureFallback f = Inr r" "path_is (Some i) (Some i) fs'" "fiKind i = DirectoryNode"
    "validateTailFailureFallbackDir i = None" "drawn env r name" "named_for (fsSha256 env) r name" "whole_file r fl"
    "visible fs' (fiIno i) name = Some fl" "stable fs' (fiIno i) name = Some fl"
proof -
  from persist_None [OF assms(1)] obtain r d fs1 where n: "normalizeTailMessageFailureFallback f = Inr r"
    and o: "openTailMessageFailureFallbackDir env True fs = (Inr d, fs1)"
    and w: "write_fallback env (marshal_record r) d fs1 = (None, fs')" .
  from open_dir_Inr [OF assms(2,3) o assms(5)] obtain i where
    i: "path_is (Some i) (Some i) fs1" "fiIno i = d" "fiKind i = DirectoryNode" "validateTailFailureFallbackDir i = None" by blast
  have "temp_free (\<lambda>_ _. True)" by (simp add: temp_free_def)
  moreover have "admits (\<lambda>_ _. True) (fsSha256 env) r" by (simp add: admits_def)
  ultimately have "fs_keeps (frame env (\<lambda>_ _. True) d (Some i) (Some i)) (write_fallback env (marshal_record r) d)"
    by (rule frame_write_fallback [OF assms(4)])
  from fs_keeps_result [OF this w] i(1) assms(2) have p: "path_is (Some i) (Some i) fs'" by (simp add: frame_def entries_def)
  from write_fallback_None [OF assms(4) w] n p i show thesis by (auto intro: that)
qed

lemma crash_keeps_entry:
  assumes "crashed fs fs'" "visible fs d name = Some fl" "stable fs d name = Some fl" "whole_file r fl"
  shows "visible fs' d name = Some fl"
proof -
  have "rel_option file_after_crash (Some fl) (visible fs' d name)"
    using assms(1-3) unfolding crashed_def by metis
  then show ?thesis using assms(4) by (auto simp: option_rel_Some1 file_after_crash_def whole_file_def)
qed

text \<open>
  C8. A persisted failure survives: when persisting reports success, the failure is in the journal, and
  it is still there after a crash at that moment, in a complete file under its name in a directory the
  importer accepts - provided no other process replaces the path, and the entry of an existing
  directory was stable.
\<close>
theorem persisted_failure_survives:
  assumes "PersistTailMessageFailureFallback env f fs = (None, fs')"
    and "undisturbed env" "exists_is_honest env" "sources_ok env"
    and "jsPath fs = None \<or> jsPathStable fs = jsPath fs"
  shows "\<exists>r. normalizeTailMessageFailureFallback f = Inr r \<and> holds_failure (fsSha256 env) r fs' \<and>
    (\<forall>fs''. crashed fs' fs'' \<longrightarrow> holds_failure (fsSha256 env) r fs'')"
proof -
  from persisted_entry [OF assms] obtain r i name fl where
    n: "normalizeTailMessageFailureFallback f = Inr r" and p: "path_is (Some i) (Some i) fs'" "fiKind i = DirectoryNode"
    "validateTailFailureFallbackDir i = None" and e: "named_for (fsSha256 env) r name" "whole_file r fl"
    "visible fs' (fiIno i) name = Some fl" "stable fs' (fiIno i) name = Some fl" by metis
  have h: "holds_failure (fsSha256 env) r gs" if "jsPath gs = Some i" "visible gs (fiIno i) name = Some fl" for gs
    using that p(2-) e(1,2) unfolding holds_failure_def by blast
  have "holds_failure (fsSha256 env) r fs''" if c: "crashed fs' fs''" for fs''
  proof (rule h)
    show "jsPath fs'' = Some i" using c p by (auto simp: crashed_def path_is_def)
    show "visible fs'' (fiIno i) name = Some fl" by (rule crash_keeps_entry [OF c e(3,4,2)])
  qed
  with h [of fs'] p e(3) n show ?thesis by (auto simp: path_is_def)
qed

definition calm_fs :: fs_env where
  "calm_fs = \<lparr>fsFault = \<lambda>_. None, fsOther = \<lambda>_. None, fsFollow = \<lambda>_. None,
     fsRandom = (\<lambda>n. Inr (replicate 15 0 @ [n mod 256])), fsShort = \<lambda>_. None,
     fsSha256 = (\<lambda>s. replicate 32 (length s mod 256)), fsDirPath = Inr ''/data/discrawl.db.tail-message-failures''\<rparr>"

definition empty_fs :: journal_fs where
  "empty_fs = \<lparr>jsPath = None, jsPathStable = None, jsDirs = \<lambda>_. \<lparr>jdFiles = [], jdStable = []\<rparr>, jsNextIno = 1, jsTick = 0\<rparr>"

lemma calm_fs_ok: "undisturbed calm_fs" "exists_is_honest calm_fs" "sources_ok calm_fs"
proof -
  show "undisturbed calm_fs" "exists_is_honest calm_fs" by (simp_all add: undisturbed_def exists_is_honest_def calm_fs_def)
  have "list_all (\<lambda>b. b < 256) (replicate 15 0 @ [n mod (256 :: nat)])" for n by (simp add: list_all_iff)
  then show "sources_ok calm_fs"
    by (auto simp: sources_ok_def digest_ok_def calm_fs_def tailMessageFailureOccurrenceBytes_def list_all_iff)
qed

lemma empty_journal_ok: "journal_ok sha256 d empty_fs"
  by (simp add: journal_ok_def entries_def visible_def stable_def empty_fs_def)

lemma lost_update_persisted: "fst (PersistTailMessageFailureFallback calm_fs lost_update empty_fs) = None"
  by code_simp


theorem persisted_failure_survives_witness:
  "\<exists>r. normalizeTailMessageFailureFallback lost_update = Inr r \<and>
     holds_failure (fsSha256 calm_fs) r (snd (PersistTailMessageFailureFallback calm_fs lost_update empty_fs))"
proof -
  let ?p = "PersistTailMessageFailureFallback calm_fs lost_update empty_fs"
  have p: "?p = (None, snd ?p)" using lost_update_persisted by (simp add: prod_eq_iff)
  have "jsPath empty_fs = None \<or> jsPathStable empty_fs = jsPath empty_fs" by (simp add: empty_fs_def)
  from persisted_failure_survives [OF p calm_fs_ok this] show ?thesis by blast
qed

text \<open>
  The condition on the directory is needed. When the sync of the parent fails after the directory was
  created, that persist reports the error; the next one finds the directory, never syncs its parent,
  reports success, and a crash loses the directory with the failure.
\<close>

definition parent_sync_fails :: fs_env where
  "parent_sync_fails = calm_fs\<lparr>fsFault := (\<lambda>n. if n = 9 then Some (FailBefore (ErrText ''input/output error'')) else None)\<rparr>"

definition half_created :: journal_fs where
  "half_created = snd (PersistTailMessageFailureFallback parent_sync_fails lost_update empty_fs)"

lemma unsynced_directory_loses_failures:
  "fst (PersistTailMessageFailureFallback parent_sync_fails lost_update empty_fs) \<noteq> None \<and>
   fst (PersistTailMessageFailureFallback parent_sync_fails lost_update half_created) = None \<and>
   jsPathStable (snd (PersistTailMessageFailureFallback parent_sync_fails lost_update half_created)) = None"
proof -
  have "fst (PersistTailMessageFailureFallback parent_sync_fails lost_update empty_fs) \<noteq> None" by code_simp
  moreover have "fst (PersistTailMessageFailureFallback parent_sync_fails lost_update half_created) = None" by code_simp
  moreover have "jsPathStable (snd (PersistTailMessageFailureFallback parent_sync_fails lost_update half_created)) = None" by code_simp
  ultimately show ?thesis by blast
qed

section \<open>Reading a well-formed entry\<close>

definition faultless :: "fs_env \<Rightarrow> bool" where
  "faultless env \<longleftrightarrow> (\<forall>n. fsFault env n = None)"

lemma faultless_read: "faultless env \<Longrightarrow> fs_read env q fs = (q (fs_arrive env fs), fs_arrive env fs)"
  by (simp add: fs_read_def fs_op_def faultless_def)

lemma faultless_op: "faultless env \<Longrightarrow> fs_op env f fs = f (fs_arrive env fs)"
  by (simp add: fs_op_def faultless_def)

lemma committed_read:
  assumes "faultless env" "visible fs d name = Some fl" "committed_entry (fsSha256 env) name fl"
  shows "\<exists>r fs'. readCommittedTailMessageFailure env d name fs = (Inr r, fs') \<and> visible fs' = visible fs \<and>
    named_for (fsSha256 env) r name \<and> storable r \<and> whole_file r fl"
proof -
  from assms(3) obtain r a where r: "storable r" "whole_file r fl"
    and a: "tailMessageFailureNameParts name = Some (a, hex_string (fsSha256 env (marshal_record r)))"
    by (auto simp: committed_entry_def named_for_def)
  have body: "jfBody fl = marshal_record r" and info: "fiKind (jfInfo fl) = RegularFile" "validateTailFailureFallbackFile (jfInfo fl) = None"
    using r(2) by (auto simp: whole_file_def validateTailFailureFallbackFile_def validateTailFailureFallbackOwner_def)
  have size: "length (marshal_record r) \<le> tailMessageFailureFallbackMaxSize" "marshal_record r \<noteq> []"
    using r(1) marshal_size [of r] by (auto simp: storable_def)
  have dec: "decode_committed (fsSha256 env) (hex_string (fsSha256 env (marshal_record r))) (marshal_record r) = Inr r"
    using r(1) by (intro decode_marshalled) (auto simp: storable_def)
  have "readCommittedTailMessageFailure env d name fs =
      (Inr r, fs_arrive env (fs_arrive env (fs_arrive env (fs_arrive env fs))))"
    using size by (simp add: readCommittedTailMessageFailure_def a fs_bind_def fs_wrap_def root_lstat_def os_handle_def
        faultless_read [OF assms(1)] assms(2) body info check_info_def dec fs_return_def)
  then show ?thesis using r a by (auto simp: named_for_def)
qed

end
