(* ===== verification/FallbackJournal.thy ===== *)
theory FallbackJournal
  imports FallbackFiles
begin

text \<open>
  The journal as a whole: what an import makes of the journal and the ledger, what any interleaving of
  writers, importers and crashes can do to an acknowledged failure, and the tail recorder and the
  replay on top of the real journal.
\<close>

section \<open>What an import reads\<close>

lemma decode_stored:
  assumes "storable r" "decode_committed sha256 digest (marshal_record r) = Inr q"
  shows "q = r"
  using decode_marshalled [of r sha256] decode_committedD(3) [OF assms(2)] assms by (simp add: storable_def)

lemma root_lstat_Inr: "root_lstat env d name fs = (Inr fl, fs') \<Longrightarrow> visible fs d name = Some fl \<and> visible fs' = visible fs"
  by (auto simp: root_lstat_def dest!: fs_read_Inr split: option.splits)

lemma os_handle_Inr: "os_handle env x fs = (Inr y, fs') \<Longrightarrow> y = x \<and> visible fs' = visible fs"
  by (auto simp: os_handle_def dest!: fs_read_Inr)

lemma read_committed_Inr:
  assumes "readCommittedTailMessageFailure env d name fs = (Inr r, fs')"
  shows "visible fs' = visible fs \<and> (\<exists>fl. visible fs d name = Some fl \<and>
    (\<forall>q. storable q \<longrightarrow> whole_file q fl \<longrightarrow> r = q)) \<and>
    (\<exists>a. tailMessageFailureNameParts name = Some (a, hex_string (fsSha256 env (marshal_record r)))) \<and> valid_record r"
proof -
  from assms obtain a digest fl fs1 opened fs2 oi fs3 body fs4 where
    n: "tailMessageFailureNameParts name = Some (a, digest)"
    and l: "root_lstat env d name fs = (Inr fl, fs1)" and o: "root_lstat env d name fs1 = (Inr opened, fs2)"
    and h: "os_handle env (jfInfo opened) fs2 = (Inr oi, fs3)"
    and b: "os_handle env (take (tailMessageFailureFallbackMaxSize + 1) (jfBody opened)) fs3 = (Inr body, fs4)"
    and dec: "decode_committed (fsSha256 env) digest body = Inr r" and fs': "fs' = fs4"
    by (auto simp: readCommittedTailMessageFailure_def Let_def fs_wrap_Inr check_info_Inr fs_fail_def fs_return_def
        dest!: fs_bind_Inr split: option.splits if_splits sum.splits)
  from root_lstat_Inr [OF l] root_lstat_Inr [OF o] have fl: "visible fs d name = Some fl" "opened = fl" by auto
  from os_handle_Inr [OF b] fl have body: "body = take (tailMessageFailureFallbackMaxSize + 1) (jfBody fl)" by simp
  have "r = q" if "storable q" "whole_file q fl" for q
    using dec decode_stored [of q] that body by (auto simp: storable_def whole_file_def)
  moreover have "visible fs' = visible fs"
    using root_lstat_Inr [OF l] root_lstat_Inr [OF o] os_handle_Inr [OF h] os_handle_Inr [OF b] fs' by simp
  moreover have "digest = hex_string (fsSha256 env (marshal_record r))" "valid_record r"
    using decode_committedD [OF dec] by auto
  ultimately show ?thesis using fl n by auto
qed

definition committed_names :: "string list \<Rightarrow> string list" where
  "committed_names = filter (\<lambda>n. \<not> temp_name n)"

definition temp_names :: "string list \<Rightarrow> string list" where
  "temp_names = filter temp_name"

lemma read_entries_Inr:
  "read_entries env d names fs = (Inr (cs, ts), fs') \<Longrightarrow>
    visible fs' = visible fs \<and> map cmName cs = committed_names names \<and> ts = temp_names names \<and>
    (\<forall>c \<in> set cs. (\<exists>fl. visible fs d (cmName c) = Some fl \<and> (\<forall>q. storable q \<longrightarrow> whole_file q fl \<longrightarrow> cmRecord c = q)) \<and>
       named_for (fsSha256 env) (cmRecord c) (cmName c) \<and> valid_record (cmRecord c))"
proof (induction names arbitrary: fs cs ts)
  case Nil
  then show ?case by (simp add: fs_return_def committed_names_def temp_names_def)
next
  case (Cons name names)
  show ?case
  proof (cases "temp_name name")
    case True
    with Cons.prems obtain ts' where "read_entries env d names fs = (Inr (cs, ts'), fs')" "ts = name # ts'"
      by (auto simp: temp_name_def fs_return_def dest!: fs_bind_Inr)
    with Cons.IH True show ?thesis by (auto simp: committed_names_def temp_names_def)
  next
    case False
    with Cons.prems obtain r fs1 cs' where r: "readCommittedTailMessageFailure env d name fs = (Inr r, fs1)"
      and rest: "read_entries env d names fs1 = (Inr (cs', ts), fs')" and cs: "cs = \<lparr>cmName = name, cmRecord = r\<rparr> # cs'"
      by (auto simp: temp_name_def fs_return_def fs_wrap_Inr dest!: fs_bind_Inr)
    from read_committed_Inr [OF r] Cons.IH [OF rest] cs False show ?thesis
      by (auto simp: committed_names_def temp_names_def named_for_def)
  qed
qed

text \<open>Cleaning up touches temporary files only.\<close>

definition same_committed :: "nat \<Rightarrow> journal_fs \<Rightarrow> journal_fs \<Rightarrow> bool" where
  "same_committed d fs fs' \<longleftrightarrow> (\<forall>name. \<not> temp_name name \<longrightarrow> visible fs' d name = visible fs d name)"

lemma same_committed_refl [simp]: "same_committed d fs fs"
  by (simp add: same_committed_def)

lemma same_committed_trans: "same_committed d fs fs1 \<Longrightarrow> same_committed d fs1 fs2 \<Longrightarrow> same_committed d fs fs2"
  by (simp add: same_committed_def)

lemma keeps_same_committed:
  assumes "temp_name name"
  shows "fs_keeps (same_committed d fs0) (removeFile env d name)" "fs_keeps (same_committed d fs0) (root_lstat env d name)"
    "fs_keeps (same_committed d fs0) (syncDirectory env d)"
proof -
  have a [fs_intros]: "arrives env (same_committed d fs0)" by (simp add: arrives_def same_committed_def)
  show "fs_keeps (same_committed d fs0) (removeFile env d name)" "fs_keeps (same_committed d fs0) (root_lstat env d name)"
      "fs_keeps (same_committed d fs0) (syncDirectory env d)"
    unfolding removeFile_def root_remove_def syncDirectory_def syncTailFailureDirectory_def using assms a
    by (intro fs_intros; auto simp: same_committed_def entry_simps)+
qed

lemma cleanup_same: "list_all temp_name names \<Longrightarrow> fs_keeps (same_committed d fs0) (cleanup_temps env d names removed)"
proof (induction names arbitrary: removed)
  case (Cons name names)
  from Cons.prems have t: "temp_name name" by simp
  have "same_committed d fs0 (snd (cleanup_temps env d (name # names) removed fs))" if p: "same_committed d fs0 fs" for fs
  proof -
    obtain res fs1 where l: "root_lstat env d name fs = (res, fs1)" by force
    have p1: "same_committed d fs0 fs1" by (rule fs_keeps_result [OF keeps_same_committed(2) [OF t] l p])
    have "fs_keeps (same_committed d fs0) (fs_bind (fs_wrap ''remove tail message failure fallback temp file: '' (removeFile env d name))
        (\<lambda>_. cleanup_temps env d names True))"
      using Cons by (intro fs_intros keeps_same_committed [OF t]) simp
    from fs_keepsD [OF this p1] fs_keepsD [OF Cons.IH p1, of removed] Cons.prems l p1 show ?thesis
      by (cases res) auto
  qed
  then show ?case by (simp add: fs_keeps_def)
qed (simp add: fs_keeps_pure)

lemma read_journal_Inr:
  assumes "read_journal env d fs = (Inr cs, fs')"
  shows "same_committed d fs fs' \<and> map cmName cs = committed_names (sort (map fst (jdFiles (jsDirs fs d)))) \<and>
    (\<forall>c \<in> set cs. (\<exists>fl. visible fs d (cmName c) = Some fl \<and> (\<forall>q. storable q \<longrightarrow> whole_file q fl \<longrightarrow> cmRecord c = q)) \<and>
       named_for (fsSha256 env) (cmRecord c) (cmName c) \<and> valid_record (cmRecord c))"
proof -
  from assms obtain names fs1 ts fs2 b fs3 u where
    l: "fs_read env (\<lambda>fs. Inr (sort (map fst (jdFiles (jsDirs fs d))))) fs = (Inr names, fs1)"
    and r: "read_entries env d names fs1 = (Inr (cs, ts), fs2)"
    and c: "cleanup_temps env d ts False fs2 = (Inr b, fs3)"
    and s: "(if b then fs_wrap ''sync tail message failure fallback temp cleanup: '' (syncDirectory env d) else fs_return ()) fs3 = (Inr u, fs')"
    by (auto simp: read_journal_def cleanupTailMessageFailureTemps_def fs_wrap_Inr fs_return_def dest!: fs_bind_Inr)
  from fs_read_Inr [OF l] have names: "names = sort (map fst (jdFiles (jsDirs fs d)))" "visible fs1 = visible fs" by auto
  note e = read_entries_Inr [OF r]
  from e have ts: "list_all temp_name ts" by (simp add: temp_names_def list_all_iff)
  have "same_committed d fs fs2" using e names by (simp add: same_committed_def)
  then have 3: "same_committed d fs fs3" by (rule fs_keeps_result [OF cleanup_same [OF ts] c])
  have t: "temp_name (tailMessageFailureFallbackTempPrefix @ [])" by (rule temp_name_made)
  have "same_committed d fs fs'"
  proof (cases b)
    case True
    with s have "syncDirectory env d fs3 = (Inr u, fs')" by (simp add: fs_wrap_Inr)
    from fs_keeps_result [OF keeps_same_committed(3) [OF t] this 3] show ?thesis .
  qed (use s 3 in \<open>simp add: fs_return_def\<close>)
  with e names show ?thesis by simp
qed

section \<open>What an import does to the ledger\<close>

definition receipt_of :: "committedTailMessageFailure \<Rightarrow> string" where
  "receipt_of item = the (tailMessageFailureReceiptScope (cmName item))"

definition has_receipt :: "db \<Rightarrow> string \<Rightarrow> bool" where
  "has_receipt d receiptScope \<longleftrightarrow> map_of (dbSyncState d) receiptScope \<noteq> None"

text \<open>The effect of the transaction: an item without a receipt gets one and is entered in the ledger.\<close>

definition ledger_import :: "instant \<Rightarrow> tailMessageFailureFallbackRecord \<Rightarrow> db \<Rightarrow> db" where
  "ledger_import now r d =
     (case storeTailMessageFailureSentinel (recFailureKind r) of
        None \<Rightarrow> d
      | Some (cls, msg) \<Rightarrow> importTailMessageFailureSQL (record_ref r) cls msg now d)"

fun apply_items :: "instant \<Rightarrow> committedTailMessageFailure list \<Rightarrow> db \<Rightarrow> db" where
  "apply_items now [] d = d"
| "apply_items now (item # items) d =
     (if has_receipt d (receipt_of item) then apply_items now items d
      else apply_items now items (ledger_import now (cmRecord item) (put_receipt (receipt_of item) now d)))"

text \<open>The items that are entered, in order.\<close>

fun fresh_items :: "db \<Rightarrow> committedTailMessageFailure list \<Rightarrow> committedTailMessageFailure list" where
  "fresh_items d [] = []"
| "fresh_items d (item # items) =
     (if has_receipt d (receipt_of item) then fresh_items d items
      else item # fresh_items (put_receipt (receipt_of item) 0 d) items)"

lemma has_receipt_put: "has_receipt (put_receipt s now d) t \<longleftrightarrow> t = s \<or> has_receipt d t"
  by (auto simp: has_receipt_def put_receipt_def update_conv')

lemma has_receipt_ledger [simp]: "has_receipt (ledger_import now r d) t = has_receipt d t"
  by (auto simp: has_receipt_def ledger_import_def importTailMessageFailureSQL_def split: option.split)

lemma has_receipt_apply: "has_receipt (apply_items now items d) t \<longleftrightarrow> has_receipt d t \<or> t \<in> receipt_of ` set items"
  by (induction items arbitrary: d) (auto simp: has_receipt_put)

lemma fresh_items_cong: "(\<And>t. has_receipt d t = has_receipt d' t) \<Longrightarrow> fresh_items d items = fresh_items d' items"
proof (induction items arbitrary: d d')
  case (Cons item items)
  have "fresh_items (put_receipt (receipt_of item) 0 d) items = fresh_items (put_receipt (receipt_of item) 0 d') items"
    by (rule Cons.IH) (simp add: has_receipt_put Cons.prems)
  moreover have "fresh_items d items = fresh_items d' items" by (rule Cons.IH) (rule Cons.prems)
  ultimately show ?case using Cons.prems by simp
qed simp

lemma fresh_items_receipts: "item \<in> set (fresh_items d items) \<Longrightarrow> item \<in> set items \<and> \<not> has_receipt d (receipt_of item)"
proof (induction items arbitrary: d)
  case (Cons x items)
  from Cons.prems Cons.IH [of d] Cons.IH [of "put_receipt (receipt_of x) 0 d"] show ?case
    by (auto simp: has_receipt_put split: if_splits)
qed simp

lemma fresh_items_distinct: "distinct (map receipt_of (fresh_items d items))"
  by (induction items arbitrary: d) (auto simp: has_receipt_put dest!: fresh_items_receipts)

lemma fresh_items_cover: "item \<in> set items \<Longrightarrow> \<not> has_receipt d (receipt_of item) \<Longrightarrow> receipt_of item \<in> receipt_of ` set (fresh_items d items)"
proof (induction items arbitrary: d)
  case (Cons x items)
  show ?case
  proof (cases "has_receipt d (receipt_of x)")
    case True
    with Cons show ?thesis by auto
  next
    case False
    show ?thesis
    proof (cases "receipt_of item = receipt_of x")
      case ne: False
      with Cons.prems have "item \<in> set items" "\<not> has_receipt (put_receipt (receipt_of x) 0 d) (receipt_of item)"
        by (auto simp: has_receipt_put)
      from Cons.IH [OF this] False show ?thesis by simp
    qed (use False in simp)
  qed
qed simp

text \<open>What the upsert makes of an existing row.\<close>

definition reopened :: "failure_ref \<Rightarrow> string \<Rightarrow> string \<Rightarrow> instant \<Rightarrow> failure \<Rightarrow> failure" where
  "reopened ref cls msg now f =
     (if fRef f = ref then f\<lparr>fErrorClass := cls, fErrorMessage := msg, fLastSeenAt := now, fRetryCount := fRetryCount f + 1, fResolvedAt := None\<rparr>
      else f)"

lemma import_keeps_rows: "f \<in> set (dbFailures d) \<Longrightarrow> reopened ref cls msg now f \<in> set (dbFailures (importTailMessageFailureSQL ref cls msg now d))"
  by (cases "\<exists>f \<in> set (dbFailures d). fRef f = ref") (auto simp: importTailMessageFailureSQL_def reopened_def image_iff)

lemma pending_import: "pending (importTailMessageFailureSQL ref cls msg now d) ref"
proof (cases "\<exists>f \<in> set (dbFailures d). fRef f = ref")
  case True
  then obtain f where "f \<in> set (dbFailures d)" "fRef f = ref" by blast
  with import_keeps_rows [OF this(1), of ref cls msg now] show ?thesis
    unfolding pending_def by (intro bexI [of _ "reopened ref cls msg now f"]) (simp_all add: reopened_def)
qed (simp add: pending_def importTailMessageFailureSQL_def)

lemma pending_import_other: "pending d ref \<Longrightarrow> pending (importTailMessageFailureSQL ref' cls msg now d) ref"
proof -
  assume "pending d ref"
  then obtain f where "f \<in> set (dbFailures d)" "fRef f = ref" "fResolvedAt f = None" by (auto simp: pending_def)
  with import_keeps_rows [OF this(1), of ref' cls msg now] show ?thesis
    unfolding pending_def by (intro bexI [of _ "reopened ref' cls msg now f"]) (simp_all add: reopened_def)
qed

lemma pending_put_receipt [simp]: "pending (put_receipt s now d) ref = pending d ref"
  by (simp add: pending_def put_receipt_def)

lemma pending_ledger_import: "pending d ref \<Longrightarrow> pending (ledger_import now r d) ref"
  by (auto simp: ledger_import_def pending_import_other split: option.split)

lemma pending_apply: "pending d ref \<Longrightarrow> pending (apply_items now items d) ref"
  by (induction items arbitrary: d) (simp_all add: pending_ledger_import)

lemma fresh_pending:
  "item \<in> set (fresh_items d items) \<Longrightarrow> list_all (\<lambda>c. valid_record (cmRecord c)) items \<Longrightarrow>
   pending (apply_items now items d) (record_ref (cmRecord item))"
proof (induction items arbitrary: d)
  case (Cons x items)
  show ?case
  proof (cases "has_receipt d (receipt_of x)")
    case True
    with Cons show ?thesis by simp
  next
    case False
    let ?d = "ledger_import now (cmRecord x) (put_receipt (receipt_of x) now d)"
    have f: "fresh_items (put_receipt (receipt_of x) 0 d) items = fresh_items ?d items"
      by (rule fresh_items_cong) (simp add: has_receipt_put)
    from Cons.prems False consider "item = x" | "item \<in> set (fresh_items ?d items)" by (auto simp: f)
    then show ?thesis
    proof cases
      case 1
      from Cons.prems(2) obtain cls msg where "storeTailMessageFailureSentinel (recFailureKind (cmRecord x)) = Some (cls, msg)"
        using valid_sentinel by fastforce
      then have "pending ?d (record_ref (cmRecord x))" by (simp add: ledger_import_def pending_import)
      with 1 False show ?thesis by (simp add: pending_apply)
    next
      case 2
      with Cons.IH [OF 2] Cons.prems(2) False show ?thesis by simp
    qed
  qed
qed simp

lemma insert_receipt_Inr:
  "insert_receipt env s now w = (Inr n, w') \<Longrightarrow>
    wDB w' = put_receipt s now (wDB w) \<and> n = (if has_receipt (wDB w) s then 0 else 1)"
  by (auto simp: insert_receipt_def Let_def value_call_def has_receipt_def dest!: doThen_Inr annotate_None db_exec_None)

lemma import_record_None:
  "importTailMessageFailureFallbackRecord env r now w = (None, w') \<Longrightarrow> wDB w' = ledger_import now r (wDB w)"
  by (auto simp: importTailMessageFailureFallbackRecord_def ledger_import_def fail_with_def
      dest!: annotate_None db_exec_None split: option.splits)

lemma import_items_Inr:
  "import_items env now items k w = (Inr n, w') \<Longrightarrow>
    wDB w' = apply_items now items (wDB w) \<and> n = k + length (fresh_items (wDB w) items)"
proof (induction items arbitrary: k w)
  case (Cons item items)
  from Cons.prems obtain rows w1 where i: "insert_receipt env (receipt_of item) now w = (Inr rows, w1)"
    and rest: "(if rows = 0 then import_items env now items k
       else doThen (importTailMessageFailureFallbackRecord env (cmRecord item) now) (import_items env now items (k + 1))) w1 = (Inr n, w')"
    by (auto simp: receipt_of_def dest!: bindCall_Inr)
  from insert_receipt_Inr [OF i] have d1: "wDB w1 = put_receipt (receipt_of item) now (wDB w)"
    and rows: "rows = (if has_receipt (wDB w) (receipt_of item) then 0 else 1)" by auto
  show ?case
  proof (cases "has_receipt (wDB w) (receipt_of item)")
    case True
    then have "wDB w1 = wDB w" using d1 by (simp add: put_receipt_def has_receipt_def)
    with Cons.IH [of k w1] rest rows True show ?thesis by simp
  next
    case False
    with rest rows obtain w2 where r: "importTailMessageFailureFallbackRecord env (cmRecord item) now w1 = (None, w2)"
      and q: "import_items env now items (k + 1) w2 = (Inr n, w')" by (auto dest!: doThen_Inr)
    have d2: "wDB w2 = ledger_import now (cmRecord item) (put_receipt (receipt_of item) now (wDB w))"
      using import_record_None [OF r] d1 by simp
    have f: "fresh_items (wDB w2) items = fresh_items (put_receipt (receipt_of item) 0 (wDB w)) items"
      by (rule fresh_items_cong) (simp add: d2 has_receipt_put)
    from Cons.IH [OF q] d2 f False show ?thesis by simp
  qed
qed (simp add: value_call_def)

text \<open>An import of records takes effect as a whole or not at all, and as a whole when it reports success.\<close>

lemma import_records_effect:
  assumes "importTailMessageFailureFallbackRecords env cs now w = (res, w')"
  shows "wDB w' = wDB w \<or> wDB w' = apply_items now cs (wDB w)"
proof (cases "cs = [] \<or> check_committed cs \<noteq> None")
  case False
  with assms have a: "tx_call env (import_items env now cs 0) w = (res, w')"
    by (auto simp: importTailMessageFailureFallbackRecords_def)
  from tx_call_db [of env "import_items env now cs 0" w] a show ?thesis
    by (auto dest!: import_items_Inr)
qed (use assms in \<open>auto simp: importTailMessageFailureFallbackRecords_def value_call_def split: if_splits option.splits\<close>)

lemma import_records_Inr:
  assumes "importTailMessageFailureFallbackRecords env cs now w = (Inr n, w')"
  shows "wDB w' = apply_items now cs (wDB w) \<and> n = length (fresh_items (wDB w) cs)"
proof (cases "cs = []")
  case True
  with assms show ?thesis by (simp add: importTailMessageFailureFallbackRecords_def value_call_def)
next
  case False
  with assms have a: "tx_call env (import_items env now cs 0) w = (Inr n, w')"
    by (auto simp: importTailMessageFailureFallbackRecords_def split: option.splits)
  from tx_call_Inr [OF a] import_items_Inr show ?thesis by fastforce
qed

section \<open>Writers, importers and crashes, interleaved\<close>

text \<open>
  Any number of writers and importers work on the directory \<open>d\<close>, in any order of their steps; every
  step is a call of the code, with the faults of its own environment. A writer holds a filled
  temporary file, then a committed name; an importer has names to read and records read, then, when
  its transaction has taken effect, files to remove. \<open>syUsed\<close> are the names given out with their
  records, \<open>syAcked\<close> the failures whose persist reported success, \<open>syLog\<close> the ones entered in the
  ledger, in order. A crash ends every process; the database keeps what was committed.
\<close>

datatype writer = Filled string tailMessageFailureFallbackRecord | Committed string tailMessageFailureFallbackRecord | WriterDone

datatype importer = Reading "string list" "committedTailMessageFailure list" | Removing "committedTailMessageFailure list" | ImporterDone

record journal_sys =
  syFS :: journal_fs
  syWorld :: world
  syWriters :: "writer list"
  syImporters :: "importer list"
  syUsed :: "(string \<times> tailMessageFailureFallbackRecord) list"
  syAcked :: "(string \<times> tailMessageFailureFallbackRecord) list"
  syLog :: "(string \<times> tailMessageFailureFallbackRecord) list"

definition receipted :: "db \<Rightarrow> string \<Rightarrow> bool" where
  "receipted d name \<longleftrightarrow> has_receipt d (the (tailMessageFailureReceiptScope name))"

definition same_receipts :: "db \<Rightarrow> db \<Rightarrow> bool" where
  "same_receipts d d' \<longleftrightarrow> (\<forall>a. has_receipt d' (tailMessageFailureReceiptPrefix @ a) = has_receipt d (tailMessageFailureReceiptPrefix @ a))"

definition named_pairs :: "committedTailMessageFailure list \<Rightarrow> (string \<times> tailMessageFailureFallbackRecord) list" where
  "named_pairs = map (\<lambda>c. (cmName c, cmRecord c))"

text \<open>Two conditions come from the random names: no name and no temporary name in use is drawn again.\<close>

definition draws_fresh :: "fs_env \<Rightarrow> writer list \<Rightarrow> bool" where
  "draws_fresh env ws \<longleftrightarrow> (\<forall>n bs q. fsRandom env n = Inr bs \<longrightarrow> Filled (tailMessageFailureFallbackTempPrefix @ hex_string bs) q \<notin> set ws)"

inductive journal_step :: "(string \<Rightarrow> nat list) \<Rightarrow> nat \<Rightarrow> journal_sys \<Rightarrow> journal_sys \<Rightarrow> bool" for sha256 d where
  fill: "sources_ok env \<Longrightarrow> fsSha256 env = sha256 \<Longrightarrow> storable r \<Longrightarrow>
    createTailMessageFailureTemp env d (syFS s) = (Inr t, fs1) \<Longrightarrow> draws_fresh env (syWriters s) \<Longrightarrow>
    fill_temp env d t (marshal_record r) fs1 = (res, fs2) \<Longrightarrow>
    journal_step sha256 d s (s\<lparr>syFS := fs2, syWriters := syWriters s @ [case res of Inr u \<Rightarrow> Filled t r | Inl e \<Rightarrow> WriterDone]\<rparr>)"
| commit: "sources_ok env \<Longrightarrow> fsSha256 env = sha256 \<Longrightarrow> i < length (syWriters s) \<Longrightarrow> syWriters s ! i = Filled t r \<Longrightarrow>
    newTailMessageFailureOccurrenceID env (syFS s) = (Inr occ, fs1) \<Longrightarrow> name = commit_name occ (sha256 (marshal_record r)) \<Longrightarrow>
    name \<notin> fst ` set (syUsed s) \<Longrightarrow> renameTailFailureNoReplace env d t name fs1 = (res, fs2) \<Longrightarrow>
    journal_step sha256 d s (s\<lparr>syFS := fs2, syUsed := syUsed s @ [(name, r)],
      syWriters := (syWriters s)[i := case res of Inr u \<Rightarrow> Committed name r
                                      | Inl e \<Rightarrow> if err_is e os_ErrExist then Filled t r else WriterDone]\<rparr>)"
| acknowledge: "i < length (syWriters s) \<Longrightarrow> syWriters s ! i = Committed name r \<Longrightarrow> syncDirectory env d (syFS s) = (res, fs') \<Longrightarrow>
    journal_step sha256 d s (s\<lparr>syFS := fs', syWriters := (syWriters s)[i := WriterDone],
      syAcked := (case res of Inr u \<Rightarrow> syAcked s @ [(name, r)] | Inl e \<Rightarrow> syAcked s)\<rparr>)"
| clean: "temp_name t \<Longrightarrow> removeFile env d t (syFS s) = (res, fs') \<Longrightarrow> journal_step sha256 d s (s\<lparr>syFS := fs'\<rparr>)"
| sync: "syncDirectory env d (syFS s) = (res, fs') \<Longrightarrow> journal_step sha256 d s (s\<lparr>syFS := fs'\<rparr>)"
| list: "journal_step sha256 d s (s\<lparr>syImporters := syImporters s @ [Reading (sort (map fst (jdFiles (jsDirs (syFS s) d)))) []]\<rparr>)"
| skip: "j < length (syImporters s) \<Longrightarrow> syImporters s ! j = Reading (n # ns) cs \<Longrightarrow> temp_name n \<Longrightarrow>
    journal_step sha256 d s (s\<lparr>syImporters := (syImporters s)[j := Reading ns cs]\<rparr>)"
| read: "fsSha256 env = sha256 \<Longrightarrow> j < length (syImporters s) \<Longrightarrow> syImporters s ! j = Reading (n # ns) cs \<Longrightarrow> \<not> temp_name n \<Longrightarrow>
    readCommittedTailMessageFailure env d n (syFS s) = (res, fs') \<Longrightarrow>
    journal_step sha256 d s (s\<lparr>syFS := fs', syImporters := (syImporters s)[j :=
      case res of Inr r \<Rightarrow> Reading ns (cs @ [\<lparr>cmName = n, cmRecord = r\<rparr>]) | Inl e \<Rightarrow> ImporterDone]\<rparr>)"
| import: "j < length (syImporters s) \<Longrightarrow> syImporters s ! j = Reading [] cs \<Longrightarrow>
    importTailMessageFailureFallbackRecords denv cs now (syWorld s) = (res, w') \<Longrightarrow>
    wDB w' = apply_items now cs (wDB (syWorld s)) \<Longrightarrow>
    journal_step sha256 d s (s\<lparr>syWorld := w', syLog := syLog s @ named_pairs (fresh_items (wDB (syWorld s)) cs),
      syImporters := (syImporters s)[j := case res of Inr n \<Rightarrow> Removing cs | Inl e \<Rightarrow> ImporterDone]\<rparr>)"
| import_undone: "j < length (syImporters s) \<Longrightarrow> syImporters s ! j = Reading [] cs \<Longrightarrow>
    importTailMessageFailureFallbackRecords denv cs now (syWorld s) = (Inl e, w') \<Longrightarrow> wDB w' = wDB (syWorld s) \<Longrightarrow>
    journal_step sha256 d s (s\<lparr>syWorld := w', syImporters := (syImporters s)[j := ImporterDone]\<rparr>)"
| remove: "j < length (syImporters s) \<Longrightarrow> syImporters s ! j = Removing (c # cs) \<Longrightarrow>
    removeFile env d (cmName c) (syFS s) = (res, fs') \<Longrightarrow>
    journal_step sha256 d s (s\<lparr>syFS := fs', syImporters := (syImporters s)[j := Removing cs]\<rparr>)"
| crash: "crashed (syFS s) fs' \<Longrightarrow> wDB w' = wDB (syWorld s) \<Longrightarrow>
    journal_step sha256 d s (s\<lparr>syFS := fs', syWorld := w', syWriters := [], syImporters := []\<rparr>)"
| other: "same_receipts (wDB (syWorld s)) (wDB w') \<Longrightarrow> journal_step sha256 d s (s\<lparr>syWorld := w'\<rparr>)"

inductive journal_reach :: "(string \<Rightarrow> nat list) \<Rightarrow> nat \<Rightarrow> journal_sys \<Rightarrow> bool" for sha256 d where
  start: "jdFiles (jsDirs fs d) = [] \<Longrightarrow> jdStable (jsDirs fs d) = [] \<Longrightarrow> \<forall>a. \<not> has_receipt (wDB w) (tailMessageFailureReceiptPrefix @ a) \<Longrightarrow>
    journal_reach sha256 d \<lparr>syFS = fs, syWorld = w, syWriters = [], syImporters = [], syUsed = [], syAcked = [], syLog = []\<rparr>"
| step: "journal_reach sha256 d s \<Longrightarrow> journal_step sha256 d s s' \<Longrightarrow> journal_reach sha256 d s'"

inductive_cases journal_stepE: "journal_step sha256 d s s'"

section \<open>The invariant\<close>

text \<open>Every committed entry is the whole file of the record its name was given out for.\<close>

definition known_entry :: "(string \<times> tailMessageFailureFallbackRecord) list \<Rightarrow> string \<Rightarrow> journal_file \<Rightarrow> bool" where
  "known_entry used name fl \<longleftrightarrow> temp_name name \<or> (\<exists>r. (name, r) \<in> set used \<and> whole_file r fl)"

definition used_ok :: "(string \<Rightarrow> nat list) \<Rightarrow> (string \<times> tailMessageFailureFallbackRecord) list \<Rightarrow> bool" where
  "used_ok sha256 used \<longleftrightarrow> distinct (map fst used) \<and> (\<forall>(n, r) \<in> set used. storable r \<and> named_for sha256 r n)"

text \<open>An acknowledged failure has a receipt or a stable file; a committed one a receipt or a file.\<close>

definition secured :: "nat \<Rightarrow> journal_fs \<Rightarrow> db \<Rightarrow> string \<Rightarrow> tailMessageFailureFallbackRecord \<Rightarrow> bool" where
  "secured d fs db name r \<longleftrightarrow> receipted db name \<or>
     (\<exists>fl. visible fs d name = Some fl \<and> stable fs d name = Some fl \<and> whole_file r fl)"

definition writer_ok :: "nat \<Rightarrow> journal_sys \<Rightarrow> writer \<Rightarrow> bool" where
  "writer_ok d s x = (case x of
       Filled t r \<Rightarrow> temp_name t \<and> storable r \<and> temp_ready r d t (syFS s)
     | Committed name r \<Rightarrow> (name, r) \<in> set (syUsed s) \<and>
         (receipted (wDB (syWorld s)) name \<or> (\<exists>fl. visible (syFS s) d name = Some fl \<and> whole_file r fl))
     | WriterDone \<Rightarrow> True)"

definition importer_ok :: "journal_sys \<Rightarrow> importer \<Rightarrow> bool" where
  "importer_ok s x = (case x of
       Reading ns cs \<Rightarrow> set (named_pairs cs) \<subseteq> set (syUsed s)
     | Removing cs \<Rightarrow> set (named_pairs cs) \<subseteq> set (syUsed s) \<and> (\<forall>c \<in> set cs. receipted (wDB (syWorld s)) (cmName c))
     | ImporterDone \<Rightarrow> True)"

definition log_ok :: "journal_sys \<Rightarrow> bool" where
  "log_ok s \<longleftrightarrow> distinct (map fst (syLog s)) \<and> set (syLog s) \<subseteq> set (syUsed s) \<and>
     (\<forall>name a dg. tailMessageFailureNameParts name = Some (a, dg) \<longrightarrow>
        (receipted (wDB (syWorld s)) name \<longleftrightarrow> name \<in> fst ` set (syLog s)))"

definition journal_inv :: "(string \<Rightarrow> nat list) \<Rightarrow> nat \<Rightarrow> journal_sys \<Rightarrow> bool" where
  "journal_inv sha256 d s \<longleftrightarrow>
     entries (known_entry (syUsed s)) d (syFS s) \<and> used_ok sha256 (syUsed s) \<and>
     (\<forall>(n, r) \<in> set (syAcked s). (n, r) \<in> set (syUsed s) \<and> secured d (syFS s) (wDB (syWorld s)) n r) \<and>
     (\<forall>x \<in> set (syWriters s). writer_ok d s x) \<and> (\<forall>x \<in> set (syImporters s). importer_ok s x) \<and> log_ok s"

section \<open>What each call leaves alone\<close>

definition untouched :: "nat \<Rightarrow> string set \<Rightarrow> journal_fs \<Rightarrow> journal_fs \<Rightarrow> bool" where
  "untouched d X fs0 fs \<longleftrightarrow> (\<forall>x \<in> X. visible fs d x = visible fs0 d x) \<and> stable fs d = stable fs0 d"

lemma arrives_untouched [fs_intros]: "arrives env (untouched d X fs0)"
  by (simp add: arrives_def untouched_def)

lemma untouched_refl [simp]: "untouched d X fs fs"
  by (simp add: untouched_def)

lemma create_temp_untouched:
  assumes "\<And>n bs. fsRandom env n = Inr bs \<Longrightarrow> tailMessageFailureFallbackTempPrefix @ hex_string bs \<notin> X"
  shows "untouched d X fs0 fs \<Longrightarrow> create_temp env d k fs = (res, fs') \<Longrightarrow>
    untouched d X fs0 fs' \<and> (case res of Inr t \<Rightarrow> t \<notin> X | Inl e \<Rightarrow> True)"
proof (induction k arbitrary: fs)
  case (Suc k)
  obtain r1 fs1 where a: "newTailMessageFailureOccurrenceID env fs = (r1, fs1)" by force
  have "fs_keeps (untouched d X fs0) (newTailMessageFailureOccurrenceID env)" by (intro fs_intros)
  then have u1: "untouched d X fs0 fs1" using a Suc.prems(1) by (rule fs_keeps_result)
  show ?case
  proof (cases r1)
    case (Inr token)
    let ?t = "tailMessageFailureFallbackTempPrefix @ hex_string token"
    from a Inr obtain n where "fsRandom env n = Inr token"
      by (auto simp: newTailMessageFailureOccurrenceID_def fs_wrap_Inr dest!: fs_read_Inr)
    then have nt: "?t \<notin> X" by (rule assms)
    obtain r2 fs2 where b: "open_exclusive env d ?t fs1 = (r2, fs2)" by force
    have "fs_keeps (untouched d X fs0) (open_exclusive env d ?t)"
      unfolding open_exclusive_def using nt by (intro fs_intros) (auto simp: untouched_def entry_simps)
    then have u2: "untouched d X fs0 fs2" using b u1 by (rule fs_keeps_result)
    from Suc.prems(2) a b Inr Suc.IH [OF u2] u2 nt show ?thesis
      by (cases r2) (auto simp: fs_bind_def Let_def split: if_splits)
  qed (use a Suc.prems(2) u1 in \<open>auto simp: fs_bind_def\<close>)
qed (auto simp: fs_fail_def)

lemma fill_temp_untouched:
  assumes "t \<notin> X"
  shows "fs_keeps (untouched d X fs0) (fill_temp env d t body)"
proof -
  have "fs_keeps (untouched d X fs0) (file_chmod env d t p)" for p unfolding file_chmod_def using assms
    by (intro fs_intros) (auto simp: untouched_def entry_simps)
  moreover have "fs_keeps (untouched d X fs0) (fs_op env (\<lambda>fs1. (Inr n, change_file d t g fs1)))" for n :: nat and g
    using assms by (intro fs_intros) (auto simp: untouched_def entry_simps)
  then have "fs_keeps (untouched d X fs0) (file_write env d t body)"
    by (simp add: fs_keeps_def file_write_def Let_def)
  moreover have "fs_keeps (untouched d X fs0) (file_sync env d t)" unfolding file_sync_def using assms
    by (intro fs_intros) (auto simp: untouched_def entry_simps)
  ultimately show ?thesis
    unfolding fill_temp_def secureTailFailureFallbackTempFile_def by (intro fs_intros)
qed

text \<open>Entries only disappear: every name of \<open>X\<close> keeps its entry or loses it, and the stable ones stay.\<close>

definition shrinks :: "nat \<Rightarrow> string set \<Rightarrow> string set \<Rightarrow> journal_fs \<Rightarrow> journal_fs \<Rightarrow> bool" where
  "shrinks d X L fs0 fs \<longleftrightarrow> (\<forall>x \<in> X. visible fs d x = visible fs0 d x \<or> x \<in> L \<and> visible fs d x = None) \<and> stable fs d = stable fs0 d"

lemma arrives_shrinks [fs_intros]: "arrives env (shrinks d X L fs0)"
  by (simp add: arrives_def shrinks_def)

lemma shrinks_refl [simp]: "shrinks d X L fs fs"
  by (simp add: shrinks_def)

lemma remove_shrinks: "fs_keeps (shrinks d X {name} fs0) (root_remove env d name)"
  unfolding root_remove_def by (intro fs_intros) (auto simp: shrinks_def entry_simps)

lemma rename_shrinks:
  assumes "finalName \<notin> X" "renameTailFailureNoReplace env d t finalName fs = (res, fs')"
  shows "shrinks d X {t} fs fs'"
proof -
  let ?P = "shrinks d X {t} fs"
  have r: "fs_keeps ?P (renameat2_noreplace env d t finalName)"
    unfolding renameat2_noreplace_def using assms(1)
    by (intro fs_intros) (auto simp: shrinks_def entry_simps split: option.split)
  have l: "fs_keeps ?P (root_link env d t finalName)"
    unfolding root_link_def using assms(1)
    by (intro fs_intros) (auto simp: shrinks_def entry_simps split: option.split)
  have k: "fs_keeps ?P (linkTailFailureNoReplaceRoot env d t finalName)"
    unfolding linkTailFailureNoReplaceRoot_def
    by (intro fs_intros l) (use fs_keepsD [OF remove_shrinks] in \<open>auto simp: fs_keeps_def\<close>)
  obtain r1 fs1 where a: "renameat2_noreplace env d t finalName fs = (r1, fs1)" by force
  have "?P fs1" by (rule fs_keeps_result [OF r a]) simp
  with fs_keepsD [OF k this] assms(2) a show ?thesis
    by (cases r1) (auto simp: renameTailFailureNoReplace_def split: if_splits)
qed

lemma sync_effect:
  "syncDirectory env d fs = (res, fs') \<Longrightarrow> visible fs' = visible fs \<and> (stable fs' d = stable fs d \<or> stable fs' d = visible fs d) \<and>
    (\<forall>u. res = Inr u \<longrightarrow> stable fs' d = visible fs d)"
  by (auto simp: syncDirectory_def syncTailFailureDirectory_def fs_op_def entry_simps split: option.splits db_fault.splits)

lemma read_committed_effect:
  "readCommittedTailMessageFailure env d name fs = (res, fs') \<Longrightarrow> visible fs' = visible fs \<and> stable fs' = stable fs"
proof -
  have "arrives env (\<lambda>f. visible f = visible fs \<and> stable f = stable fs)" by (simp add: arrives_def)
  then have "fs_keeps (\<lambda>f. visible f = visible fs \<and> stable f = stable fs) (readCommittedTailMessageFailure env d name)"
    by (rule keeps_read_committed)
  then show "readCommittedTailMessageFailure env d name fs = (res, fs') \<Longrightarrow> ?thesis"
    by (rule fs_keeps_result) simp_all
qed

section \<open>The invariant holds in every reachable state\<close>

lemma used_okD:
  assumes "used_ok sha256 used" "(n, r) \<in> set used"
  shows "storable r" "named_for sha256 r n" "\<not> temp_name n" "\<exists>a dg. tailMessageFailureNameParts n = Some (a, dg)"
  using assms named_not_temp by (auto simp: used_ok_def named_for_def)

text \<open>A change of files that drops no secured entry.\<close>

definition gentle :: "nat \<Rightarrow> db \<Rightarrow> string set \<Rightarrow> journal_fs \<Rightarrow> journal_fs \<Rightarrow> bool" where
  "gentle d db N fs fs' \<longleftrightarrow> (\<forall>n. \<not> temp_name n \<longrightarrow> n \<notin> N \<longrightarrow> receipted db n \<or>
     visible fs' d n = visible fs d n \<and> (stable fs' d n = stable fs d n \<or> stable fs' d n = visible fs d n))"

lemma gentle_secured: "gentle d db N fs fs' \<Longrightarrow> \<not> temp_name n \<Longrightarrow> n \<notin> N \<Longrightarrow> secured d fs db n r \<Longrightarrow> secured d fs' db n r"
  unfolding gentle_def secured_def by metis

lemma untouched_gentle: "untouched d X fs fs' \<Longrightarrow> {n. \<not> temp_name n} \<subseteq> X \<Longrightarrow> gentle d db {} fs fs'"
  by (auto simp: untouched_def gentle_def)

lemma shrinks_gentle:
  assumes "shrinks d X L fs fs'" "{n. \<not> temp_name n} - N \<subseteq> X" "\<And>n. n \<in> L \<Longrightarrow> temp_name n \<or> receipted db n"
  shows "gentle d db N fs fs'"
  unfolding gentle_def
proof (intro allI impI)
  fix n assume n: "\<not> temp_name n" "n \<notin> N"
  with assms(2) have "n \<in> X" by blast
  with assms(1) have "visible fs' d n = visible fs d n \<or> n \<in> L" "stable fs' d n = stable fs d n" by (auto simp: shrinks_def)
  with assms(3) n show "receipted db n \<or> visible fs' d n = visible fs d n \<and> (stable fs' d n = stable fs d n \<or> stable fs' d n = visible fs d n)"
    by blast
qed

lemma sync_gentle: "syncDirectory env d fs = (res, fs') \<Longrightarrow> gentle d db N fs fs'"
  using sync_effect by (fastforce simp: gentle_def)

text \<open>The part of the invariant that a step on files has to show.\<close>

lemma file_step_inv:
  assumes "journal_inv sha256 d s"
    and "entries (known_entry (syUsed s)) d fs'" "gentle d (wDB (syWorld s)) {} (syFS s) fs'"
    and "\<And>t r. Filled t r \<in> set (syWriters s) \<Longrightarrow> temp_ready r d t fs'"
  shows "journal_inv sha256 d (s\<lparr>syFS := fs'\<rparr>)"
proof -
  have u: "used_ok sha256 (syUsed s)" using assms(1) by (simp add: journal_inv_def)
  have a: "secured d fs' (wDB (syWorld s)) n r" if "(n, r) \<in> set (syAcked s)" for n r
    using that assms(1) gentle_secured [OF assms(3)] used_okD(3) [OF u] by (fastforce simp: journal_inv_def)
  have w: "writer_ok d (s\<lparr>syFS := fs'\<rparr>) x" if x: "x \<in> set (syWriters s)" for x
  proof (cases x)
    case (Filled t r)
    with x assms(1,4) show ?thesis by (fastforce simp: journal_inv_def writer_ok_def)
  next
    case (Committed n r)
    with x assms(1) have "(n, r) \<in> set (syUsed s)"
        "receipted (wDB (syWorld s)) n \<or> (\<exists>fl. visible (syFS s) d n = Some fl \<and> whole_file r fl)"
      by (fastforce simp: journal_inv_def writer_ok_def)+
    with used_okD(3) [OF u] assms(3) Committed show ?thesis by (fastforce simp: writer_ok_def gentle_def)
  qed (simp add: writer_ok_def)
  have "importer_ok (s\<lparr>syFS := fs'\<rparr>) x = importer_ok s x" for x by (simp add: importer_ok_def split: importer.split)
  with assms(1,2) a w show ?thesis by (auto simp: journal_inv_def log_ok_def)
qed

lemma writers_update: "x \<in> set (xs[i := y]) \<Longrightarrow> x = y \<or> x \<in> set xs"
  using set_update_subset_insert [of xs i y] by auto

lemma inv_set_writers:
  assumes "journal_inv sha256 d s" "\<And>x. x \<in> set ws \<Longrightarrow> writer_ok d s x"
  shows "journal_inv sha256 d (s\<lparr>syWriters := ws\<rparr>)"
  using assms by (simp add: journal_inv_def log_ok_def writer_ok_def importer_ok_def secured_def cong: writer.case_cong importer.case_cong)

lemma inv_set_importers:
  assumes "journal_inv sha256 d s" "\<And>x. x \<in> set is \<Longrightarrow> importer_ok s x"
  shows "journal_inv sha256 d (s\<lparr>syImporters := is\<rparr>)"
  using assms by (simp add: journal_inv_def log_ok_def writer_ok_def importer_ok_def secured_def cong: writer.case_cong importer.case_cong)

lemma inv_importer_update:
  assumes "journal_inv sha256 d s" "importer_ok s y"
  shows "journal_inv sha256 d (s\<lparr>syImporters := (syImporters s)[j := y]\<rparr>)"
  using assms by (intro inv_set_importers) (auto simp: journal_inv_def dest!: writers_update)

lemma inv_writer_update:
  assumes "journal_inv sha256 d s" "writer_ok d s y"
  shows "journal_inv sha256 d (s\<lparr>syWriters := (syWriters s)[i := y]\<rparr>)"
  using assms by (intro inv_set_writers) (auto simp: journal_inv_def dest!: writers_update)

lemma temp_free_known: "temp_free (known_entry used)"
  by (simp add: temp_free_def known_entry_def)

lemma inv_fill:
  assumes "journal_inv sha256 d s" "storable r" "draws_fresh env (syWriters s)"
    and c: "createTailMessageFailureTemp env d (syFS s) = (Inr t, fs1)" and f: "fill_temp env d t (marshal_record r) fs1 = (res, fs2)"
  shows "journal_inv sha256 d (s\<lparr>syFS := fs2, syWriters := syWriters s @ [case res of Inr u \<Rightarrow> Filled t r | Inl e \<Rightarrow> WriterDone]\<rparr>)"
proof -
  let ?X = "{n. \<not> temp_name n} \<union> {x. \<exists>q. Filled x q \<in> set (syWriters s)}"
  note c' = c [unfolded createTailMessageFailureTemp_def]
  have X: "fsRandom env n = Inr bs \<Longrightarrow> tailMessageFailureFallbackTempPrefix @ hex_string bs \<notin> ?X" for n bs
    using assms(3) temp_name_made unfolding draws_fresh_def by auto
  from create_temp_untouched [OF X untouched_refl c'] have u1: "untouched d ?X (syFS s) fs1" and t: "t \<notin> ?X" by auto
  have u2: "untouched d ?X (syFS s) fs2" by (rule fs_keeps_result [OF fill_temp_untouched [OF t] f u1])
  from create_temp_Inr [OF c'] obtain n where tt: "temp_name t"
    and v: "visible fs1 d t = Some \<lparr>jfInfo = \<lparr>fiKind = RegularFile, fiPerm = 0x180, fiOwned = True, fiIno = n\<rparr>, jfBody = [], jfSynced = False\<rparr>"
    by blast
  let ?P = "frame env (known_entry (syUsed s)) d (jsPath (syFS s)) (jsPathStable (syFS s))"
  have "?P (syFS s)" using assms(1) by (simp add: frame_def path_is_def journal_inv_def)
  from fs_keeps_result [OF frame_create_temp [OF temp_free_known] c' this] have "?P fs1" .
  from fs_keeps_result [OF frame_fill_temp [OF temp_free_known tt] f this] have e: "entries (known_entry (syUsed s)) d fs2"
    by (simp add: frame_def)
  have ready: "temp_ready q d x fs2" if "Filled x q \<in> set (syWriters s)" for x q
  proof -
    have "visible fs2 d x = visible (syFS s) d x" using u2 that by (auto simp: untouched_def)
    moreover have "temp_ready q d x (syFS s)" using that assms(1) by (fastforce simp: journal_inv_def writer_ok_def)
    ultimately show ?thesis by (simp add: temp_ready_def)
  qed
  have i: "journal_inv sha256 d (s\<lparr>syFS := fs2\<rparr>)"
    by (rule file_step_inv [OF assms(1) e untouched_gentle [OF u2] ready]) auto
  have "res = Inr u \<Longrightarrow> temp_ready r d t fs2" for u
    using fill_temp_Inr [OF _ v] f by (fastforce simp: temp_ready_def)
  then have "writer_ok d (s\<lparr>syFS := fs2\<rparr>) (case res of Inr u \<Rightarrow> Filled t r | Inl e \<Rightarrow> WriterDone)"
    using assms(2) tt by (auto simp: writer_ok_def split: sum.split)
  with inv_set_writers [OF i, of "syWriters s @ [case res of Inr u \<Rightarrow> Filled t r | Inl e \<Rightarrow> WriterDone]"] i
  show ?thesis by (auto simp: journal_inv_def)
qed

lemma known_entry_more: "known_entry used n fl \<Longrightarrow> known_entry (used @ ys) n fl"
  by (auto simp: known_entry_def)

lemma inv_commit:
  assumes inv: "journal_inv sha256 d s" and env: "sources_ok env" "fsSha256 env = sha256"
    and w: "syWriters s ! i = Filled t r" "i < length (syWriters s)"
    and o: "newTailMessageFailureOccurrenceID env (syFS s) = (Inr occ, fs1)" and name: "name = commit_name occ (sha256 (marshal_record r))"
    and fresh: "name \<notin> fst ` set (syUsed s)" and ren: "renameTailFailureNoReplace env d t name fs1 = (res, fs2)"
  shows "journal_inv sha256 d (s\<lparr>syFS := fs2, syUsed := syUsed s @ [(name, r)],
      syWriters := (syWriters s)[i := case res of Inr u \<Rightarrow> Committed name r
                                      | Inl e \<Rightarrow> if err_is e os_ErrExist then Filled t r else WriterDone]\<rparr>)"
    (is "journal_inv sha256 d (?s\<lparr>syWriters := _\<rparr>)")
proof -
  from w have mem: "Filled t r \<in> set (syWriters s)" by (metis nth_mem)
  with inv have t: "temp_name t" and r: "storable r" and ready: "temp_ready r d t (syFS s)"
    by (fastforce simp: journal_inv_def writer_ok_def)+
  have nm: "named_for sha256 r name" using occurrence_named [OF env(1) o, of r] env(2) name by simp
  have nt: "\<not> temp_name name" by (rule named_not_temp [OF nm])
  have ne: "name \<noteq> t" using nt t by blast
  have vis1: "visible fs1 = visible (syFS s)" "stable fs1 = stable (syFS s)"
    using o by (auto simp: newTailMessageFailureOccurrenceID_def fs_wrap_Inr dest!: fs_read_Inr)
  have U: "used_ok sha256 (syUsed s)" and E: "entries (known_entry (syUsed s)) d (syFS s)" using inv by (simp_all add: journal_inv_def)
  have U': "used_ok sha256 (syUsed s @ [(name, r)])" using U fresh r nm by (auto simp: used_ok_def)
  let ?E = "known_entry (syUsed s @ [(name, r)])"
  let ?P = "\<lambda>fs. frame env ?E d (jsPath fs1) (jsPathStable fs1) fs \<and> temp_ready r d t fs"
  have k: "fs_keeps ?P (renameTailFailureNoReplace env d t name)"
    by (rule frame_rename) (use ne in \<open>auto simp: known_entry_def\<close>)
  have E1: "entries ?E d fs1" using E vis1 known_entry_more by (auto simp: entries_def)
  have "?P fs1" using E1 ready vis1 by (simp add: frame_def path_is_def temp_ready_def)
  from fs_keeps_result [OF k ren this] have E2: "entries ?E d fs2" and ready2: "temp_ready r d t fs2" by (simp_all add: frame_def)
  have sh: "shrinks d {x. x \<noteq> name} {t} fs1 fs2" by (rule rename_shrinks [OF _ ren]) simp
  have g: "gentle d (wDB (syWorld s)) {name} (syFS s) fs2"
  proof -
    have "gentle d (wDB (syWorld s)) {name} fs1 fs2" by (rule shrinks_gentle [OF sh]) (use t in auto)
    then show ?thesis using vis1 by (simp add: gentle_def)
  qed
  have old: "n \<noteq> name" if "(n, q) \<in> set (syUsed s)" for n q using that fresh by force
  have a: "secured d fs2 (wDB (syWorld s)) n q" "(n, q) \<in> set (syUsed s)" if "(n, q) \<in> set (syAcked s)" for n q
  proof -
    from that inv have m: "(n, q) \<in> set (syUsed s)" "secured d (syFS s) (wDB (syWorld s)) n q" by (fastforce simp: journal_inv_def)+
    with gentle_secured [OF g _ _ m(2)] old [OF m(1)] used_okD(3) [OF U m(1)]
    show "secured d fs2 (wDB (syWorld s)) n q" "(n, q) \<in> set (syUsed s)" by auto
  qed
  have wr: "writer_ok d ?s x" if x: "x \<in> set (syWriters s)" for x
  proof (cases x)
    case (Filled y q)
    with x inv have y: "temp_name y" "storable q" "temp_ready q d y (syFS s)" by (fastforce simp: journal_inv_def writer_ok_def)+
    then have "y \<noteq> name" using nt by blast
    then have "visible fs2 d y = visible fs1 d y \<or> visible fs2 d y = None" using sh by (auto simp: shrinks_def)
    with y Filled vis1 show ?thesis by (auto simp: writer_ok_def temp_ready_def)
  next
    case (Committed n q)
    with x inv have c: "(n, q) \<in> set (syUsed s)" "receipted (wDB (syWorld s)) n \<or> (\<exists>fl. visible (syFS s) d n = Some fl \<and> whole_file q fl)"
      by (fastforce simp: journal_inv_def writer_ok_def)+
    with used_okD(3) [OF U c(1)] old [OF c(1)] g Committed show ?thesis by (fastforce simp: writer_ok_def gentle_def)
  qed (simp add: writer_ok_def)
  have im: "importer_ok ?s x" if "x \<in> set (syImporters s)" for x
    using that inv by (fastforce simp: journal_inv_def importer_ok_def split: importer.splits)
  have "set (syLog s) \<subseteq> set (syUsed s @ [(name, r)])" using inv by (auto simp: journal_inv_def log_ok_def)
  then have i: "journal_inv sha256 d ?s"
    using inv E2 U' a wr im by (auto simp: journal_inv_def log_ok_def)
  have new: "writer_ok d ?s (case res of Inr u \<Rightarrow> Committed name r | Inl e \<Rightarrow> if err_is e os_ErrExist then Filled t r else WriterDone)"
  proof (cases res)
    case (Inr u)
    have "temp_ready r d t fs1" using ready vis1 by (simp add: temp_ready_def)
    from ready_rename_Inr [OF this ne ren [unfolded Inr]] Inr show ?thesis by (simp add: writer_ok_def)
  qed (use t r ready2 in \<open>simp add: writer_ok_def\<close>)
  from inv_writer_update [OF i new] show ?thesis by simp
qed

lemma inv_sync:
  assumes inv: "journal_inv sha256 d s" and f: "syncDirectory env d (syFS s) = (res, fs')"
  shows "journal_inv sha256 d (s\<lparr>syFS := fs'\<rparr>)"
proof (rule file_step_inv [OF inv])
  have "entries (known_entry (syUsed s)) d (syFS s)" using inv by (simp add: journal_inv_def)
  from fs_keeps_result [OF entries_sync f this] show "entries (known_entry (syUsed s)) d fs'" .
  show "gentle d (wDB (syWorld s)) {} (syFS s) fs'" by (rule sync_gentle [OF f])
  fix t r assume "Filled t r \<in> set (syWriters s)"
  with inv have "temp_ready r d t (syFS s)" by (fastforce simp: journal_inv_def writer_ok_def)
  with sync_effect [OF f] show "temp_ready r d t fs'" by (simp add: temp_ready_def)
qed

lemma inv_remove_file:
  assumes inv: "journal_inv sha256 d s" and f: "removeFile env d n (syFS s) = (res, fs')"
    and n: "temp_name n \<or> receipted (wDB (syWorld s)) n"
  shows "journal_inv sha256 d (s\<lparr>syFS := fs'\<rparr>)"
proof (rule file_step_inv [OF inv])
  note f' = f [unfolded removeFile_def]
  have "entries (known_entry (syUsed s)) d (syFS s)" using inv by (simp add: journal_inv_def)
  from fs_keeps_result [OF entries_remove f' this] show "entries (known_entry (syUsed s)) d fs'" .
  have sh: "shrinks d UNIV {n} (syFS s) fs'" by (rule fs_keeps_result [OF remove_shrinks f']) simp
  show "gentle d (wDB (syWorld s)) {} (syFS s) fs'" by (rule shrinks_gentle [OF sh]) (use n in auto)
  fix t r assume "Filled t r \<in> set (syWriters s)"
  with inv have "temp_ready r d t (syFS s)" by (fastforce simp: journal_inv_def writer_ok_def)
  moreover have "visible fs' d t = visible (syFS s) d t \<or> visible fs' d t = None" using sh by (auto simp: shrinks_def)
  ultimately show "temp_ready r d t fs'" by (auto simp: temp_ready_def)
qed

lemma inv_acknowledge:
  assumes inv: "journal_inv sha256 d s" and w: "i < length (syWriters s)" "syWriters s ! i = Committed name r"
    and f: "syncDirectory env d (syFS s) = (res, fs')"
  shows "journal_inv sha256 d (s\<lparr>syFS := fs', syWriters := (syWriters s)[i := WriterDone],
      syAcked := (case res of Inr u \<Rightarrow> syAcked s @ [(name, r)] | Inl e \<Rightarrow> syAcked s)\<rparr>)"
proof -
  from w have mem: "Committed name r \<in> set (syWriters s)" by (metis nth_mem)
  with inv have c: "(name, r) \<in> set (syUsed s)"
    "receipted (wDB (syWorld s)) name \<or> (\<exists>fl. visible (syFS s) d name = Some fl \<and> whole_file r fl)"
    by (fastforce simp: journal_inv_def writer_ok_def)+
  have i: "journal_inv sha256 d (s\<lparr>syFS := fs'\<rparr>)" by (rule inv_sync [OF inv f])
  have d: "writer_ok d (s\<lparr>syFS := fs'\<rparr>) WriterDone" by (simp add: writer_ok_def)
  from inv_writer_update [OF i d, of i] have j: "journal_inv sha256 d (s\<lparr>syFS := fs', syWriters := (syWriters s)[i := WriterDone]\<rparr>)"
    by simp
  have "secured d fs' (wDB (syWorld s)) name r" if "res = Inr u" for u
    using c(2) sync_effect [OF f] that by (auto simp: secured_def)
  with j c(1) show ?thesis
    by (cases res) (auto simp: journal_inv_def log_ok_def writer_ok_def importer_ok_def cong: writer.case_cong importer.case_cong)
qed

lemma inv_read:
  assumes inv: "journal_inv sha256 d s" and env: "fsSha256 env = sha256" and m: "j < length (syImporters s)" "syImporters s ! j = Reading (n # ns) cs"
    and nt: "\<not> temp_name n" and f: "readCommittedTailMessageFailure env d n (syFS s) = (res, fs')"
  shows "journal_inv sha256 d (s\<lparr>syFS := fs', syImporters := (syImporters s)[j :=
      case res of Inr r \<Rightarrow> Reading ns (cs @ [\<lparr>cmName = n, cmRecord = r\<rparr>]) | Inl e \<Rightarrow> ImporterDone]\<rparr>)"
proof -
  note same = read_committed_effect [OF f]
  have i: "journal_inv sha256 d (s\<lparr>syFS := fs'\<rparr>)"
  proof (rule file_step_inv [OF inv])
    show "entries (known_entry (syUsed s)) d fs'" using inv same by (simp add: journal_inv_def entries_def)
    show "gentle d (wDB (syWorld s)) {} (syFS s) fs'" using same by (simp add: gentle_def)
    fix t r assume "Filled t r \<in> set (syWriters s)"
    with inv have "temp_ready r d t (syFS s)" by (fastforce simp: journal_inv_def writer_ok_def)
    with same show "temp_ready r d t fs'" by (simp add: temp_ready_def)
  qed
  from m have "Reading (n # ns) cs \<in> set (syImporters s)" by (metis nth_mem)
  with inv have cs: "set (named_pairs cs) \<subseteq> set (syUsed s)" by (fastforce simp: journal_inv_def importer_ok_def)
  have new: "importer_ok (s\<lparr>syFS := fs'\<rparr>) (case res of Inr r \<Rightarrow> Reading ns (cs @ [\<lparr>cmName = n, cmRecord = r\<rparr>]) | Inl e \<Rightarrow> ImporterDone)"
  proof (cases res)
    case (Inr r)
    from read_committed_Inr [OF f [unfolded Inr]] obtain fl where
      fl: "visible (syFS s) d n = Some fl" "\<And>q. storable q \<Longrightarrow> whole_file q fl \<Longrightarrow> r = q" by blast
    from inv fl(1) have "known_entry (syUsed s) n fl" by (auto simp: journal_inv_def entries_def)
    with nt obtain q where q: "(n, q) \<in> set (syUsed s)" "whole_file q fl" by (auto simp: known_entry_def)
    have "used_ok sha256 (syUsed s)" using inv by (simp add: journal_inv_def)
    from fl(2) [OF used_okD(1) [OF this q(1)] q(2)] q(1) cs Inr show ?thesis by (simp add: importer_ok_def named_pairs_def)
  qed (simp add: importer_ok_def)
  from inv_importer_update [OF i new] show ?thesis by simp
qed

lemma receipt_scope_parts:
  "tailMessageFailureNameParts n = Some (a, dg) \<Longrightarrow> the (tailMessageFailureReceiptScope n) = tailMessageFailureReceiptPrefix @ a"
  by (simp add: receipt_scope_some)

lemma receipt_same_name:
  assumes "tailMessageFailureNameParts n = Some p" "tailMessageFailureNameParts m = Some q"
    "the (tailMessageFailureReceiptScope n) = the (tailMessageFailureReceiptScope m)"
  shows "n = m"
  using assms receipt_scope_inj [of n "tailMessageFailureReceiptPrefix @ fst p" m]
  by (cases p; cases q) (auto simp: receipt_scope_some)

text \<open>More receipts hurt no process.\<close>

lemma writer_ok_mono:
  assumes "writer_ok d s x" "syFS s' = syFS s" "syUsed s' = syUsed s"
    "\<And>n q. (n, q) \<in> set (syUsed s) \<Longrightarrow> receipted (wDB (syWorld s)) n \<Longrightarrow> receipted (wDB (syWorld s')) n"
  shows "writer_ok d s' x"
  using assms by (cases x) (auto simp: writer_ok_def)

lemma importer_ok_mono:
  assumes "importer_ok s x" "syUsed s' = syUsed s"
    "\<And>n q. (n, q) \<in> set (syUsed s) \<Longrightarrow> receipted (wDB (syWorld s)) n \<Longrightarrow> receipted (wDB (syWorld s')) n"
  shows "importer_ok s' x"
  using assms by (cases x) (auto simp: importer_ok_def named_pairs_def)

lemma inv_other_db:
  assumes inv: "journal_inv sha256 d s" and "same_receipts (wDB (syWorld s)) (wDB w')"
  shows "journal_inv sha256 d (s\<lparr>syWorld := w'\<rparr>)"
proof -
  have U: "used_ok sha256 (syUsed s)" using inv by (simp add: journal_inv_def)
  have r: "receipted (wDB w') n = receipted (wDB (syWorld s)) n" if "tailMessageFailureNameParts n = Some (a, dg)" for n a dg
    using assms(2) that by (simp add: receipted_def same_receipts_def receipt_scope_parts)
  have ru: "receipted (wDB w') n = receipted (wDB (syWorld s)) n" if "(n, q) \<in> set (syUsed s)" for n q
    using used_okD(4) [OF U that] r by blast
  have "writer_ok d (s\<lparr>syWorld := w'\<rparr>) x" if "x \<in> set (syWriters s)" for x
    by (rule writer_ok_mono [of d s]) (use that inv ru in \<open>auto simp: journal_inv_def\<close>)
  moreover have "importer_ok (s\<lparr>syWorld := w'\<rparr>) x" if "x \<in> set (syImporters s)" for x
    by (rule importer_ok_mono [of s]) (use that inv ru in \<open>auto simp: journal_inv_def\<close>)
  ultimately show ?thesis
    using inv ru r by (auto simp: journal_inv_def log_ok_def secured_def)
qed

lemma inv_import:
  assumes inv: "journal_inv sha256 d s" and m: "j < length (syImporters s)" "syImporters s ! j = Reading [] cs"
    and db: "wDB w' = apply_items now cs (wDB (syWorld s))" and y: "y = Removing cs \<or> y = ImporterDone"
  shows "journal_inv sha256 d (s\<lparr>syWorld := w', syLog := syLog s @ named_pairs (fresh_items (wDB (syWorld s)) cs),
      syImporters := (syImporters s)[j := y]\<rparr>)"
proof -
  let ?d = "wDB (syWorld s)" and ?fresh = "fresh_items (wDB (syWorld s)) cs"
  let ?s = "s\<lparr>syWorld := w', syLog := syLog s @ named_pairs ?fresh\<rparr>"
  have U: "used_ok sha256 (syUsed s)" using inv by (simp add: journal_inv_def)
  from m have "Reading [] cs \<in> set (syImporters s)" by (metis nth_mem)
  with inv have cs: "set (named_pairs cs) \<subseteq> set (syUsed s)" by (fastforce simp: journal_inv_def importer_ok_def)
  have used: "(cmName c, cmRecord c) \<in> set (syUsed s)" if "c \<in> set cs" for c using that cs by (auto simp: named_pairs_def)
  have parts: "\<exists>a dg. tailMessageFailureNameParts (cmName c) = Some (a, dg)" if "c \<in> set cs" for c
    by (rule used_okD(4) [OF U used [OF that]])
  have rec: "receipted (wDB w') n \<longleftrightarrow> receipted ?d n \<or> n \<in> cmName ` set cs" if n: "tailMessageFailureNameParts n = Some (a, dg)" for n a dg
  proof -
    have "the (tailMessageFailureReceiptScope n) \<in> receipt_of ` set cs \<longleftrightarrow> n \<in> cmName ` set cs"
      using receipt_same_name [OF n] parts by (fastforce simp: receipt_of_def)
    then show ?thesis by (simp add: receipted_def db has_receipt_apply)
  qed
  have mono: "receipted ?d n \<Longrightarrow> receipted (wDB w') n" for n by (simp add: receipted_def db has_receipt_apply)
  have fr: "c \<in> set cs" "\<not> receipted ?d (cmName c)" if "c \<in> set ?fresh" for c
    using fresh_items_receipts [OF that] by (simp_all add: receipted_def receipt_of_def)
  have names: "n \<in> cmName ` set cs \<Longrightarrow> \<not> receipted ?d n \<Longrightarrow> n \<in> cmName ` set ?fresh" for n
  proof -
    assume "n \<in> cmName ` set cs" "\<not> receipted ?d n"
    then obtain c where c: "c \<in> set cs" "n = cmName c" "\<not> has_receipt ?d (receipt_of c)" by (auto simp: receipted_def receipt_of_def)
    from fresh_items_cover [OF c(1,3)] obtain c' where c': "c' \<in> set ?fresh" "receipt_of c' = receipt_of c" by auto
    from parts [OF c(1)] parts [OF fr(1) [OF c'(1)]] receipt_same_name c' have "cmName c' = cmName c" by (fastforce simp: receipt_of_def)
    with c(2) imageI [OF c'(1), of cmName] show "n \<in> cmName ` set ?fresh" by simp
  qed
  have L: "distinct (map fst (syLog s))" "set (syLog s) \<subseteq> set (syUsed s)"
    and Lr: "\<And>n a dg. tailMessageFailureNameParts n = Some (a, dg) \<Longrightarrow> receipted ?d n \<longleftrightarrow> n \<in> fst ` set (syLog s)"
    using inv by (auto simp: journal_inv_def log_ok_def)
  have fst: "map fst (named_pairs ?fresh) = map cmName ?fresh" by (simp add: named_pairs_def)
  have dist: "distinct (map cmName ?fresh)"
  proof -
    have "receipt_of = (\<lambda>n. the (tailMessageFailureReceiptScope n)) \<circ> cmName" by (auto simp: receipt_of_def)
    with fresh_items_distinct [of ?d cs] show ?thesis by (metis distinct_map map_map)
  qed
  have "cmName c \<notin> fst ` set (syLog s)" if c: "c \<in> set ?fresh" for c
    using fr [OF c] parts [OF fr(1) [OF c]] Lr by blast
  then have disj: "set (map fst (syLog s)) \<inter> set (map cmName ?fresh) = {}"
    unfolding set_map disjoint_iff by (metis imageE)
  have log: "log_ok ?s"
    unfolding log_ok_def
  proof (intro conjI allI impI)
    show "distinct (map fst (syLog ?s))" using L(1) dist disj fst by simp
    show "set (syLog ?s) \<subseteq> set (syUsed ?s)" using L(2) used fr(1) by (auto simp: named_pairs_def)
    fix n a dg assume n: "tailMessageFailureNameParts n = Some (a, dg)"
    have "n \<in> fst ` set (syLog ?s) \<longleftrightarrow> n \<in> fst ` set (syLog s) \<or> n \<in> cmName ` set ?fresh"
      by (simp add: named_pairs_def image_Un image_image)
    moreover have "n \<in> cmName ` set ?fresh \<Longrightarrow> n \<in> cmName ` set cs" using fr(1) by auto
    ultimately show "receipted (wDB (syWorld ?s)) n \<longleftrightarrow> n \<in> fst ` set (syLog ?s)"
      using rec [OF n] Lr [OF n] names by auto
  qed
  have wr: "writer_ok d ?s x" if "x \<in> set (syWriters s)" for x
    by (rule writer_ok_mono [of d s]) (use that inv mono in \<open>auto simp: journal_inv_def\<close>)
  have im: "importer_ok ?s x" if "x \<in> set (syImporters s)" for x
    by (rule importer_ok_mono [of s]) (use that inv mono in \<open>auto simp: journal_inv_def\<close>)
  have i: "journal_inv sha256 d ?s"
    using inv wr im log mono by (auto simp: journal_inv_def secured_def)
  have "receipted (wDB w') (cmName c)" if "c \<in> set cs" for c
    using parts [OF that] rec that by blast
  then have new: "importer_ok ?s y" using y cs by (auto simp: importer_ok_def)
  from inv_importer_update [OF i new] show ?thesis by simp
qed

lemma inv_crash:
  assumes inv: "journal_inv sha256 d s" and c: "crashed (syFS s) fs'" and db: "wDB w' = wDB (syWorld s)"
  shows "journal_inv sha256 d (s\<lparr>syFS := fs', syWorld := w', syWriters := [], syImporters := []\<rparr>)"
proof -
  have E: "entries (known_entry (syUsed s)) d (syFS s)" and U: "used_ok sha256 (syUsed s)" using inv by (simp_all add: journal_inv_def)
  have st: "stable fs' d n = visible fs' d n" for n using c by (simp add: crashed_def)
  have before: "\<exists>fl. (visible (syFS s) d n = Some fl \<or> stable (syFS s) d n = Some fl) \<and> file_after_crash fl f'"
    if "visible fs' d n = Some f'" for n f'
    using c that unfolding crashed_def by (metis option.rel_cases option.distinct(1) option.inject)
  have whole: "file_after_crash fl f' \<Longrightarrow> whole_file r fl \<Longrightarrow> f' = fl" for fl f' r by (auto simp: file_after_crash_def whole_file_def)
  have "known_entry (syUsed s) n f'" if "visible fs' d n = Some f'" for n f'
    using before [OF that] E whole by (fastforce simp: entries_def known_entry_def)
  then have E': "entries (known_entry (syUsed s)) d fs'" using st by (auto simp: entries_def)
  have "secured d fs' (wDB (syWorld s)) n r" if "secured d (syFS s) (wDB (syWorld s)) n r" for n r
  proof (cases "receipted (wDB (syWorld s)) n")
    case False
    with that obtain fl where fl: "visible (syFS s) d n = Some fl" "stable (syFS s) d n = Some fl" "whole_file r fl" by (auto simp: secured_def)
    have "rel_option file_after_crash (Some fl) (visible fs' d n)" using c fl(1,2) unfolding crashed_def by metis
    then have "visible fs' d n = Some fl" using whole [OF _ fl(3)] by (auto simp: option_rel_Some1)
    with st [of n] fl(3) show ?thesis by (auto simp: secured_def)
  qed (simp add: secured_def)
  with inv E' db show ?thesis by (auto simp: journal_inv_def log_ok_def)
qed

lemma journal_step_inv: "journal_step sha256 d s s' \<Longrightarrow> journal_inv sha256 d s \<Longrightarrow> journal_inv sha256 d s'"
proof (induction rule: journal_step.induct)
  case (fill env r s t fs1 res fs2)
  then show ?case by (intro inv_fill) auto
next
  case (commit env i s t r occ fs1 name res fs2)
  then show ?case by (intro inv_commit) auto
next
  case (acknowledge i s name r env res fs')
  then show ?case by (intro inv_acknowledge) auto
next
  case (clean t env s res fs')
  then show ?case by (intro inv_remove_file) auto
next
  case (sync env s res fs')
  then show ?case by (intro inv_sync) auto
next
  case (list s)
  then show ?case by (intro inv_set_importers) (auto simp: journal_inv_def importer_ok_def named_pairs_def)
next
  case (skip j s n ns cs)
  then have "Reading (n # ns) cs \<in> set (syImporters s)" by (metis nth_mem)
  with skip show ?case by (intro inv_importer_update) (fastforce simp: journal_inv_def importer_ok_def)+
next
  case (read env j s n ns cs res fs')
  then show ?case by (intro inv_read) auto
next
  case (import j s cs denv now res w')
  then show ?case by (intro inv_import) (auto split: sum.split)
next
  case (import_undone j s cs denv now e w')
  have "journal_inv sha256 d (s\<lparr>syWorld := w'\<rparr>)"
    using import_undone by (intro inv_other_db) (simp_all add: same_receipts_def)
  then have "journal_inv sha256 d ((s\<lparr>syWorld := w'\<rparr>)\<lparr>syImporters := (syImporters (s\<lparr>syWorld := w'\<rparr>))[j := ImporterDone]\<rparr>)"
    by (rule inv_importer_update) (simp add: importer_ok_def)
  then show ?case by simp
next
  case (remove j s c cs env res fs')
  then have mem: "Removing (c # cs) \<in> set (syImporters s)" by (metis nth_mem)
  with remove have c: "receipted (wDB (syWorld s)) (cmName c)" "importer_ok s (Removing cs)"
    by (fastforce simp: journal_inv_def importer_ok_def named_pairs_def)+
  have i: "journal_inv sha256 d (s\<lparr>syFS := fs'\<rparr>)" using remove c by (intro inv_remove_file) auto
  have "importer_ok (s\<lparr>syFS := fs'\<rparr>) (Removing cs)" using c(2) by (simp add: importer_ok_def)
  from inv_importer_update [OF i this] show ?case by simp
next
  case (crash s fs' w')
  then show ?case by (intro inv_crash)
next
  case (other s w')
  then show ?case by (intro inv_other_db)
qed

lemma journal_reach_inv: "journal_reach sha256 d s \<Longrightarrow> journal_inv sha256 d s"
proof (induction rule: journal_reach.induct)
  case (start fs w)
  have "\<not> receipted (wDB w) n" if "tailMessageFailureNameParts n = Some (a, dg)" for n a dg
    using start(3) that by (simp add: receipted_def receipt_scope_parts)
  with start show ?case
    by (auto simp: journal_inv_def entries_def visible_def stable_def used_ok_def log_ok_def)
qed (rule journal_step_inv)


section \<open>A complete import\<close>

lemma faultless_path: "faultless env \<Longrightarrow> undisturbed env \<Longrightarrow> jsPath fs = Some i \<Longrightarrow> os_lstat env fs = (Inr i, fs_arrive env fs)"
  by (simp add: os_lstat_def faultless_read)

lemma open_faultless:
  assumes "faultless env" "undisturbed env" "jsPath fs = Some i" "fiKind i = DirectoryNode" "validateTailFailureFallbackDir i = None"
  shows "\<exists>fs1. openTailMessageFailureFallbackDir env False fs = (Inr (fiIno i), fs1) \<and> jsDirs fs1 = jsDirs fs"
proof -
  let ?a = "fs_arrive env"
  have root: "os_open_root env gs = (Inr i, ?a gs)" if "jsPath gs = Some i" for gs
    using that assms(1,2,4) by (simp add: os_open_root_def faultless_read)
  have handle: "os_handle env x gs = (Inr x, ?a gs)" for x :: file_info and gs
    using assms(1) by (simp add: os_handle_def faultless_read)
  note lstat = faultless_path [OF assms(1,2)]
  show ?thesis
    using assms(2-) by (simp add: openTailMessageFailureFallbackDir_def lstat verify_dir_def fs_bind_def fs_wrap_def root handle
        check_info_def publish_dir_def fs_return_def)
qed

lemma read_entries_accepts:
  assumes "faultless env"
  shows "(\<And>name. name \<in> set names \<Longrightarrow> \<exists>fl. visible fs d name = Some fl \<and> entry_ok (fsSha256 env) name fl) \<Longrightarrow>
    \<exists>cs ts fs'. read_entries env d names fs = (Inr (cs, ts), fs')"
proof (induction names arbitrary: fs)
  case (Cons name names)
  from Cons.prems obtain fl where fl: "visible fs d name = Some fl" "entry_ok (fsSha256 env) name fl" by auto
  show ?case
  proof (cases "temp_name name")
    case True
    have "\<exists>cs ts fs'. read_entries env d names fs = (Inr (cs, ts), fs')" by (rule Cons.IH) (use Cons.prems in auto)
    with True show ?thesis by (auto simp: temp_name_def fs_bind_def fs_return_def)
  next
    case False
    with fl have "committed_entry (fsSha256 env) name fl" by (simp add: entry_ok_def)
    from committed_read [OF assms fl(1) this] obtain r fs1 where r: "readCommittedTailMessageFailure env d name fs = (Inr r, fs1)"
      "visible fs1 = visible fs" by blast
    have "\<exists>cs ts fs'. read_entries env d names fs1 = (Inr (cs, ts), fs')" by (rule Cons.IH) (use Cons.prems r in auto)
    with False r show ?thesis by (auto simp: temp_name_def fs_bind_def fs_wrap_def fs_return_def)
  qed
qed (simp add: fs_return_def)

lemma cleanup_accepts:
  assumes "faultless env"
  shows "(\<And>name fl. name \<in> set names \<Longrightarrow> visible fs d name = Some fl \<Longrightarrow> fiKind (jfInfo fl) \<noteq> DirectoryNode) \<Longrightarrow>
    \<exists>b' fs'. cleanup_temps env d names b fs = (Inr b', fs')"
proof (induction names arbitrary: fs b)
  case (Cons name names)
  let ?a = "fs_arrive env"
  show ?case
  proof (cases "visible fs d name")
    case None
    have "\<exists>b' fs'. cleanup_temps env d names b (?a fs) = (Inr b', fs')" by (rule Cons.IH) (use Cons.prems in auto)
    with None show ?thesis by (simp add: root_lstat_def faultless_read [OF assms] os_ErrNotExist_def)
  next
    case (Some fl)
    have k: "fiKind (jfInfo fl) \<noteq> DirectoryNode" by (rule Cons.prems [of name]) (use Some in simp_all)
    let ?fs = "update_files d (AList.delete name) (?a (?a fs))"
    have "\<exists>b' fs'. cleanup_temps env d names True ?fs = (Inr b', fs')"
      by (rule Cons.IH) (use Cons.prems in \<open>auto simp: entry_simps split: if_splits\<close>)
    with Some k show ?thesis
      by (simp add: root_lstat_def removeFile_def root_remove_def faultless_read [OF assms] faultless_op [OF assms] fs_bind_def fs_wrap_def)
  qed
qed (simp add: fs_return_def)

lemma read_journal_accepts:
  assumes "faultless env" "journal_ok (fsSha256 env) d fs"
  shows "\<exists>cs fs'. read_journal env d fs = (Inr cs, fs')"
proof -
  let ?names = "sort (map fst (jdFiles (jsDirs fs d)))"
  have ok: "\<exists>fl. visible (fs_arrive env fs) d name = Some fl \<and> entry_ok (fsSha256 env) name fl" if "name \<in> set ?names" for name
  proof -
    from that have "name \<in> fst ` set (jdFiles (jsDirs fs d))" by simp
    then obtain fl where "visible fs d name = Some fl" unfolding visible_def by (metis map_of_eq_None_iff not_Some_eq)
    with assms(2) show ?thesis by (auto simp: journal_ok_def entries_def)
  qed
  from read_entries_accepts [OF assms(1) ok] obtain cs ts fs2 where
    r: "read_entries env d ?names (fs_arrive env fs) = (Inr (cs, ts), fs2)" by blast
  have "visible fs2 = visible fs" using read_entries_Inr [OF r] by simp
  then have "\<exists>b' fs'. cleanup_temps env d ts False fs2 = (Inr b', fs')"
    using assms(2) by (intro cleanup_accepts [OF assms(1)]) (auto simp: journal_ok_def entries_def entry_ok_def)
  then obtain b fs3 where c: "cleanup_temps env d ts False fs2 = (Inr b, fs3)" by blast
  show ?thesis
    using r c by (cases b) (auto simp: read_journal_def fs_bind_def fs_wrap_def faultless_read [OF assms(1)]
        cleanupTailMessageFailureTemps_def fs_return_def syncDirectory_def syncTailFailureDirectory_def faultless_op [OF assms(1)])
qed

lemma remove_committed_effect:
  "remove_committed env d items b e fs = (res, fs') \<Longrightarrow> shrinks d UNIV (cmName ` set items) fs0 fs \<Longrightarrow>
    shrinks d UNIV (cmName ` set items) fs0 fs'"
proof -
  have "set items \<subseteq> S \<Longrightarrow> remove_committed env d items b e fs = (res, fs') \<Longrightarrow> shrinks d UNIV (cmName ` S) fs0 fs \<Longrightarrow>
    shrinks d UNIV (cmName ` S) fs0 fs'" for S
  proof (induction items arbitrary: b e fs)
    case (Cons item items)
    have "fs_keeps (shrinks d UNIV (cmName ` S) fs0) (removeFile env d (cmName item))"
      unfolding removeFile_def root_remove_def using Cons.prems(1)
      by (intro fs_intros) (auto simp: shrinks_def entry_simps)
    moreover obtain r1 fs1 where a: "removeFile env d (cmName item) fs = (r1, fs1)" by force
    ultimately have s1: "shrinks d UNIV (cmName ` S) fs0 fs1" using Cons.prems(3) by (rule fs_keeps_result)
    from Cons.prems(1,2) a s1 Cons.IH show ?case by (cases r1) (auto split: if_splits)
  qed simp
  then show "remove_committed env d items b e fs = (res, fs') \<Longrightarrow> shrinks d UNIV (cmName ` set items) fs0 fs \<Longrightarrow>
    shrinks d UNIV (cmName ` set items) fs0 fs'" by blast
qed

lemma remove_imported_accepts:
  assumes "faultless env"
  shows "\<exists>fs'. remove_imported env d items fs = (None, fs') \<and> (\<forall>c \<in> set items. visible fs' d (cmName c) = None) \<and>
    (\<forall>name. visible fs d name = None \<longrightarrow> visible fs' d name = None)"
proof -
  have "\<exists>b' fs'. remove_committed env d items b None fs = ((b', None), fs') \<and> (\<forall>c \<in> set items. visible fs' d (cmName c) = None) \<and>
      (\<forall>name. visible fs d name = None \<longrightarrow> visible fs' d name = None)" for b
  proof (induction items arbitrary: b fs)
    case (Cons item items)
    show ?case
    proof (cases "visible fs d (cmName item)")
      case None
      from Cons.IH [of b "fs_arrive env fs"] None show ?thesis
        by (auto simp: removeFile_def root_remove_def faultless_op [OF assms] os_ErrNotExist_def)
    next
      case (Some fl)
      from Cons.IH [of True "update_files d (AList.delete (cmName item)) (fs_arrive env fs)"] Some show ?thesis
        by (fastforce simp: removeFile_def root_remove_def faultless_op [OF assms] entry_simps)
    qed
  qed simp
  then obtain b' fs' where r: "remove_committed env d items False None fs = ((b', None), fs')"
    and v: "\<forall>c \<in> set items. visible fs' d (cmName c) = None" "\<forall>name. visible fs d name = None \<longrightarrow> visible fs' d name = None" by blast
  show ?thesis
    using r v by (cases b') (auto simp: remove_imported_def syncDirectory_def syncTailFailureDirectory_def faultless_op [OF assms])
qed

text \<open>A run of the importer without faults on a well-formed journal, up to the outcome of the transaction.\<close>

definition ready_journal :: "fs_env \<Rightarrow> journal_fs \<Rightarrow> bool" where
  "ready_journal env fs \<longleftrightarrow> faultless env \<and> undisturbed env \<and> (\<exists>p. fsDirPath env = Inr p) \<and>
     (\<exists>i. jsPath fs = Some i \<and> fiKind i = DirectoryNode \<and> validateTailFailureFallbackDir i = None \<and>
          journal_ok (fsSha256 env) (fiIno i) fs)"

text \<open>\<open>cs\<close> is what the directory holds, and the cleaned directory \<open>fs2\<close> has the same committed entries.\<close>

definition journal_view :: "fs_env \<Rightarrow> nat \<Rightarrow> journal_fs \<Rightarrow> committedTailMessageFailure list \<Rightarrow> journal_fs \<Rightarrow> bool" where
  "journal_view env d fs cs fs2 \<longleftrightarrow>
     (\<forall>name. \<not> temp_name name \<longrightarrow> (visible fs d name \<noteq> None \<longleftrightarrow> name \<in> cmName ` set cs) \<and> visible fs2 d name = visible fs d name) \<and>
     (\<forall>c \<in> set cs. named_for (fsSha256 env) (cmRecord c) (cmName c) \<and> valid_record (cmRecord c) \<and>
        (\<forall>q fl. visible fs d (cmName c) = Some fl \<longrightarrow> storable q \<longrightarrow> whole_file q fl \<longrightarrow> cmRecord c = q))"

definition import_outcome :: "env \<Rightarrow> fs_env \<Rightarrow> nat \<Rightarrow> world \<Rightarrow> committedTailMessageFailure list \<Rightarrow> journal_fs \<Rightarrow>
    (nat \<times> go_error option) \<times> world \<times> journal_fs" where
  "import_outcome env fenv d w cs fs2 =
     (if cs = [] then ((0, None), w, fs2)
      else case importTailMessageFailureFallbackRecords env cs (envNow env (wTick w)) w of
        (Inl e, w1) \<Rightarrow> ((0, Some e), w1, fs2)
      | (Inr n, w1) \<Rightarrow> (case remove_imported fenv d cs fs2 of (e, fs3) \<Rightarrow> ((n, e), w1, fs3)))"

lemma import_parts:
  assumes "ready_journal fenv fs" "jsPath fs = Some i"
  obtains cs fs2 where "journal_view fenv (fiIno i) fs cs fs2"
    "ImportTailMessageFailureFallbacks env fenv (w, fs) = import_outcome env fenv (fiIno i) w cs fs2"
proof -
  from assms obtain p where r: "faultless fenv" "undisturbed fenv" "fsDirPath fenv = Inr p" "fiKind i = DirectoryNode"
    "validateTailFailureFallbackDir i = None" "journal_ok (fsSha256 fenv) (fiIno i) fs"
    unfolding ready_journal_def by auto
  from open_faultless [OF r(1,2) assms(2) r(4,5)] obtain fs1 where
    o: "openTailMessageFailureFallbackDir fenv False fs = (Inr (fiIno i), fs1)" and d1: "jsDirs fs1 = jsDirs fs" by blast
  have v1: "visible fs1 = visible fs" using d1 by (simp add: visible_def fun_eq_iff)
  have ok1: "journal_ok (fsSha256 fenv) (fiIno i) fs1" using r(6) d1 by (simp add: journal_ok_def entries_def visible_def stable_def)
  from read_journal_accepts [OF r(1) ok1] obtain cs fs2 where j: "read_journal fenv (fiIno i) fs1 = (Inr cs, fs2)" by blast
  note facts = read_journal_Inr [OF j]
  have names: "visible fs (fiIno i) name \<noteq> None \<longleftrightarrow> name \<in> cmName ` set cs" if "\<not> temp_name name" for name
  proof -
    have "set (map cmName cs) = set (committed_names (sort (map fst (jdFiles (jsDirs fs1 (fiIno i))))))" using facts by simp
    then have "cmName ` set cs = {n \<in> fst ` set (jdFiles (jsDirs fs (fiIno i))). \<not> temp_name n}"
      using d1 by (auto simp: committed_names_def)
    with that show ?thesis by (auto simp: visible_def map_of_eq_None_iff)
  qed
  show thesis
  proof (rule that)
    show "ImportTailMessageFailureFallbacks env fenv (w, fs) = import_outcome env fenv (fiIno i) w cs fs2"
      using r(3) o j by (simp add: ImportTailMessageFailureFallbacks_def importTailMessageFailureFallbacks_def import_outcome_def)
    show "journal_view fenv (fiIno i) fs cs fs2"
      using facts names v1 by (auto simp: same_committed_def journal_view_def)
  qed
qed

lemma calm_exec: "\<forall>n. envDB env n = None \<Longrightarrow> \<exists>w'. db_exec env f w = (None, w')"
  by (simp add: db_exec_def Let_def)

lemma import_items_calm:
  assumes "\<forall>n. envDB env n = None"
  shows "list_all (\<lambda>c. valid_record (cmRecord c)) items \<Longrightarrow> \<exists>n w'. import_items env now items k w = (Inr n, w')"
proof (induction items arbitrary: k w)
  case (Cons item items)
  obtain w1 where "db_exec env (\<lambda>_. put_receipt (receipt_of item) now) w = (None, w1)"
    using calm_exec [OF assms] by blast
  then obtain rows where i: "insert_receipt env (receipt_of item) now w = (Inr rows, w1)"
    by (simp add: insert_receipt_def Let_def doThen_def annotate_def value_call_def)
  from Cons.prems obtain cls msg where sen: "storeTailMessageFailureSentinel (recFailureKind (cmRecord item)) = Some (cls, msg)"
    using valid_sentinel by fastforce
  obtain w2 where "db_exec env (\<lambda>_. importTailMessageFailureSQL (record_ref (cmRecord item)) cls msg now) w1 = (None, w2)"
    using calm_exec [OF assms] by blast
  then have r: "importTailMessageFailureFallbackRecord env (cmRecord item) now w1 = (None, w2)"
    by (simp add: importTailMessageFailureFallbackRecord_def annotate_def sen)
  show ?case
  proof (cases "rows = 0")
    case True
    from Cons.IH [of k w1] Cons.prems i True show ?thesis by (auto simp: bindCall_def receipt_of_def)
  next
    case False
    from Cons.IH [of "k + 1" w2] Cons.prems i r False show ?thesis by (auto simp: bindCall_def receipt_of_def doThen_def)
  qed
qed (simp add: value_call_def)

lemma check_committed_ok:
  "(\<And>c. c \<in> set cs \<Longrightarrow> named_for sha256 (cmRecord c) (cmName c) \<and> valid_record (cmRecord c)) \<Longrightarrow> check_committed cs = None"
proof (induction cs)
  case (Cons c cs)
  from Cons.prems [of c] obtain a where "tailMessageFailureNameParts (cmName c) = Some (a, hex_string (sha256 (marshal_record (cmRecord c))))"
    "validateCommittedTailMessageFailure (cmRecord c) = None" by (auto simp: named_for_def valid_record_def)
  with Cons show ?case by (simp add: receipt_scope_some)
qed simp

lemma import_records_calm:
  assumes "\<forall>n. envDB env n = None" "\<And>c. c \<in> set cs \<Longrightarrow> named_for sha256 (cmRecord c) (cmName c) \<and> valid_record (cmRecord c)"
  shows "\<exists>n w'. importTailMessageFailureFallbackRecords env cs now w = (Inr n, w')"
proof (cases "cs = []")
  case False
  obtain w1 where a: "db_side env w = (None, w1)" using calm_exec [OF assms(1)] unfolding db_side_def by blast
  have "list_all (\<lambda>c. valid_record (cmRecord c)) cs" using assms(2) by (simp add: list_all_iff)
  from import_items_calm [OF assms(1) this] obtain n w2 where b: "import_items env now cs 0 w1 = (Inr n, w2)" by blast
  obtain w3 where c: "db_exec env (\<lambda>_ _. wDB w2) (w2\<lparr>wDB := wDB w1\<rparr>) = (None, w3)" using calm_exec [OF assms(1)] by blast
  have "tx_call env (import_items env now cs 0) w = (Inr n, w3)" using a b c by (simp add: tx_call_def)
  with False check_committed_ok [OF assms(2)] show ?thesis by (simp add: importTailMessageFailureFallbackRecords_def)
qed (simp add: importTailMessageFailureFallbackRecords_def value_call_def)

lemma receipted_apply:
  assumes "c \<in> set cs" shows "receipted (apply_items now cs d) (cmName c)"
  using assms by (auto simp: receipted_def has_receipt_apply receipt_of_def)

text \<open>
  C13. A well-formed journal never gets stuck: without faults, an import of it succeeds, whatever is in
  it; afterwards no committed file is left, and every one that was there has its receipt. (The
  invariant above says that the operations only ever make well-formed journals.)
\<close>
theorem wellformed_journal_is_imported:
  assumes "ready_journal fenv fs" "\<forall>n. envDB env n = None" "jsPath fs = Some i"
  shows "\<exists>n w' fs'. ImportTailMessageFailureFallbacks env fenv (w, fs) = ((n, None), w', fs') \<and>
    (\<forall>name. temp_name name \<or> visible fs' (fiIno i) name = None \<and>
       (visible fs (fiIno i) name = None \<or> receipted (wDB w') name))"
proof -
  obtain cs fs2 where v: "journal_view fenv (fiIno i) fs cs fs2"
    and run: "ImportTailMessageFailureFallbacks env fenv (w, fs) = import_outcome env fenv (fiIno i) w cs fs2"
    by (rule import_parts [OF assms(1,3), of env w])
  have names: "visible fs (fiIno i) name \<noteq> None \<longleftrightarrow> name \<in> cmName ` set cs"
    and same: "visible fs2 (fiIno i) name = visible fs (fiIno i) name" if "\<not> temp_name name" for name
    using v that by (simp_all add: journal_view_def)
  have ok: "c \<in> set cs \<Longrightarrow> named_for (fsSha256 fenv) (cmRecord c) (cmName c) \<and> valid_record (cmRecord c)" for c
    using v by (simp add: journal_view_def)
  from import_records_calm [OF assms(2) ok] obtain n w1 where
    r: "importTailMessageFailureFallbackRecords env cs (envNow env (wTick w)) w = (Inr n, w1)" by blast
  have db: "wDB w1 = apply_items (envNow env (wTick w)) cs (wDB w)" using import_records_Inr [OF r] by simp
  have f: "faultless fenv" using assms(1) by (simp add: ready_journal_def)
  from remove_imported_accepts [OF f, of "fiIno i" cs fs2] obtain fs3 where
    m: "remove_imported fenv (fiIno i) cs fs2 = (None, fs3)" "\<forall>c \<in> set cs. visible fs3 (fiIno i) (cmName c) = None"
    "\<forall>name. visible fs2 (fiIno i) name = None \<longrightarrow> visible fs3 (fiIno i) name = None" by blast
  show ?thesis
  proof (cases "cs = []")
    case True
    have "visible fs (fiIno i) name = None \<and> visible fs2 (fiIno i) name = None" if "\<not> temp_name name" for name
      using names [OF that] same [OF that] True by simp
    with run True show ?thesis by (auto simp: import_outcome_def)
  next
    case False
    have "visible fs3 (fiIno i) name = None \<and> (visible fs (fiIno i) name = None \<or> receipted (wDB w1) name)" if "\<not> temp_name name" for name
    proof (cases "visible fs (fiIno i) name")
      case None
      with same [OF that] m(3) show ?thesis by auto
    next
      case (Some fl)
      with names [OF that] obtain c where "c \<in> set cs" "name = cmName c" by auto
      with m(2) receipted_apply db show ?thesis by auto
    qed
    with False run r m(1) show ?thesis by (auto simp: import_outcome_def)
  qed
qed

section \<open>From a failed record to the ledger\<close>

lemma import_enters_entry:
  assumes ready: "ready_journal fenv fs" and path: "jsPath fs = Some i" and calm: "\<forall>n. envDB env n = None"
    and e: "visible fs (fiIno i) name = Some fl" "whole_file r fl" "storable r" "named_for (fsSha256 fenv) r name"
    and fresh: "\<not> receipted (wDB w) name"
  shows "\<exists>n w' fs'. ImportTailMessageFailureFallbacks env fenv (w, fs) = ((n, None), w', fs') \<and> 0 < n \<and> pending (wDB w') (record_ref r)"
proof -
  obtain cs fs2 where v: "journal_view fenv (fiIno i) fs cs fs2"
    and run: "ImportTailMessageFailureFallbacks env fenv (w, fs) = import_outcome env fenv (fiIno i) w cs fs2"
    by (rule import_parts [OF ready path, of env w])
  have ok: "c \<in> set cs \<Longrightarrow> named_for (fsSha256 fenv) (cmRecord c) (cmName c) \<and> valid_record (cmRecord c)" for c
    using v by (simp add: journal_view_def)
  have "\<not> temp_name name" by (rule named_not_temp [OF e(4)])
  with v e(1) obtain c where c: "c \<in> set cs" "cmName c = name" by (force simp: journal_view_def)
  have rec: "cmRecord c' = r" if "c' \<in> set cs" "cmName c' = name" for c'
    using v that e(1-3) by (fastforce simp: journal_view_def)
  from import_records_calm [OF calm ok] obtain n w1 where
    r: "importTailMessageFailureFallbackRecords env cs (envNow env (wTick w)) w = (Inr n, w1)" by blast
  from import_records_Inr [OF r] have db: "wDB w1 = apply_items (envNow env (wTick w)) cs (wDB w)"
    and n: "n = length (fresh_items (wDB w) cs)" by auto
  have "\<not> has_receipt (wDB w) (receipt_of c)" using fresh c by (simp add: receipted_def receipt_of_def)
  from fresh_items_cover [OF c(1) this] obtain c' where c': "c' \<in> set (fresh_items (wDB w) cs)" "receipt_of c' = receipt_of c" by auto
  have m: "c' \<in> set cs" using fresh_items_receipts [OF c'(1)] by simp
  obtain a a' x x' where "tailMessageFailureNameParts (cmName c) = Some (a, x)" "tailMessageFailureNameParts (cmName c') = Some (a', x')"
    using ok [OF c(1)] ok [OF m] by (auto simp: named_for_def)
  then have "cmName c' = cmName c" using receipt_same_name c'(2) by (simp add: receipt_of_def)
  with c(2) rec [OF m] have r': "cmRecord c' = r" by simp
  have "list_all (\<lambda>c. valid_record (cmRecord c)) cs" using ok by (simp add: list_all_iff)
  from fresh_pending [OF c'(1) this] have p: "pending (wDB w1) (record_ref r)" by (simp add: db r')
  have pos: "0 < n" using c'(1) n by (cases "fresh_items (wDB w) cs") auto
  have f: "faultless fenv" using ready by (simp add: ready_journal_def)
  from remove_imported_accepts [OF f, of "fiIno i" cs fs2] obtain fs3 where "remove_imported fenv (fiIno i) cs fs2 = (None, fs3)" by blast
  with run r c(1) p pos show ?thesis by (auto simp: import_outcome_def)
qed

text \<open>
  C6. An accepted gateway failure ends up in the ledger. When the recorder accepts the failure of a
  create, update or delete event, it is pending in the ledger at once, or else it is in the journal,
  and then the next import that meets no fault - after a restart, or after a crash - enters it: it
  is pending with the channel, the message and the event kind of the failure. The identifiers are
  UTF-8, the random names are fresh, no other process replaces the journal's path, and the entry of
  an existing journal directory was stable.
\<close>
theorem accepted_failure_reaches_ledger:
  assumes rec: "RecordTailFailure env (PersistTailMessageFailureFallback fenv) failure (w, fs) = (None, w', fs')"
    and kind: "normalizeTailMessageEventKind (tfEventType failure) = Some kind" and trim: "trim_space (tfMessageID failure) = tfMessageID failure"
    and utf8: "utf8_ok (tfGuildID failure)" "utf8_ok (tfChannelID failure)" "utf8_ok (tfMessageID failure)"
    and quiet: "undisturbed fenv" "exists_is_honest fenv" "sources_ok fenv" and path: "jsPath fs = None \<or> jsPathStable fs = jsPath fs"
    and wf: "\<forall>d. journal_ok (fsSha256 fenv) d fs" and fresh: "\<forall>r name. drawn fenv r name \<longrightarrow> \<not> receipted (wDB w') name"
    and restart: "fs'' = fs' \<or> crashed fs' fs''" "wDB w2 = wDB w'" "faultless fenv2" "undisturbed fenv2"
    "fsSha256 fenv2 = fsSha256 fenv" "fsDirPath fenv2 = Inr p" "\<forall>n. envDB env2 n = None"
  shows "(\<exists>ref. pending (wDB w') ref \<and> rOperation ref = ''tail_message'' \<and> rMessageID ref = tfMessageID failure \<and> rRelatedID ref = kind) \<or>
    (\<exists>n w3 fs3 ref. ImportTailMessageFailureFallbacks env2 fenv2 (w2, fs'') = ((n, None), w3, fs3) \<and> pending (wDB w3) ref \<and>
       rOperation ref = ''tail_message'' \<and> rChannelID ref = trim_space (tfChannelID failure) \<and> rMessageID ref = tfMessageID failure \<and>
       rRelatedID ref = kind)"
proof (cases "\<exists>ref. pending (wDB w') ref \<and> rOperation ref = ''tail_message'' \<and> rMessageID ref = tfMessageID failure \<and> rRelatedID ref = kind")
  case False
  with tail_failure_paths [OF rec kind trim] obtain fk where
    persist: "PersistTailMessageFailureFallback fenv \<lparr>fbEventKind = kind, fbFailureKind = fk, fbGuildID = tfGuildID failure,
        fbChannelID = tfChannelID failure, fbMessageID = tfMessageID failure\<rparr> fs = (None, fs')" by metis
  let ?fb = "\<lparr>fbEventKind = kind, fbFailureKind = fk, fbGuildID = tfGuildID failure,
      fbChannelID = tfChannelID failure, fbMessageID = tfMessageID failure\<rparr>"
  have u: "utf8_ok (fbGuildID ?fb)" "utf8_ok (fbChannelID ?fb)" "utf8_ok (fbMessageID ?fb)" using utf8 by simp_all
  from persisted_entry [OF persist quiet path] obtain r i name fl where
    n: "normalizeTailMessageFailureFallback ?fb = Inr r" and i: "path_is (Some i) (Some i) fs'" "fiKind i = DirectoryNode"
    "validateTailFailureFallbackDir i = None" and dr: "drawn fenv r name" and nm: "named_for (fsSha256 fenv) r name"
    and e: "whole_file r fl" "visible fs' (fiIno i) name = Some fl" "stable fs' (fiIno i) name = Some fl" by metis
  have st: "storable r" by (rule normalized_storable [OF n u])
  have k: "recEventKind r = kind"
  proof -
    have "kind \<in> {''create'', ''update'', ''delete''}"
      using kind by (auto simp: normalizeTailMessageEventKind_def Let_def split: if_splits)
    moreover have "storeNormalizeTailMessageEventKind ''create'' = Some ''create''" "storeNormalizeTailMessageEventKind ''update'' = Some ''update''"
      "storeNormalizeTailMessageEventKind ''delete'' = Some ''delete''" by code_simp+
    ultimately show ?thesis using normalized_valid(7) [OF n] by auto
  qed
  have wf': "journal_ok (fsSha256 fenv) (fiIno i) fs'"
    using fs_keepsD [OF keeps_journal_persist [OF quiet(3) u], of _ fs] wf persist by fastforce
  have wf'': "journal_ok (fsSha256 fenv) (fiIno i) fs''" using restart(1) wf' crash_keeps_journal by blast
  have p'': "jsPath fs'' = Some i" using restart(1) i(1) by (auto simp: crashed_def path_is_def)
  have v'': "visible fs'' (fiIno i) name = Some fl" using restart(1) crash_keeps_entry e by blast
  have ready: "ready_journal fenv2 fs''"
    using restart p'' i wf'' by (auto simp: ready_journal_def)
  have nm2: "named_for (fsSha256 fenv2) r name" using nm restart(5) by simp
  have nr: "\<not> receipted (wDB w2) name" using fresh dr restart(2) by metis
  from import_enters_entry [OF ready p'' restart(7) v'' e(1) st nm2 nr] obtain n3 w3 fs3 where
    "ImportTailMessageFailureFallbacks env2 fenv2 (w2, fs'') = ((n3, None), w3, fs3)" "pending (wDB w3) (record_ref r)" by blast
  moreover have "rOperation (record_ref r) = ''tail_message''" "rChannelID (record_ref r) = trim_space (tfChannelID failure)"
    "rMessageID (record_ref r) = tfMessageID failure" "rRelatedID (record_ref r) = kind"
    using normalized_valid(5,6) [OF n] trim k by (simp_all add: record_ref_def tailMessageFailureIdentity_def)
  ultimately show ?thesis by blast
qed blast

section \<open>The replay on the real journal\<close>

definition importTailMessageFailureFallbacks_of_syncer :: "env \<Rightarrow> fs_env \<Rightarrow> journal_fs \<Rightarrow> action" where
  "importTailMessageFailureFallbacks_of_syncer env fenv fs w =
     (case ImportTailMessageFailureFallbacks env fenv (w, fs) of
        ((imported, Some e), w', fs') \<Rightarrow> (Some (ErrWrap ''import tail message failure fallbacks: '' e []), w')
      | ((imported, None), w', fs') \<Rightarrow> (None, w'))"

lemma cursor_put_receipt [simp]: "sync_cursor (put_receipt s now d) t = sync_cursor d t"
  by (auto simp: sync_cursor_def put_receipt_def update_conv')

lemma cursor_ledger_import [simp]: "sync_cursor (ledger_import now r d) t = sync_cursor d t"
  by (auto simp: sync_cursor_def ledger_import_def importTailMessageFailureSQL_def split: option.split)

lemma cursor_apply_items: "sync_cursor (apply_items now items d) t = sync_cursor d t"
  by (induction items arbitrary: d) simp_all

lemma import_keeps_cursors:
  "sync_cursor (wDB (fst (snd (ImportTailMessageFailureFallbacks env fenv (w, fs))))) t = sync_cursor (wDB w) t"
proof -
  have r: "importTailMessageFailureFallbackRecords env cs now w = (res, w1) \<Longrightarrow> sync_cursor (wDB w1) t = sync_cursor (wDB w) t" for cs now res w1
    using import_records_effect cursor_apply_items by metis
  show ?thesis
    by (auto simp: ImportTailMessageFailureFallbacks_def importTailMessageFailureFallbacks_def split: sum.split prod.split dest!: r)
qed

lemma journal_import_cursors:
  "sync_cursor (wDB (snd (importTailMessageFailureFallbacks_of_syncer env fenv fs w))) t = sync_cursor (wDB w) t"
  using import_keeps_cursors [of env fenv w fs t]
  by (auto simp: importTailMessageFailureFallbacks_of_syncer_def split: prod.split option.split)

text \<open>
  C7. Only the crawl moves the history frontier. In startup-repair mode no gateway event, created,
  edited or deleted, and no automatic replay of failed events, with its import of the fallback
  journal, moves the cursor of any channel, whatever happens on the way; so the next crawl still
  fetches the history between the cursor and the event. The reading of the guild payloads is assumed
  to leave that cursor alone.
\<close>
theorem gateway_never_moves_frontier:
  assumes "\<forall>u. dbSyncState (wDB (snd (payloads u))) = dbSyncState (wDB u)" and "thPreserveHistoryCursor h"
  shows "sync_cursor (wDB (snd (OnMessageCreate env msg h w))) (channelLatestScope c) = sync_cursor (wDB w) (channelLatestScope c) \<and>
    sync_cursor (wDB (snd (OnMessageUpdate env msg h w))) (channelLatestScope c) = sync_cursor (wDB w) (channelLatestScope c) \<and>
    sync_cursor (wDB (snd (OnMessageDelete env evt h w))) (channelLatestScope c) = sync_cursor (wDB w) (channelLatestScope c) \<and>
    sync_cursor (wDB (snd (replayTailMessages env (importTailMessageFailureFallbacks_of_syncer env fenv fs) payloads h guildIDs limit False w)))
      (channelLatestScope c) = sync_cursor (wDB w) (channelLatestScope c)"
  by (rule gateway_frontier) (use assms journal_import_cursors in simp_all)

section \<open>Sample runs\<close>

lemma lost_update_normalized: "normalizeTailMessageFailureFallback lost_update = Inr lost_update_record"
  by code_simp

lemma lost_update_utf8: "utf8_ok (fbGuildID lost_update)" "utf8_ok (fbChannelID lost_update)" "utf8_ok (fbMessageID lost_update)"
  by code_simp+

definition empty_world0 :: world where
  "empty_world0 = \<lparr>wDB = empty_db, wTick = 0\<rparr>"

lemma calm_env_db: "\<forall>n. envDB calm_env n = None"
  by (simp add: calm_env_def)

definition persisted_fs :: journal_fs where
  "persisted_fs = snd (PersistTailMessageFailureFallback calm_fs lost_update empty_fs)"

definition journal_node :: file_info where
  "journal_node = \<lparr>fiKind = DirectoryNode, fiPerm = 0x1C0, fiOwned = True, fiIno = 1\<rparr>"

lemma persisted_fs_ready: "ready_journal calm_fs persisted_fs" "jsPath persisted_fs = Some journal_node"
proof -
  show p: "jsPath persisted_fs = Some journal_node" unfolding persisted_fs_def by code_simp
  have "journal_ok (fsSha256 calm_fs) 1 persisted_fs"
    unfolding persisted_fs_def by (rule fs_keepsD [OF keeps_journal_persist [OF calm_fs_ok(3) lost_update_utf8] empty_journal_ok])
  with p calm_fs_ok(1) show "ready_journal calm_fs persisted_fs"
    by (auto simp: ready_journal_def journal_node_def faultless_def calm_fs_def validateTailFailureFallbackDir_def
        validateTailFailureFallbackOwner_def)
qed

theorem wellformed_journal_is_imported_witness:
  "\<exists>n w' fs'. ImportTailMessageFailureFallbacks calm_env calm_fs (empty_world0, persisted_fs) = ((n, None), w', fs')"
  using wellformed_journal_is_imported [OF persisted_fs_ready(1) calm_env_db persisted_fs_ready(2), of empty_world0] by blast

definition forced_failure :: TailFailure where
  "forced_failure = lost_create\<lparr>tfForceFallback := True\<rparr>"

theorem accepted_failure_reaches_ledger_witness:
  "\<exists>w' fs' n w3 fs3 ref. RecordTailFailure calm_env (PersistTailMessageFailureFallback calm_fs) forced_failure (empty_world0, empty_fs) = (None, w', fs') \<and>
     ImportTailMessageFailureFallbacks calm_env calm_fs (w', fs') = ((n, None), w3, fs3) \<and> pending (wDB w3) ref \<and>
     rMessageID ref = ''42'' \<and> rRelatedID ref = ''create''"
proof -
  let ?r = "RecordTailFailure calm_env (PersistTailMessageFailureFallback calm_fs) forced_failure (empty_world0, empty_fs)"
  let ?w = "fst (snd ?r)" and ?fs = "snd (snd ?r)"
  have "fst ?r = None" by code_simp
  then have r: "?r = (None, ?w, ?fs)" by (simp add: prod_eq_iff)
  have k: "normalizeTailMessageEventKind (tfEventType forced_failure) = Some ''create''" by code_simp
  have t: "trim_space (tfMessageID forced_failure) = tfMessageID forced_failure" by code_simp
  have u: "utf8_ok (tfGuildID forced_failure)" "utf8_ok (tfChannelID forced_failure)" "utf8_ok (tfMessageID forced_failure)" by code_simp+
  have p: "jsPath empty_fs = None \<or> jsPathStable empty_fs = jsPath empty_fs" by (simp add: empty_fs_def)
  have none: "dbFailures (wDB ?w) = []" by code_simp
  have rec: "dbSyncState (wDB ?w) = []" by code_simp
  have fresh: "\<forall>r name. drawn calm_fs r name \<longrightarrow> \<not> receipted (wDB ?w) name" using rec by (simp add: receipted_def has_receipt_def)
  have wf: "\<forall>d. journal_ok (fsSha256 calm_fs) d empty_fs" by (simp add: empty_journal_ok)
  have f: "faultless calm_fs" "fsDirPath calm_fs = Inr ''/data/discrawl.db.tail-message-failures''" by (simp_all add: faultless_def calm_fs_def)
  from accepted_failure_reaches_ledger [OF r k t u calm_fs_ok p wf fresh disjI1 [OF refl] refl f(1) calm_fs_ok(1) refl f(2) calm_env_db]
  have "\<exists>n w3 fs3 ref. ImportTailMessageFailureFallbacks calm_env calm_fs (?w, ?fs) = ((n, None), w3, fs3) \<and> pending (wDB w3) ref \<and>
       rMessageID ref = tfMessageID forced_failure \<and> rRelatedID ref = ''create''"
    using none by (auto simp: pending_def)
  moreover have "tfMessageID forced_failure = ''42''" by (simp add: forced_failure_def lost_create_def)
  ultimately show ?thesis using r by metis
qed

theorem gateway_never_moves_frontier_witness:
  "sync_cursor (wDB (snd (OnMessageCreate calm_env (Some (page_message ''42'')) sample_handler lost_world))) (channelLatestScope ''5'') = ''30''"
proof -
  have h: "thPreserveHistoryCursor sample_handler" by (simp add: sample_handler_def)
  have "sync_cursor (wDB lost_world) (channelLatestScope ''5'') = ''30''" by (simp add: lost_world_def sync_cursor_def)
  with gateway_never_moves_frontier [of "value_call []", OF _ h, of calm_env "Some (page_message ''42'')" lost_world "''5''" None calm_fs empty_fs "[]" 25]
  show ?thesis by (simp add: value_call_def)
qed

text \<open>A run: a writer fills, commits and acknowledges one failure.\<close>

definition sample_temp :: string where
  "sample_temp = tailMessageFailureFallbackTempPrefix @ hex_string (replicate 16 0)"

definition sample_filled :: journal_fs where
  "sample_filled = snd (fill_temp calm_fs 1 sample_temp (marshal_record lost_update_record) (snd (createTailMessageFailureTemp calm_fs 1 empty_fs)))"

definition sample_drawn :: journal_fs where
  "sample_drawn = snd (newTailMessageFailureOccurrenceID calm_fs sample_filled)"

definition sample_name :: string where
  "sample_name = commit_name (replicate 15 0 @ [7]) (fsSha256 calm_fs (marshal_record lost_update_record))"

definition sample_renamed :: journal_fs where
  "sample_renamed = snd (renameTailFailureNoReplace calm_fs 1 sample_temp sample_name sample_drawn)"

definition sample_acked :: journal_sys where
  "sample_acked = \<lparr>syFS = snd (syncDirectory calm_fs 1 sample_renamed), syWorld = empty_world0, syWriters = [WriterDone], syImporters = [],
     syUsed = [(sample_name, lost_update_record)], syAcked = [(sample_name, lost_update_record)], syLog = []\<rparr>"

lemma sample_calls:
  "createTailMessageFailureTemp calm_fs 1 empty_fs = (Inr sample_temp, snd (createTailMessageFailureTemp calm_fs 1 empty_fs))"
  "fill_temp calm_fs 1 sample_temp (marshal_record lost_update_record) (snd (createTailMessageFailureTemp calm_fs 1 empty_fs)) = (Inr (), sample_filled)"
  "newTailMessageFailureOccurrenceID calm_fs sample_filled = (Inr (replicate 15 0 @ [7]), sample_drawn)"
  "renameTailFailureNoReplace calm_fs 1 sample_temp sample_name sample_drawn = (Inr (), sample_renamed)"
  "syncDirectory calm_fs 1 sample_renamed = (Inr (), syFS sample_acked)"
proof -
  have "fst (createTailMessageFailureTemp calm_fs 1 empty_fs) = Inr sample_temp" by code_simp
  then show "createTailMessageFailureTemp calm_fs 1 empty_fs = (Inr sample_temp, snd (createTailMessageFailureTemp calm_fs 1 empty_fs))"
    by (simp add: prod_eq_iff)
  have "fst (fill_temp calm_fs 1 sample_temp (marshal_record lost_update_record) (snd (createTailMessageFailureTemp calm_fs 1 empty_fs))) = Inr ()"
    by code_simp
  then show "fill_temp calm_fs 1 sample_temp (marshal_record lost_update_record) (snd (createTailMessageFailureTemp calm_fs 1 empty_fs)) = (Inr (), sample_filled)"
    by (simp add: prod_eq_iff sample_filled_def)
  have "fst (newTailMessageFailureOccurrenceID calm_fs sample_filled) = Inr (replicate 15 0 @ [7])" by code_simp
  then show "newTailMessageFailureOccurrenceID calm_fs sample_filled = (Inr (replicate 15 0 @ [7]), sample_drawn)"
    by (simp add: prod_eq_iff sample_drawn_def)
  have "fst (renameTailFailureNoReplace calm_fs 1 sample_temp sample_name sample_drawn) = Inr ()" by code_simp
  then show "renameTailFailureNoReplace calm_fs 1 sample_temp sample_name sample_drawn = (Inr (), sample_renamed)"
    by (simp add: prod_eq_iff sample_renamed_def)
  have "fst (syncDirectory calm_fs 1 sample_renamed) = Inr ()" by code_simp
  then show "syncDirectory calm_fs 1 sample_renamed = (Inr (), syFS sample_acked)" by (simp add: prod_eq_iff sample_acked_def)
qed

lemma sample_reached: "journal_reach (fsSha256 calm_fs) 1 sample_acked"
proof -
  let ?s0 = "\<lparr>syFS = empty_fs, syWorld = empty_world0, syWriters = [], syImporters = [], syUsed = [], syAcked = [], syLog = []\<rparr>"
  let ?s1 = "?s0\<lparr>syFS := sample_filled, syWriters := [Filled sample_temp lost_update_record]\<rparr>"
  let ?s2 = "?s1\<lparr>syFS := sample_renamed, syUsed := [(sample_name, lost_update_record)], syWriters := [Committed sample_name lost_update_record]\<rparr>"
  have s: "storable lost_update_record" by (rule normalized_storable [OF lost_update_normalized lost_update_utf8])
  have 0: "journal_reach (fsSha256 calm_fs) 1 ?s0"
    by (rule journal_reach.start) (simp_all add: empty_fs_def empty_world0_def empty_db_def has_receipt_def)
  have "journal_step (fsSha256 calm_fs) 1 ?s0 ?s1"
    using journal_step.fill [OF calm_fs_ok(3) refl s, of 1 ?s0 sample_temp "snd (createTailMessageFailureTemp calm_fs 1 empty_fs)" "Inr ()" sample_filled]
      sample_calls(1,2) by (simp add: draws_fresh_def)
  with 0 have 1: "journal_reach (fsSha256 calm_fs) 1 ?s1" by (rule journal_reach.step)
  have "journal_step (fsSha256 calm_fs) 1 ?s1 ?s2"
    using journal_step.commit [OF calm_fs_ok(3) refl, of 0 ?s1 sample_temp lost_update_record "replicate 15 0 @ [7]" sample_drawn sample_name 1 "Inr ()"]
      sample_calls(3,4) by (simp add: sample_name_def)
  with 1 have 2: "journal_reach (fsSha256 calm_fs) 1 ?s2" by (rule journal_reach.step)
  have "journal_step (fsSha256 calm_fs) 1 ?s2 sample_acked"
    using journal_step.acknowledge [of 0 ?s2 sample_name lost_update_record calm_fs 1 "Inr ()" "syFS sample_acked"] sample_calls(5)
    by (simp add: sample_acked_def)
  with 2 show ?thesis by (rule journal_reach.step)
qed


section \<open>Where the journal is weaker than it looks\<close>

text \<open>
  An importer that cleans up takes the temporary file of a writer that is still at work for a stale
  one: the writer's commit then fails, and its failure is recorded nowhere.
\<close>

lemma cleanup_defeats_writer:
  assumes "faultless env" "visible fs d t = Some fl" "visible fs d name = None" "t \<noteq> name"
  shows "fst (renameTailFailureNoReplace env d t name (snd (removeFile env d t fs))) = Inl os_ErrNotExist"
proof -
  have "\<not> err_is os_ErrNotExist unix_ENOSYS" "\<not> err_is os_ErrNotExist unix_EINVAL"
    by (simp_all add: os_ErrNotExist_def unix_ENOSYS_def unix_EINVAL_def)
  with assms show ?thesis
    by (simp add: removeFile_def root_remove_def renameTailFailureNoReplace_def renameat2_noreplace_def faultless_op entry_simps)
qed

text \<open>
  The import reopens a resolved failure but keeps the reason of its resolution, which the recorder of
  the ledger clears.
\<close>

lemma import_keeps_stale_reason:
  assumes "f \<in> set (dbFailures d)" "fRef f = ref"
  shows "\<exists>g \<in> set (dbFailures (importTailMessageFailureSQL ref cls msg now d)).
      fRef g = ref \<and> fResolvedAt g = None \<and> fResolutionReason g = fResolutionReason f"
    and "g \<in> set (dbFailures (ledger_upsert ref cls msg now d)) \<Longrightarrow> fRef g = ref \<Longrightarrow> fResolutionReason g = []"
proof -
  have "reopened ref cls msg now f \<in> set (dbFailures (importTailMessageFailureSQL ref cls msg now d))"
    by (rule import_keeps_rows [OF assms(1)])
  moreover have "fRef (reopened ref cls msg now f) = ref \<and> fResolvedAt (reopened ref cls msg now f) = None \<and>
      fResolutionReason (reopened ref cls msg now f) = fResolutionReason f"
    using assms(2) by (simp add: reopened_def)
  ultimately show "\<exists>g \<in> set (dbFailures (importTailMessageFailureSQL ref cls msg now d)).
      fRef g = ref \<and> fResolvedAt g = None \<and> fResolutionReason g = fResolutionReason f" by blast
  assume g: "g \<in> set (dbFailures (ledger_upsert ref cls msg now d))" "fRef g = ref"
  let ?h = "\<lambda>f. if fRef f = ref
               then f\<lparr>fErrorClass := cls, fErrorMessage := msg, fLastSeenAt := now,
                      fRetryCount := fRetryCount f + 1, fResolutionReason := [], fResolvedAt := None\<rparr>
               else f"
  have "\<exists>f \<in> set (dbFailures d). fRef f = ref" using assms by blast
  then have rows: "dbFailures (ledger_upsert ref cls msg now d) = map ?h (dbFailures d)" by (simp add: ledger_upsert_def)
  from g(1) [unfolded rows set_map] obtain f' where f': "g = ?h f'" by (rule imageE)
  show "fResolutionReason g = []"
  proof (cases "fRef f' = ref")
    case False
    with f' g(2) show ?thesis by simp
  qed (simp add: f')
qed

end
