(* ===== verification/MemberSync.thy ===== *)
theory MemberSync
  imports TailGateway MemberStore
begin

text \<open>
  Guild and member synchronisation: the enumeration of a guild's members page by page
  (\<open>GuildMemberEnumeration\<close> of internal/discord/client.go), the member refresh and the guild record of
  a sync (internal/syncer/syncer.go), the gateway's guild and member events (internal/syncer/tail.go),
  and the reconciliation of a list of missing members and messages by exact lookups
  (internal/syncer/reconcile.go). One page request is a parameter; logging and progress reports have no
  effect on the archive. The order in which Go enumerates the keys of a map is a parameter \<open>ord\<close>.
\<close>

section \<open>Enumeration\<close>

definition memberUserID :: "dmember option \<Rightarrow> string" where
  "memberUserID member = (case member of None \<Rightarrow> [] | Some m \<Rightarrow> (case umUser m of None \<Rightarrow> [] | Some u \<Rightarrow> uID u))"

definition lastMemberUserID :: "dmember option list \<Rightarrow> string" where
  "lastMemberUserID page = first_nonempty (map memberUserID (rev page))"

definition cursor_stuck :: "string \<Rightarrow> go_error" where
  "cursor_stuck guildID = ErrText (''guild '' @ guildID @ '' member page cursor did not advance'')"

text \<open>The check of a page: canonical ids in ascending order above \<open>previous\<close>; the answer is the last one.\<close>

fun accept_page :: "string \<Rightarrow> nat \<Rightarrow> dmember option list \<Rightarrow> go_error + nat" where
  "accept_page guildID previous [] = Inr previous"
| "accept_page guildID previous (member # page) =
     (let i = memberUserID member in
      if i = [] then Inl (ErrText ''guild member page missing user id'')
      else case parse_uint64 i of
        None \<Rightarrow> Inl (ErrText ''guild member page has invalid user id'')
      | Some numeric \<Rightarrow>
          if numeric = 0 \<or> show_nat numeric \<noteq> i then Inl (ErrText ''guild member page has invalid user id'')
          else if numeric \<le> previous then Inl (cursor_stuck guildID)
          else accept_page guildID numeric page)"

lemma parse_uint64_bound: "parse_uint64 s = Some n \<Longrightarrow> n < 2 ^ 64"
  by (auto simp: parse_uint64_def split: if_splits)

lemma accept_page_advances: "accept_page g previous page = Inr n \<Longrightarrow> page \<noteq> [] \<Longrightarrow> previous < n \<and> n < 2 ^ 64"
proof (induction page arbitrary: previous)
  case (Cons m page)
  then obtain k where k: "parse_uint64 (memberUserID m) = Some k" "previous < k" and a: "accept_page g k page = Inr n"
    by (auto simp: Let_def split: if_splits option.splits)
  show ?case
  proof (cases "page = []")
    case True
    with a k parse_uint64_bound [OF k(1)] show ?thesis by simp
  next
    case False
    from Cons.IH [OF a this] k show ?thesis by simp
  qed
qed simp

function member_pages :: "env \<Rightarrow> string \<Rightarrow> string \<Rightarrow> nat \<Rightarrow> dmember option list \<Rightarrow> dmember option list call" where
  "member_pages env guildID after previous members w =
     (case envMemberPage env (wTick w) guildID after of
        Inl e \<Rightarrow> (Inl e, tick w)
      | Inr page \<Rightarrow>
          if page = [] then (Inr members, tick w)
          else case accept_page guildID previous page of
            Inl e \<Rightarrow> (Inl e, tick w)
          | Inr previous1 \<Rightarrow>
              let nextAfter = lastMemberUserID page in
              if nextAfter = [] then (Inl (ErrText (''guild '' @ guildID @ '' member page missing user id'')), tick w)
              else if nextAfter = after then (Inl (cursor_stuck guildID), tick w)
              else if length page < 1000 then (Inr (members @ page), tick w)
              else member_pages env guildID nextAfter previous1 (members @ page) (tick w))"
  by pat_completeness auto
termination
  by (relation "measure (\<lambda>(_, _, _, previous, _, _). 2 ^ 64 - previous)") (auto dest!: accept_page_advances)

declare member_pages.simps [simp del]

definition GuildMemberEnumeration :: "env \<Rightarrow> string \<Rightarrow> dmember option list call" where
  "GuildMemberEnumeration env guildID = member_pages env guildID [] 0 []"

section \<open>Records\<close>

definition displayName :: "dmember \<Rightarrow> duser \<Rightarrow> string" where
  "displayName m u = (if umNick m \<noteq> [] then umNick m else if uGlobalName u \<noteq> [] then uGlobalName u else uUsername u)"

definition toMemberRecord :: "string \<Rightarrow> dmember option \<Rightarrow> member_record" where
  "toMemberRecord guildID member =
     (case member of
        Some m \<Rightarrow>
          (case umUser m of
             Some u \<Rightarrow> \<lparr>mbGuildID = guildID, mbUserID = uID u, mbUsername = uUsername u, mbGlobalName = uGlobalName u,
                mbDisplayName = displayName m u, mbNick = umNick m, mbDiscriminator = uDiscriminator u, mbAvatar = umAvatar m,
                mbBot = uBot u, mbJoinedAt = umJoinedAt m, mbRoleIDsJSON = umRolesJSON m, mbRawJSON = umRaw m\<rparr>
           | None \<Rightarrow> \<lparr>mbGuildID = [], mbUserID = [], mbUsername = [], mbGlobalName = [], mbDisplayName = [], mbNick = [],
                mbDiscriminator = [], mbAvatar = [], mbBot = False, mbJoinedAt = [], mbRoleIDsJSON = [], mbRawJSON = []\<rparr>)
      | None \<Rightarrow> \<lparr>mbGuildID = [], mbUserID = [], mbUsername = [], mbGlobalName = [], mbDisplayName = [], mbNick = [],
                mbDiscriminator = [], mbAvatar = [], mbBot = False, mbJoinedAt = [], mbRoleIDsJSON = [], mbRawJSON = []\<rparr>)"

definition guild_record_of :: "dguild \<Rightarrow> guild_record" where
  "guild_record_of g = \<lparr>gdID = dgID g, gdName = dgName g, gdIcon = dgIcon g, gdRawJSON = dgRaw g\<rparr>"

section \<open>The refresh of a guild\<close>

text \<open>The client returns no nil guild without an error; dereferencing one would panic.\<close>

definition syncGuildRecord :: "env \<Rightarrow> string \<Rightarrow> action" where
  "syncGuildRecord env guildID w =
     (let started = envNow env (wTick w) in
      case envGuild env (wTick w) guildID of
        Inl e \<Rightarrow> (Some (ErrWrap (''fetch guild '' @ guildID @ '': '') e []), tick w)
      | Inr None \<Rightarrow> (Some (ErrText ''panic: nil guild''), tick w)
      | Inr (Some g) \<Rightarrow> UpsertObservedGuild env (guild_record_of g) started (tick w))"

definition guildMemberSyncSuccessScope :: "string \<Rightarrow> string" where
  "guildMemberSyncSuccessScope guildID = ''guild:'' @ guildID @ '':members:last_success''"

definition shouldRefreshMembers :: "env \<Rightarrow> duration \<Rightarrow> string \<Rightarrow> world \<Rightarrow> bool \<times> world" where
  "shouldRefreshMembers env interval guildID w =
     (if guildID = [] then (True, w)
      else case GetSyncState env (guildMemberSyncSuccessScope guildID) w of
        (Inl e, w1) \<Rightarrow> (True, w1)
      | (Inr lastSuccess, w1) \<Rightarrow>
          (if lastSuccess = [] \<or> interval \<le> 0 then True
           else case envParseTime env lastSuccess of
             None \<Rightarrow> True
           | Some lastAt \<Rightarrow> \<not> envNow env (wTick w1) - lastAt < interval, w1))"

definition guild_members_ref :: "string \<Rightarrow> failure_ref" where
  "guild_members_ref guildID =
     \<lparr>rOperation = ''guild_members'', rSource = ''discord'', rGuildID = guildID, rChannelID = [], rMessageID = [],
      rRelatedKind = [], rRelatedID = []\<rparr>"

fun convert_members :: "env \<Rightarrow> string \<Rightarrow> dmember option list \<Rightarrow> member_record list \<Rightarrow> member_record list call" where
  "convert_members env guildID [] acc w = (Inr acc, w)"
| "convert_members env guildID (m # ms) acc w =
     (case envCtx env (wTick w) of
        Some e \<Rightarrow> (Inl e, w)
      | None \<Rightarrow>
          let r = toMemberRecord guildID m in
          if mbUserID r = [] then (Inl (ErrText ''member enumeration returned a missing user identity''), tick w)
          else convert_members env guildID ms (acc @ [r]) (tick w))"

definition merge_call :: "env \<Rightarrow> string \<Rightarrow> member_record list \<Rightarrow> instant \<Rightarrow> action" where
  "merge_call env guildID ms started w = (case MergeObservedMembers env guildID ms started w of ((_, e), w1) \<Rightarrow> (e, w1))"

definition record_refresh :: "env \<Rightarrow> string \<Rightarrow> action" where
  "record_refresh env guildID w =
     SetSyncState env (guildMemberSyncSuccessScope guildID) (envTimeText env (envNow env (wTick w))) w"

text \<open>The enumeration, the merge, the resolution of earlier failures and the receipt.\<close>

definition run_refresh :: "env \<Rightarrow> string \<Rightarrow> nat call" where
  "run_refresh env guildID w =
     (let started = envNow env (wTick w) in
      bindCall (wrap_error ''crawl guild members: '' (GuildMemberEnumeration env guildID))
        (\<lambda>members. bindCall (convert_members env guildID members [])
          (\<lambda>converted.
             doThen (annotate (\<lambda>e. ErrWrap ''merge guild members: '' e []) (merge_call env guildID converted started))
            (doThen (annotate (\<lambda>e. ErrWrap ''resolve guild member refresh failure: '' e [])
                       (ResolveFailureIdentity env (guild_members_ref guildID)))
            (doThen (annotate (\<lambda>e. ErrWrap ''record guild member sync: '' e []) (record_refresh env guildID))
              (value_call (length converted)))))) w)"

definition refreshGuildMembers :: "env \<Rightarrow> duration \<Rightarrow> string \<Rightarrow> bool \<Rightarrow> nat call" where
  "refreshGuildMembers env interval guildID force w =
     (case (if force then (True, w) else shouldRefreshMembers env interval guildID w) of
        (False, w1) \<Rightarrow> (Inr 0, w1)
      | (True, w1) \<Rightarrow>
          (case run_refresh env guildID w1 of
             (Inr n, w2) \<Rightarrow> (Inr n, w2)
           | (Inl e, w2) \<Rightarrow>
               if envCtx env (wTick w2) \<noteq> None then (Inl e, w2)
               else (case RecordFailure env (guild_members_ref guildID) (Some e) w2 of
                       (r, w3) \<Rightarrow> (Inl (ErrJoin (e # (case r of None \<Rightarrow> [] | Some e' \<Rightarrow> [e']))), w3))))"

definition refreshGuildMembersForSync :: "env \<Rightarrow> duration \<Rightarrow> string \<Rightarrow> bool \<Rightarrow> bool \<Rightarrow> bool \<Rightarrow> nat call" where
  "refreshGuildMembersForSync env interval guildID targeted requireMembers skipMembers w =
     (if targeted then
        (if requireMembers then (Inl (ErrText ''cannot require a member refresh for a targeted channel sync''), w) else (Inr 0, w))
      else if skipMembers then (Inr 0, w)
      else case refreshGuildMembers env interval guildID requireMembers w of
        (Inl e, w1) \<Rightarrow> (if requireMembers then Inl e else Inr 0, w1)
      | (Inr n, w1) \<Rightarrow> (Inr n, w1))"

section \<open>Gateway events\<close>

fun guild_channel_records :: "tailHandler \<Rightarrow> string \<Rightarrow> dchannel option list \<Rightarrow> channel_record list option" where
  "guild_channel_records h guildID [] = Some []"
| "guild_channel_records h guildID (c # cs) =
     (case c of
        None \<Rightarrow> guild_channel_records h guildID cs
      | Some ch \<Rightarrow>
          if cID ch = [] then guild_channel_records h guildID cs
          else if cGuildID ch \<noteq> [] \<and> cGuildID ch \<noteq> guildID then None
          else let observed = ch\<lparr>cGuildID := guildID\<rparr> in
            map_option ((#) (toChannelRecord observed (thMarshal h observed))) (guild_channel_records h guildID cs))"

definition OnGuildUpsert :: "env \<Rightarrow> dguild option \<Rightarrow> tailHandler \<Rightarrow> world \<Rightarrow> (go_error option \<times> tailHandler) \<times> world" where
  "OnGuildUpsert env guild h w =
     (case guild of
        None \<Rightarrow> ((None, h), w)
      | Some g \<Rightarrow>
          if dgUnavailable g \<or> \<not> allowGuild h (dgID g) then ((None, h), w)
          else case UpsertGuild env (guild_record_of g) w of
            (Some e, w1) \<Rightarrow> ((Some e, h), w1)
          | (None, w1) \<Rightarrow>
              (case guild_channel_records h (dgID g) (dgChannels g @ dgThreads g) of
                 None \<Rightarrow> ((Some (ErrText ''guild channel identity mismatch''), h), w1)
               | Some records \<Rightarrow> then_refresh env (UpsertChannels env records) h w1))"

definition OnGuildDelete :: "env \<Rightarrow> dguild option \<Rightarrow> tailHandler \<Rightarrow> action" where
  "OnGuildDelete env guild h =
     (case guild of
        None \<Rightarrow> ok
      | Some g \<Rightarrow>
          if dgUnavailable g \<or> \<not> allowGuild h (dgID g) then ok
          else MarkGuildDeleted env (dgID g) ''discord-gateway'' ''guild-delete-event'')"

definition OnMemberUpsert :: "env \<Rightarrow> string \<Rightarrow> dmember option \<Rightarrow> tailHandler \<Rightarrow> action" where
  "OnMemberUpsert env guildID member h =
     (if \<not> allowGuild h guildID \<or> (case member of None \<Rightarrow> True | Some m \<Rightarrow> umUser m = None) then ok
      else UpsertMember env (toMemberRecord guildID member))"

definition OnMemberDelete :: "env \<Rightarrow> string \<Rightarrow> string \<Rightarrow> tailHandler \<Rightarrow> action" where
  "OnMemberDelete env guildID userID h =
     (if \<not> allowGuild h guildID then ok
      else MarkMemberDeleted env guildID userID ''discord-gateway'' ''member-remove-event'')"

section \<open>Reconciliation\<close>

record ReconcileMember =
  rmGuildID :: string
  rmUserID :: string

record ReconcileMessage =
  rgGuildID :: string
  rgChannelID :: string
  rgMessageID :: string
  rgCreatedAt :: string

record ReconcilePlan =
  pnArchive :: string
  pnMembers :: "ReconcileMember list"
  pnMessages :: "ReconcileMessage list"

record ReconcileStats =
  xsRestored :: nat
  xsConfirmedDeleted :: nat
  xsAlreadyPresent :: nat

definition validID :: "string \<Rightarrow> bool" where
  "validID i = (case parse_uint64 i of None \<Rightarrow> False | Some n \<Rightarrow> 0 < n \<and> show_nat n = i)"

definition live_guild :: "db \<Rightarrow> string \<Rightarrow> bool" where
  "live_guild d g = (case map_of (dbGuilds d) g of None \<Rightarrow> False | Some r \<Rightarrow> gdDeletedAt r = 0)"

definition live_channel :: "db \<Rightarrow> string \<Rightarrow> string \<Rightarrow> bool" where
  "live_channel d c g = (case find_channel (dbChannels d) c of None \<Rightarrow> False | Some r \<Rightarrow> crGuildID r = g \<and> live_guild d g)"

text \<open>A query for one row, where a failed query and a missing row give the same error.\<close>

definition require_row :: "env \<Rightarrow> (db \<Rightarrow> bool) \<Rightarrow> string \<Rightarrow> action" where
  "require_row env q text w =
     (case db_query env q w of (Inr True, w1) \<Rightarrow> (None, w1) | (_, w1) \<Rightarrow> (Some (ErrText text), w1))"

fun validate_plan_members :: "env \<Rightarrow> ReconcileMember list \<Rightarrow> strset \<Rightarrow> strset call" where
  "validate_plan_members env [] seen w = (Inr seen, w)"
| "validate_plan_members env (row # rows) seen w =
     (let key = ''member:'' @ rmGuildID row @ '':'' @ rmUserID row in
      if \<not> validID (rmGuildID row) \<or> \<not> validID (rmUserID row) \<or> key \<in> set seen
      then (Inl (ErrText ''invalid or duplicate member identity''), w)
      else doThen (require_row env (\<lambda>d. live_guild d (rmGuildID row)) ''member guild is outside the live source scope'')
             (validate_plan_members env rows (key # seen)) w)"

fun validate_plan_messages :: "env \<Rightarrow> ReconcileMessage list \<Rightarrow> strset \<Rightarrow> strset call" where
  "validate_plan_messages env [] seen w = (Inr seen, w)"
| "validate_plan_messages env (row # rows) seen w =
     (let key = ''message:'' @ rgMessageID row in
      if \<not> validID (rgGuildID row) \<or> \<not> validID (rgChannelID row) \<or> \<not> validID (rgMessageID row) \<or> key \<in> set seen
      then (Inl (ErrText ''invalid or duplicate message identity''), w)
      else if envParseTime env (rgCreatedAt row) = None then (Inl (ErrText ''message creation time is required''), w)
      else doThen (require_row env (\<lambda>d. live_channel d (rgChannelID row) (rgGuildID row)) ''message channel is outside the live source scope'')
             (validate_plan_messages env rows (key # seen)) w)"

definition reconcileLookupError :: "string \<Rightarrow> go_error \<Rightarrow> go_error" where
  "reconcileLookupError kind err =
     (case err_rest err of
        Some (st, code) \<Rightarrow> ErrText (kind @ '' reconciliation failed (HTTP '' @ show_nat st @ '', Discord code '' @ show_nat code @
          ''); no observations applied'')
      | None \<Rightarrow> ErrText (kind @ '' reconciliation request failed; no observations applied''))"

definition check_guild :: "env \<Rightarrow> string \<Rightarrow> action" where
  "check_guild env i w =
     (case envGuild env (wTick w) i of
        Inl e \<Rightarrow> Some (reconcileLookupError ''guild'' e)
      | Inr None \<Rightarrow> Some (ErrText ''guild access could not be verified'')
      | Inr (Some g) \<Rightarrow> if dgID g \<noteq> i \<or> dgUnavailable g then Some (ErrText ''guild access could not be verified'') else None, tick w)"

definition channel_identity :: "env \<Rightarrow> string \<Rightarrow> string \<Rightarrow> action" where
  "channel_identity env i guildID w =
     (case envChannel env (wTick w) i of
        Inl e \<Rightarrow> Some (reconcileLookupError ''channel'' e)
      | Inr None \<Rightarrow> Some (ErrText ''channel access could not be verified'')
      | Inr (Some c) \<Rightarrow> if cID c \<noteq> i \<or> cGuildID c \<noteq> guildID then Some (ErrText ''channel access could not be verified'') else None, tick w)"

definition history_readable :: "env \<Rightarrow> string \<Rightarrow> action" where
  "history_readable env i w =
     (case envCanRead env (wTick w) i of
        Inl e \<Rightarrow> Some (reconcileLookupError ''message-history permissions'' e)
      | Inr allowed \<Rightarrow> if allowed then None else Some (ErrText ''message history is not readable; no observations applied''), tick w)"

definition check_channel :: "env \<Rightarrow> string \<times> string \<Rightarrow> action" where
  "check_channel env cg = andThen (channel_identity env (fst cg) (snd cg)) (history_readable env (fst cg))"

text \<open>The maps \<open>guilds\<close> and \<open>channels\<close>: a later row overwrites the guild of its channel.\<close>

definition plan_guilds :: "ReconcilePlan \<Rightarrow> string list" where
  "plan_guilds plan = remdups (map rmGuildID (pnMembers plan) @ map rgGuildID (pnMessages plan))"

definition plan_channels :: "ReconcilePlan \<Rightarrow> (string \<times> string) list" where
  "plan_channels plan = fold (\<lambda>row. AList.update (rgChannelID row) (rgGuildID row)) (pnMessages plan) []"

text \<open>
  The observation of one row: \<open>None\<close> when the archive has it, else the live entity, or its confirmed
  absence as \<open>Some None\<close>.
\<close>

definition member_matches :: "ReconcileMember \<Rightarrow> dmember \<Rightarrow> bool" where
  "member_matches row m \<longleftrightarrow>
     (case umUser m of None \<Rightarrow> False | Some u \<Rightarrow> uID u = rmUserID row) \<and> (umGuildID m = [] \<or> umGuildID m = rmGuildID row)"

definition lookup_member :: "env \<Rightarrow> ReconcileMember \<Rightarrow> dmember option call" where
  "lookup_member env row w =
     (case envGuildMember env (wTick w) (rmGuildID row) (rmUserID row) of
        Inl e \<Rightarrow> if confirmedDiscordMissing (Some e) 10007 then Inr None else Inl (reconcileLookupError ''member'' e)
      | Inr None \<Rightarrow> Inl (ErrText ''member response identity mismatch'')
      | Inr (Some m) \<Rightarrow> if member_matches row m then Inr (Some m) else Inl (ErrText ''member response identity mismatch''), tick w)"

definition observe_member :: "env \<Rightarrow> ReconcileMember \<Rightarrow> dmember option option call" where
  "observe_member env row w =
     (case db_query env (\<lambda>d. map_of (dbMembers d) (rmGuildID row, rmUserID row) \<noteq> None) w of
        (Inl e, w1) \<Rightarrow> (Inl (ErrText ''member lookup in source failed''), w1)
      | (Inr True, w1) \<Rightarrow> (Inr None, w1)
      | (Inr False, w1) \<Rightarrow> bindCall (lookup_member env row) (\<lambda>x. value_call (Some x)) w1)"

definition message_matches :: "ReconcileMessage \<Rightarrow> dmessage \<Rightarrow> bool" where
  "message_matches row m \<longleftrightarrow> gID m = rgMessageID row \<and> gChannelID m = rgChannelID row \<and> (gGuildID m = [] \<or> gGuildID m = rgGuildID row)"

definition lookup_message :: "env \<Rightarrow> ReconcileMessage \<Rightarrow> dmessage option call" where
  "lookup_message env row w =
     (case envMessage env (wTick w) (rgChannelID row) (rgMessageID row) of
        Inl e \<Rightarrow> if confirmedDiscordMissing (Some e) 10008 then Inr None else Inl (reconcileLookupError ''message'' e)
      | Inr None \<Rightarrow> Inl (ErrText ''message response identity mismatch'')
      | Inr (Some m) \<Rightarrow> if message_matches row m then Inr (Some m) else Inl (ErrText ''message response identity mismatch''), tick w)"

definition channel_name :: "db \<Rightarrow> string \<Rightarrow> string \<Rightarrow> string option" where
  "channel_name d c g =
     (case find_channel (dbChannels d) c of None \<Rightarrow> None | Some r \<Rightarrow> if crGuildID r = g then Some (crName r) else None)"

definition require_name :: "env \<Rightarrow> ReconcileMessage \<Rightarrow> string call" where
  "require_name env row w =
     (case db_query env (\<lambda>d. channel_name d (rgChannelID row) (rgGuildID row)) w of
        (Inr (Some name), w1) \<Rightarrow> (Inr name, w1) | (_, w1) \<Rightarrow> (Inl (ErrText ''message channel lookup failed''), w1))"

definition observe_message :: "env \<Rightarrow> ReconcileMessage \<Rightarrow> (dmessage option \<times> string) option call" where
  "observe_message env row w =
     (case db_query env (\<lambda>d. stored_row d (rgMessageID row) \<noteq> None) w of
        (Inl e, w1) \<Rightarrow> (Inl (ErrText ''message lookup in source failed''), w1)
      | (Inr True, w1) \<Rightarrow> (Inr None, w1)
      | (Inr False, w1) \<Rightarrow>
          bindCall (require_name env row)
            (\<lambda>name. bindCall (lookup_message env row) (\<lambda>x. value_call (Some (x, name)))) w1)"

text \<open>
  A pass over rows: the observations of the rows that are missing, paired with their rows, and the
  number of those present; on an error the number so far.
\<close>

fun observe_all :: "('r \<Rightarrow> 'o option call) \<Rightarrow> 'r list \<Rightarrow> nat \<Rightarrow> ('r \<times> 'o) list \<Rightarrow> world \<Rightarrow> (nat \<times> (go_error + ('r \<times> 'o) list)) \<times> world" where
  "observe_all look [] present acc w = ((present, Inr acc), w)"
| "observe_all look (row # rows) present acc w =
     (case look row w of
        (Inl e, w1) \<Rightarrow> ((present, Inl e), w1)
      | (Inr None, w1) \<Rightarrow> observe_all look rows (Suc present) acc w1
      | (Inr (Some x), w1) \<Rightarrow> observe_all look rows present (acc @ [(row, x)]) w1)"

definition apply_member :: "env \<Rightarrow> ReconcileMember \<times> dmember option \<Rightarrow> action" where
  "apply_member env ob =
     (case ob of
        (row, None) \<Rightarrow> annotate (\<lambda>_. ErrText ''member deletion observation could not be stored'')
          (MarkMemberDeleted env (rmGuildID row) (rmUserID row) ''discord-rest'' ''confirmed-unknown-member'')
      | (row, Some m) \<Rightarrow> annotate (\<lambda>_. ErrText ''recovered member could not be stored'')
          (UpsertMember env (toMemberRecord (rmGuildID row) (Some m))))"

definition tombstone_raw :: string where
  "tombstone_raw = ''{'' @ json_quote ''source'' @ '':'' @ json_quote ''discord-rest'' @ '','' @ json_quote ''code'' @ '':10008}''"

definition tombstone_record :: "env \<Rightarrow> ReconcileMessage \<Rightarrow> instant \<Rightarrow> MessageRecord" where
  "tombstone_record env row now =
     \<lparr>msID = rgMessageID row, msGuildID = rgGuildID row, msChannelID = rgChannelID row, msChannelName = [], msAuthorID = [],
      msAuthorName = [], msMessageType = 0, msCreatedAt = (case envParseTime env (rgCreatedAt row) of None \<Rightarrow> 0 | Some t \<Rightarrow> t),
      msEditedAt = 0, msDeletedAt = now, msContent = [], msNormalized = [], msReplyTo = [], msPinned = False,
      msHasAttachments = False, msRawJSON = tombstone_raw, msTextParts = [], msTextVersion = 0\<rparr>"

definition say_error :: "string \<Rightarrow> 'a call \<Rightarrow> 'a call" where
  "say_error text c w = (case c w of (Inl _, w1) \<Rightarrow> (Inl (ErrText text), w1) | (Inr x, w1) \<Rightarrow> (Inr x, w1))"

definition apply_message :: "env \<Rightarrow> ReconcileMessage \<times> dmessage option \<times> string \<Rightarrow> action" where
  "apply_message env ob =
     (case ob of
        (row, None, name) \<Rightarrow> annotate (\<lambda>_. ErrText ''message deletion observation could not be stored'')
          (\<lambda>w. UpsertMessage env (tombstone_record env row (envNow env (wTick w))) w)
      | (row, Some m, name) \<Rightarrow>
          withResult (say_error ''recovered message could not be normalized'' (buildMessageMutation env name (rgGuildID row) False m))
            (\<lambda>mu. annotate (\<lambda>_. ErrText ''recovered message could not be stored'') (UpsertMessages env [mu])))"

text \<open>A pass over observations, counting tombstones and restored rows.\<close>

fun apply_all :: "('o \<Rightarrow> action) \<Rightarrow> ('o \<Rightarrow> bool) \<Rightarrow> 'o list \<Rightarrow> ReconcileStats \<Rightarrow> world \<Rightarrow> (ReconcileStats \<times> go_error option) \<times> world" where
  "apply_all put gone [] st w = ((st, None), w)"
| "apply_all put gone (ob # obs) st w =
     (case put ob w of
        (Some e, w1) \<Rightarrow> ((st, Some e), w1)
      | (None, w1) \<Rightarrow>
          apply_all put gone obs
            (if gone ob then st\<lparr>xsConfirmedDeleted := Suc (xsConfirmedDeleted st)\<rparr> else st\<lparr>xsRestored := Suc (xsRestored st)\<rparr>) w1)"

definition apply_observations ::
  "env \<Rightarrow> (ReconcileMember \<times> dmember option) list \<Rightarrow> (ReconcileMessage \<times> dmessage option \<times> string) list \<Rightarrow>
    ReconcileStats \<Rightarrow> world \<Rightarrow> (ReconcileStats \<times> go_error option) \<times> world" where
  "apply_observations env members messages st w =
     (case apply_all (apply_member env) (\<lambda>(_, x). x = None) members st w of
        ((st1, Some e), w1) \<Rightarrow> ((st1, Some e), w1)
      | ((st1, None), w1) \<Rightarrow> apply_all (apply_message env) (\<lambda>(_, x, _). x = None) messages st1 w1)"

text \<open>Validation of the plan and of the access to its guilds and channels.\<close>

definition reconcile_checks :: "env \<Rightarrow> (string list \<Rightarrow> string list) \<Rightarrow> ReconcilePlan \<Rightarrow> action" where
  "reconcile_checks env ord plan =
     withResult (validate_plan_members env (pnMembers plan) [])
       (\<lambda>seen. withResult (validate_plan_messages env (pnMessages plan) seen)
         (\<lambda>_. andThen (sequence_actions (check_guild env) (ord (plan_guilds plan)))
                (sequence_actions (\<lambda>c. case map_of (plan_channels plan) c of None \<Rightarrow> ok | Some g \<Rightarrow> check_channel env (c, g))
                  (ord (map fst (plan_channels plan))))))"

definition ReconcileMissing :: "env \<Rightarrow> (string list \<Rightarrow> string list) \<Rightarrow> ReconcilePlan \<Rightarrow> world \<Rightarrow> (ReconcileStats \<times> go_error option) \<times> world" where
  "ReconcileMissing env ord plan w =
     (let stats = (\<lambda>n. \<lparr>xsRestored = 0, xsConfirmedDeleted = 0, xsAlreadyPresent = n\<rparr>);
          size = length (pnMembers plan) + length (pnMessages plan) in
      if pnArchive plan = [] \<or> size = 0 \<or> size > 10000
      then ((stats 0, Some (ErrText ''invalid reconciliation plan size or archive'')), w)
      else case reconcile_checks env ord plan w of
        (Some e, w1) \<Rightarrow> ((stats 0, Some e), w1)
      | (None, w1) \<Rightarrow>
          (case observe_all (observe_member env) (pnMembers plan) 0 [] w1 of
             ((n, Inl e), w2) \<Rightarrow> ((stats n, Some e), w2)
           | ((n, Inr members), w2) \<Rightarrow>
               (case observe_all (observe_message env) (pnMessages plan) n [] w2 of
                  ((k, Inl e), w3) \<Rightarrow> ((stats k, Some e), w3)
                | ((k, Inr messages), w3) \<Rightarrow>
                    (case envCtx env (wTick w3) of
                       Some e \<Rightarrow> ((stats k, Some e), w3)
                     | None \<Rightarrow> apply_observations env members messages (stats k) w3))))"

section \<open>The enumeration ends\<close>

definition member_numbers :: "dmember option list \<Rightarrow> nat list" where
  "member_numbers ms = map (\<lambda>m. case parse_uint64 (memberUserID m) of None \<Rightarrow> 0 | Some n \<Rightarrow> n) ms"

lemma accept_page_sorted:
  "accept_page g previous page = Inr n \<Longrightarrow>
     sorted_wrt (<) (previous # member_numbers page) \<and> n = last (previous # member_numbers page) \<and>
     previous + length page \<le> n \<and> (\<forall>m \<in> set page. validID (memberUserID m))"
proof (induction page arbitrary: previous)
  case Nil
  then show ?case by (simp add: member_numbers_def)
next
  case (Cons m page)
  then obtain k where k: "parse_uint64 (memberUserID m) = Some k" "previous < k" "k \<noteq> 0" "show_nat k = memberUserID m"
    and a: "accept_page g k page = Inr n"
    by (auto simp: Let_def split: if_splits option.splits)
  from Cons.IH [OF a] k show ?case by (auto simp: member_numbers_def validID_def)
qed

lemma member_numbers_append: "member_numbers (a @ b) = member_numbers a @ member_numbers b"
  by (simp add: member_numbers_def)

lemma sorted_last_bound: "sorted_wrt (<) (p # xs) \<Longrightarrow> x \<in> set (p # xs) \<Longrightarrow> x \<le> (last (p # xs) :: nat)"
  by (induction xs arbitrary: p x) (auto simp: less_imp_le_nat)

lemma member_pages_run:
  assumes "member_pages env g after previous members w = (r, w')"
    and "sorted_wrt (<) (member_numbers members)" "\<forall>n \<in> set (member_numbers members). n \<le> previous"
    and "\<forall>m \<in> set members. validID (memberUserID m)" "previous < 2 ^ 64"
  shows "wTick w' \<le> wTick w + (2 ^ 64 - previous) div 1000 + 1 \<and> wDB w' = wDB w \<and>
    (\<forall>ms. r = Inr ms \<longrightarrow> sorted_wrt (<) (member_numbers ms) \<and> (\<forall>m \<in> set ms. validID (memberUserID m)))"
  using assms
proof (induction env g after previous members w rule: member_pages.induct)
  case (1 env g after previous members w)
  show ?case
  proof (cases "envMemberPage env (wTick w) g after")
    case (Inl e)
    with "1.prems"(1) show ?thesis by (subst (asm) member_pages.simps) auto
  next
    case P: (Inr page)
    show ?thesis
    proof (cases "page = [] \<or> (\<exists>e. accept_page g previous page = Inl e) \<or> lastMemberUserID page \<in> {[], after}")
      case True
      with "1.prems" P show ?thesis
        by (subst (asm) member_pages.simps) (auto simp: Let_def split: sum.splits if_splits)
    next
      case False
      then obtain n where ne: "page \<noteq> []" and a: "accept_page g previous page = Inr n"
        and la: "lastMemberUserID page \<noteq> []" "lastMemberUserID page \<noteq> after" by (cases "accept_page g previous page") auto
      note A = accept_page_sorted [OF a] and n = accept_page_advances [OF a ne]
      have up: "previous < x" if "x \<in> set (member_numbers page)" for x using A that by simp
      have s: "sorted_wrt (<) (member_numbers (members @ page))"
        unfolding member_numbers_append sorted_wrt_append using "1.prems"(2,3) A up by fastforce
      have b: "\<forall>x \<in> set (member_numbers (members @ page)). x \<le> n"
      proof
        fix x assume "x \<in> set (member_numbers (members @ page))"
        then consider "x \<in> set (member_numbers members)" | "x \<in> set (member_numbers page)" by (auto simp: member_numbers_append)
        then show "x \<le> n"
        proof cases
          case 1
          with "1.prems"(3) n show ?thesis by force
        next
          case 2
          with A sorted_last_bound [of previous "member_numbers page" x] show ?thesis by simp
        qed
      qed
      have v: "\<forall>m \<in> set (members @ page). validID (memberUserID m)" using "1.prems"(4) A by auto
      show ?thesis
      proof (cases "length page < 1000")
        case True
        with "1.prems"(1) P ne a la s v show ?thesis by (subst (asm) member_pages.simps) (auto simp: Let_def)
      next
        case long: False
        with "1.prems"(1) P ne a la have r: "member_pages env g (lastMemberUserID page) n (members @ page) (tick w) = (r, w')"
          by (subst (asm) member_pages.simps) (simp add: Let_def)
        from "1.IH" [OF P ne a refl la long r s b v conjunct2 [OF n]]
        have "wTick w' \<le> Suc (wTick w) + (2 ^ 64 - n) div 1000 + 1" "wDB w' = wDB w"
          "\<forall>ms. r = Inr ms \<longrightarrow> sorted_wrt (<) (member_numbers ms) \<and> (\<forall>m \<in> set ms. validID (memberUserID m))" by simp_all
        moreover have "(2 ^ 64 - n) div 1000 + 1 \<le> (2 ^ 64 - previous) div 1000"
        proof -
          have "previous + 1000 \<le> n" using A long by linarith
          with n have "(2 ^ 64 - n) + 1000 \<le> 2 ^ 64 - previous" by linarith
          then have "((2 ^ 64 - n) + 1000) div 1000 \<le> (2 ^ 64 - previous) div 1000" by (rule div_le_mono)
          then show ?thesis by simp
        qed
        ultimately show ?thesis by simp
      qed
    qed
  qed
qed

lemma enumeration_run:
  assumes "GuildMemberEnumeration env g w = (r, w')"
  shows "wTick w' \<le> wTick w + 2 ^ 64 div 1000 + 1 \<and> wDB w' = wDB w \<and>
    (\<forall>ms. r = Inr ms \<longrightarrow> sorted_wrt (<) (member_numbers ms) \<and> (\<forall>m \<in> set ms. validID (memberUserID m)))"
  using member_pages_run [OF assms [unfolded GuildMemberEnumeration_def]] by (simp add: member_numbers_def)

section \<open>What the member writers leave alone\<close>

definition member_stable :: "(db \<Rightarrow> bool) \<Rightarrow> bool" where
  "member_stable P \<longleftrightarrow> (\<forall>d x. P d \<longrightarrow> P (d\<lparr>dbMembers := x\<rparr>)) \<and> (\<forall>d x. P d \<longrightarrow> P (d\<lparr>dbMemberChecks := x\<rparr>)) \<and>
     (\<forall>d x. P d \<longrightarrow> P (d\<lparr>dbMemberFTS := x\<rparr>))"

lemma keeps_upsertMember: "member_stable P \<Longrightarrow> keeps P (upsertMemberTx env m)"
  unfolding upsertMemberTx_def Let_def write_member_def upsertMemberFTSTx_def recordMemberObservedTx_def put_member_def drop_member_fts_def
  by (intro keeps_intros) (auto simp: member_stable_def)

lemma keeps_merge_members: "member_stable P \<Longrightarrow> keeps P (merge_members env started ms res)"
proof (induction ms arbitrary: res)
  case Nil
  show ?case by (simp add: keeps_def)
next
  case (Cons m ms)
  have m: "keeps P (merge_member env started m res)" for res
    unfolding merge_member_def by (intro keeps_intros keeps_upsertMember Cons.prems)
  have "merge_members env started (m # ms) res =
      (\<lambda>w. case merge_member env started m res w of (r, w1) \<Rightarrow> (case r of Inl e \<Rightarrow> (Inl e, w1) | Inr res1 \<Rightarrow> merge_members env started ms res1 w1))" for res
    by (rule ext) (simp split: prod.split sum.split)
  then show ?case using m Cons by (auto intro!: keeps_calls)
qed

lemma keeps_merge_batches: "member_stable P \<Longrightarrow> P (wDB w) \<Longrightarrow> P (wDB (snd (merge_batches env started ms res w)))"
proof (induction env started ms res w rule: merge_batches.induct)
  case (1 env started ms res w)
  let ?b = "mergeObservedMemberBatch env (take memberRefreshBatchSize ms) started"
  have "keeps P ?b" unfolding mergeObservedMemberBatch_def by (intro keeps_tx_call keeps_merge_members "1.prems"(1))
  then have w1: "?b w = (r, w1) \<Longrightarrow> P (wDB w1)" for r w1 using keepsD [of P ?b w] "1.prems"(2) by (metis snd_conv)
  show ?case
  proof (cases "ms = []")
    case True
    with "1.prems" show ?thesis by (simp add: merge_batches.simps)
  next
    case False
    then show ?thesis using w1 "1.IH" [OF False _ _ "1.prems"(1)]
      by (subst merge_batches.simps) (auto split: prod.split sum.split)
  qed
qed

lemma keeps_merge_call: "member_stable P \<Longrightarrow> keeps P (merge_call env g ms started)"
proof (unfold keeps_def, intro allI impI)
  fix w :: world
  assume "member_stable P" "P (wDB w)"
  then have "merge_batches env started ms res w = (r, w1) \<Longrightarrow> P (wDB w1)" for res r w1
    using keeps_merge_batches by (metis snd_conv)
  with \<open>P (wDB w)\<close> show "P (wDB (snd (merge_call env g ms started w)))"
    by (auto simp: merge_call_def MergeObservedMembers_def Let_def split: option.split prod.split)
qed

lemma member_stable_cursors: "member_stable (cursors_are x)"
  by (simp add: member_stable_def)

section \<open>The receipt of a refresh\<close>

text \<open>Every listed member has a row.\<close>

definition all_stored :: "string \<Rightarrow> dmember option list \<Rightarrow> db \<Rightarrow> bool" where
  "all_stored g ms d \<longleftrightarrow> (\<forall>m \<in> set ms. map_of (dbMembers d) (g, memberUserID m) \<noteq> None)"

lemma stored_stable: "ledger_stable (all_stored g ms)" "all_stored g ms (put_cursor s c now d) = all_stored g ms d"
  by (auto simp: ledger_stable_def all_stored_def prune_failures_def ledger_upsert_def update_failures_def put_cursor_def)

lemma convert_run:
  "convert_members env g ms acc w = (r, w') \<Longrightarrow> wDB w' = wDB w \<and>
     (\<forall>out. r = Inr out \<longrightarrow> out = acc @ map (toMemberRecord g) ms \<and> (\<forall>m \<in> set ms. mbUserID (toMemberRecord g m) \<noteq> []))"
proof (induction ms arbitrary: acc w)
  case Nil
  then show ?case by auto
next
  case (Cons m ms)
  show ?case
  proof (cases "envCtx env (wTick w) = None \<and> mbUserID (toMemberRecord g m) \<noteq> []")
    case True
    with Cons.prems have "convert_members env g ms (acc @ [toMemberRecord g m]) (tick w) = (r, w')" by (simp add: Let_def)
    from Cons.IH [OF this] True show ?thesis by simp
  next
    case False
    with Cons.prems show ?thesis by (auto simp: Let_def split: option.splits if_splits)
  qed
qed

lemma record_id: "mbUserID (toMemberRecord g m) \<noteq> [] \<Longrightarrow> member_id (toMemberRecord g m) = (g, memberUserID m)"
  by (auto simp: toMemberRecord_def memberUserID_def split: option.splits)

lemma merge_call_stores:
  assumes "merge_call env g (map (toMemberRecord g) ms) started w = (None, w')" "\<forall>m \<in> set ms. mbUserID (toMemberRecord g m) \<noteq> []"
  shows "all_stored g ms (wDB w')"
proof -
  from assms(1) obtain res where m: "MergeObservedMembers env g (map (toMemberRecord g) ms) started w = ((res, None), w')"
    by (auto simp: merge_call_def split: prod.splits)
  show ?thesis unfolding all_stored_def
  proof
    fix m assume "m \<in> set ms"
    with merge_effect [OF m] have "merged_row env started (wDB w) (wDB w') (toMemberRecord g m)" by simp
    moreover have "member_id (toMemberRecord g m) = (g, memberUserID m)" using assms(2) \<open>m \<in> set ms\<close> by (intro record_id) simp
    ultimately show "map_of (dbMembers (wDB w')) (g, memberUserID m) \<noteq> None" by (auto simp: merged_row_def)
  qed
qed

lemma annotate_db: "annotate f a w = (r, w') \<Longrightarrow> \<exists>r0. a w = (r0, w') \<and> (r = None \<longleftrightarrow> r0 = None)"
  by (auto simp: annotate_def split: prod.splits option.splits)

lemma identity_stored: "keeps (all_stored g ms) (ResolveFailureIdentity env ref)"
  by (rule keeps_identity) (simp_all add: update_failures_def prune_failures_def all_stored_def)

lemma identity_cursors: "ResolveFailureIdentity env ref w = (r, w') \<Longrightarrow> dbSyncState (wDB w') = dbSyncState (wDB w)"
  by (rule frameD [OF keeps_identity]) (simp_all add: update_failures_def prune_failures_def)

lemma receipt_stored: "keeps (all_stored g ms) (record_refresh env g')"
proof -
  have "keeps (all_stored g ms) (SetSyncState env s c)" for s c
    unfolding SetSyncState_def by (intro keeps_exec) (simp add: stored_stable)
  then show ?thesis unfolding record_refresh_def by (intro keeps_at [where a = "\<lambda>t. SetSyncState env (guildMemberSyncSuccessScope g') (envTimeText env (envNow env t))"])
qed

lemma run_refresh_receipt:
  assumes run: "run_refresh env g w = (r, w')"
  shows "(\<exists>ms w1. GuildMemberEnumeration env g w = (Inr ms, w1) \<and> all_stored g ms (wDB w')) \<or>
    (\<exists>e. r = Inl e) \<and> dbSyncState (wDB w') = dbSyncState (wDB w)"
proof -
  obtain rm w1 where en: "GuildMemberEnumeration env g w = (rm, w1)" by force
  have w1: "wDB w1 = wDB w" using enumeration_run [OF en] by simp
  show ?thesis
  proof (cases rm)
    case (Inl e)
    with run en w1 show ?thesis by (auto simp: run_refresh_def Let_def bindCall_def wrap_error_def)
  next
    case M: (Inr ms)
    obtain rc w2 where cv: "convert_members env g ms [] w1 = (rc, w2)" by force
    note C = convert_run [OF cv]
    show ?thesis
    proof (cases rc)
      case (Inl e)
      with run en M cv w1 C show ?thesis by (auto simp: run_refresh_def Let_def bindCall_def wrap_error_def)
    next
      case V: (Inr out)
      let ?mg = "annotate (\<lambda>e. ErrWrap ''merge guild members: '' e []) (merge_call env g out (envNow env (wTick w)))"
      let ?rs = "annotate (\<lambda>e. ErrWrap ''resolve guild member refresh failure: '' e []) (ResolveFailureIdentity env (guild_members_ref g))"
      let ?rc = "annotate (\<lambda>e. ErrWrap ''record guild member sync: '' e []) (record_refresh env g)"
      obtain r3 w3 where m3: "?mg w2 = (r3, w3)" by force
      obtain r4 w4 where m4: "?rs w3 = (r4, w4)" by force
      obtain r5 w5 where m5: "?rc w4 = (r5, w5)" by force
      from annotate_db [OF m3] obtain q3 where q3: "merge_call env g out (envNow env (wTick w)) w2 = (q3, w3)" "r3 = None \<longleftrightarrow> q3 = None" by blast
      from annotate_db [OF m4] obtain q4 where q4: "ResolveFailureIdentity env (guild_members_ref g) w3 = (q4, w4)" by blast
      from annotate_db [OF m5] obtain q5 where q5: "record_refresh env g w4 = (q5, w5)" by blast
      have c3: "dbSyncState (wDB w3) = dbSyncState (wDB w)"
        using frameD [OF keeps_merge_call [OF member_stable_cursors] q3(1)] C w1 by simp
      have c4: "dbSyncState (wDB w4) = dbSyncState (wDB w)" using identity_cursors [OF q4] c3 by simp
      have out: "run_refresh env g w = doThen ?mg (doThen ?rs (doThen ?rc (value_call (length out)))) w2"
        using en M cv V by (simp add: run_refresh_def Let_def bindCall_def wrap_error_def)
      show ?thesis
      proof (cases r3)
        case (Some e)
        with run out m3 c3 show ?thesis by (auto simp: doThen_def)
      next
        case N3: None
        have "all_stored g ms (wDB w3)"
          using merge_call_stores [of env g ms "envNow env (wTick w)" w2 w3] q3 N3 C V by simp
        then have s4: "all_stored g ms (wDB w4)" using keepsD [OF identity_stored] q4 by (metis snd_conv)
        then have s5: "all_stored g ms (wDB w5)" using keepsD [OF receipt_stored] q5 by (metis snd_conv)
        have "w' = w4 \<and> (\<exists>e. r = Inl e) \<or> w' = w5"
          using run out m3 m4 m5 N3 by (cases r4; cases r5) (auto simp: doThen_def value_call_def)
        with s5 c4 en M show ?thesis by auto
      qed
    qed
  qed
qed

section \<open>Properties of the refresh\<close>


text \<open>
  C16. The receipt of a member refresh is earned: when a refresh changes the time of the last
  successful refresh of its guild, or reports success after running, an enumeration reached its end
  and every member it listed has a row in the archive. Until then the refresh stays due.
\<close>
theorem member_receipt_is_earned:
  assumes "refreshGuildMembers env interval g force w = (r, w')"
    and "sync_cursor (wDB w') (guildMemberSyncSuccessScope g) \<noteq> sync_cursor (wDB w) (guildMemberSyncSuccessScope g)
      \<or> force \<and> (\<exists>n. r = Inr n)"
  shows "\<exists>ms w0 w1. GuildMemberEnumeration env g w0 = (Inr ms, w1) \<and> all_stored g ms (wDB w')"
proof -
  obtain b w1 where b: "(if force then (True, w) else shouldRefreshMembers env interval g w) = (b, w1)" by force
  have w1: "wDB w1 = wDB w"
    using b by (auto simp: shouldRefreshMembers_def GetSyncState_def split: if_splits prod.splits sum.splits dest!: db_query_Inr db_query_Inl)
  show ?thesis
  proof (cases b)
    case False
    with b w1 assms show ?thesis by (auto simp: refreshGuildMembers_def split: if_splits)
  next
    case True
    obtain q w2 where q: "run_refresh env g w1 = (q, w2)" by force
    show ?thesis
    proof (cases "w' = w2")
      case same: True
      have "r = q" if "\<exists>n. r = Inr n" using that assms(1) b True q by (auto simp: refreshGuildMembers_def split: sum.splits if_splits prod.splits)
      with same assms(2) run_refresh_receipt [OF q] w1 show ?thesis by (auto simp: sync_cursor_def)
    next
      case False
      with assms(1) b True q obtain e q3 where e: "q = Inl e" "r \<noteq> Inr n" "RecordFailure env (guild_members_ref g) (Some e) w2 = (q3, w')" for n
        by (auto simp: refreshGuildMembers_def split: sum.splits if_splits prod.splits)
      have c: "dbSyncState (wDB w') = dbSyncState (wDB w2)" using frameD [OF keeps_RecordFailure [OF ledger_stable_cursors] e(3)] .
      have "all_stored g ms (wDB w2) \<Longrightarrow> all_stored g ms (wDB w')" for ms
        using keepsD [OF keeps_RecordFailure [OF stored_stable(1)]] e(3) by (metis snd_conv)
      with run_refresh_receipt [OF q] c w1 assms(2) e(2) show ?thesis by (auto simp: sync_cursor_def)
    qed
  qed
qed

section \<open>Reconciliation reads before it writes\<close>

abbreviation unchanged :: "db \<Rightarrow> (world \<Rightarrow> 'r \<times> world) \<Rightarrow> bool" where
  "unchanged d a \<equiv> keeps (\<lambda>x. x = d) a"

lemma unchangedD: "(\<And>d. unchanged d a) \<Longrightarrow> a w = (r, w') \<Longrightarrow> wDB w' = wDB w"
  unfolding keeps_def by (metis snd_conv)

lemma unchanged_require: "keeps P (require_row env q text)"
  unfolding keeps_def require_row_def by (auto split: prod.split sum.split bool.split dest!: db_query_Inr db_query_Inl)

lemma unchanged_validate:
  "keeps P (validate_plan_members env rows seen)" "keeps P (validate_plan_messages env rows' seen)"
proof (induction rows arbitrary: seen)
  case Nil
  { case 1 show ?case by (simp add: keeps_def) }
  { case 2 show ?case
    proof (induction rows' arbitrary: seen)
      case (Cons row rows')
      from keepsD [OF keeps_doThen [OF unchanged_require Cons]] show ?case by (simp add: keeps_def Let_def)
    qed (simp add: keeps_def) }
next
  case (Cons row rows)
  { case 1 from keepsD [OF keeps_doThen [OF unchanged_require Cons.IH(1)]] show ?case by (simp add: keeps_def Let_def) }
  { case 2 show ?case by (rule Cons.IH(2)) }
qed

lemma unchanged_checks: "keeps P (reconcile_checks env ord plan)"
proof -
  have "keeps P (check_guild env i)" "keeps P (channel_identity env i g)" "keeps P (history_readable env i)" for i g
    by (simp_all add: keeps_def check_guild_def channel_identity_def history_readable_def)
  then show ?thesis unfolding reconcile_checks_def check_channel_def
    by (intro keeps_withResult keeps_andThen keeps_sequence unchanged_validate) (auto split: option.split intro: keeps_intros)
qed

lemma unchanged_observe: "keeps P (observe_member env row)" "keeps P (observe_message env row')"
proof -
  have "keeps P (lookup_member env row)" "keeps P (lookup_message env row')" for row row'
    by (simp_all add: keeps_def lookup_member_def lookup_message_def)
  moreover have n: "keeps P (require_name env row')" for row'
    unfolding keeps_def require_name_def by (auto split: prod.split sum.split option.split dest!: db_query_Inr db_query_Inl)
  ultimately have "keeps P (bindCall (lookup_member env row) (\<lambda>x. value_call (Some x)))"
    "keeps P (bindCall (require_name env row') (\<lambda>name. bindCall (lookup_message env row') (\<lambda>x. value_call (Some (x, name)))))"
    by (auto intro!: keeps_intros)
  then show "keeps P (observe_member env row)" "keeps P (observe_message env row')"
    unfolding keeps_def observe_member_def observe_message_def
    by (auto split: prod.split sum.split bool.split dest!: db_query_Inr db_query_Inl)
qed

lemma observe_all_run:
  assumes "observe_all look rows present acc w = ((k, r), w')" "\<And>row P. keeps P (look row)"
  shows "wDB w' = wDB w \<and>
    (\<forall>obs. r = Inr obs \<longrightarrow> k + length obs = present + length acc + length rows \<and>
       (\<forall>row \<in> set rows. \<exists>u x u'. wDB u = wDB w \<and> look row u = (Inr x, u')) \<and>
       (\<forall>row x. (row, x) \<in> set obs \<longrightarrow> (row, x) \<in> set acc \<or> (\<exists>u u'. look row u = (Inr (Some x), u'))))"
  using assms(1)
proof (induction rows arbitrary: present acc w)
  case Nil
  then show ?case by auto
next
  case (Cons row rows)
  obtain q w1 where l: "look row w = (q, w1)" by force
  have w1: "wDB w1 = wDB w" by (rule unchangedD [OF assms(2) l])
  show ?case
  proof (cases q)
    case (Inl e)
    with Cons.prems l w1 show ?thesis by auto
  next
    case (Inr x)
    show ?thesis
    proof (cases x)
      case None
      with Cons.prems l Inr have "observe_all look rows (Suc present) acc w1 = ((k, r), w')" by simp
      from Cons.IH [OF this] l Inr w1 show ?thesis by auto
    next
      case (Some y)
      with Cons.prems l Inr have "observe_all look rows present (acc @ [(row, y)]) w1 = ((k, r), w')" by simp
      note I = Cons.IH [OF this]
      have "(a, z) \<in> set acc \<or> (\<exists>u u'. look a u = (Inr (Some z), u'))" if "r = Inr obs" "(a, z) \<in> set obs" for obs a z
      proof (cases "(a, z) = (row, y)")
        case True
        with l Inr Some show ?thesis by blast
      next
        case False
        with I that show ?thesis by auto
      qed
      with I l Inr w1 show ?thesis by auto
    qed
  qed
qed

text \<open>What an answered row is: the archive has it, Discord has it, or Discord confirmed that it is gone.\<close>

definition member_gone :: "env \<Rightarrow> member_id \<Rightarrow> bool" where
  "member_gone env k \<longleftrightarrow> (\<exists>n e. envGuildMember env n (fst k) (snd k) = Inl e \<and> confirmedDiscordMissing (Some e) 10007)"

definition member_answered :: "env \<Rightarrow> db \<Rightarrow> ReconcileMember \<Rightarrow> bool" where
  "member_answered env d row \<longleftrightarrow> map_of (dbMembers d) (rmGuildID row, rmUserID row) \<noteq> None \<or>
     (\<exists>n m. envGuildMember env n (rmGuildID row) (rmUserID row) = Inr (Some m) \<and> member_matches row m) \<or>
     member_gone env (rmGuildID row, rmUserID row)"

definition message_answered :: "env \<Rightarrow> db \<Rightarrow> ReconcileMessage \<Rightarrow> bool" where
  "message_answered env d row \<longleftrightarrow> stored_row d (rgMessageID row) \<noteq> None \<or>
     (\<exists>n m. envMessage env n (rgChannelID row) (rgMessageID row) = Inr (Some m) \<and> message_matches row m) \<or>
     (\<exists>n e. envMessage env n (rgChannelID row) (rgMessageID row) = Inl e \<and> confirmedDiscordMissing (Some e) 10008)"

lemma lookup_member_Inr:
  "lookup_member env row w = (Inr x, w') \<Longrightarrow>
     (case x of None \<Rightarrow> member_gone env (rmGuildID row, rmUserID row)
      | Some m \<Rightarrow> \<exists>n. envGuildMember env n (rmGuildID row) (rmUserID row) = Inr (Some m) \<and> member_matches row m)"
  by (auto simp: lookup_member_def member_gone_def split: sum.splits option.splits if_splits)

lemma observe_member_Inr:
  assumes "observe_member env row w = (Inr x, w')"
  shows "member_answered env (wDB w) row \<and> (x = Some None \<longrightarrow> member_gone env (rmGuildID row, rmUserID row))"
proof -
  obtain q w1 where q: "db_query env (\<lambda>d. map_of (dbMembers d) (rmGuildID row, rmUserID row) \<noteq> None) w = (q, w1)" by force
  show ?thesis
  proof (cases q)
    case (Inl e)
    with q assms show ?thesis by (simp add: observe_member_def)
  next
    case (Inr b)
    have b: "b \<longleftrightarrow> map_of (dbMembers (wDB w)) (rmGuildID row, rmUserID row) \<noteq> None"
      using db_query_Inr [OF q [unfolded Inr]] by simp
    show ?thesis
    proof (cases b)
      case True
      with b q Inr assms show ?thesis by (simp add: observe_member_def member_answered_def)
    next
      case False
      with assms q Inr obtain y u where y: "lookup_member env row w1 = (Inr y, u)" "x = Some y"
        by (auto simp: observe_member_def value_call_def dest!: bindCall_Inr)
      from lookup_member_Inr [OF y(1)] y(2) show ?thesis by (auto simp: member_answered_def split: option.splits)
    qed
  qed
qed

lemma observe_message_Inr:
  assumes "observe_message env row w = (Inr x, w')"
  shows "message_answered env (wDB w) row"
proof -
  obtain q w1 where q: "db_query env (\<lambda>d. stored_row d (rgMessageID row) \<noteq> None) w = (q, w1)" by force
  have "message_answered env (wDB w) row" if "lookup_message env row u = (Inr y, u')" for u y u'
    using that by (auto simp: lookup_message_def message_answered_def split: sum.splits option.splits if_splits)
  with q assms show ?thesis
    by (cases q) (auto simp: observe_message_def message_answered_def split: bool.splits dest!: db_query_Inr bindCall_Inr)
qed

lemma sequence_success: "sequence_actions f xs w = (None, w') \<Longrightarrow> x \<in> set xs \<Longrightarrow> \<exists>u u'. f x u = (None, u')"
  by (induction xs arbitrary: w) (auto split: prod.splits option.splits)

lemma plan_channels_dom: "set (map fst (plan_channels plan)) = rgChannelID ` set (pnMessages plan)"
proof -
  have "fst ` set (fold (\<lambda>row. AList.update (rgChannelID row) (rgGuildID row)) rows al) = rgChannelID ` set rows \<union> fst ` set al" for rows al
    by (induction rows arbitrary: al) (auto simp: dom_update)
  from this [of "pnMessages plan" "[]"] show ?thesis by (simp add: plan_channels_def)
qed

lemma checks_readable:
  assumes "reconcile_checks env ord plan w = (None, w')" and ord: "\<forall>xs. set (ord xs) = set xs" and row: "row \<in> set (pnMessages plan)"
  shows "\<exists>n. envCanRead env n (rgChannelID row) = Inr True"
proof -
  let ?ch = "\<lambda>c. case map_of (plan_channels plan) c of None \<Rightarrow> ok | Some g \<Rightarrow> check_channel env (c, g)"
  from assms(1) obtain u1 u2 where s: "sequence_actions ?ch (ord (map fst (plan_channels plan))) u1 = (None, u2)"
    unfolding reconcile_checks_def by (elim withResultE andThenE) (rule that)
  have "rgChannelID row \<in> set (map fst (plan_channels plan))" using row unfolding plan_channels_dom by simp
  then have i: "rgChannelID row \<in> set (ord (map fst (plan_channels plan)))"
    and "map_of (plan_channels plan) (rgChannelID row) \<noteq> None" using ord by (simp_all add: map_of_eq_None_iff)
  then obtain g where g: "map_of (plan_channels plan) (rgChannelID row) = Some g" by blast
  from sequence_success [OF s i] g obtain u u' where "check_channel env (rgChannelID row, g) u = (None, u')" by auto
  then obtain v where "history_readable env (rgChannelID row) v = (None, u')"
    unfolding check_channel_def by (auto elim!: andThenE)
  then show ?thesis by (auto simp: history_readable_def split: sum.splits if_splits)
qed

text \<open>The run up to the first write, and the writes.\<close>

lemma reconcile_cases:
  assumes "ReconcileMissing env ord plan w = ((st, e), w')"
  obtains (refused) "wDB w' = wDB w" "e \<noteq> None"
  | (applied) w1 n members w2 k messages w3 where
      "reconcile_checks env ord plan w = (None, w1)" "wDB w1 = wDB w"
      "observe_all (observe_member env) (pnMembers plan) 0 [] w1 = ((n, Inr members), w2)" "wDB w2 = wDB w"
      "observe_all (observe_message env) (pnMessages plan) n [] w2 = ((k, Inr messages), w3)" "wDB w3 = wDB w"
      "apply_observations env members messages \<lparr>xsRestored = 0, xsConfirmedDeleted = 0, xsAlreadyPresent = k\<rparr> w3 = ((st, e), w')"
proof (cases "pnArchive plan = [] \<or> length (pnMembers plan) + length (pnMessages plan) = 0 \<or> length (pnMembers plan) + length (pnMessages plan) > 10000")
  case True
  with assms have "wDB w' = wDB w" "e \<noteq> None" by (auto simp: ReconcileMissing_def Let_def)
  then show ?thesis by (rule refused)
next
  case size: False
  note R = assms [unfolded ReconcileMissing_def Let_def if_not_P [OF size]]
  obtain c w1 where c: "reconcile_checks env ord plan w = (c, w1)" by force
  have w1: "wDB w1 = wDB w" by (rule unchangedD [OF unchanged_checks c])
  obtain n r w2 where m: "observe_all (observe_member env) (pnMembers plan) 0 [] w1 = ((n, r), w2)" by (metis prod.exhaust)
  have w2: "wDB w2 = wDB w" using observe_all_run [OF m unchanged_observe(1)] w1 by simp
  obtain k q w3 where g: "observe_all (observe_message env) (pnMessages plan) n [] w2 = ((k, q), w3)" by (metis prod.exhaust)
  have w3: "wDB w3 = wDB w" using observe_all_run [OF g unchanged_observe(2)] w2 by simp
  show ?thesis
  proof (cases "c = None \<and> (\<exists>members. r = Inr members) \<and> (\<exists>messages. q = Inr messages) \<and> envCtx env (wTick w3) = None")
    case True
    then obtain members messages where T: "c = None" "r = Inr members" "q = Inr messages" "envCtx env (wTick w3) = None" by blast
    have "apply_observations env members messages \<lparr>xsRestored = 0, xsConfirmedDeleted = 0, xsAlreadyPresent = k\<rparr> w3 = ((st, e), w')"
      using R c m g T by simp
    then show ?thesis using c m g T w1 w2 w3 by (intro applied) simp_all
  next
    case False
    then have "wDB w' = wDB w \<and> e \<noteq> None"
      using R c m g w1 w2 w3 by (cases c; cases r; cases q; cases "envCtx env (wTick w3)") auto
    then show ?thesis by (intro refused) simp_all
  qed
qed

section \<open>Properties of the reconciliation\<close>

lemma apply_all_count:
  "apply_all put gone obs st w = ((st', None), w') \<Longrightarrow>
     xsRestored st' + xsConfirmedDeleted st' = xsRestored st + xsConfirmedDeleted st + length obs \<and> xsAlreadyPresent st' = xsAlreadyPresent st"
proof (induction obs arbitrary: st w)
  case (Cons ob obs)
  from Cons.prems obtain w1 where
    "apply_all put gone obs (if gone ob then st\<lparr>xsConfirmedDeleted := Suc (xsConfirmedDeleted st)\<rparr> else st\<lparr>xsRestored := Suc (xsRestored st)\<rparr>) w1
      = ((st', None), w')" by (auto split: prod.splits option.splits)
  from Cons.IH [OF this] show ?case by (auto split: if_splits)
qed simp

lemma keeps_apply_all: "(\<And>ob. ob \<in> set obs \<Longrightarrow> keeps P (put ob)) \<Longrightarrow> keeps P (apply_all put gone obs st)"
proof (induction obs arbitrary: st)
  case Nil
  show ?case by (simp add: keeps_def)
next
  case (Cons ob obs)
  have "apply_all put gone (ob # obs) st = (\<lambda>w. case put ob w of (r, w1) \<Rightarrow>
      (case r of None \<Rightarrow> apply_all put gone obs
          (if gone ob then st\<lparr>xsConfirmedDeleted := Suc (xsConfirmedDeleted st)\<rparr> else st\<lparr>xsRestored := Suc (xsRestored st)\<rparr>) w1
       | Some e \<Rightarrow> ((st, Some e), w1)))"
    by (rule ext) (simp split: prod.split option.split)
  then show ?case using Cons by (auto intro!: keeps_calls)
qed

text \<open>A tombstone of a member that was not there before has a confirmed answer.\<close>

definition buried_for_cause :: "env \<Rightarrow> db \<Rightarrow> db \<Rightarrow> bool" where
  "buried_for_cause env d0 d \<longleftrightarrow>
     (\<forall>k r. map_of (dbMembers d) k = Some r \<and> mbDeletedAt r \<noteq> 0 \<longrightarrow> map_of (dbMembers d0) k = Some r \<or> member_gone env k)"

lemma buried_frame: "dbMembers d = dbMembers d' \<Longrightarrow> buried_for_cause env d0 d = buried_for_cause env d0 d'"
  by (simp add: buried_for_cause_def)

lemma buried_put: "buried_for_cause env d0 d \<Longrightarrow> buried_for_cause env d0 (put_member m now d)"
  unfolding buried_for_cause_def put_member_def upsertMemberParams_def by (auto simp: update_conv' split: if_splits)

lemma buried_bury: "buried_for_cause env d0 d \<Longrightarrow> member_gone env k \<Longrightarrow> buried_for_cause env d0 (bury_member k s t now d)"
  unfolding buried_for_cause_def bury_member_def by (auto simp: update_conv' split: if_splits)

lemma keeps_buried_upsert: "keeps (buried_for_cause env d0) (UpsertMember env m)"
proof -
  have "keeps (buried_for_cause env d0) (upsertMemberTx env m)"
    unfolding upsertMemberTx_def Let_def write_member_def upsertMemberFTSTx_def recordMemberObservedTx_def drop_member_fts_def
    by (intro keeps_intros) (auto intro: buried_put buried_frame [THEN iffD1, rotated])
  then show ?thesis unfolding UpsertMember_def UpsertObservedMember_def discard_def by (intro keeps_intros)
qed

lemma keeps_buried_delete:
  "member_gone env (g, u) \<Longrightarrow> keeps (buried_for_cause env d0) (MarkMemberDeleted env g u s t)"
  unfolding MarkMemberDeleted_def MarkObservedMemberDeleted_def drop_member_fts_def
  by (intro keeps_intros) (auto intro: buried_bury buried_frame [THEN iffD1, rotated])

lemma buried_store_stable: "store_stable (buried_for_cause env d0)"
  unfolding store_stable_def by (intro allI impI conjI; erule buried_frame [THEN iffD1, rotated]; simp add: statement_defs)

lemma keeps_say: "keeps P c \<Longrightarrow> keeps P (say_error t c)"
  unfolding keeps_def say_error_def by (auto split: prod.split sum.split)

lemma keeps_buried_message: "keeps (buried_for_cause env d0) (apply_message env ob)"
proof -
  have t: "keeps (buried_for_cause env d0) (\<lambda>w. UpsertMessage env (tombstone_record env row (envNow env (wTick w))) w)" for row
    unfolding UpsertMessage_def
    by (rule keeps_at [where a = "\<lambda>t. UpsertMessageWithOptions env (tombstone_record env row (envNow env t)) _"])
      (rule keeps_UpsertMessageWithOptions [OF buried_store_stable])
  show ?thesis unfolding apply_message_def
    by (auto split: prod.split option.split intro!: keeps_annotate t keeps_withResult keeps_say keeps_buildMessageMutation
        keeps_UpsertMessages buried_store_stable)
qed

text \<open>
  C15. Reconciliation writes nothing before every answer is in. If it changed the archive at all, then
  every member of the plan was already archived, was returned by its exact lookup with the right
  identity, or was confirmed unknown; the same holds of every message, whose channel's history the
  bot could read. So a late failure cannot leave partial observations.
\<close>
theorem reconcile_waits_for_every_answer:
  assumes R: "ReconcileMissing env ord plan w = ((st, e), w')" and changed: "wDB w' \<noteq> wDB w"
    and ord: "\<forall>xs. set (ord xs) = set xs"
  shows "(\<forall>row \<in> set (pnMembers plan). member_answered env (wDB w) row) \<and>
    (\<forall>row \<in> set (pnMessages plan). message_answered env (wDB w) row \<and> (\<exists>n. envCanRead env n (rgChannelID row) = Inr True))"
  using R
proof (cases rule: reconcile_cases)
  case refused
  with changed show ?thesis by simp
next
  case (applied w1 n members w2 k messages w3)
  note M = observe_all_run [OF applied(3) unchanged_observe(1)] and G = observe_all_run [OF applied(5) unchanged_observe(2)]
  show ?thesis
  proof (intro conjI ballI)
    fix row assume "row \<in> set (pnMembers plan)"
    with M obtain u x u' where u: "wDB u = wDB w1" "observe_member env row u = (Inr x, u')" by blast
    from observe_member_Inr [OF u(2)] u(1) applied(2) show "member_answered env (wDB w) row" by simp
  next
    fix row assume r: "row \<in> set (pnMessages plan)"
    with G obtain u x u' where u: "wDB u = wDB w2" "observe_message env row u = (Inr x, u')" by blast
    from observe_message_Inr [OF u(2)] u(1) applied(4) show "message_answered env (wDB w) row" by simp
    show "\<exists>n. envCanRead env n (rgChannelID row) = Inr True" by (rule checks_readable [OF applied(1) ord r])
  qed
qed

text \<open>
  C19. Reconciliation buries only the confirmed: a tombstone of a member that the archive did not have
  before stands for an exact lookup answered with 404 and Unknown Member; and a run without an error
  accounts for every row of its plan as restored, confirmed deleted or already present.
\<close>
theorem reconcile_buries_only_the_confirmed:
  assumes R: "ReconcileMissing env ord plan w = ((st, e), w')"
  shows "buried_for_cause env (wDB w) (wDB w') \<and>
    (e = None \<longrightarrow> xsRestored st + xsConfirmedDeleted st + xsAlreadyPresent st = length (pnMembers plan) + length (pnMessages plan))"
  using R
proof (cases rule: reconcile_cases)
  case refused
  then show ?thesis by (auto simp: buried_for_cause_def)
next
  case (applied w1 n members w2 k messages w3)
  note M = observe_all_run [OF applied(3) unchanged_observe(1)] and G = observe_all_run [OF applied(5) unchanged_observe(2)]
  let ?P = "buried_for_cause env (wDB w)"
  let ?st = "\<lparr>xsRestored = 0, xsConfirmedDeleted = 0, xsAlreadyPresent = k\<rparr>"
  have "keeps ?P (apply_member env ob)" if ob: "ob \<in> set members" for ob
  proof -
    obtain row x where rx: "ob = (row, x)" by force
    from M have "\<forall>row x. (row, x) \<in> set members \<longrightarrow> (row, x) \<in> set [] \<or> (\<exists>u u'. observe_member env row u = (Inr (Some x), u'))" by simp
    with ob rx obtain u u' where "observe_member env row u = (Inr (Some x), u')" by fastforce
    then have "x = None \<Longrightarrow> member_gone env (rmGuildID row, rmUserID row)" using observe_member_Inr by blast
    then show ?thesis unfolding apply_member_def rx
      by (auto split: option.split intro!: keeps_annotate keeps_buried_delete keeps_buried_upsert)
  qed
  then have a: "keeps ?P (apply_all (apply_member env) (\<lambda>(_, x). x = None) members ?st)" by (rule keeps_apply_all)
  obtain st1 e1 v where v: "apply_all (apply_member env) (\<lambda>(_, x). x = None) members ?st w3 = ((st1, e1), v)" by (metis prod.exhaust)
  have "?P (wDB w3)" using applied(6) by (simp add: buried_for_cause_def)
  with keepsD [OF a, of w3] v have Pv: "?P (wDB v)" by simp
  have b: "keeps ?P (apply_all (apply_message env) (\<lambda>(_, x, _). x = None) messages st1)"
    by (rule keeps_apply_all) (rule keeps_buried_message)
  show ?thesis
  proof (cases e1)
    case (Some x)
    with applied(7) v Pv show ?thesis by (auto simp: apply_observations_def)
  next
    case None
    with applied(7) v have q: "apply_all (apply_message env) (\<lambda>(_, x, _). x = None) messages st1 v = ((st, e), w')"
      by (simp add: apply_observations_def)
    have "?P (wDB w')" using keepsD [OF b Pv] q by simp
    moreover have "xsRestored st + xsConfirmedDeleted st + xsAlreadyPresent st = length (pnMembers plan) + length (pnMessages plan)"
      if "e = None"
    proof -
      have "n + length members = length (pnMembers plan)" "k + length messages = n + length (pnMessages plan)" using M G by auto
      with apply_all_count [OF v [unfolded None]] apply_all_count [OF q [unfolded that]] show ?thesis by simp
    qed
    ultimately show ?thesis by simp
  qed
qed

section \<open>Instances\<close>

definition ada :: dmember where
  "ada = \<lparr>umGuildID = ''1'', umUser = Some \<lparr>uID = ''7'', uUsername = ''ada'', uGlobalName = [], uDiscriminator = [], uBot = False\<rparr>,
     umNick = [], umAvatar = [], umJoinedAt = [], umRolesJSON = ''[]'', umRaw = ''{}''\<rparr>"

definition one_guild :: dguild where
  "one_guild = \<lparr>dgID = ''1'', dgName = ''one'', dgIcon = [], dgUnavailable = False, dgChannels = [], dgThreads = [], dgRaw = ''{}''\<rparr>"

definition people_env :: env where
  "people_env = calm_env\<lparr>envMemberPage := (\<lambda>_ _ after. if after = [] then Inr [Some ada] else Inr []),
     envGuild := (\<lambda>_ _. Inr (Some one_guild)),
     envGuildMember := (\<lambda>_ _ u. if u = ''7'' then Inr (Some ada) else Inl (ErrREST 404 10007 ''unknown member''))\<rparr>"

definition guild_world :: world where
  "guild_world = \<lparr>wDB = empty_db\<lparr>dbGuilds := [(''1'', \<lparr>gdID = ''1'', gdName = ''one'', gdIcon = [], gdRawJSON = ''{}'', gdUpdatedAt = 1,
     gdDeletedAt = 0, gdDeletionSource = [], gdDeletionReason = []\<rparr>)]\<rparr>, wTick = 0\<rparr>"

definition sample_plan :: ReconcilePlan where
  "sample_plan = \<lparr>pnArchive = ''a'', pnMembers = [\<lparr>rmGuildID = ''1'', rmUserID = ''7''\<rparr>, \<lparr>rmGuildID = ''1'', rmUserID = ''8''\<rparr>], pnMessages = []\<rparr>"


lemma sample_ids: "parse_uint64 ''7'' = Some 7" "parse_uint64 ''8'' = Some 8" "parse_uint64 ''1'' = Some 1"
  by (simp_all add: parse_uint64_def is_digit_def digit_val_def dec_val_def)

lemma sample_texts: "show_nat 7 = ''7''" "show_nat 8 = ''8''" "show_nat 1 = ''1''"
  by code_simp+

lemmas sample_numbers = sample_ids sample_texts sample_ids [simplified] sample_texts [simplified]

lemma sample_enumeration: "GuildMemberEnumeration people_env ''1'' w = (Inr [Some ada], tick w)"
proof -
  have "envMemberPage people_env n ''1'' [] = Inr [Some ada]" for n by (simp add: people_env_def)
  moreover have "memberUserID (Some ada) = ''7''" by (simp add: memberUserID_def ada_def)
  ultimately show ?thesis unfolding GuildMemberEnumeration_def
    by (subst member_pages.simps) (simp add: Let_def lastMemberUserID_def first_nonempty_def sample_numbers)
qed

lemma sample_merge_call:
  "fst (doThen (annotate (\<lambda>e. ErrWrap ''merge guild members: '' e []) (merge_call people_env ''1'' [toMemberRecord ''1'' (Some ada)] 100))
     (doThen (annotate (\<lambda>e. ErrWrap ''resolve guild member refresh failure: '' e [])
                (ResolveFailureIdentity people_env (guild_members_ref ''1'')))
     (doThen (annotate (\<lambda>e. ErrWrap ''record guild member sync: '' e []) (record_refresh people_env ''1''))
        (value_call (1 :: nat)))) (guild_world\<lparr>wTick := 2\<rparr>)) = Inr 1"
  by code_simp

lemma sample_refresh: "fst (refreshGuildMembers people_env 0 ''1'' True guild_world) = Inr 1"
proof -
  have c: "convert_members people_env ''1'' [Some ada] [] (tick guild_world) = (Inr [toMemberRecord ''1'' (Some ada)], guild_world\<lparr>wTick := 2\<rparr>)"
    by (simp add: people_env_def calm_env_def toMemberRecord_def ada_def tick_def guild_world_def)
  have "envNow people_env (wTick guild_world) = 100" by (simp add: people_env_def calm_env_def guild_world_def)
  with c sample_merge_call have "fst (run_refresh people_env ''1'' guild_world) = Inr 1"
    by (simp add: run_refresh_def Let_def bindCall_def wrap_error_def sample_enumeration)
  then show ?thesis by (auto simp: refreshGuildMembers_def split: prod.split sum.split)
qed

theorem member_receipt_is_earned_witness:
  "\<exists>ms w0 w1. GuildMemberEnumeration people_env ''1'' w0 = (Inr ms, w1) \<and>
     all_stored ''1'' ms (wDB (snd (refreshGuildMembers people_env 0 ''1'' True guild_world)))"
  using member_receipt_is_earned [OF prod.collapse [symmetric], of people_env 0 "''1''" True guild_world] sample_refresh by auto

lemma sample_checks: "reconcile_checks people_env id sample_plan guild_world = (None, guild_world\<lparr>wTick := 3\<rparr>)"
  by (simp add: reconcile_checks_def sample_plan_def validID_def sample_numbers require_row_def doThen_def withResult_def
      andThen_def db_query_def people_env_def calm_env_def guild_world_def live_guild_def tick_def plan_guilds_def plan_channels_def
      check_guild_def one_guild_def)

lemma sample_observations:
  "case observe_all (observe_member people_env) (pnMembers sample_plan) 0 [] (guild_world\<lparr>wTick := 3\<rparr>) of
     ((n, Inl e), w2) \<Rightarrow> False
   | ((n, Inr members), w2) \<Rightarrow>
       map fst (dbMembers (wDB (snd (apply_observations people_env members [] \<lparr>xsRestored = 0, xsConfirmedDeleted = 0, xsAlreadyPresent = n\<rparr> w2))))
         = [(''1'', ''7''), (''1'', ''8'')]"
  by code_simp

lemma sample_reconcile:
  "map fst (dbMembers (wDB (snd (ReconcileMissing people_env id sample_plan guild_world)))) = [(''1'', ''7''), (''1'', ''8'')]"
proof -
  have ctx: "envCtx people_env t = None" for t by (simp add: people_env_def calm_env_def)
  have p: "pnArchive sample_plan = ''a''" "pnMessages sample_plan = []" "length (pnMembers sample_plan) = 2" by (simp_all add: sample_plan_def)
  show ?thesis using sample_observations
    by (auto simp: ReconcileMissing_def Let_def sample_checks p ctx split: prod.splits sum.splits)
qed

theorem reconcile_waits_for_every_answer_witness:
  "member_answered people_env (wDB guild_world) \<lparr>rmGuildID = ''1'', rmUserID = ''7''\<rparr> \<and>
   member_answered people_env (wDB guild_world) \<lparr>rmGuildID = ''1'', rmUserID = ''8''\<rparr>"
proof -
  obtain st e w' where r: "ReconcileMissing people_env id sample_plan guild_world = ((st, e), w')" by (metis prod.exhaust)
  have "dbMembers (wDB guild_world) = []" by (simp add: guild_world_def empty_db_def)
  with sample_reconcile r have "wDB w' \<noteq> wDB guild_world" by auto
  with reconcile_waits_for_every_answer [OF r] show ?thesis by (simp add: sample_plan_def)
qed

theorem reconcile_buries_only_the_confirmed_witness:
  "buried_for_cause people_env (wDB guild_world) (wDB (snd (ReconcileMissing people_env id sample_plan guild_world)))"
proof -
  obtain st e w' where r: "ReconcileMissing people_env id sample_plan guild_world = ((st, e), w')" by (metis prod.exhaust)
  from reconcile_buries_only_the_confirmed [OF r] r show ?thesis by simp
qed

end
