(* ===== verification/Spec2Isabelle.thy ===== *)
theory Spec2Isabelle
  imports Exclusions SnapshotFilter Preflight SyncErrors Scope FailureLedger WorkerPool FallbackJournal MemberSync
begin

text \<open>
  Verification of discrawl (Go, under src/internal), a local archive of Discord guilds.

  \<^bold>\<open>The program.\<close> discrawl keeps a SQLite archive of the channels and messages a bot can read. Three
  writers fill it. The \<^emph>\<open>crawl\<close> (internal/syncer) lists the channels of a guild, walks the history of
  each one page by page in both directions, and leaves cursors in the table \<open>sync_state\<close> so that a
  later run goes on where it stopped. The \<^emph>\<open>gateway tail\<close> stores events as they arrive and records
  those it could not store, to be replayed. The \<^emph>\<open>snapshot import\<close> merges a published archive. All
  write through internal/store, which keeps newer state, the search index, the collection scope of
  each channel and a ledger of failures. The \<^emph>\<open>publisher\<close> (internal/share) exports the part of the
  archive a filter admits.

  \<^bold>\<open>Execution model\<close> (theory Database). The archive is a record \<open>db\<close> with one field per modelled table,
  an association list from key to row. A \<open>world\<close> is an archive and a step counter. An operation is a
  function from a world to a result and a world: \<open>action\<close> for one that returns an error,
  \<open>'a call\<close> for one that returns a value or an error. What the program does not control is the record
  \<open>env\<close>, indexed by the step: the clock, whether a statement fails and whether it took effect first
  (a cancellation reported after a durable commit), whether the context is done, and every answer of
  Discord. The theorems hold for every environment; one that needs the server to page its history
  honestly says so (\<open>serves_history\<close>, \<open>serves_within\<close>), and a reference server in HistoryEffects meets
  these laws for every stock of messages. A transaction (\<open>with_tx\<close>) runs on a copy that is kept only if
  the commit takes effect. Code outside the repository's sources is a field of \<open>env\<close> or a parameter:
  text extraction from attachments, JSON and time formats, and the canonical forms the snapshot
  comparison uses.

  \<^bold>\<open>Theories and the code they model\<close>, in dependency order.
  \<^item> Prelude, GoErrors, Json, Discord: Go strings, errors and their wrapping, JSON values, and the
    Discord values the sources read.
  \<^item> Snowflake: identifiers as decimal texts at 64 bits (\<open>maxSnowflake\<close> of records.go and its relatives).
  \<^item> Database: tables, environment, calls, transactions; \<open>keeps\<close> (whatever fails) and \<open>settles\<close> (on
    success) carry invariants of the archive through compositions of calls.
  \<^item> SyncState: the cursor scopes and their statements (store/write.go, store/query.go,
    store/unavailable.go). The newest-message cursor never regresses; an unavailable marker expires.
  \<^item> Channels: the channel catalog (channel_catalog.go, records.go). Target selection and the round trip
    between live channels and stored rows.
  \<^item> Exclusions: channel_exclusions.go and collection_scope.go. The ancestor walks agree with their meaning
    over the whole ancestry; merging policies never loosens them.
  \<^item> Scope: persisted scope (store/integrity.go). The write guard implies admission; a deleted channel
    blocks its descendants; a refresh persists the decisions.
  \<^item> SyncErrors: errors.go. Which failures the crawl skips, and that a skip leaves evidence.
  \<^item> FailureLedger: store/failures.go. The ledger forgets nothing but by a resolution; a resolution that
    names a generation does not close a failure recorded since.
  \<^item> ChannelStore: the channel writer (store/write.go, store/entity_state.go). Cached metadata is weak
    evidence; a channel that moved loses its scope decision.
  \<^item> MessageStore and MessageEffects: the message writer, and what it does. Pages are all or nothing, newer
    state survives a late observation, the search index mirrors the live messages, a deletion keeps
    the content, and row numbers of the index stay in SQLite's range.
  \<^item> Paging, HistorySync, HistoryCoverage and HistoryEffects: the history crawl of one channel
    (message_sync.go, history_window.go, enrichment.go). The page loops, their coverage, and the
    properties: a full crawl is resumable after any interruption, verification never locks in a partial
    history and is retried when it fails, and every path of a channel returns.
  \<^item> Availability: failures.go and channel_availability.go. A channel counts as gone only on a corroborated
    answer; a gateway failure is recorded in the ledger or in the fallback journal, or the error is returned.
  \<^item> WorkerPool: the crawl over channels, serial and concurrent, and its progress report. The pool is a
    step relation over feeder, workers, results channel and collector. Every error-free run is a serial
    run in some order; no failure is swallowed; the pool cannot get stuck and every run is bounded.
  \<^item> TailGateway: tail.go, tail_metadata.go, tail_replay.go. Event handlers with their cached catalog, and
    the replay of failed events. A replay closes a failure only
    for cause and counts every candidate it took; an admitted message is archived.
  \<^item> MemberStore: the guild and member writers (store/write.go, store/member_refresh.go). A merge of an
    enumeration keeps newer and unlisted rows and stores every listed member; the member index mirrors
    the members while their hashes differ.
  \<^item> MemberSync: the paged enumeration (discord/client.go), the member refresh (syncer.go), guild and
    member gateway events, and reconcile.go. The enumeration ends for every server, the receipt of a
    refresh is earned, and a reconciliation writes nothing before every lookup is answered and
    tombstones only what was confirmed gone.
  \<^item> JsonText: encoding/json on texts, as the journal uses it: escaping with the replacement of invalid
    UTF-8, and a reader that gives a written text back.
  \<^item> FallbackRecord, FallbackFiles and FallbackJournal: the fallback journal of gateway failures
    (store/tail_failure_fallback.go with its Linux and Unix parts). FallbackRecord is the record and its
    canonical JSON. FallbackFiles is the file system with faults, other processes and crashes (what is
    visible and what is on stable storage), and the persist and import of the code on it: the journal
    stays well-formed and a persisted failure survives. FallbackJournal interleaves writers, importers
    and crashes in a step relation: no acknowledged failure is lost and none is counted twice; an
    accepted failure reaches the ledger; and with the import in place, only the crawl moves the history
    frontier.
  \<^item> SnapshotFilter and Preflight: share/filter.go, share/preflight.go, share/publication_privacy.go. A
    public-only export holds only public channels, members are published only as authors or mentions
    that are visible, local rows stay local, and the preflight counts what the export writes.

  \<^bold>\<open>Interfaces.\<close> The locales state what one part relies on in another. \<open>page_walk\<close> (Paging) is the
  contract of a page loop, a step with an invariant and an outcome, and \<open>bounded_page_walk\<close> extends it by
  a measure that every page decreases; they are interpreted on the backward, forward and bootstrap loops.
  \<open>message_sink\<close> (MessageEffects) is what the page writer promises to the crawl, and \<open>pending_ledger\<close>
  (FailureLedger) what the ledger promises to those who record and resolve failures.

  \<^bold>\<open>Fuel.\<close> A server can answer with pages for ever, so the page loops take fuel, one unit per page, and
  return \<open>None\<close> when it runs out. \<open>channel_crawl_returns\<close> shows how much is enough: when all pages come from
  a finite stock of messages, one page per hundred messages of the stock and one more, since a page that
  does not end the loop is full. The member enumeration needs no fuel: it refuses a page whose ids do not
  ascend, so the distance of the cursor from 2 to the 64 is a measure. The reader of JSON takes fuel for
  nesting; \<open>read_value_enough\<close> shows that twice the length of the text and one more suffices. Ancestor
  walks stop in Go at a repeated channel, and the fetch of unknown ancestors after a fixed number of
  parents; the models recurse the same way.

  \<^bold>\<open>Abstractions.\<close> A timestamp column holds the instant its text denotes: the fixed-width UTC layout of the
  store orders texts as instants. A Go map whose order matters is a list in some order, and the theorems
  hold for each. In the worker pool the crawl of one channel is one step: the crawls of different
  channels meet only in the archive, whose faults and clock are arbitrary at every call. The journal's
  theorems about crashes assume that a file or directory that was synced keeps its content, that random
  names do not repeat, and that the system reports an existing name only when it exists.

  \<^bold>\<open>Not modelled.\<close> Snapshot export, import and merge beyond the filter (file formats, shards, media,
  embeddings: I/O around the rows the filter admits); the orchestration of a whole sync over guilds and
  the REST requests that fill the channel catalog; role events, which edit a raw guild payload; the path
  of the fallback journal, resolved from the database URL, and its variants for other platforms; the
  gateway transport and timers (network); full-text query and ranking (SQLite's FTS5); generated SQL
  bindings, whose statements are modelled where the store calls them; the REST client (network and rate
  limits); the desktop cache reader (binary formats of another program); embeddings, reports, metrics,
  media cache, configuration and the command line (glue and presentation).
\<close>

end
